(* ===== verification/Prelude.thy ===== *)
theory Prelude
  imports Main "HOL-Library.Word" "HOL-Library.AList"
begin

text \<open>
  What every component of the development shares: names for the machine
  integers of the Rust code, the result type of fallible operations, the model
  of \<open>HashMap\<close> as an association list, and the lemmas on lists, results
  and words that the component proofs use.
\<close>

section \<open>Machine integers\<close>

text \<open>
  \<open>u8\<close> to \<open>u64\<close> are words and keep their wrap-around. A
  \<open>usize\<close> is 64 bits wide on the supported targets: it is a \<^typ>\<open>nat\<close>,
  and where the code computes with it the sum or product is reduced modulo
  \<open>2 ^ 64\<close> by the two operations below. Overflow wraps, as it does in
  the release profile of the workspace, which sets no overflow checks.
\<close>

type_synonym u8 = "8 word"
type_synonym u16 = "16 word"
type_synonym u32 = "32 word"
type_synonym u64 = "64 word"
type_synonym usize = nat

definition uadd :: "usize \<Rightarrow> usize \<Rightarrow> usize" where
  "uadd a b = (a + b) mod 2 ^ 64"

definition umul :: "usize \<Rightarrow> usize \<Rightarrow> usize" where
  "umul a b = (a * b) mod 2 ^ 64"

lemma uadd_exact: "a + b < 2 ^ 64 \<Longrightarrow> uadd a b = a + b"
  by (simp add: uadd_def)

lemma umul_exact: "a * b < 2 ^ 64 \<Longrightarrow> umul a b = a * b"
  by (simp add: umul_def)

lemma uadd_bound: "uadd a b < 2 ^ 64"
  by (simp add: uadd_def)

lemma umul_bound: "umul a b < 2 ^ 64"
  by (simp add: umul_def)

lemma u8_bound: "unat (w :: u8) < 256"
  using unsigned_less [of w, where ?'a = nat] by simp

lemma u32_bound: "unat (w :: u32) < 2 ^ 32"
  using unsigned_less [of w, where ?'a = nat] by simp

lemma u64_bound: "unat (w :: u64) < 2 ^ 64"
  using unsigned_less [of w, where ?'a = nat] by simp

lemma u32_of_nat: "n < 2 ^ 32 \<Longrightarrow> unat (word_of_nat n :: u32) = n"
  by (simp add: unat_of_nat)

lemma u64_of_nat: "n < 2 ^ 64 \<Longrightarrow> unat (word_of_nat n :: u64) = n"
  by (simp add: unat_of_nat)

lemma unat_u32_to_u64: "unat (ucast (w :: u32) :: u64) = unat w"
  using u32_bound [of w] by (simp add: unsigned_ucast_eq take_bit_nat_eq_self)

lemma unat_u64_to_u32: "unat (ucast (w :: u64) :: u32) = unat w mod 2 ^ 32"
  by (simp add: unsigned_ucast_eq take_bit_eq_mod)

section \<open>Results\<close>

text \<open>
  A fallible operation returns a sum. On the left stands why it did not return
  a value: an error value of the program (\<open>Error\<close>), a panic of the
  language (\<open>Panic\<close>: an index out of range, a division by zero) or
  undefined behaviour (\<open>UB\<close>: a raw pointer used outside the mapping).
  \<open>rbind\<close> is the \<open>?\<close> operator.
\<close>

datatype 'e fault = Error 'e | Panic | UB

named_theorems res_simps \<open>equations of the result combinators\<close>

definition rbind :: "'e + 'a \<Rightarrow> ('a \<Rightarrow> 'e + 'b) \<Rightarrow> 'e + 'b" where
  "rbind m f = (case m of Inl e \<Rightarrow> Inl e | Inr x \<Rightarrow> f x)"

lemma rbind_Inl [simp, res_simps]: "rbind (Inl e) f = Inl e"
  by (simp add: rbind_def)

lemma rbind_Inr [simp, res_simps]: "rbind (Inr x) f = f x"
  by (simp add: rbind_def)

lemma rbind_right [simp]: "rbind m Inr = m"
  by (cases m) simp_all

lemma rbind_assoc: "rbind (rbind m f) g = rbind m (\<lambda>x. rbind (f x) g)"
  by (cases m) simp_all

lemma rbind_eq_Inr [res_simps]: "rbind m f = Inr y \<longleftrightarrow> (\<exists>x. m = Inr x \<and> f x = Inr y)"
  by (cases m) auto

lemma rbind_eq_Inl [res_simps]:
  "rbind m f = Inl e \<longleftrightarrow> m = Inl e \<or> (\<exists>x. m = Inr x \<and> f x = Inl e)"
  by (cases m) auto

lemma rbind_cong [fundef_cong]:
  "m = m' \<Longrightarrow> (\<And>x. m' = Inr x \<Longrightarrow> f x = g x) \<Longrightarrow> rbind m f = rbind m' g"
  by (cases m') auto

text \<open>\<open>for x in xs\<close> over a state, left at the first fault.\<close>

fun fold_res :: "('x \<Rightarrow> 's \<Rightarrow> 'e + 's) \<Rightarrow> 'x list \<Rightarrow> 's \<Rightarrow> 'e + 's" where
  "fold_res f [] s = Inr s"
| "fold_res f (x # xs) s = rbind (f x s) (fold_res f xs)"

lemma fold_res_append:
  "fold_res f (xs @ ys) s = rbind (fold_res f xs s) (fold_res f ys)"
  by (induction xs arbitrary: s) (auto simp: rbind_def split: sum.splits)

lemma fold_res_single: "fold_res f [x] = f x"
  by (rule ext) (simp add: rbind_def split: sum.splits)

lemma le_last_strict: "sorted_wrt (<) xs \<Longrightarrow> x \<in> set xs \<Longrightarrow> x \<le> last (xs :: 'a :: linorder list)"
  by (induction xs) (auto intro: less_imp_le)

lemma fold_res_cong_inv:
  assumes "\<And>x s. x \<in> set xs \<Longrightarrow> P s \<Longrightarrow> f x s = Inr (g x s) \<and> P (g x s)" and "P s"
  shows "fold_res f xs s = Inr (fold g xs s) \<and> P (fold g xs s)"
  using assms by (induction xs arbitrary: s) auto

lemma fold_res_invariant:
  assumes "\<And>x s s'. x \<in> set xs \<Longrightarrow> P s \<Longrightarrow> f x s = Inr s' \<Longrightarrow> P s'"
    and "P s" and "fold_res f xs s = Inr s'"
  shows "P s'"
  using assms by (induction xs arbitrary: s) (auto simp: rbind_eq_Inr)

lemma fold_res_cong_on:
  assumes "\<And>x s. x \<in> set xs \<Longrightarrow> P s \<Longrightarrow> f x s = g x s"
    and "\<And>x s s'. x \<in> set xs \<Longrightarrow> P s \<Longrightarrow> g x s = Inr s' \<Longrightarrow> P s'" and "P s"
  shows "fold_res f xs s = fold_res g xs s"
  using assms
proof (induction xs arbitrary: s)
  case (Cons x xs)
  show ?case
  proof (cases "g x s")
    case (Inr s')
    then have "P s'" using Cons.prems(2) [of x s s'] Cons.prems(3) by simp
    moreover have "fold_res f xs s' = fold_res g xs s'"
    proof (rule Cons.IH)
      show "f y t = g y t" if "y \<in> set xs" "P t" for y t
        using Cons.prems(1) [of y t] that by simp
      show "P t'" if "y \<in> set xs" "P t" "g y t = Inr t'" for y t t'
        using Cons.prems(2) [of y t t'] that by simp
    qed fact
    ultimately show ?thesis using Cons.prems(1) [of x s] Cons.prems(3) Inr by simp
  qed (use Cons.prems in simp)
qed simp

text \<open>
  The same loop where the caller sees the state that a fault leaves behind: the steps
  before the fault have taken effect.
\<close>

fun fold_st :: "('x \<Rightarrow> 's \<Rightarrow> 'e + 's) \<Rightarrow> 'x list \<Rightarrow> 's \<Rightarrow> ('e + unit) \<times> 's" where
  "fold_st f [] s = (Inr (), s)"
| "fold_st f (x # xs) s = (case f x s of Inl e \<Rightarrow> (Inl e, s) | Inr s' \<Rightarrow> fold_st f xs s')"

lemma fold_st_ok: "fold_res f xs s = Inr s' \<Longrightarrow> fold_st f xs s = (Inr (), s')"
  by (induction xs arbitrary: s) (auto simp: rbind_eq_Inr)

lemma fold_st_fold_res: "fold_st f xs s = (Inr (), s') \<longleftrightarrow> fold_res f xs s = Inr s'"
  by (induction xs arbitrary: s) (auto simp: rbind_def split: sum.splits)

text \<open>The same when a step that faults leaves its own changes behind.\<close>

fun run_all :: "('x \<Rightarrow> 's \<Rightarrow> ('e + unit) \<times> 's) \<Rightarrow> 'x list \<Rightarrow> 's \<Rightarrow> ('e + unit) \<times> 's" where
  "run_all f [] s = (Inr (), s)"
| "run_all f (x # xs) s = (case f x s of (Inl e, s') \<Rightarrow> (Inl e, s') | (Inr _, s') \<Rightarrow> run_all f xs s')"

text \<open>\<open>collect\<close> into a vector of results, left at the first fault.\<close>

fun map_res :: "('x \<Rightarrow> 'e + 'y) \<Rightarrow> 'x list \<Rightarrow> 'e + 'y list" where
  "map_res f [] = Inr []"
| "map_res f (x # xs) = rbind (f x) (\<lambda>y. rbind (map_res f xs) (\<lambda>ys. Inr (y # ys)))"

lemma map_res_total:
  "(\<And>x. x \<in> set xs \<Longrightarrow> f x = Inr (g x)) \<Longrightarrow> map_res f xs = Inr (map g xs)"
  by (induction xs) auto

lemma map_res_length: "map_res f xs = Inr ys \<Longrightarrow> length ys = length xs"
  by (induction xs arbitrary: ys) (auto simp: rbind_eq_Inr)

text \<open>
  \<open>for (i, x) in xs.iter().enumerate()\<close> collecting a vector while changing a state that
  stays changed when an element fails.
\<close>

fun mapi_st :: "(nat \<Rightarrow> 'x \<Rightarrow> 's \<Rightarrow> ('e + 'y) \<times> 's) \<Rightarrow> nat \<Rightarrow> 'x list \<Rightarrow> 's \<Rightarrow> ('e + 'y list) \<times> 's" where
  "mapi_st f i [] s = (Inr [], s)"
| "mapi_st f i (x # xs) s =
     (case f i x s of
        (Inl e, s) \<Rightarrow> (Inl e, s)
      | (Inr y, s) \<Rightarrow>
          (case mapi_st f (Suc i) xs s of (Inl e, s) \<Rightarrow> (Inl e, s) | (Inr ys, s) \<Rightarrow> (Inr (y # ys), s)))"

lemma mapi_st_nth:
  "mapi_st f i xs s = (Inr ys, s') \<Longrightarrow>
     length ys = length xs \<and> (\<forall>k < length xs. \<exists>s1 s2. f (i + k) (xs ! k) s1 = (Inr (ys ! k), s2))"
proof (induction f i xs s arbitrary: ys s' rule: mapi_st.induct)
  case (2 f i x xs s)
  from "2.prems" obtain y s1 zs where y: "f i x s = (Inr y, s1)" "mapi_st f (Suc i) xs s1 = (Inr zs, s')"
      "ys = y # zs"
    by (auto split: prod.splits sum.splits)
  then have IH: "length zs = length xs" "\<forall>k < length xs. \<exists>s1 s2. f (Suc i + k) (xs ! k) s1 = (Inr (zs ! k), s2)"
    using "2.IH" [OF y(1) [symmetric] refl] by auto
  have "\<exists>s1 s2. f (i + k) ((x # xs) ! k) s1 = (Inr ((y # zs) ! k), s2)" if "k < length (x # xs)" for k
    using that IH(2) y(1) by (cases k) auto
  then show ?case using IH(1) y(3) by simp
qed simp

lemma mapi_st_state:
  assumes "mapi_st f i xs s = (r, s')" and "\<And>i x s y s'. f i x s = (y, s') \<Longrightarrow> g s' = g s"
  shows "g s' = g s"
  using assms(1)
proof (induction xs arbitrary: i s r)
  case (Cons x xs)
  obtain y s1 where y: "f i x s = (y, s1)" by force
  then show ?case
    using Cons assms(2) [OF y] by (cases y) (auto split: prod.splits sum.splits)
qed simp

lemma mapi_st_total:
  assumes "\<And>k s. k < length xs \<Longrightarrow> \<exists>y s'. f (i + k) (xs ! k) s = (Inr y, s')"
  shows "\<exists>ys s'. mapi_st f i xs s = (Inr ys, s')"
  using assms
proof (induction xs arbitrary: i s)
  case (Cons x xs)
  obtain y s1 where y: "f i x s = (Inr y, s1)" using Cons.prems [of 0 s] by auto
  moreover have "\<exists>ys s'. mapi_st f (Suc i) xs s1 = (Inr ys, s')"
    using Cons.prems [of "Suc _"] by (intro Cons.IH) fastforce
  ultimately show ?case by auto
qed simp

text \<open>\<open>xs[i]\<close>, which panics out of range, and mapping an error of another type.\<close>

definition nth_res :: "'a list \<Rightarrow> nat \<Rightarrow> 'e fault + 'a" where
  "nth_res xs i = (if i < length xs then Inr (xs ! i) else Inl Panic)"

lemma nth_res_ok [simp]: "i < length xs \<Longrightarrow> nth_res xs i = Inr (xs ! i)"
  by (simp add: nth_res_def)

definition map_err :: "('e \<Rightarrow> 'f) \<Rightarrow> 'e + 'a \<Rightarrow> 'f + 'a" where
  "map_err f r = (case r of Inl e \<Rightarrow> Inl (f e) | Inr x \<Rightarrow> Inr x)"

lemma map_err_simps [simp]: "map_err f (Inl e) = Inl (f e)" "map_err f (Inr x) = Inr x"
  by (simp_all add: map_err_def)

section \<open>Hash maps\<close>

text \<open>
  A \<open>HashMap\<close> is an association list with distinct keys. Lookups do not
  depend on the order of the list. Iteration over a \<open>HashMap\<close> visits every
  key once in an order the standard library leaves open: the operations that
  iterate take a function that reorders the keys, and \<open>iteration_order\<close>
  states what the documentation promises of it.
\<close>

type_synonym ('k, 'v) hash_map = "('k \<times> 'v) list"

definition hm_get :: "('k, 'v) hash_map \<Rightarrow> 'k \<Rightarrow> 'v option" where
  "hm_get m k = map_of m k"

definition hm_insert :: "'k \<Rightarrow> 'v \<Rightarrow> ('k, 'v) hash_map \<Rightarrow> ('k, 'v) hash_map" where
  "hm_insert k v m = AList.update k v m"

definition hm_keys :: "('k, 'v) hash_map \<Rightarrow> 'k list" where
  "hm_keys m = map fst m"

definition hm_wf :: "('k, 'v) hash_map \<Rightarrow> bool" where
  "hm_wf m = distinct (map fst m)"

definition iteration_order :: "('k list \<Rightarrow> 'k list) \<Rightarrow> bool" where
  "iteration_order ord \<longleftrightarrow> (\<forall>ks. distinct ks \<longrightarrow> distinct (ord ks) \<and> set (ord ks) = set ks)"

definition hm_values :: "('k list \<Rightarrow> 'k list) \<Rightarrow> ('k, 'v) hash_map \<Rightarrow> 'v list" where
  "hm_values ord m = List.map_filter (hm_get m) (ord (hm_keys m))"

lemma hm_values_set:
  assumes "hm_wf m" and "iteration_order ord"
  shows "set (hm_values ord m) = ran (hm_get m)"
proof -
  have "hm_get m = map_of m" by (simp add: fun_eq_iff hm_get_def)
  then have "set (ord (hm_keys m)) = dom (hm_get m)"
    using assms by (simp add: iteration_order_def hm_wf_def hm_keys_def dom_map_of_conv_image_fst)
  then show ?thesis
    by (force simp: hm_values_def List.map_filter_def ran_def dom_def)
qed

text \<open>The interface of a map with lookup and insertion, and what follows from it.\<close>

locale insert_map =
  fixes empty :: 'm
    and get :: "'m \<Rightarrow> 'k \<Rightarrow> 'v option"
    and put :: "'k \<Rightarrow> 'v \<Rightarrow> 'm \<Rightarrow> 'm"
    and inv :: "'m \<Rightarrow> bool"
  assumes get_empty: "get empty k = None"
    and get_put: "get (put k v m) k' = (if k' = k then Some v else get m k')"
    and inv_empty: "inv empty"
    and inv_put: "inv m \<Longrightarrow> inv (put k v m)"
begin

lemma get_put_same: "get (put k v m) k = Some v"
  by (simp add: get_put)

lemma get_put_other: "k' \<noteq> k \<Longrightarrow> get (put k v m) k' = get m k'"
  by (simp add: get_put)

lemma get_fold_put:
  "get (fold (\<lambda>(k, v). put k v) kvs m) k
     = (case map_of (rev kvs) k of None \<Rightarrow> get m k | Some v \<Rightarrow> Some v)"
  by (induction kvs arbitrary: m) (auto simp: get_put map_add_def split: option.splits)

lemma inv_fold_put: "inv m \<Longrightarrow> inv (fold (\<lambda>(k, v). put k v) kvs m)"
  by (induction kvs arbitrary: m) (auto simp: inv_put)

end

interpretation hm: insert_map "[] :: ('k, 'v) hash_map" hm_get hm_insert hm_wf
  by unfold_locales
    (auto simp: hm_get_def hm_insert_def hm_wf_def update_conv' distinct_update)

lemma hm_insert_keys: "set (hm_keys (hm_insert k v m)) = insert k (set (hm_keys m))"
  by (auto simp: hm_keys_def hm_insert_def dom_update simp flip: dom_map_of_conv_image_fst
      simp: update_conv')

section \<open>Ordered maps\<close>

text \<open>A \<open>BTreeMap\<close> is an association list in increasing order of its keys.\<close>

fun bt_insert :: "'k :: linorder \<Rightarrow> 'v \<Rightarrow> ('k \<times> 'v) list \<Rightarrow> ('k \<times> 'v) list" where
  "bt_insert k v [] = [(k, v)]"
| "bt_insert k v ((k', v') # m) =
     (if k < k' then (k, v) # (k', v') # m
      else if k = k' then (k, v) # m
      else (k', v') # bt_insert k v m)"

definition bt_wf :: "('k :: linorder \<times> 'v) list \<Rightarrow> bool" where
  "bt_wf m = sorted_wrt (<) (map fst m)"

lemma bt_insert_keys: "set (map fst (bt_insert k v m)) = insert k (set (map fst m))"
  by (induction k v m rule: bt_insert.induct) auto

lemma bt_get_insert: "map_of (bt_insert k v m) k' = (if k' = k then Some v else map_of m k')"
  by (induction k v m rule: bt_insert.induct) auto

lemma bt_insert_wf: "bt_wf m \<Longrightarrow> bt_wf (bt_insert k v m)"
  unfolding bt_wf_def
proof (induction k v m rule: bt_insert.induct)
  case (2 k v k' v' m)
  then show ?case
    using bt_insert_keys [of k v m] by (auto simp del: set_map simp flip: list.set_map)
qed simp

interpretation bt: insert_map "[] :: ('k :: linorder \<times> 'v) list" map_of bt_insert bt_wf
  by unfold_locales (simp_all add: bt_get_insert bt_insert_wf, simp add: bt_wf_def)

lemma bt_wf_distinct: "bt_wf m \<Longrightarrow> distinct (map fst m)"
  by (simp add: bt_wf_def strict_sorted_iff)

lemma bt_mem_iff: "bt_wf m \<Longrightarrow> (k, v) \<in> set m \<longleftrightarrow> map_of m k = Some v"
  using bt_wf_distinct by fastforce

end
