(* ===== verification/Bytes.thy ===== *)
theory Bytes
  imports Prelude
begin

text \<open>
  Raw memory, as the unsafe code of the slab sees it: a list of bytes, read and
  written at a byte offset. An access that leaves the list is undefined
  behaviour, not a panic. Integers are stored in native byte order, which is
  little-endian on the supported targets. The interface \<open>fixed_codec\<close> collects
  what the slab needs of a fixed-width encoding; the encodings of \<^typ>\<open>u32\<close> and
  \<^typ>\<open>u64\<close> satisfy it.
\<close>

section \<open>Little-endian integers\<close>

fun le_bytes :: "nat \<Rightarrow> nat \<Rightarrow> u8 list" where
  "le_bytes 0 n = []"
| "le_bytes (Suc k) n = word_of_nat (n mod 256) # le_bytes k (n div 256)"

fun le_val :: "u8 list \<Rightarrow> nat" where
  "le_val [] = 0"
| "le_val (b # bs) = unat b + 256 * le_val bs"

lemma length_le_bytes [simp]: "length (le_bytes k n) = k"
  by (induction k arbitrary: n) auto

lemma unat_byte: "unat (word_of_nat (n mod 256) :: u8) = n mod 256"
  by (simp add: unat_of_nat)

lemma le_val_le_bytes: "le_val (le_bytes k n) = n mod 256 ^ k"
proof (induction k arbitrary: n)
  case (Suc k)
  have "le_val (le_bytes (Suc k) n) = n mod 256 + 256 * ((n div 256) mod 256 ^ k)"
    by (simp add: unat_byte Suc)
  also have "\<dots> = n mod (256 * 256 ^ k)"
    by (simp add: mod_mult2_eq)
  finally show ?case by simp
qed simp

lemma le_val_bound: "le_val bs < 256 ^ length bs"
proof (induction bs)
  case (Cons b bs)
  have "unat b < 256"
    by (rule u8_bound)
  then have "unat b + 256 * le_val bs < 256 * (le_val bs + 1)" by simp
  also have "\<dots> \<le> 256 * 256 ^ length bs"
    using Cons by (intro mult_le_mono2) simp
  finally show ?case by simp
qed simp

lemma le_bytes_le_val: "length bs = k \<Longrightarrow> le_bytes k (le_val bs) = bs"
proof (induction bs arbitrary: k)
  case (Cons b bs)
  have "unat b < 256"
    by (rule u8_bound)
  then show ?case using Cons by auto
qed simp

definition enc32 :: "u32 \<Rightarrow> u8 list" where
  "enc32 w = le_bytes 4 (unat w)"

definition dec32 :: "u8 list \<Rightarrow> u32" where
  "dec32 bs = word_of_nat (le_val bs)"

definition enc64 :: "u64 \<Rightarrow> u8 list" where
  "enc64 w = le_bytes 8 (unat w)"

definition dec64 :: "u8 list \<Rightarrow> u64" where
  "dec64 bs = word_of_nat (le_val bs)"

section \<open>Memory\<close>

type_synonym memory = "u8 list"

definition get_bytes :: "memory \<Rightarrow> nat \<Rightarrow> nat \<Rightarrow> 'e fault + u8 list" where
  "get_bytes m off len = (if off + len \<le> length m then Inr (take len (drop off m)) else Inl UB)"

definition put_bytes :: "memory \<Rightarrow> nat \<Rightarrow> u8 list \<Rightarrow> 'e fault + memory" where
  "put_bytes m off bs =
     (if off + length bs \<le> length m
      then Inr (take off m @ bs @ drop (off + length bs) m) else Inl UB)"

text \<open>The bytes a read returns, for reasoning about memories of a known size.\<close>

definition peek :: "memory \<Rightarrow> nat \<Rightarrow> nat \<Rightarrow> u8 list" where
  "peek m off len = take len (drop off m)"

definition poke :: "memory \<Rightarrow> nat \<Rightarrow> u8 list \<Rightarrow> memory" where
  "poke m off bs = take off m @ bs @ drop (off + length bs) m"

lemma get_bytes_peek: "off + len \<le> length m \<Longrightarrow> get_bytes m off len = Inr (peek m off len)"
  by (simp add: get_bytes_def peek_def)

lemma put_bytes_poke:
  "off + length bs \<le> length m \<Longrightarrow> put_bytes m off bs = Inr (poke m off bs)"
  by (simp add: put_bytes_def poke_def)

lemma put_bytes_UB: "length m < off + length bs \<Longrightarrow> put_bytes m off bs = Inl UB"
  by (simp add: put_bytes_def)

lemma get_bytes_UB: "length m < off + len \<Longrightarrow> get_bytes m off len = Inl UB"
  by (simp add: get_bytes_def)

lemma length_poke: "off + length bs \<le> length m \<Longrightarrow> length (poke m off bs) = length m"
  by (simp add: poke_def)

lemma length_peek: "off + len \<le> length m \<Longrightarrow> length (peek m off len) = len"
  by (simp add: peek_def)

lemma peek_poke_same:
  "off + length bs \<le> length m \<Longrightarrow> len = length bs \<Longrightarrow> peek (poke m off bs) off len = bs"
  by (simp add: peek_def poke_def)

lemma peek_poke_below:
  assumes "off + length bs \<le> length m" and "o' + len \<le> off"
  shows "peek (poke m off bs) o' len = peek m o' len"
proof -
  have "o' \<le> length (take off m)" and "len \<le> length (drop o' (take off m))"
    using assms by auto
  then have "peek (poke m off bs) o' len = take len (drop o' (take off m))"
    by (simp add: peek_def poke_def)
  also have "\<dots> = take len (take (off - o') (drop o' m))"
    by (simp add: drop_take)
  also have "\<dots> = peek m o' len"
    using assms(2) by (simp add: peek_def min_def)
  finally show ?thesis .
qed

lemma peek_poke_above:
  assumes "off + length bs \<le> length m" and "off + length bs \<le> o'"
  shows "peek (poke m off bs) o' len = peek m o' len"
proof -
  have "drop o' (take off m @ bs @ drop (off + length bs) m) = drop o' m"
    using assms by (simp add: min_def)
  then show ?thesis by (simp add: peek_def poke_def)
qed

lemma peek_poke_disjoint:
  "off + length bs \<le> length m \<Longrightarrow> o' + len \<le> off \<or> off + length bs \<le> o' \<Longrightarrow>
     peek (poke m off bs) o' len = peek m o' len"
  using peek_poke_below peek_poke_above by blast

text \<open>
  Filling consecutive cells: the shape of every initialisation loop of the slab.
\<close>

lemma fill_cells:
  assumes k: "length bs = k" and room: "base + k * n \<le> length m"
  shows "(fold_res (\<lambda>i m. put_bytes m (base + k * i) bs) [0..<n] m :: 'e fault + memory)
           = Inr (take base m @ concat (replicate n bs) @ drop (base + k * n) m)"
  using room
proof (induction n)
  case (Suc n)
  let ?m = "take base m @ concat (replicate n bs) @ drop (base + k * n) m"
  have len: "length (concat (replicate n bs)) = k * n"
    using k by (simp add: length_concat sum_list_replicate)
  have lm: "length ?m = length m"
    using Suc.prems len by simp
  have fold: "(fold_res (\<lambda>i m. put_bytes m (base + k * i) bs) [0..<n] m
      :: 'e fault + memory) = Inr ?m"
    using Suc by simp
  have "(put_bytes ?m (base + k * n) bs :: 'e fault + memory)
      = Inr (take base m @ concat (replicate n bs) @ bs @ drop (base + k * Suc n) m)"
    using Suc.prems k len lm by (simp add: put_bytes_def ac_simps)
  moreover have "concat (replicate (Suc n) bs) = concat (replicate n bs) @ bs"
    by (simp flip: replicate_append_same)
  ultimately show ?case
    by (simp add: fold_res_append fold)
qed simp

lemma peek_replicate:
  assumes "length bs = k" and "i < n"
  shows "peek (concat (replicate n bs)) (k * i) k = bs"
proof -
  have "replicate n bs = replicate i bs @ bs # replicate (n - i - 1) bs"
    using assms(2) by (metis Suc_pred' add.commute add_Suc_right diff_diff_left
        le_add_diff_inverse less_imp_le_nat plus_1_eq_Suc replicate_Suc replicate_add zero_less_diff)
  then have "concat (replicate n bs)
      = concat (replicate i bs) @ bs @ concat (replicate (n - i - 1) bs)"
    by simp
  moreover have "length (concat (replicate i bs)) = k * i"
    using assms(1) by (simp add: length_concat sum_list_replicate)
  ultimately show ?thesis
    using assms(1) by (simp add: peek_def)
qed

lemma peek_append_right: "length xs = n \<Longrightarrow> peek (xs @ ys) (n + off) len = peek ys off len"
  by (auto simp: peek_def)

lemma peek_append_left: "off + len \<le> length xs \<Longrightarrow> peek (xs @ ys) off len = peek xs off len"
  by (simp add: peek_def)

lemma peek_split: "peek m a (n + k) = peek m a n @ peek m (a + n) k"
  by (simp only: peek_def take_add drop_drop add.commute [of n a])

lemma peek_skip: "length xs \<le> off \<Longrightarrow> peek (xs @ ys) off len = peek ys (off - length xs) len"
  by (simp add: peek_def)

lemma peek_all: "length xs = len \<Longrightarrow> peek xs 0 len = xs"
  by (simp add: peek_def)

text \<open>A nested loop over columns of equal size is a loop over the columns as wholes.\<close>

lemma fill_columns:
  assumes k: "length bs = k" and room: "base + cols * (k * n) \<le> length m"
  shows "(fold_res (\<lambda>c m. fold_res (\<lambda>i m. put_bytes m (base + k * n * c + k * i) bs) [0..<n] m)
            [0..<cols] m :: 'e fault + memory)
           = Inr (take base m @ concat (replicate cols (concat (replicate n bs)))
                   @ drop (base + k * n * cols) m)"
proof -
  let ?col = "concat (replicate n bs)"
  have col: "length ?col = k * n"
    using k by (simp add: length_concat sum_list_replicate)
  have "(fold_res (\<lambda>c m. fold_res (\<lambda>i m. put_bytes m (base + k * n * c + k * i) bs) [0..<n] m)
            [0..<cols] m :: 'e fault + memory)
      = fold_res (\<lambda>c m. put_bytes m (base + k * n * c) ?col) [0..<cols] m"
  proof (rule fold_res_cong_on [where P = "\<lambda>m'. length m' = length m"])
    fix c and m' :: memory assume c: "c \<in> set [0..<cols]" and len: "length m' = length m"
    have "Suc c * (k * n) \<le> cols * (k * n)"
      using c by (intro mult_le_mono1) simp
    then have "k * n * c + k * n \<le> cols * (k * n)"
      by (simp only: mult_Suc) (simp only: mult.commute add.commute)
    then have "base + k * n * c + k * n \<le> length m'"
      using room len by linarith
    then show "(fold_res (\<lambda>i m. put_bytes m (base + k * n * c + k * i) bs) [0..<n] m' :: 'e fault + memory)
        = put_bytes m' (base + k * n * c) ?col"
      using fill_cells [OF k] col by (simp add: put_bytes_def)
  qed (auto simp: put_bytes_def col split: if_splits)
  then show ?thesis
    using fill_cells [OF col, of base cols m] room by (simp add: ac_simps)
qed

section \<open>Fixed-width encodings\<close>

locale fixed_codec =
  fixes enc :: "'a \<Rightarrow> u8 list" and dec :: "u8 list \<Rightarrow> 'a" and width :: nat
  assumes enc_width: "length (enc x) = width"
    and dec_enc: "dec (enc x) = x"
    and enc_dec: "length bs = width \<Longrightarrow> enc (dec bs) = bs"
begin

lemma enc_inject: "enc x = enc y \<longleftrightarrow> x = y"
  by (metis dec_enc)

lemma store_ok: "off + width \<le> length m \<Longrightarrow> put_bytes m off (enc x) = Inr (poke m off (enc x))"
  by (simp add: put_bytes_poke enc_width)

lemma length_store: "off + width \<le> length m \<Longrightarrow> length (poke m off (enc x)) = length m"
  by (simp add: length_poke enc_width)

lemma load_store_same:
  "off + width \<le> length m \<Longrightarrow> dec (peek (poke m off (enc x)) off width) = x"
  by (simp add: peek_poke_same enc_width dec_enc)

lemma load_store_other:
  "off + width \<le> length m \<Longrightarrow> o' + len \<le> off \<or> off + width \<le> o' \<Longrightarrow>
     peek (poke m off (enc x)) o' len = peek m o' len"
  by (simp add: peek_poke_disjoint enc_width)

lemma load_append: "length xs = n \<Longrightarrow> dec (peek (xs @ enc x @ ys) n width) = x"
  by (simp add: peek_def enc_width dec_enc)

end

interpretation c32: fixed_codec enc32 dec32 4
proof
  fix x :: u32 and bs :: "u8 list"
  show "length (enc32 x) = 4" by (simp add: enc32_def)
  have "unat x < 2 ^ 32" by (rule u32_bound)
  then show "dec32 (enc32 x) = x"
    by (simp add: dec32_def enc32_def le_val_le_bytes)
  assume "length bs = 4"
  then show "enc32 (dec32 bs) = bs"
    using le_val_bound [of bs]
    by (simp add: dec32_def enc32_def unat_of_nat le_bytes_le_val)
qed

interpretation c64: fixed_codec enc64 dec64 8
proof
  fix x :: u64 and bs :: "u8 list"
  show "length (enc64 x) = 8" by (simp add: enc64_def)
  have "unat x < 2 ^ 64" by (rule u64_bound)
  then show "dec64 (enc64 x) = x"
    by (simp add: dec64_def enc64_def le_val_le_bytes)
  assume "length bs = 8"
  then show "enc64 (dec64 bs) = bs"
    using le_val_bound [of bs]
    by (simp add: dec64_def enc64_def unat_of_nat le_bytes_le_val)
qed

end
