(* ===== verification/Float64.thy ===== *)
theory Float64
  imports Prelude
begin

text \<open>
  The \<open>f64\<close> of the language: IEEE 754 binary64 values as their 64 bits, with the
  classification, comparison and arithmetic that the program uses. A finite
  value is an integer multiple of \<open>2 ^ -1074\<close>, so its magnitude is a natural
  number of these units, sums are exact integers, and one rounding function (to
  nearest, ties to even) turns an exact quotient of naturals back into bits.
\<close>

section \<open>Bits\<close>

datatype f64 = F64 (to_bits: u64)

definition f_sign :: "f64 \<Rightarrow> bool" where
  "f_sign x = (2 ^ 63 \<le> unat (to_bits x))"

definition f_pattern :: "f64 \<Rightarrow> nat" where
  "f_pattern x = unat (to_bits x) mod 2 ^ 63"

text \<open>Exponent field and fraction field of a pattern without its sign.\<close>

definition pat_expo :: "nat \<Rightarrow> nat" where
  "pat_expo p = p div 2 ^ 52"

definition pat_frac :: "nat \<Rightarrow> nat" where
  "pat_frac p = p mod 2 ^ 52"

definition inf_pattern :: nat where
  "inf_pattern = 2047 * 2 ^ 52"

definition is_nan :: "f64 \<Rightarrow> bool" where
  "is_nan x = (inf_pattern < f_pattern x)"

definition is_infinite :: "f64 \<Rightarrow> bool" where
  "is_infinite x = (f_pattern x = inf_pattern)"

definition is_finite :: "f64 \<Rightarrow> bool" where
  "is_finite x = (f_pattern x < inf_pattern)"

lemma f64_classes: "is_finite x \<longleftrightarrow> \<not> is_nan x \<and> \<not> is_infinite x"
  by (auto simp: is_finite_def is_nan_def is_infinite_def)

lemma finite_not_nan: "is_finite x \<Longrightarrow> \<not> is_nan x"
  by (simp add: f64_classes)

lemma finite_not_infinite: "is_finite x \<Longrightarrow> \<not> is_infinite x"
  by (simp add: f64_classes)

definition mk_f64 :: "bool \<Rightarrow> nat \<Rightarrow> f64" where
  "mk_f64 s p = F64 (word_of_nat ((if s then 2 ^ 63 else 0) + p))"

lemma f_pattern_bound: "f_pattern x < 2 ^ 63"
  by (simp add: f_pattern_def)

lemma unat_mk_f64:
  "p < 2 ^ 63 \<Longrightarrow> unat (to_bits (mk_f64 s p)) = (if s then 2 ^ 63 else 0) + p"
  unfolding mk_f64_def f64.sel by (rule u64_of_nat) simp

lemma f_sign_mk: "p < 2 ^ 63 \<Longrightarrow> f_sign (mk_f64 s p) = s"
  by (simp add: f_sign_def unat_mk_f64)

lemma f_pattern_mk: "p < 2 ^ 63 \<Longrightarrow> f_pattern (mk_f64 s p) = p"
  by (simp add: f_pattern_def unat_mk_f64)

lemma mk_f64_eta: "mk_f64 (f_sign x) (f_pattern x) = x"
proof (cases x)
  case (F64 b)
  let ?n = "unat b"
  have bound: "?n < 2 * 2 ^ 63"
    using u64_bound [of b] by simp
  have "(if 2 ^ 63 \<le> ?n then 2 ^ 63 else 0) + ?n mod 2 ^ 63 = ?n"
  proof (cases "2 ^ 63 \<le> ?n")
    case True
    then have "?n mod 2 ^ 63 = ?n - 2 ^ 63"
      using bound by (simp add: le_mod_geq)
    with True show ?thesis by simp
  qed simp
  then show ?thesis
    by (simp add: F64 mk_f64_def f_sign_def f_pattern_def)
qed

section \<open>Constants and values\<close>

definition f_nan :: f64 where "f_nan = F64 0x7FF8000000000000"
definition f_inf :: f64 where "f_inf = F64 0x7FF0000000000000"
definition f_neg_inf :: f64 where "f_neg_inf = F64 0xFFF0000000000000"
definition f_zero :: f64 where "f_zero = F64 0"
definition f_neg_zero :: f64 where "f_neg_zero = F64 0x8000000000000000"
definition f_one :: f64 where "f_one = F64 0x3FF0000000000000"

lemma is_nan_f_nan [simp]: "is_nan f_nan"
  by (simp add: is_nan_def f_nan_def f_pattern_def inf_pattern_def)

lemma f_nan_not_finite [simp]: "\<not> is_finite f_nan"
  by (simp add: f64_classes)

lemma f_nan_not_infinite [simp]: "\<not> is_infinite f_nan"
  by (simp add: is_infinite_def f_nan_def f_pattern_def inf_pattern_def)

lemma is_infinite_f_inf [simp]: "is_infinite f_inf"
  by (simp add: is_infinite_def f_inf_def f_pattern_def inf_pattern_def)

lemma is_finite_f_one [simp]: "is_finite f_one"
  by (simp add: is_finite_def f_one_def f_pattern_def inf_pattern_def)

text \<open>The magnitude of a pattern in units of \<open>2 ^ -1074\<close>, and the signed value.\<close>

definition pat_mag :: "nat \<Rightarrow> nat" where
  "pat_mag p = (if pat_expo p = 0 then pat_frac p
                else (2 ^ 52 + pat_frac p) * 2 ^ (pat_expo p - 1))"

definition f_mag :: "f64 \<Rightarrow> nat" where
  "f_mag x = pat_mag (f_pattern x)"

definition f_units :: "f64 \<Rightarrow> int" where
  "f_units x = (if f_sign x then - int (f_mag x) else int (f_mag x))"

section \<open>Comparison\<close>

text \<open>
  Among the values that are not NaN the pattern orders the magnitudes, infinity
  included, and both zeros have pattern 0. A comparison with NaN is false.
\<close>

definition f_key :: "f64 \<Rightarrow> int" where
  "f_key x = (if f_sign x then - int (f_pattern x) else int (f_pattern x))"

definition f_lt :: "f64 \<Rightarrow> f64 \<Rightarrow> bool" where
  "f_lt a b = (\<not> is_nan a \<and> \<not> is_nan b \<and> f_key a < f_key b)"

definition f_eq :: "f64 \<Rightarrow> f64 \<Rightarrow> bool" where
  "f_eq a b = (\<not> is_nan a \<and> \<not> is_nan b \<and> f_key a = f_key b)"

definition f_min :: "f64 \<Rightarrow> f64 \<Rightarrow> f64" where
  "f_min a b = (if is_nan a then b else if is_nan b then a else if f_lt b a then b else a)"

definition f_max :: "f64 \<Rightarrow> f64 \<Rightarrow> f64" where
  "f_max a b = (if is_nan a then b else if is_nan b then a else if f_lt a b then b else a)"

lemma f_key_min: "\<not> is_nan a \<Longrightarrow> \<not> is_nan b \<Longrightarrow> f_key (f_min a b) = min (f_key a) (f_key b)"
  by (simp add: f_min_def f_lt_def)

lemma f_key_max: "\<not> is_nan a \<Longrightarrow> \<not> is_nan b \<Longrightarrow> f_key (f_max a b) = max (f_key a) (f_key b)"
  by (simp add: f_max_def f_lt_def)

lemma f_min_cases: "f_min a b = a \<or> f_min a b = b"
  by (simp add: f_min_def)

lemma f_max_cases: "f_max a b = a \<or> f_max a b = b"
  by (simp add: f_max_def)

lemma finite_key_bounds: "is_finite x \<Longrightarrow> \<bar>f_key x\<bar> < int inf_pattern"
  by (simp add: is_finite_def f_key_def)

lemma f_key_inf: "f_key f_inf = int inf_pattern" "f_key f_neg_inf = - int inf_pattern"
  by (simp_all add: f_key_def f_inf_def f_neg_inf_def f_sign_def f_pattern_def inf_pattern_def)

lemma not_nan_inf: "\<not> is_nan f_inf" "\<not> is_nan f_neg_inf"
  by (simp_all add: is_nan_def f_inf_def f_neg_inf_def f_pattern_def inf_pattern_def)

section \<open>Rounding\<close>

text \<open>The number of bits of \<open>n\<close>.\<close>

fun bitlen_from :: "nat \<Rightarrow> nat \<Rightarrow> nat" where
  "bitlen_from k n = (if n = 0 then k else bitlen_from (k + 1) (n div 2))"

declare bitlen_from.simps [simp del]

definition bitlen :: "nat \<Rightarrow> nat" where
  "bitlen n = bitlen_from 0 n"

lemma bitlen_from_eq: "2 ^ k \<le> n \<Longrightarrow> n < 2 ^ Suc k \<Longrightarrow> bitlen_from i n = i + Suc k"
proof (induction k arbitrary: n i)
  case 0
  then have "n = 1" by simp
  then show ?case by (simp add: bitlen_from.simps)
next
  case (Suc k)
  then have "2 ^ k \<le> n div 2" and "n div 2 < 2 ^ Suc k" by auto
  then have "bitlen_from (i + 1) (n div 2) = i + 1 + Suc k" by (rule Suc.IH)
  moreover have "n \<noteq> 0" using Suc.prems by (cases n) auto
  ultimately show ?case by (simp add: bitlen_from.simps [of i n])
qed

lemma bitlen_eq: "2 ^ k \<le> n \<Longrightarrow> n < 2 ^ Suc k \<Longrightarrow> bitlen n = Suc k"
  by (simp add: bitlen_def bitlen_from_eq)

lemma bitlen_0: "bitlen 0 = 0"
  by (simp add: bitlen_def bitlen_from.simps)

lemma bitlen_less: "n < 2 ^ k \<Longrightarrow> bitlen n \<le> k"
proof (cases "n = 0")
  case False
  assume n: "n < 2 ^ k"
  obtain j where j: "2 ^ j \<le> n" "n < 2 ^ Suc j"
    using False ex_power_ivl1 [of 2 n] by auto
  from j(1) n have "(2 :: nat) ^ j < 2 ^ k" by (rule le_less_trans)
  then have "j < k" using power_less_imp_less_exp [of "2 :: nat" j k] by simp
  then show ?thesis using bitlen_eq [OF j] by simp
qed (simp add: bitlen_0)

text \<open>Evaluation on numerals, one digit a step.\<close>

lemma bitlen_from_digits:
  "bitlen_from k (numeral (num.Bit0 n)) = bitlen_from (k + 1) (numeral n)"
  "bitlen_from k (numeral (num.Bit1 n)) = bitlen_from (k + 1) (numeral n)"
  by (subst bitlen_from.simps, simp)+

lemma bitlen_from_1: "bitlen_from k 1 = k + 1" "bitlen_from k (Suc 0) = k + 1"
  by (simp_all add: bitlen_from.simps [of k "Suc 0"] bitlen_from.simps [of "Suc k" 0])

lemmas bitlen_eval = bitlen_def bitlen_from_digits bitlen_from_1

text \<open>
  The pattern nearest to \<open>num / den\<close> units. With \<open>e\<close> the number of bits to drop
  and \<open>q\<close> the rounded significand, the pattern is \<open>e * 2 ^ 52 + q\<close> for subnormal
  and normal results alike; what exceeds the range becomes infinity.
\<close>

definition round_mag :: "nat \<Rightarrow> nat \<Rightarrow> nat" where
  "round_mag num den =
     (let e = bitlen (num div den) - 53;
          d = den * 2 ^ e;
          q = num div d;
          r = num mod d;
          q' = (if d < 2 * r \<or> (d = 2 * r \<and> odd q) then q + 1 else q)
      in min (e * 2 ^ 52 + q') inf_pattern)"

definition round_f64 :: "bool \<Rightarrow> nat \<Rightarrow> nat \<Rightarrow> f64" where
  "round_f64 s num den = mk_f64 s (round_mag num den)"

lemma round_mag_le: "round_mag num den \<le> inf_pattern"
  by (simp add: round_mag_def Let_def)

lemma round_mag_bound: "round_mag num den < 2 ^ 63"
  by (rule le_less_trans [OF round_mag_le]) (simp add: inf_pattern_def)

text \<open>A magnitude that is a pattern's own is rounded to that pattern.\<close>

lemma round_mag_exact:
  assumes "p < inf_pattern" and "0 < den"
  shows "round_mag (pat_mag p * den) den = p"
proof (cases "pat_expo p = 0")
  case True
  then have p: "pat_frac p = p" "p < 2 ^ 52"
    by (simp_all add: pat_expo_def pat_frac_def div_eq_0_iff)
  then have "bitlen p - 53 = 0"
    using bitlen_less [of p 52] by simp
  then show ?thesis
    using True p assms by (simp add: round_mag_def pat_mag_def Let_def)
next
  case False
  define E f where "E = pat_expo p - 1" and "f = pat_frac p"
  have p: "p = (E + 1) * 2 ^ 52 + f" and f: "f < 2 ^ 52"
    using False by (simp_all add: E_def f_def pat_expo_def pat_frac_def)
  have mag: "pat_mag p = (2 ^ 52 + f) * 2 ^ E"
    using False by (simp add: pat_mag_def E_def f_def)
  have "(2 :: nat) ^ (52 + E) \<le> (2 ^ 52 + f) * 2 ^ E"
    by (simp add: power_add)
  moreover have "(2 ^ 52 + f) * 2 ^ E < (2 :: nat) ^ Suc (52 + E)"
    using f by (simp add: power_add)
  ultimately have "bitlen (pat_mag p) = Suc (52 + E)"
    unfolding mag by (rule bitlen_eq)
  then have e: "bitlen (pat_mag p * den div den) - 53 = E"
    using assms(2) by simp
  have d: "pat_mag p * den = (2 ^ 52 + f) * (den * 2 ^ E)"
    by (simp add: mag)
  have "0 < den * 2 ^ E" using assms(2) by simp
  then have "pat_mag p * den div (den * 2 ^ E) = 2 ^ 52 + f"
    and "pat_mag p * den mod (den * 2 ^ E) = 0"
    by (simp_all add: d)
  then show ?thesis
    using e assms p by (simp add: round_mag_def Let_def algebra_simps)
qed

lemma round_f64_exact: "is_finite x \<Longrightarrow> 0 < den \<Longrightarrow> round_f64 (f_sign x) (f_mag x * den) den = x"
  by (simp add: round_f64_def f_mag_def round_mag_exact is_finite_def mk_f64_eta)

section \<open>Arithmetic\<close>

definition f_add :: "f64 \<Rightarrow> f64 \<Rightarrow> f64" where
  "f_add a b =
     (if is_nan a \<or> is_nan b then f_nan
      else if is_infinite a then (if is_infinite b \<and> f_sign a \<noteq> f_sign b then f_nan else a)
      else if is_infinite b then b
      else let z = f_units a + f_units b in
        if z = 0 then mk_f64 (f_sign a \<and> f_sign b) 0
        else round_f64 (z < 0) (nat \<bar>z\<bar>) 1)"

definition f_div :: "f64 \<Rightarrow> f64 \<Rightarrow> f64" where
  "f_div a b =
     (let s = (f_sign a \<noteq> f_sign b) in
      if is_nan a \<or> is_nan b then f_nan
      else if is_infinite a then (if is_infinite b then f_nan else mk_f64 s inf_pattern)
      else if is_infinite b then mk_f64 s 0
      else if f_mag b = 0 then (if f_mag a = 0 then f_nan else mk_f64 s inf_pattern)
      else round_f64 s (f_mag a * 2 ^ 1074) (f_mag b))"

text \<open>The cast \<open>n as f64\<close> of an unsigned integer.\<close>

definition f_of_nat :: "nat \<Rightarrow> f64" where
  "f_of_nat n = round_f64 False (n * 2 ^ 1074) 1"

text \<open>\<open>Iterator::sum\<close> of floats, which starts at minus zero.\<close>

definition f_sum :: "f64 list \<Rightarrow> f64" where
  "f_sum xs = fold (\<lambda>v acc. f_add acc v) xs f_neg_zero"

lemma f_mag_one: "f_mag f_one = 2 ^ 1074"
  by (simp add: f_mag_def pat_mag_def f_one_def f_pattern_def pat_expo_def pat_frac_def
      flip: power_add)

lemma f_sign_one: "\<not> f_sign f_one"
  by (simp add: f_sign_def f_one_def)

lemma f_div_one: "is_finite x \<Longrightarrow> f_div x f_one = x"
  using round_f64_exact [of x "2 ^ 1074"]
  by (simp add: f_div_def Let_def f64_classes f_mag_one f_sign_one
      is_finite_f_one [unfolded f64_classes])

lemma pat_mag_eq_0: "p < 2 ^ 63 \<Longrightarrow> pat_mag p = 0 \<longleftrightarrow> p = 0"
  by (auto simp: pat_mag_def pat_expo_def pat_frac_def div_eq_0_iff)

lemma f_neg_zero_facts:
  "f_sign f_neg_zero" "f_units f_neg_zero = 0" "is_finite f_neg_zero"
  by (simp_all add: f_sign_def f_neg_zero_def f_units_def f_mag_def f_pattern_def pat_mag_def
      pat_expo_def pat_frac_def is_finite_def inf_pattern_def)

lemma f_add_neg_zero: "is_finite x \<Longrightarrow> f_add f_neg_zero x = x"
proof -
  assume fin: "is_finite x"
  show ?thesis
  proof (cases "f_units x = 0")
    case True
    then have "f_pattern x = 0"
      using f_pattern_bound [of x]
      by (auto simp: f_units_def f_mag_def pat_mag_eq_0 split: if_splits)
    then have "mk_f64 (f_sign x) 0 = x"
      using mk_f64_eta [of x] by simp
    with True fin show ?thesis
      using f_neg_zero_facts by (simp add: f_add_def f64_classes)
  next
    case False
    then have "(f_units x < 0) = f_sign x" and "nat \<bar>f_units x\<bar> = f_mag x"
      by (auto simp: f_units_def)
    with False fin show ?thesis
      using f_neg_zero_facts round_f64_exact [of x 1] by (simp add: f_add_def f64_classes)
  qed
qed

lemma f_sum_single: "is_finite x \<Longrightarrow> f_sum [x] = x"
  by (simp add: f_sum_def f_add_neg_zero)

text \<open>Small integers are represented exactly.\<close>

lemma f_of_nat_0: "f_of_nat 0 = f_zero"
  by (simp add: f_of_nat_def round_f64_def round_mag_def bitlen_0 mk_f64_def f_zero_def)

lemma nat_is_magnitude:
  assumes "0 < n" and "n < 2 ^ 53"
  shows "\<exists>p < inf_pattern. pat_mag p = n * 2 ^ 1074"
proof -
  define k where "k = bitlen n - 1"
  have k: "2 ^ k \<le> n \<and> n < 2 ^ Suc k \<and> k \<le> 52"
  proof -
    have "\<exists>k. 2 ^ k \<le> n \<and> n < 2 ^ Suc k"
      using assms(1) ex_power_ivl1 [of 2 n] by auto
    then obtain j where j: "2 ^ j \<le> n" "n < 2 ^ Suc j" by blast
    then have "k = j" by (simp add: k_def bitlen_eq)
    moreover have "(2 :: nat) ^ j < 2 ^ 53" using j(1) assms(2) by simp
    then have "j < 53" by (simp only: power_strict_increasing_iff)
    ultimately show ?thesis using j by simp
  qed
  define f where "f = n * 2 ^ (52 - k) - 2 ^ 52"
  have "(2 :: nat) ^ 52 = 2 ^ k * 2 ^ (52 - k)"
    using k by (simp flip: power_add)
  moreover have "2 ^ k * 2 ^ (52 - k) \<le> n * 2 ^ (52 - k)"
    using k by (intro mult_le_mono1) simp
  ultimately have lo: "2 ^ 52 \<le> n * 2 ^ (52 - k)"
    by simp
  have "n * 2 ^ (52 - k) < 2 ^ Suc k * 2 ^ (52 - k)"
    using k by simp
  also have "\<dots> = (2 :: nat) ^ 53"
    using k by (simp flip: power_add)
  finally have hi: "n * 2 ^ (52 - k) < 2 ^ 53" .
  have f: "f < 2 ^ 52" "2 ^ 52 + f = n * 2 ^ (52 - k)"
    using lo hi by (simp_all add: f_def)
  define p where "p = (k + 1023) * 2 ^ 52 + f"
  have pe: "pat_expo p = k + 1023" and pf: "pat_frac p = f"
    using f(1) by (simp_all only: p_def pat_expo_def pat_frac_def div_mult_self3 mod_mult_self3
        div_less mod_less)
  have "pat_mag p = n * (2 ^ (52 - k) * 2 ^ (k + 1022))"
    by (simp only: pat_mag_def pe pf f(2)) simp
  also have "(2 :: nat) ^ (52 - k) * 2 ^ (k + 1022) = 2 ^ 1074"
    using k by (simp flip: power_add)
  finally have "pat_mag p = n * 2 ^ 1074" .
  moreover have "p < inf_pattern"
  proof -
    have "(k + 1023) * 2 ^ 52 \<le> 1075 * 2 ^ 52"
      using k by (intro mult_le_mono1) simp
    then show ?thesis using f(1) by (simp add: p_def inf_pattern_def)
  qed
  ultimately show ?thesis by blast
qed

theorem f_of_nat_exact:
  assumes "n < 2 ^ 53"
  shows "is_finite (f_of_nat n) \<and> f_units (f_of_nat n) = int n * 2 ^ 1074"
proof (cases "n = 0")
  case True
  then show ?thesis
    by (simp add: f_of_nat_0 f_zero_def is_finite_def f_pattern_def inf_pattern_def f_units_def
        f_mag_def f_sign_def pat_mag_def pat_expo_def pat_frac_def)
next
  case False
  then obtain p where p: "p < inf_pattern" "pat_mag p = n * 2 ^ 1074"
    using nat_is_magnitude assms by blast
  then have r: "f_of_nat n = mk_f64 False p"
    using round_mag_exact [of p 1] by (simp add: f_of_nat_def round_f64_def)
  have "p < 2 ^ 63" using p(1) by (simp add: inf_pattern_def)
  then show ?thesis
    using p by (simp add: r is_finite_def f_pattern_mk f_units_def f_sign_mk f_mag_def)
qed

text \<open>The largest finite value, and the overflow of its double to infinity.\<close>

definition f_huge :: f64 where
  "f_huge = F64 0x7FEFFFFFFFFFFFFF"

lemma f_huge_facts: "\<not> f_sign f_huge" "is_finite f_huge"
  by (simp_all add: f_sign_def f_huge_def is_finite_def f_pattern_def inf_pattern_def)

lemma f_mag_huge: "f_mag f_huge = (2 ^ 53 - 1) * 2 ^ 2045"
proof -
  have "pat_expo (f_pattern f_huge) = 2046" "pat_frac (f_pattern f_huge) = 2 ^ 52 - 1"
    by (simp_all add: f_huge_def f_pattern_def pat_expo_def pat_frac_def)
  then show ?thesis by (simp only: f_mag_def pat_mag_def) simp
qed

lemma round_mag_overflow:
  assumes "2 ^ 52 \<le> q" and "q < 2 ^ 53"
  shows "round_mag (q * 2 ^ 2046) 1 = inf_pattern"
proof -
  have "(2 :: nat) ^ 52 * 2 ^ 2046 \<le> q * 2 ^ 2046" "q * 2 ^ 2046 < (2 :: nat) ^ 53 * 2 ^ 2046"
    using assms by (simp_all only: mult_le_cancel2 mult_less_cancel2) simp_all
  then have "bitlen (q * 2 ^ 2046) = Suc (52 + 2046)"
    by (intro bitlen_eq) (simp_all only: power_add [symmetric] power_Suc2 add_Suc numeral_plus_numeral arith_simps Suc_numeral)
  then have "bitlen (q * 2 ^ 2046) - 53 = 2046" by simp
  then have "round_mag (q * 2 ^ 2046) 1 = min (2046 * 2 ^ 52 + q) inf_pattern"
    by (simp only: round_mag_def Let_def div_by_1 mult_1 div_mult_self_is_m mod_mult_self2_is_0 zero_less_power mult_0_right not_less0) simp
  also have "\<dots> = inf_pattern"
    using assms(1) by (simp add: inf_pattern_def)
  finally show ?thesis .
qed

lemma f_add_self:
  assumes "is_finite x" "\<not> f_sign x" "0 < f_mag x"
  shows "f_add x x = round_f64 False (f_mag x * 2) 1"
proof -
  have "f_units x + f_units x = int (f_mag x * 2)"
    using assms(2) by (simp add: f_units_def)
  then show ?thesis
    using assms by (simp add: f_add_def f64_classes Let_def nat_mult_distrib mult.commute)
qed

lemma f_add_overflow: "f_add f_huge f_huge = f_inf"
proof -
  have m: "f_mag f_huge * 2 = (2 ^ 53 - 1) * 2 ^ 2046"
    by (simp only: f_mag_huge mult.assoc power_Suc2 [symmetric] Suc_numeral arith_simps)
  have "0 < f_mag f_huge"
    by (simp only: f_mag_huge zero_less_mult_iff zero_less_power) simp
  then have "f_add f_huge f_huge = mk_f64 False inf_pattern"
    using round_mag_overflow [of "2 ^ 53 - 1"]
    by (simp only: f_add_self f_huge_facts not_False_eq_True m round_f64_def) simp
  then show ?thesis
    by (simp add: mk_f64_def inf_pattern_def f_inf_def)
qed

text \<open>What evaluates a closed term of this theory.\<close>

lemmas f64_eval = f_add_def f_div_def f_of_nat_def f_sum_def f_min_def f_max_def f_lt_def f_key_def
  round_f64_def round_mag_def bitlen_eval f_units_def f_mag_def pat_mag_def pat_expo_def
  pat_frac_def f_sign_def f_pattern_def inf_pattern_def is_nan_def is_infinite_def is_finite_def
  mk_f64_def f_one_def f_zero_def f_neg_zero_def f_inf_def f_neg_inf_def f_nan_def Let_def

end
