(* ===== verification/Strings.thy ===== *)
theory Strings
  imports Prelude "HOL-Library.Char_ord" "HOL-Library.List_Lexorder"
begin

text \<open>
  The parts of the standard library's string handling that the program uses, on
  byte strings: the decimal rendering of unsigned integers by \<open>format!\<close>, the
  parsing of unsigned integers by \<open>str::parse\<close>, \<open>split\<close> and
  \<open>split_once\<close>. \<open>String\<close> values compare bytewise and lexicographically, which
  is the order of \<open>List_Lexorder\<close> over \<open>Char_ord\<close>.
\<close>

section \<open>Decimal rendering\<close>

definition digit :: "nat \<Rightarrow> char" where
  "digit d = char_of (48 + d)"

fun fmt_nat :: "nat \<Rightarrow> string" where
  "fmt_nat n = (if n < 10 then [digit n] else fmt_nat (n div 10) @ [digit (n mod 10)])"

declare fmt_nat.simps [simp del]

definition is_digit :: "char \<Rightarrow> bool" where
  "is_digit c = (48 \<le> (of_char c :: nat) \<and> (of_char c :: nat) \<le> 57)"

definition digit_val :: "char \<Rightarrow> nat" where
  "digit_val c = of_char c - 48"

lemma of_char_digit: "d < 10 \<Longrightarrow> (of_char (digit d) :: nat) = 48 + d"
  by (simp add: digit_def)

lemma is_digit_digit: "d < 10 \<Longrightarrow> is_digit (digit d)"
  by (simp add: is_digit_def of_char_digit)

lemma digit_val_digit: "d < 10 \<Longrightarrow> digit_val (digit d) = d"
  by (simp add: digit_val_def of_char_digit)

lemma fmt_nat_digits: "list_all is_digit (fmt_nat n)"
proof (induction n rule: fmt_nat.induct)
  case (1 n)
  then show ?case
    by (cases "n < 10") (simp_all add: fmt_nat.simps [of n] is_digit_digit)
qed

lemma fmt_nat_nonempty: "fmt_nat n \<noteq> []"
  by (simp add: fmt_nat.simps [of n])

text \<open>Joining with a separator, and the \<open>Debug\<close> rendering of a list of numbers.\<close>

fun join :: "string \<Rightarrow> string list \<Rightarrow> string" where
  "join sep [] = []"
| "join sep [s] = s"
| "join sep (s # t # ss) = s @ sep @ join sep (t # ss)"

definition fmt_nats :: "nat list \<Rightarrow> string" where
  "fmt_nats ns = ''['' @ join '', '' (map fmt_nat ns) @ '']''"

section \<open>Parsing unsigned integers\<close>

text \<open>
  \<open>str::parse\<close> for an unsigned type with values below \<open>bound\<close>: an optional
  plus sign, at least one digit, only digits, and no overflow.
\<close>

fun digits_val :: "nat \<Rightarrow> string \<Rightarrow> nat" where
  "digits_val acc [] = acc"
| "digits_val acc (c # cs) = digits_val (acc * 10 + digit_val c) cs"

definition parse_uint :: "nat \<Rightarrow> string \<Rightarrow> nat option" where
  "parse_uint bound s =
     (let ds = (case s of [] \<Rightarrow> [] | c # cs \<Rightarrow> if c = CHR ''+'' then cs else s) in
      if ds = [] \<or> \<not> list_all is_digit ds then None
      else if digits_val 0 ds < bound then Some (digits_val 0 ds) else None)"

lemma digits_val_append: "digits_val acc (xs @ ys) = digits_val (digits_val acc xs) ys"
  by (induction xs arbitrary: acc) auto

lemma digits_val_fmt: "digits_val 0 (fmt_nat n) = n"
proof (induction n rule: fmt_nat.induct)
  case (1 n)
  then show ?case
    by (cases "n < 10") (simp_all add: fmt_nat.simps [of n] digits_val_append digit_val_digit)
qed

lemma plus_not_digit: "\<not> is_digit (CHR ''+'')"
  by (simp add: is_digit_def)

lemma parse_fmt: "n < bound \<Longrightarrow> parse_uint bound (fmt_nat n) = Some n"
proof -
  assume n: "n < bound"
  obtain c cs where s: "fmt_nat n = c # cs"
    using fmt_nat_nonempty by (cases "fmt_nat n") auto
  have "is_digit c" using fmt_nat_digits [of n] s by simp
  then have "c \<noteq> CHR ''+''" using plus_not_digit by auto
  then show ?thesis
    using n s fmt_nat_digits [of n] digits_val_fmt [of n] by (simp add: parse_uint_def)
qed

lemma fmt_nat_inject: "fmt_nat m = fmt_nat n \<longleftrightarrow> m = n"
  by (metis digits_val_fmt)

lemma parse_uint_bound: "parse_uint bound s = Some n \<Longrightarrow> n < bound"
  by (auto simp: parse_uint_def Let_def split: if_splits)

section \<open>Splitting\<close>

text \<open>\<open>s.split_once(c)\<close>: the parts before and after the first occurrence.\<close>

fun split_once :: "char \<Rightarrow> string \<Rightarrow> (string \<times> string) option" where
  "split_once c [] = None"
| "split_once c (x # xs) =
     (if x = c then Some ([], xs)
      else case split_once c xs of None \<Rightarrow> None | Some (a, b) \<Rightarrow> Some (x # a, b))"

text \<open>\<open>s.split(c)\<close>: always at least one part.\<close>

fun split_on :: "char \<Rightarrow> string \<Rightarrow> string list" where
  "split_on c [] = [[]]"
| "split_on c (x # xs) =
     (if x = c then [] # split_on c xs
      else case split_on c xs of [] \<Rightarrow> [[x]] | p # ps \<Rightarrow> (x # p) # ps)"

lemma split_once_append: "c \<notin> set a \<Longrightarrow> split_once c (a @ c # b) = Some (a, b)"
  by (induction a) auto

lemma split_once_sound: "split_once c s = Some (a, b) \<Longrightarrow> s = a @ c # b \<and> c \<notin> set a"
  by (induction s arbitrary: a) (auto split: if_splits option.splits)

lemma split_once_some:
  "split_once c s = Some (a, b) \<longleftrightarrow> s = a @ c # b \<and> c \<notin> set a"
  using split_once_append split_once_sound by metis

lemma split_once_none: "split_once c s = None \<longleftrightarrow> c \<notin> set s"
  by (induction s) (auto split: option.splits)

lemma split_on_nonempty: "split_on c s \<noteq> []"
  by (induction s) (auto split: list.splits)

lemma split_on_simple: "c \<notin> set s \<Longrightarrow> split_on c s = [s]"
  by (induction s) auto

lemma split_on_append: "c \<notin> set a \<Longrightarrow> split_on c (a @ c # b) = a # split_on c b"
  by (induction a) auto

section \<open>Keys of three numbers\<close>

text \<open>
  The cursor tables are keyed by strings of the form \<open>a:b:c\<close>. The rendering is
  injective, so distinct triples never share an entry.
\<close>

definition colon_key :: "nat \<Rightarrow> nat \<Rightarrow> nat \<Rightarrow> string" where
  "colon_key a b c = fmt_nat a @ '':'' @ fmt_nat b @ '':'' @ fmt_nat c"

lemma colon_not_digit: "list_all is_digit s \<Longrightarrow> CHR '':'' \<notin> set s"
  by (auto simp: list_all_iff is_digit_def)

lemma split_colon_key: "split_on (CHR '':'') (colon_key a b c) = [fmt_nat a, fmt_nat b, fmt_nat c]"
  by (simp add: colon_key_def split_on_append split_on_simple colon_not_digit fmt_nat_digits)

lemma colon_key_inject:
  "colon_key a b c = colon_key a' b' c' \<longleftrightarrow> a = a' \<and> b = b' \<and> c = c'"
  by (metis split_colon_key fmt_nat_inject list.inject)

end
