(* ===== verification/Text.thy ===== *)
theory Text
  imports Strings "HOL-Library.Sublist"
begin

text \<open>
  The white space of \<open>char::is_whitespace\<close> on byte strings: \<open>str::trim\<close>,
  \<open>str::split_whitespace\<close> and \<open>str::trim_end_matches\<close>. A character is the UTF-8 sequence
  of its bytes; in a valid string one of these sequences occurs only as that character.
\<close>

definition byte :: "nat \<Rightarrow> char" where
  "byte n = char_of n"

definition whitespace :: "string list" where
  "whitespace = map (map byte)
     ([[32], [9], [10], [11], [12], [13], [0xC2, 0x85], [0xC2, 0xA0], [0xE1, 0x9A, 0x80]] @
      map (\<lambda>b. [0xE2, 0x80, b]) [0x80, 0x81, 0x82, 0x83, 0x84, 0x85, 0x86, 0x87, 0x88, 0x89, 0x8A, 0xA8, 0xA9, 0xAF] @
      [[0xE2, 0x81, 0x9F], [0xE3, 0x80, 0x80]])"

text \<open>The first of the given pieces that the string starts with.\<close>

definition leading :: "string list \<Rightarrow> string \<Rightarrow> string option" where
  "leading ws s = List.find (\<lambda>w. w \<noteq> [] \<and> prefix w s) ws"

lemma leading_some: "leading ws s = Some w \<Longrightarrow> w \<noteq> [] \<and> prefix w s"
  by (auto simp: leading_def find_Some_iff)

lemma leading_shorter: "leading ws s = Some w \<Longrightarrow> length s - length w < length s"
  using leading_some [of ws s w] by (cases w; cases s) auto

function strip :: "string list \<Rightarrow> string \<Rightarrow> string" where
  "strip ws s = (case leading ws s of None \<Rightarrow> s | Some w \<Rightarrow> strip ws (drop (length w) s))"
  by pat_completeness auto

termination
  by (relation "measure (\<lambda>(ws, s). length s)") (auto dest: leading_shorter)

declare strip.simps [simp del]

definition trim_start :: "string \<Rightarrow> string" where
  "trim_start s = strip whitespace s"

definition trim_end :: "string \<Rightarrow> string" where
  "trim_end s = rev (strip (map rev whitespace) (rev s))"

definition trim :: "string \<Rightarrow> string" where
  "trim s = trim_end (trim_start s)"

definition trim_end_matches :: "char \<Rightarrow> string \<Rightarrow> string" where
  "trim_end_matches c s = rev (dropWhile (\<lambda>x. x = c) (rev s))"

text \<open>The pieces between stretches of white space; \<open>word\<close> is the piece being read, backwards.\<close>

function words_from :: "string \<Rightarrow> string \<Rightarrow> string list" where
  "words_from word s =
     (let done = (if word = [] then [] else [rev word]) in
      case leading whitespace s of
        Some w \<Rightarrow> done @ words_from [] (drop (length w) s)
      | None \<Rightarrow> (case s of [] \<Rightarrow> done | c # cs \<Rightarrow> words_from (c # word) cs))"
  by pat_completeness auto

termination
  by (relation "measure (\<lambda>(word, s). length s)") (auto dest: leading_shorter)

declare words_from.simps [simp del]

definition split_whitespace :: "string \<Rightarrow> string list" where
  "split_whitespace s = words_from [] s"

section \<open>Strings without white space\<close>

text \<open>No byte of a graphic ASCII string occurs in a white space character.\<close>

definition graphic :: "char \<Rightarrow> bool" where
  "graphic c \<longleftrightarrow> 33 \<le> (of_char c :: nat) \<and> (of_char c :: nat) < 128"

lemma byte_eq: "byte m = byte n \<longleftrightarrow> m mod 256 = n mod 256"
  by (metis byte_def char_of_mod_256 of_char_of)

lemma byte_graphic: "graphic (byte n) \<longleftrightarrow> 33 \<le> n mod 256 \<and> n mod 256 < 128"
  by (simp add: graphic_def byte_def)

lemma whitespace_not_graphic: "w \<in> set whitespace \<Longrightarrow> c \<in> set w \<Longrightarrow> \<not> graphic c"
  by (auto simp: whitespace_def byte_graphic)

lemma no_leading:
  assumes "s = [] \<or> graphic (hd s)" and "\<forall>w \<in> set ws. \<forall>c \<in> set w. \<not> graphic c"
  shows "leading ws s = None"
proof (rule ccontr)
  assume "leading ws s \<noteq> None"
  then obtain w where w: "w \<in> set ws" "w \<noteq> []" "prefix w s"
    by (auto simp: leading_def find_None_iff)
  then have "s \<noteq> []" and "hd s = hd w"
    by (auto simp: prefix_def)
  then have "graphic (hd w)" using assms(1) by simp
  then show False using w(1,2) assms(2) by auto
qed

lemma strip_graphic:
  assumes "s = [] \<or> graphic (hd s)" and "\<forall>w \<in> set ws. \<forall>c \<in> set w. \<not> graphic c"
  shows "strip ws s = s"
  using no_leading [OF assms] by (simp add: strip.simps)

lemma trim_graphic: "s = [] \<or> graphic (hd s) \<and> graphic (last s) \<Longrightarrow> trim s = s"
  using strip_graphic [of s whitespace] strip_graphic [of "rev s" "map rev whitespace"] whitespace_not_graphic
  by (auto simp: trim_def trim_start_def trim_end_def hd_rev)

lemma digit_graphic: "is_digit c \<Longrightarrow> graphic c"
  by (simp add: is_digit_def graphic_def)

end
