(* ===== verification/Durations.thy ===== *)
theory Durations
  imports Strings
begin

text \<open>
  \<open>std::time::Duration\<close>: whole seconds and a number of nanoseconds below one
  billion. The derived order is lexicographic, which on well-formed durations is
  the order of their length in nanoseconds.
\<close>

datatype duration = Duration (dur_secs: u64) (dur_nanos: u32)

definition dur_wf :: "duration \<Rightarrow> bool" where
  "dur_wf d = (unat (dur_nanos d) < 10 ^ 9)"

definition from_secs :: "u64 \<Rightarrow> duration" where
  "from_secs s = Duration s 0"

definition as_nanos :: "duration \<Rightarrow> nat" where
  "as_nanos d = unat (dur_secs d) * 10 ^ 9 + unat (dur_nanos d)"

definition dur_is_zero :: "duration \<Rightarrow> bool" where
  "dur_is_zero d = (dur_secs d = 0 \<and> dur_nanos d = 0)"

instantiation duration :: linorder
begin

definition less_duration :: "duration \<Rightarrow> duration \<Rightarrow> bool" where
  "d < e \<longleftrightarrow> dur_secs d < dur_secs e \<or> dur_secs d = dur_secs e \<and> dur_nanos d < dur_nanos e"

definition less_eq_duration :: "duration \<Rightarrow> duration \<Rightarrow> bool" where
  "d \<le> e \<longleftrightarrow> dur_secs d < dur_secs e \<or> dur_secs d = dur_secs e \<and> dur_nanos d \<le> dur_nanos e"

instance
  by standard (auto simp: less_duration_def less_eq_duration_def intro: duration.expand)

end

lemma as_nanos_zero: "as_nanos d = 0 \<longleftrightarrow> dur_is_zero d"
  by (simp add: as_nanos_def dur_is_zero_def unat_eq_zero)

lemma seconds_nanos_less:
  assumes "m < 1000000000" and "n < 1000000000"
  shows "a * 1000000000 + m < b * 1000000000 + (n :: nat) \<longleftrightarrow> a < b \<or> a = b \<and> m < n"
  using assms by (cases a b rule: linorder_cases) linarith+

lemma as_nanos_less:
  "dur_wf d \<Longrightarrow> dur_wf e \<Longrightarrow> d < e \<longleftrightarrow> as_nanos d < as_nanos e"
  by (simp add: less_duration_def as_nanos_def dur_wf_def seconds_nanos_less word_less_nat_alt
      word_unat_eq_iff)

lemma as_nanos_le:
  "dur_wf d \<Longrightarrow> dur_wf e \<Longrightarrow> d \<le> e \<longleftrightarrow> as_nanos d \<le> as_nanos e"
  using as_nanos_less [of e d] by (simp add: linorder_not_less [symmetric])

lemma as_nanos_from_secs: "as_nanos (from_secs s) = unat s * 10 ^ 9"
  by (simp add: as_nanos_def from_secs_def)

lemma from_secs_wf: "dur_wf (from_secs s)"
  by (simp add: dur_wf_def from_secs_def)

text \<open>
  The \<open>Debug\<close> rendering, which error messages contain: the largest unit that
  gives a non-zero integer part, and a fraction without trailing zeros. The
  micro sign is two bytes of UTF-8.
\<close>

fun pad_left :: "nat \<Rightarrow> string \<Rightarrow> string" where
  "pad_left 0 s = s"
| "pad_left (Suc k) s = (if length s > k then s else CHR ''0'' # pad_left k s)"

definition trim_zeros :: "string \<Rightarrow> string" where
  "trim_zeros s = rev (dropWhile (\<lambda>c. c = CHR ''0'') (rev s))"

definition fmt_fraction :: "nat \<Rightarrow> nat \<Rightarrow> nat \<Rightarrow> string" where
  "fmt_fraction whole frac digits =
     fmt_nat whole @ (if frac = 0 then [] else CHR ''.'' # trim_zeros (pad_left digits (fmt_nat frac)))"

definition fmt_duration :: "duration \<Rightarrow> string" where
  "fmt_duration d =
     (let n = unat (dur_nanos d) in
      if dur_secs d > 0 then fmt_fraction (unat (dur_secs d)) n 9 @ ''s''
      else if n \<ge> 10 ^ 6 then fmt_fraction (n div 10 ^ 6) (n mod 10 ^ 6) 6 @ ''ms''
      else if n \<ge> 1000 then fmt_fraction (n div 1000) (n mod 1000) 3 @ [CHR 0xC2, CHR 0xB5, CHR ''s'']
      else fmt_fraction n 0 0 @ ''ns'')"

end
