(* ===== verification/Errors.thy ===== *)
theory Errors
  imports Durations Float64
begin

text \<open>
  The error types of \<open>rondo/src/error.rs\<close>. The errors of the operating system, of
  \<open>serde_json\<close> and of the HTTP stack are opaque values, represented by a string.
  A result of the library is \<open>'a res\<close>: an error value, a panic or undefined
  behaviour on the left, the value on the right.
\<close>

type_synonym io_error = string
type_synonym json_error = string
type_synonym labels = "(string \<times> string) list"

datatype store_error =
    DirectoryAccess string io_error
  | CorruptedMetadata string
  | SchemaMismatch u64 u64
  | MetadataSerialize json_error
  | MemoryMap string io_error
  | StoreLocked

datatype series_error =
    MaxSeriesExceeded u32
  | NoMatchingSchema labels
  | SeriesAlreadyExists labels
  | InvalidLabel string string string

datatype record_error =
    InvalidHandle u64
  | InvalidTimestamp u64
  | InvalidValue f64 string
  | BufferOverflow

datatype query_error =
    InvalidTier usize usize
  | InvalidTimeRange u64 u64
  | InvalidSeriesHandle u64
  | NoData u64 u64

datatype schema_error =
    InvalidTierConfig string
  | TooManySlots usize u64 u64 duration duration
  | TiersNotOrdered
  | ConsolidationOnHighestTier
  | NoTiers
  | InvalidMaxSeries u32
  | InvalidLabelMatcher string

datatype slab_io_error =
    ReadFailed string u64 io_error
  | WriteFailed string u64 io_error
  | SyncFailed string io_error
  | CorruptedSlab string string
  | BoundsViolation u64 u64 u64

datatype consolidation_error =
    CursorLoad string io_error
  | CursorParse string json_error
  | CursorSave string io_error
  | CursorSerialize json_error
  | NoConsolidationFunction usize usize
  | WindowProcessingFailed u64 u64 string
  | InvalidConfiguration string

text \<open>The export errors share constructor names with the consolidation errors.\<close>

datatype export_error =
    ExportCursorLoad string io_error
  | ExportCursorParse string json_error
  | ExportCursorSave string io_error
  | ExportCursorSerialize json_error

datatype remote_write_error =
    Serialization string
  | Compression string
  | ClientCreate string
  | RequestFailed string
  | HttpStatus u16 string
  | SeriesNotFound usize u32

datatype rondo_error =
    Store store_error
  | Series series_error
  | Record record_error
  | Query query_error
  | Schema schema_error
  | SlabIo slab_io_error
  | Consolidation consolidation_error
  | Export export_error
  | RemoteWrite remote_write_error

type_synonym 'a res = "rondo_error fault + 'a"

abbreviation err :: "rondo_error \<Rightarrow> 'a res" where
  "err e \<equiv> Inl (Error e)"

text \<open>The error values a result carries, panics and undefined behaviour excluded.\<close>

definition no_crash :: "'a res \<Rightarrow> bool" where
  "no_crash r = (case r of Inr _ \<Rightarrow> True | Inl (Error _) \<Rightarrow> True | Inl _ \<Rightarrow> False)"

lemma no_crash_simps [simp]:
  "no_crash (Inr x)" "no_crash (err e)" "\<not> no_crash (Inl Panic)" "\<not> no_crash (Inl UB)"
  by (simp_all add: no_crash_def)

lemma no_crash_Inl: "no_crash (Inl f :: 'a res) \<longleftrightarrow> (\<exists>e. f = Error e)"
  by (cases f) (simp_all add: no_crash_def)

lemma no_crash_rbind:
  "no_crash m \<Longrightarrow> (\<And>x. m = Inr x \<Longrightarrow> no_crash (f x)) \<Longrightarrow> no_crash (rbind m f :: 'b res)"
  by (cases m) (auto simp: no_crash_Inl)

lemma no_crash_map_err: "no_crash (map_err (\<lambda>e. Error (f e)) r)"
  by (cases r) simp_all

end
