(* ===== verification/Schema.thy ===== *)
theory Schema
  imports Errors
begin

text \<open>
  \<open>rondo/src/schema.rs\<close>: tier and schema configurations with their validation,
  the consolidation functions, and the label matcher that routes a series to its
  schema. The hash of a configuration is computed by the standard library's
  \<open>DefaultHasher\<close>, whose algorithm is unspecified: it is a parameter of
  \<open>stable_hash\<close>, a function of the hashed fields.
\<close>

section \<open>Data\<close>

datatype consolidation_fn = Average | Min_fn | Max_fn | Last | Sum | Count

record tier_config =
  tc_interval :: duration
  tc_retention :: duration
  tc_consolidation_fn :: "consolidation_fn option"

text \<open>A label matcher wraps a \<open>BTreeMap\<close> of required labels.\<close>

type_synonym label_matcher = "(string \<times> string) list"

record schema_config =
  sc_name :: string
  sc_label_matcher :: label_matcher
  sc_tiers :: "tier_config list"
  sc_max_series :: u32

definition MAX_SLOTS_PER_TIER :: u64 where
  "MAX_SLOTS_PER_TIER = 1000000000"

section \<open>Tiers\<close>

definition tier_slot_count :: "tier_config \<Rightarrow> u64" where
  "tier_slot_count t =
     (let retention_nanos = word_of_nat (as_nanos (tc_retention t)) :: u64;
          interval_nanos = word_of_nat (as_nanos (tc_interval t)) :: u64
      in if interval_nanos = 0 then 0 else retention_nanos div interval_nanos)"

definition tier_validate :: "tier_config \<Rightarrow> unit res" where
  "tier_validate t =
     (if dur_is_zero (tc_interval t) then
        err (Schema (InvalidTierConfig ''interval cannot be zero''))
      else if dur_is_zero (tc_retention t) then
        err (Schema (InvalidTierConfig ''retention cannot be zero''))
      else if tc_retention t < tc_interval t then
        err (Schema (InvalidTierConfig
          (''retention ('' @ fmt_duration (tc_retention t) @ '') must be >= interval (''
            @ fmt_duration (tc_interval t) @ '')'')))
      else if tier_slot_count t > MAX_SLOTS_PER_TIER then
        err (Schema (TooManySlots 0 (tier_slot_count t) MAX_SLOTS_PER_TIER
          (tc_retention t) (tc_interval t)))
      else Inr ())"

definition tier_new :: "duration \<Rightarrow> duration \<Rightarrow> consolidation_fn option \<Rightarrow> tier_config res" where
  "tier_new interval retention fn =
     (let config = \<lparr> tc_interval = interval, tc_retention = retention, tc_consolidation_fn = fn \<rparr>
      in rbind (tier_validate config) (\<lambda>_. Inr config))"

section \<open>Label matching\<close>

definition matcher_new :: "(string \<times> string) list \<Rightarrow> label_matcher" where
  "matcher_new labels = fold (\<lambda>(k, v). bt_insert k v) labels []"

definition matcher_any :: label_matcher where
  "matcher_any = []"

text \<open>
  The labels of the series are collected into a \<open>HashMap\<close>: the last value of a
  repeated key counts.
\<close>

definition matches :: "label_matcher \<Rightarrow> labels \<Rightarrow> bool" where
  "matches matcher labels =
     (let label_map = fold (\<lambda>(k, v). hm_insert k v) labels [] in
      list_all (\<lambda>(required_key, required_value).
        case hm_get label_map required_key of
          Some value \<Rightarrow> value = required_value | None \<Rightarrow> False) matcher)"

definition matcher_labels :: "label_matcher \<Rightarrow> (string \<times> string) list" where
  "matcher_labels matcher = matcher"

definition label_count :: "label_matcher \<Rightarrow> usize" where
  "label_count matcher = length matcher"

definition is_any :: "label_matcher \<Rightarrow> bool" where
  "is_any matcher = (matcher = [])"

section \<open>Schemas\<close>

fun validate_order :: "tier_config list \<Rightarrow> unit res" where
  "validate_order (current # nxt # rest) =
     (if tc_interval current \<ge> tc_interval nxt then err (Schema TiersNotOrdered)
      else validate_order (nxt # rest))"
| "validate_order _ = Inr ()"

definition schema_validate :: "schema_config \<Rightarrow> unit res" where
  "schema_validate c =
     (if sc_tiers c = [] then err (Schema NoTiers)
      else if sc_max_series c = 0 then err (Schema (InvalidMaxSeries (sc_max_series c)))
      else rbind (map_res tier_validate (sc_tiers c)) (\<lambda>_.
        rbind (validate_order (sc_tiers c)) (\<lambda>_.
          if tc_consolidation_fn (hd (sc_tiers c)) \<noteq> None
          then err (Schema ConsolidationOnHighestTier) else Inr ())))"

definition schema_new ::
    "string \<Rightarrow> label_matcher \<Rightarrow> tier_config list \<Rightarrow> u32 \<Rightarrow> schema_config res" where
  "schema_new name label_matcher tiers max_series =
     (let config = \<lparr> sc_name = name, sc_label_matcher = label_matcher, sc_tiers = tiers,
                     sc_max_series = max_series \<rparr>
      in rbind (schema_validate config) (\<lambda>_. Inr config))"

type_synonym schema_hasher = "label_matcher \<Rightarrow> tier_config list \<Rightarrow> u32 \<Rightarrow> u64"

definition stable_hash :: "schema_hasher \<Rightarrow> schema_config \<Rightarrow> u64" where
  "stable_hash hasher c = hasher (sc_label_matcher c) (sc_tiers c) (sc_max_series c)"

definition matches_labels :: "schema_config \<Rightarrow> labels \<Rightarrow> bool" where
  "matches_labels c labels = matches (sc_label_matcher c) labels"

section \<open>Consolidation functions\<close>

definition apply_fn :: "consolidation_fn \<Rightarrow> f64 list \<Rightarrow> f64" where
  "apply_fn fn values =
     (let valid_values = filter is_finite values in
      if valid_values = [] then f_nan
      else case fn of
        Average \<Rightarrow> f_div (f_sum valid_values) (f_of_nat (length valid_values))
      | Min_fn \<Rightarrow> fold (\<lambda>v acc. f_min acc v) valid_values f_inf
      | Max_fn \<Rightarrow> fold (\<lambda>v acc. f_max acc v) valid_values f_neg_inf
      | Last \<Rightarrow> last valid_values
      | Sum \<Rightarrow> f_sum valid_values
      | Count \<Rightarrow> f_of_nat (length valid_values))"

section \<open>Facts about tiers\<close>

text \<open>Durations below 585 years, for which the code's 64-bit nanosecond counts are exact.\<close>

definition tier_representable :: "tier_config \<Rightarrow> bool" where
  "tier_representable t \<longleftrightarrow> dur_wf (tc_interval t) \<and> dur_wf (tc_retention t) \<and>
     as_nanos (tc_interval t) < 2 ^ 64 \<and> as_nanos (tc_retention t) < 2 ^ 64"

lemma tier_validate_ok:
  "tier_validate t = Inr () \<longleftrightarrow>
     \<not> dur_is_zero (tc_interval t) \<and> \<not> dur_is_zero (tc_retention t) \<and>
     tc_interval t \<le> tc_retention t \<and> tier_slot_count t \<le> MAX_SLOTS_PER_TIER"
  by (auto simp: tier_validate_def not_less)

lemma tier_slot_count_exact:
  "tier_representable t \<Longrightarrow>
     unat (tier_slot_count t) = as_nanos (tc_retention t) div as_nanos (tc_interval t)"
  by (auto simp: tier_slot_count_def tier_representable_def Let_def unat_div u64_of_nat
      word_unat_eq_iff)

lemma tier_slots_ok:
  assumes "tier_validate t = Inr ()" and "tier_representable t"
  shows "unat (tier_slot_count t) = as_nanos (tc_retention t) div as_nanos (tc_interval t) \<and>
    1 \<le> unat (tier_slot_count t) \<and> unat (tier_slot_count t) \<le> 10 ^ 9"
proof -
  have zero: "0 < as_nanos (tc_interval t)"
    using assms(1) as_nanos_zero [of "tc_interval t"] by (auto simp: tier_validate_ok)
  have "as_nanos (tc_interval t) \<le> as_nanos (tc_retention t)"
    using assms by (simp add: tier_validate_ok tier_representable_def as_nanos_le)
  then have "1 \<le> as_nanos (tc_retention t) div as_nanos (tc_interval t)"
    using zero by (simp add: Suc_le_eq div_greater_zero_iff)
  moreover have "unat (tier_slot_count t) \<le> 10 ^ 9"
    using assms(1) by (simp add: tier_validate_ok MAX_SLOTS_PER_TIER_def word_le_nat_alt)
  ultimately show ?thesis
    using tier_slot_count_exact [OF assms(2)] by simp
qed

text \<open>
  A tier accepted by \<open>TierConfig::validate\<close> whose durations fit in 64-bit
  nanosecond counts has between one and a billion slots, and the slot count is the
  exact quotient of retention and interval.
\<close>

theorem tier_slots_bounds:
  assumes "tier_validate t = Inr ()" and "tier_representable t"
  shows "unat (tier_slot_count t) = as_nanos (tc_retention t) div as_nanos (tc_interval t) \<and>
    1 \<le> unat (tier_slot_count t) \<and> unat (tier_slot_count t) \<le> 10 ^ 9"
  using assms by (rule tier_slots_ok)

definition hour_tier :: tier_config where
  "hour_tier = \<lparr> tc_interval = from_secs 1, tc_retention = from_secs 3600,
     tc_consolidation_fn = None \<rparr>"

lemmas tier_eval = hour_tier_def tier_validate_ok dur_is_zero_def from_secs_def
  less_eq_duration_def tier_slot_count_def as_nanos_def MAX_SLOTS_PER_TIER_def
  tier_representable_def dur_wf_def

theorem tier_slots_bounds_witness: "unat (tier_slot_count hour_tier) = 3600"
proof -
  have "tier_validate hour_tier = Inr ()" and "tier_representable hour_tier"
    by (simp_all add: tier_eval)
  from tier_slots_bounds [OF this] show ?thesis
    by (simp add: tier_eval)
qed

text \<open>
  Beyond 64-bit nanosecond counts the truncation of \<open>slot_count\<close> loses the
  size: a retention of 18446744074 seconds at one sample per second passes the
  validation although the tier has no slot at all.
\<close>

theorem truncated_tier_has_no_slots:
  "tier_validate (hour_tier\<lparr>tc_retention := from_secs 18446744074\<rparr>) = Inr () \<and>
   tier_slot_count (hour_tier\<lparr>tc_retention := from_secs 18446744074\<rparr>) = 0"
  by (simp add: tier_eval)

section \<open>Facts about schemas\<close>

lemma validate_order_ok:
  "validate_order ts = Inr () \<longleftrightarrow> sorted_wrt (<) (map tc_interval ts)"
  by (induction ts rule: validate_order.induct) (auto simp: not_le intro: less_trans)

lemma validate_tiers_ok:
  "(\<exists>us. map_res tier_validate ts = Inr us) \<longleftrightarrow> list_all (\<lambda>t. tier_validate t = Inr ()) ts"
  by (induction ts) (auto simp: rbind_eq_Inr)

lemma schema_validate_ok:
  "schema_validate c = Inr () \<longleftrightarrow>
     sc_tiers c \<noteq> [] \<and> sc_max_series c \<noteq> 0 \<and>
     list_all (\<lambda>t. tier_validate t = Inr ()) (sc_tiers c) \<and>
     sorted_wrt (<) (map tc_interval (sc_tiers c)) \<and>
     tc_consolidation_fn (hd (sc_tiers c)) = None"
  unfolding schema_validate_def
  by (auto simp: rbind_eq_Inr validate_order_ok validate_tiers_ok [symmetric])

text \<open>
  \<open>SchemaConfig::validate\<close> accepts exactly the configurations with at least one
  tier, room for at least one series, valid tiers of strictly increasing interval
  over the whole list, and no consolidation function on the first tier.
\<close>

theorem schema_validate_spec:
  "schema_validate c = Inr () \<longleftrightarrow>
     sc_tiers c \<noteq> [] \<and> sc_max_series c \<noteq> 0 \<and>
     list_all (\<lambda>t. tier_validate t = Inr ()) (sc_tiers c) \<and>
     sorted_wrt (<) (map tc_interval (sc_tiers c)) \<and>
     tc_consolidation_fn (hd (sc_tiers c)) = None"
  by (rule schema_validate_ok)

lemma schema_new_valid: "schema_new n m ts k = Inr c \<Longrightarrow> schema_validate c = Inr ()"
  by (auto simp: schema_new_def rbind_eq_Inr Let_def)

section \<open>Facts about matchers\<close>

lemma matcher_new_wf: "bt_wf (matcher_new req)"
  unfolding matcher_new_def by (rule bt.inv_fold_put) (rule bt.inv_empty)

lemma map_of_matcher_new: "map_of (matcher_new req) k = map_of (rev req) k"
  by (simp add: matcher_new_def bt.get_fold_put split: option.splits)

lemma hm_collect: "hm_get (fold (\<lambda>(k, v). hm_insert k v) labels []) k = map_of (rev labels) k"
  by (simp add: hm.get_fold_put hm.get_empty split: option.splits)

lemma matches_iff:
  "matches m labels \<longleftrightarrow> (\<forall>(k, v) \<in> set m. map_of (rev labels) k = Some v)"
  by (auto simp: matches_def hm_collect list_all_iff split: option.splits)

text \<open>
  A matcher built from required labels matches a series exactly when the required
  map is contained in the map of the series' labels, whatever the order and the
  repetitions in the two lists.
\<close>

theorem matches_spec:
  "matches (matcher_new req) labels \<longleftrightarrow> map_of (rev req) \<subseteq>\<^sub>m map_of (rev labels)"
proof -
  have "matches (matcher_new req) labels \<longleftrightarrow>
      (\<forall>k v. map_of (matcher_new req) k = Some v \<longrightarrow> map_of (rev labels) k = Some v)"
    using bt_mem_iff [OF matcher_new_wf [of req]] by (fastforce simp: matches_iff)
  then show ?thesis
    by (auto simp: map_le_def dom_def map_of_matcher_new)
qed

section \<open>Facts about consolidation functions\<close>

lemma apply_fn_none: "filter is_finite vs = [] \<Longrightarrow> apply_fn fn vs = f_nan"
  by (simp add: apply_fn_def)

lemma apply_fn_filter: "apply_fn fn (filter is_finite vs) = apply_fn fn vs"
  by (simp add: apply_fn_def)

lemma f_min_fold:
  "list_all is_finite vs \<Longrightarrow> \<not> is_nan a \<Longrightarrow>
     fold (\<lambda>v acc. f_min acc v) vs a \<in> insert a (set vs) \<and>
     f_key (fold (\<lambda>v acc. f_min acc v) vs a) = Min (f_key ` insert a (set vs))"
proof (induction vs arbitrary: a)
  case (Cons v vs)
  have v: "\<not> is_nan v" using Cons.prems by (simp add: finite_not_nan)
  have "\<not> is_nan (f_min a v)"
    using f_min_cases [of a v] v Cons.prems by auto
  with Cons have IH: "fold (\<lambda>v acc. f_min acc v) vs (f_min a v) \<in> insert (f_min a v) (set vs)"
    "f_key (fold (\<lambda>v acc. f_min acc v) vs (f_min a v)) = Min (f_key ` insert (f_min a v) (set vs))"
    by auto
  then show ?case
    using f_min_cases [of a v] f_key_min [OF Cons.prems(2) v]
    by (cases "vs = []") (auto simp: Min_insert min.assoc)
qed simp

lemma f_max_fold:
  "list_all is_finite vs \<Longrightarrow> \<not> is_nan a \<Longrightarrow>
     fold (\<lambda>v acc. f_max acc v) vs a \<in> insert a (set vs) \<and>
     f_key (fold (\<lambda>v acc. f_max acc v) vs a) = Max (f_key ` insert a (set vs))"
proof (induction vs arbitrary: a)
  case (Cons v vs)
  have v: "\<not> is_nan v" using Cons.prems by (simp add: finite_not_nan)
  have "\<not> is_nan (f_max a v)"
    using f_max_cases [of a v] v Cons.prems by auto
  with Cons have IH: "fold (\<lambda>v acc. f_max acc v) vs (f_max a v) \<in> insert (f_max a v) (set vs)"
    "f_key (fold (\<lambda>v acc. f_max acc v) vs (f_max a v)) = Max (f_key ` insert (f_max a v) (set vs))"
    by auto
  then show ?case
    using f_max_cases [of a v] f_key_max [OF Cons.prems(2) v]
    by (cases "vs = []") (auto simp: Max_insert max.assoc)
qed simp

text \<open>The infinite start value of the two folds drops out as soon as there is a finite sample.\<close>

lemma Min_insert_large:
  assumes "finite A" "A \<noteq> {}" "\<forall>x \<in> A. x < (b :: int)"
  shows "Min (insert b A) = Min A"
  using assms by (metis Min_in Min_insert min.absorb2 order_less_imp_le)

lemma Max_insert_small:
  assumes "finite A" "A \<noteq> {}" "\<forall>x \<in> A. (b :: int) < x"
  shows "Max (insert b A) = Max A"
  using assms by (metis Max_in Max_insert max.absorb2 order_less_imp_le)

lemma apply_min:
  assumes "vs \<noteq> []" and fin: "list_all is_finite vs"
  shows "apply_fn Min_fn vs \<in> set vs \<and> f_key (apply_fn Min_fn vs) = Min (f_key ` set vs)"
proof -
  let ?r = "fold (\<lambda>v acc. f_min acc v) vs f_inf"
  have r: "apply_fn Min_fn vs = ?r"
    using assms by (simp add: apply_fn_def filter_id_conv list_all_iff)
  have lt: "\<forall>x \<in> f_key ` set vs. x < f_key f_inf"
    using fin finite_key_bounds by (fastforce simp: list_all_iff f_key_inf)
  have m: "?r \<in> insert f_inf (set vs)" "f_key ?r = Min (insert (f_key f_inf) (f_key ` set vs))"
    using f_min_fold [OF fin not_nan_inf(1)] by simp_all
  then have k: "f_key ?r = Min (f_key ` set vs)"
    using Min_insert_large [OF _ _ lt] assms(1) by simp
  have "f_key ?r \<in> f_key ` set vs"
    using assms(1) by (simp add: k)
  then have "?r \<noteq> f_inf" using lt by force
  then show ?thesis using m k r by auto
qed

lemma apply_max:
  assumes "vs \<noteq> []" and fin: "list_all is_finite vs"
  shows "apply_fn Max_fn vs \<in> set vs \<and> f_key (apply_fn Max_fn vs) = Max (f_key ` set vs)"
proof -
  let ?r = "fold (\<lambda>v acc. f_max acc v) vs f_neg_inf"
  have r: "apply_fn Max_fn vs = ?r"
    using assms by (simp add: apply_fn_def filter_id_conv list_all_iff)
  have lt: "\<forall>x \<in> f_key ` set vs. f_key f_neg_inf < x"
    using fin finite_key_bounds by (fastforce simp: list_all_iff f_key_inf)
  have m: "?r \<in> insert f_neg_inf (set vs)"
    "f_key ?r = Max (insert (f_key f_neg_inf) (f_key ` set vs))"
    using f_max_fold [OF fin not_nan_inf(2)] by simp_all
  then have k: "f_key ?r = Max (f_key ` set vs)"
    using Max_insert_small [OF _ _ lt] assms(1) by simp
  have "f_key ?r \<in> f_key ` set vs"
    using assms(1) by (simp add: k)
  then have "?r \<noteq> f_neg_inf" using lt by force
  then show ?thesis using m k r by auto
qed

text \<open>
  Over any list of samples with a finite one, \<open>Min\<close> and \<open>Max\<close> return one of the
  finite samples, the least and the greatest of them; NaN and infinite samples
  have no influence.
\<close>

theorem apply_extrema:
  assumes "filter is_finite vs \<noteq> []"
  shows "apply_fn Min_fn vs \<in> set (filter is_finite vs) \<and>
    f_key (apply_fn Min_fn vs) = Min (f_key ` set (filter is_finite vs)) \<and>
    apply_fn Max_fn vs \<in> set (filter is_finite vs) \<and>
    f_key (apply_fn Max_fn vs) = Max (f_key ` set (filter is_finite vs))"
  using apply_min [OF assms] apply_max [OF assms]
  by (simp only: apply_fn_filter list_all_iff set_filter) simp

theorem apply_extrema_witness:
  "f_key (apply_fn Min_fn [f_nan, f_one, f_zero, f_inf]) = 0 \<and>
   apply_fn Max_fn [f_nan, f_one, f_zero, f_inf] \<in> {f_one, f_zero}"
proof -
  have f: "filter is_finite [f_nan, f_one, f_zero, f_inf] = [f_one, f_zero]"
    by (simp add: f64_classes f_zero_def is_nan_def is_infinite_def f_one_def f_inf_def f_nan_def
        f_pattern_def inf_pattern_def)
  have "Min (f_key ` {f_one, f_zero}) = 0"
    by (simp add: f_key_def f_sign_def f_one_def f_zero_def f_pattern_def)
  then show ?thesis
    using apply_extrema [of "[f_nan, f_one, f_zero, f_inf]"] by (simp only: f) simp
qed

lemma f_of_nat_1: "f_of_nat 1 = f_one"
proof -
  have "round_mag (pat_mag (f_pattern f_one) * 1) 1 = f_pattern f_one"
    by (rule round_mag_exact) (simp_all add: f_pattern_def f_one_def inf_pattern_def)
  moreover have "pat_mag (f_pattern f_one) = 2 ^ 1074"
    using f_mag_one by (simp add: f_mag_def)
  ultimately show ?thesis
    using mk_f64_eta [of f_one] f_sign_one by (simp add: f_of_nat_def round_f64_def)
qed

lemma apply_single_fn: "is_finite x \<Longrightarrow> fn \<noteq> Count \<Longrightarrow> apply_fn fn [x] = x"
  using apply_min [of "[x]"] apply_max [of "[x]"] f_sum_single [of x] f_div_one [of x] f_of_nat_1
  by (cases fn) (simp_all add: apply_fn_def)

text \<open>
  A window with a single finite sample consolidates to that sample, bit for bit,
  under every function other than \<open>Count\<close>.
\<close>

theorem apply_single:
  assumes "is_finite x" and "fn \<noteq> Count"
  shows "apply_fn fn [x] = x"
  using assms by (rule apply_single_fn)

theorem apply_single_witness: "apply_fn Average [f_one] = f_one"
  by (rule apply_single) simp_all

text \<open>
  \<open>Sum\<close> and \<open>Average\<close> do not keep finite samples finite: the sum of two finite
  samples can be infinite, and a ring then refuses the consolidated value.
\<close>

theorem sum_overflows:
  "is_finite f_huge \<and> apply_fn Sum [f_huge, f_huge] = f_inf"
  by (simp add: apply_fn_def f_huge_facts f_sum_def f_add_neg_zero f_add_overflow)

end
