(* ===== verification/Slab.thy ===== *)
theory Slab
  imports Errors Bytes
begin

text \<open>
  \<open>rondo/src/slab.rs\<close>: the memory-mapped file of one tier. A slab is the bytes of
  its mapping with the layout computed from two header fields. The accessors of the
  data region compute an offset and use it unchecked, so an index out of range
  reads or writes another column or leaves the mapping (\<open>UB\<close>). The header
  accessors need no check: a slab is at least as long as its header. The operating
  system decides whether a call succeeds: \<open>os\<close> gives the outcome of each call.
\<close>

section \<open>Data\<close>

record slab_layout =
  file_size :: usize
  series_dir_offset :: usize
  timestamp_column_offset :: usize
  value_columns_offset :: usize
  value_column_size :: usize

record slab_header =
  hd_magic :: "u8 list"
  hd_version :: u32
  hd_schema_hash :: u64
  hd_slot_count :: u32
  hd_max_series :: u32
  hd_interval_ns :: u64
  hd_write_cursor :: u32
  hd_series_count :: u32
  hd_reserved :: "u8 list"

record slab =
  sl_mmap :: memory
  sl_layout :: slab_layout
  sl_path :: string

text \<open>The outcome of the system calls on a path: the error, or \<open>None\<close> for success.\<close>

record os =
  os_create :: "string \<Rightarrow> io_error option"
  os_set_len :: "string \<Rightarrow> usize \<Rightarrow> io_error option"
  os_open :: "string \<Rightarrow> io_error option"
  os_stat :: "string \<Rightarrow> io_error option"
  os_map :: "string \<Rightarrow> io_error option"
  os_flush :: "string \<Rightarrow> io_error option"
  os_read :: "string \<Rightarrow> io_error option"
  os_write :: "string \<Rightarrow> io_error option"
  os_mkdir :: "string \<Rightarrow> io_error option"

definition os_ok :: os where
  "os_ok = \<lparr> os_create = (\<lambda>_. None), os_set_len = (\<lambda>_ _. None), os_open = (\<lambda>_. None),
     os_stat = (\<lambda>_. None),
     os_map = (\<lambda>_. None), os_flush = (\<lambda>_. None), os_read = (\<lambda>_. None),
     os_write = (\<lambda>_. None), os_mkdir = (\<lambda>_. None) \<rparr>"

text \<open>
  The files: slab files hold bytes, the other files text. A text file is replaced as a
  whole; a failed write leaves the old contents. \<open>dk_dir\<close> tells the directories.
\<close>

record disk =
  dk_text :: "string \<Rightarrow> string option"
  dk_slab :: "string \<Rightarrow> memory option"
  dk_dir :: "string \<Rightarrow> bool"

definition empty_disk :: disk where
  "empty_disk = \<lparr> dk_text = (\<lambda>_. None), dk_slab = (\<lambda>_. None), dk_dir = (\<lambda>_. False) \<rparr>"

definition NOT_FOUND :: io_error where
  "NOT_FOUND = ''No such file or directory (os error 2)''"

definition read_text :: "os \<Rightarrow> disk \<Rightarrow> string \<Rightarrow> io_error + string" where
  "read_text os d path =
     (case os_read os path of Some e \<Rightarrow> Inl e
      | None \<Rightarrow> (case dk_text d path of None \<Rightarrow> Inl NOT_FOUND | Some s \<Rightarrow> Inr s))"

definition write_text :: "os \<Rightarrow> disk \<Rightarrow> string \<Rightarrow> string \<Rightarrow> io_error + disk" where
  "write_text os d path s =
     (case os_write os path of Some e \<Rightarrow> Inl e
      | None \<Rightarrow> Inr (d\<lparr>dk_text := (dk_text d)(path := Some s)\<rparr>))"

lemma read_after_write:
  "write_text os d path s = Inr d' \<Longrightarrow> os_read os path = None \<Longrightarrow> read_text os d' path = Inr s"
  by (auto simp: write_text_def read_text_def split: option.splits)

definition SLAB_MAGIC :: "u8 list" where "SLAB_MAGIC = [0x52, 0x4E, 0x44, 0x4F]"
definition SLAB_VERSION :: u32 where "SLAB_VERSION = 1"
definition HEADER_SIZE :: usize where "HEADER_SIZE = 64"
definition SERIES_DIR_ENTRY_SIZE :: usize where "SERIES_DIR_ENTRY_SIZE = 4"
definition TIMESTAMP_SIZE :: usize where "TIMESTAMP_SIZE = 8"
definition VALUE_SIZE :: usize where "VALUE_SIZE = 8"

section \<open>Header\<close>

definition header_new :: "u64 \<Rightarrow> u32 \<Rightarrow> u32 \<Rightarrow> u64 \<Rightarrow> slab_header" where
  "header_new schema_hash slot_count max_series interval_ns =
     \<lparr> hd_magic = SLAB_MAGIC, hd_version = SLAB_VERSION, hd_schema_hash = schema_hash,
       hd_slot_count = slot_count, hd_max_series = max_series, hd_interval_ns = interval_ns,
       hd_write_cursor = 0, hd_series_count = 0, hd_reserved = replicate 16 0 \<rparr>"

definition header_validate :: "slab_header \<Rightarrow> string \<Rightarrow> unit res" where
  "header_validate h path =
     (if hd_magic h \<noteq> SLAB_MAGIC then
        err (SlabIo (CorruptedSlab path
          (''invalid magic bytes: expected '' @ fmt_nats (map unat SLAB_MAGIC) @ '', found ''
            @ fmt_nats (map unat (hd_magic h)))))
      else if hd_version h \<noteq> SLAB_VERSION then
        err (SlabIo (CorruptedSlab path
          (''unsupported version: expected '' @ fmt_nat (unat SLAB_VERSION) @ '', found ''
            @ fmt_nat (unat (hd_version h)))))
      else Inr ())"

text \<open>The \<open>repr(C)\<close> image of the header: 56 bytes without padding.\<close>

definition header_bytes :: "slab_header \<Rightarrow> u8 list" where
  "header_bytes h =
     hd_magic h @ enc32 (hd_version h) @ enc64 (hd_schema_hash h) @ enc32 (hd_slot_count h)
       @ enc32 (hd_max_series h) @ enc64 (hd_interval_ns h) @ enc32 (hd_write_cursor h)
       @ enc32 (hd_series_count h) @ hd_reserved h"

definition header_read :: "memory \<Rightarrow> slab_header" where
  "header_read m =
     \<lparr> hd_magic = peek m 0 4, hd_version = dec32 (peek m 4 4),
       hd_schema_hash = dec64 (peek m 8 8), hd_slot_count = dec32 (peek m 16 4),
       hd_max_series = dec32 (peek m 20 4), hd_interval_ns = dec64 (peek m 24 8),
       hd_write_cursor = dec32 (peek m 32 4), hd_series_count = dec32 (peek m 36 4),
       hd_reserved = peek m 40 16 \<rparr>"

section \<open>Layout\<close>

definition layout_new :: "u32 \<Rightarrow> u32 \<Rightarrow> slab_layout" where
  "layout_new slot_count max_series =
     (let slot_count = unat slot_count;
          max_series = unat max_series;
          series_dir_size = umul max_series SERIES_DIR_ENTRY_SIZE;
          data_region_offset = uadd HEADER_SIZE series_dir_size;
          timestamp_column_size = umul slot_count TIMESTAMP_SIZE;
          column_size = umul slot_count VALUE_SIZE;
          total_value_columns_size = umul max_series column_size;
          values_offset = uadd data_region_offset timestamp_column_size
      in \<lparr> file_size = uadd values_offset total_value_columns_size,
           series_dir_offset = HEADER_SIZE,
           timestamp_column_offset = data_region_offset,
           value_columns_offset = values_offset,
           value_column_size = column_size \<rparr>)"

definition value_column_offset :: "slab_layout \<Rightarrow> u32 \<Rightarrow> usize" where
  "value_column_offset l series_column =
     uadd (value_columns_offset l) (umul (unat series_column) (value_column_size l))"

section \<open>Creating and opening\<close>

definition initialize_data_region :: "memory \<Rightarrow> slab_layout \<Rightarrow> u32 \<Rightarrow> u32 \<Rightarrow> memory res" where
  "initialize_data_region m layout slot_count max_series =
     rbind (fold_res (\<lambda>i m. put_bytes m (timestamp_column_offset layout + 8 * i) (enc64 0))
              [0..<unat slot_count] m)
       (\<lambda>m. fold_res
          (\<lambda>series m. fold_res
             (\<lambda>i m. put_bytes m (value_column_offset layout (word_of_nat series) + 8 * i)
                (enc64 (to_bits f_nan)))
             [0..<unat slot_count] m)
          [0..<unat max_series] m)"

definition slab_create ::
    "os \<Rightarrow> string \<Rightarrow> u64 \<Rightarrow> u32 \<Rightarrow> u32 \<Rightarrow> u64 \<Rightarrow> slab res" where
  "slab_create os path schema_hash slot_count max_series interval_ns =
     (let layout = layout_new slot_count max_series in
      case os_create os path of Some e \<Rightarrow> err (SlabIo (WriteFailed path 0 e)) | None \<Rightarrow>
      case os_set_len os path (file_size layout) of
        Some e \<Rightarrow> err (SlabIo (WriteFailed path 0 e)) | None \<Rightarrow>
      case os_map os path of Some e \<Rightarrow> err (SlabIo (WriteFailed path 0 e)) | None \<Rightarrow>
      let header = header_new schema_hash slot_count max_series interval_ns in
      rbind (put_bytes (replicate (file_size layout) 0) 0 (header_bytes header)) (\<lambda>m.
      rbind (fold_res (\<lambda>i m. put_bytes m (series_dir_offset layout + 4 * i) (enc32 (- 1)))
               [0..<unat max_series] m) (\<lambda>m.
      rbind (initialize_data_region m layout slot_count max_series) (\<lambda>m.
      Inr \<lparr> sl_mmap = m, sl_layout = layout, sl_path = path \<rparr>))))"

text \<open>\<open>content\<close> is what the file at \<open>path\<close> holds when it is opened.\<close>

definition slab_open :: "os \<Rightarrow> memory \<Rightarrow> string \<Rightarrow> slab res" where
  "slab_open os content path =
     (case os_open os path of Some e \<Rightarrow> err (SlabIo (ReadFailed path 0 e)) | None \<Rightarrow>
      case os_map os path of Some e \<Rightarrow> err (SlabIo (ReadFailed path 0 e)) | None \<Rightarrow>
      if length content < HEADER_SIZE then
        err (SlabIo (CorruptedSlab path
          (''file too small: '' @ fmt_nat (length content) @ '' bytes, expected at least ''
            @ fmt_nat HEADER_SIZE)))
      else let header = header_read content in
      rbind (header_validate header path) (\<lambda>_.
      let layout = layout_new (hd_slot_count header) (hd_max_series header) in
      if length content \<noteq> file_size layout then
        err (SlabIo (CorruptedSlab path
          (''file size mismatch: '' @ fmt_nat (length content) @ '' bytes, expected ''
            @ fmt_nat (file_size layout))))
      else Inr \<lparr> sl_mmap = content, sl_layout = layout, sl_path = path \<rparr>))"

section \<open>Header accessors\<close>

definition slab_schema_hash :: "slab \<Rightarrow> u64" where
  "slab_schema_hash s = hd_schema_hash (header_read (sl_mmap s))"

definition slab_slot_count :: "slab \<Rightarrow> u32" where
  "slab_slot_count s = hd_slot_count (header_read (sl_mmap s))"

definition slab_max_series :: "slab \<Rightarrow> u32" where
  "slab_max_series s = hd_max_series (header_read (sl_mmap s))"

definition slab_interval_ns :: "slab \<Rightarrow> u64" where
  "slab_interval_ns s = hd_interval_ns (header_read (sl_mmap s))"

definition slab_write_cursor :: "slab \<Rightarrow> u32" where
  "slab_write_cursor s = hd_write_cursor (header_read (sl_mmap s))"

definition slab_series_count :: "slab \<Rightarrow> u32" where
  "slab_series_count s = hd_series_count (header_read (sl_mmap s))"

definition set_write_cursor :: "slab \<Rightarrow> u32 \<Rightarrow> slab" where
  "set_write_cursor s pos = s\<lparr>sl_mmap := poke (sl_mmap s) 32 (enc32 pos)\<rparr>"

definition set_series_count :: "slab \<Rightarrow> u32 \<Rightarrow> slab" where
  "set_series_count s count = s\<lparr>sl_mmap := poke (sl_mmap s) 36 (enc32 count)\<rparr>"

section \<open>Data accessors\<close>

definition write_timestamp :: "slab \<Rightarrow> u32 \<Rightarrow> u64 \<Rightarrow> slab res" where
  "write_timestamp s slot_index timestamp =
     (let offset = uadd (timestamp_column_offset (sl_layout s)) (umul (unat slot_index) TIMESTAMP_SIZE)
      in rbind (put_bytes (sl_mmap s) offset (enc64 timestamp)) (\<lambda>m. Inr (s\<lparr>sl_mmap := m\<rparr>)))"

definition read_timestamp :: "slab \<Rightarrow> u32 \<Rightarrow> u64 res" where
  "read_timestamp s slot_index =
     (let offset = uadd (timestamp_column_offset (sl_layout s)) (umul (unat slot_index) TIMESTAMP_SIZE)
      in rbind (get_bytes (sl_mmap s) offset 8) (\<lambda>bs. Inr (dec64 bs)))"

definition write_value :: "slab \<Rightarrow> u32 \<Rightarrow> u32 \<Rightarrow> f64 \<Rightarrow> slab res" where
  "write_value s slot_index series_column v =
     (let column_offset = value_column_offset (sl_layout s) series_column;
          offset = uadd column_offset (umul (unat slot_index) VALUE_SIZE)
      in rbind (put_bytes (sl_mmap s) offset (enc64 (to_bits v))) (\<lambda>m. Inr (s\<lparr>sl_mmap := m\<rparr>)))"

definition read_value :: "slab \<Rightarrow> u32 \<Rightarrow> u32 \<Rightarrow> f64 res" where
  "read_value s slot_index series_column =
     (let column_offset = value_column_offset (sl_layout s) series_column;
          offset = uadd column_offset (umul (unat slot_index) VALUE_SIZE)
      in rbind (get_bytes (sl_mmap s) offset 8) (\<lambda>bs. Inr (F64 (dec64 bs))))"

definition get_series_column :: "slab \<Rightarrow> u32 \<Rightarrow> u32 option res" where
  "get_series_column s series_id =
     (if series_id \<ge> slab_max_series s then Inr None
      else let offset = uadd (series_dir_offset (sl_layout s)) (umul (unat series_id) SERIES_DIR_ENTRY_SIZE)
      in rbind (get_bytes (sl_mmap s) offset 4) (\<lambda>bs.
           let column = dec32 bs in Inr (if column = - 1 then None else Some column)))"

definition set_series_column :: "slab \<Rightarrow> u32 \<Rightarrow> u32 \<Rightarrow> slab res" where
  "set_series_column s series_id column =
     (let offset = uadd (series_dir_offset (sl_layout s)) (umul (unat series_id) SERIES_DIR_ENTRY_SIZE)
      in rbind (put_bytes (sl_mmap s) offset (enc32 column)) (\<lambda>m. Inr (s\<lparr>sl_mmap := m\<rparr>)))"

definition slab_sync :: "os \<Rightarrow> slab \<Rightarrow> unit res" where
  "slab_sync os s =
     (case os_flush os (sl_path s) of Some e \<Rightarrow> err (SlabIo (SyncFailed (sl_path s) e))
      | None \<Rightarrow> Inr ())"

section \<open>The abstract table\<close>

text \<open>
  What a slab stores, without its bytes: the configuration, the two counters of the
  header, the series directory, one timestamp per slot and one value per slot and
  column. \<open>slab_table\<close> reads the table off the bytes.
\<close>

record table =
  tb_hash :: u64
  tb_slots :: u32
  tb_cols :: u32
  tb_interval :: u64
  tb_cursor :: u32
  tb_count :: u32
  tb_dir :: "u32 \<Rightarrow> u32"
  tb_ts :: "u32 \<Rightarrow> u64"
  tb_val :: "u32 \<Rightarrow> u32 \<Rightarrow> f64"

definition slab_size :: "nat \<Rightarrow> nat \<Rightarrow> nat" where
  "slab_size sc ms = 64 + 4 * ms + 8 * sc + ms * (8 * sc)"

definition dir_cell :: "nat \<Rightarrow> nat" where
  "dir_cell i = 64 + 4 * i"

definition ts_cell :: "nat \<Rightarrow> nat \<Rightarrow> nat" where
  "ts_cell ms i = 64 + 4 * ms + 8 * i"

definition val_cell :: "nat \<Rightarrow> nat \<Rightarrow> nat \<Rightarrow> nat \<Rightarrow> nat" where
  "val_cell sc ms c i = 64 + 4 * ms + 8 * sc + c * (8 * sc) + 8 * i"

definition slab_wf :: "slab \<Rightarrow> bool" where
  "slab_wf s \<longleftrightarrow>
     (let h = header_read (sl_mmap s); sc = unat (hd_slot_count h); ms = unat (hd_max_series h) in
      slab_size sc ms < 2 ^ 64 \<and> length (sl_mmap s) = slab_size sc ms \<and>
      sl_layout s = layout_new (hd_slot_count h) (hd_max_series h) \<and>
      hd_magic h = SLAB_MAGIC \<and> hd_version h = SLAB_VERSION)"

definition slab_table :: "slab \<Rightarrow> table" where
  "slab_table s =
     (let m = sl_mmap s; h = header_read m; scw = hd_slot_count h; msw = hd_max_series h;
          sc = unat scw; ms = unat msw in
      \<lparr> tb_hash = hd_schema_hash h, tb_slots = scw, tb_cols = msw,
        tb_interval = hd_interval_ns h, tb_cursor = hd_write_cursor h,
        tb_count = hd_series_count h,
        tb_dir = (\<lambda>i. if i < msw then dec32 (peek m (dir_cell (unat i)) 4) else - 1),
        tb_ts = (\<lambda>i. if i < scw then dec64 (peek m (ts_cell ms (unat i)) 8) else 0),
        tb_val = (\<lambda>i c. if i < scw \<and> c < msw
                   then F64 (dec64 (peek m (val_cell sc ms (unat c) (unat i)) 8)) else f_nan) \<rparr>)"

definition tb_put_ts :: "u32 \<Rightarrow> u64 \<Rightarrow> table \<Rightarrow> table" where
  "tb_put_ts i t tb = tb\<lparr>tb_ts := (tb_ts tb)(i := t)\<rparr>"

definition tb_put_val :: "u32 \<Rightarrow> u32 \<Rightarrow> f64 \<Rightarrow> table \<Rightarrow> table" where
  "tb_put_val i c v tb = tb\<lparr>tb_val := (tb_val tb)(i := (tb_val tb i)(c := v))\<rparr>"

definition tb_put_dir :: "u32 \<Rightarrow> u32 \<Rightarrow> table \<Rightarrow> table" where
  "tb_put_dir i c tb = tb\<lparr>tb_dir := (tb_dir tb)(i := c)\<rparr>"

section \<open>Cells\<close>

lemma dir_cell_room: "i < ms \<Longrightarrow> dir_cell i + 4 \<le> ts_cell ms j"
  by (simp add: dir_cell_def ts_cell_def)

lemma ts_cell_room: "i < sc \<Longrightarrow> ts_cell ms i + 8 \<le> val_cell sc ms c j"
  by (simp add: ts_cell_def val_cell_def)

lemma column_room: "c < c' \<Longrightarrow> i < sc \<Longrightarrow> c * (8 * sc) + 8 * i + 8 \<le> c' * (8 * sc :: nat)"
proof -
  assume "c < c'" and i: "i < sc"
  then have "Suc c * (8 * sc) \<le> c' * (8 * sc)" by (intro mult_le_mono1) simp
  with i show ?thesis by simp
qed

lemma val_cell_room: "c < ms \<Longrightarrow> i < sc \<Longrightarrow> val_cell sc ms c i + 8 \<le> slab_size sc ms"
  using column_room [of c ms i sc] by (simp add: val_cell_def slab_size_def)

lemma ts_cell_room_size: "i < sc \<Longrightarrow> ts_cell ms i + 8 \<le> slab_size sc ms"
  by (simp add: ts_cell_def slab_size_def)

lemma dir_cell_room_size: "i < ms \<Longrightarrow> dir_cell i + 4 \<le> slab_size sc ms"
  by (simp add: dir_cell_def slab_size_def)

lemma cells_above_header: "64 \<le> dir_cell i" "64 \<le> ts_cell ms i" "64 \<le> val_cell sc ms c i"
  by (simp_all add: dir_cell_def ts_cell_def val_cell_def)

lemma dir_cells_disjoint: "i \<noteq> j \<Longrightarrow> dir_cell i + 4 \<le> dir_cell j \<or> dir_cell j + 4 \<le> dir_cell i"
  by (auto simp: dir_cell_def)

lemma ts_cells_disjoint: "i \<noteq> j \<Longrightarrow> ts_cell ms i + 8 \<le> ts_cell ms j \<or> ts_cell ms j + 8 \<le> ts_cell ms i"
  by (auto simp: ts_cell_def)

lemma val_cells_disjoint:
  assumes "i < sc" "j < sc" "c \<noteq> d \<or> i \<noteq> j"
  shows "val_cell sc ms c i + 8 \<le> val_cell sc ms d j \<or> val_cell sc ms d j + 8 \<le> val_cell sc ms c i"
proof (cases c d rule: linorder_cases)
  case less
  then show ?thesis using column_room [OF less assms(1)] by (simp add: val_cell_def)
next
  case equal
  then show ?thesis using assms by (auto simp: val_cell_def)
next
  case greater
  then show ?thesis using column_room [OF greater assms(2)] by (simp add: val_cell_def)
qed

lemma layout_new_exact:
  assumes "slab_size (unat sc) (unat ms) < 2 ^ 64"
  shows "layout_new sc ms =
    \<lparr> file_size = slab_size (unat sc) (unat ms), series_dir_offset = 64,
      timestamp_column_offset = ts_cell (unat ms) 0,
      value_columns_offset = val_cell (unat sc) (unat ms) 0 0,
      value_column_size = 8 * unat sc \<rparr>"
  using assms
  by (simp add: layout_new_def Let_def uadd_def umul_def slab_size_def ts_cell_def val_cell_def
      HEADER_SIZE_def SERIES_DIR_ENTRY_SIZE_def TIMESTAMP_SIZE_def VALUE_SIZE_def ac_simps)

section \<open>Reads and writes through the layout\<close>

lemma header_read_poke:
  "64 \<le> off \<Longrightarrow> off + length bs \<le> length m \<Longrightarrow> header_read (poke m off bs) = header_read m"
  by (simp add: header_read_def peek_poke_below)

lemma header_read_cursor:
  "64 \<le> length m \<Longrightarrow>
     header_read (poke m 32 (enc32 p)) = (header_read m)\<lparr>hd_write_cursor := p\<rparr>"
  by (simp add: header_read_def c32.load_store_other c32.load_store_same)

lemma header_read_count:
  "64 \<le> length m \<Longrightarrow>
     header_read (poke m 36 (enc32 p)) = (header_read m)\<lparr>hd_series_count := p\<rparr>"
  by (simp add: header_read_def c32.load_store_other c32.load_store_same)

lemma wf_layout:
  assumes "slab_wf s"
  defines "sc \<equiv> unat (slab_slot_count s)" and "ms \<equiv> unat (slab_max_series s)"
  shows "sl_layout s = \<lparr> file_size = slab_size sc ms, series_dir_offset = 64,
      timestamp_column_offset = ts_cell ms 0, value_columns_offset = val_cell sc ms 0 0,
      value_column_size = 8 * sc \<rparr>"
    and "length (sl_mmap s) = slab_size sc ms" and "slab_size sc ms < 2 ^ 64"
  using assms
  by (simp_all add: slab_wf_def Let_def slab_slot_count_def slab_max_series_def layout_new_exact)

lemma ts_offset:
  assumes "slab_wf s" "i < slab_slot_count s"
  shows "uadd (timestamp_column_offset (sl_layout s)) (umul (unat i) TIMESTAMP_SIZE)
    = ts_cell (unat (slab_max_series s)) (unat i)"
proof -
  have "ts_cell (unat (slab_max_series s)) (unat i) + 8 < 2 ^ 64"
    using ts_cell_room_size [of "unat i" "unat (slab_slot_count s)"] wf_layout(3) [OF assms(1)]
      assms(2) by (metis le_less_trans word_less_nat_alt)
  then show ?thesis
    by (simp add: wf_layout(1) [OF assms(1)] uadd_def umul_def TIMESTAMP_SIZE_def ts_cell_def)
qed

lemma val_offset:
  assumes "slab_wf s" "i < slab_slot_count s" "c < slab_max_series s"
  shows "uadd (value_column_offset (sl_layout s) c) (umul (unat i) VALUE_SIZE)
    = val_cell (unat (slab_slot_count s)) (unat (slab_max_series s)) (unat c) (unat i)"
proof -
  have "val_cell (unat (slab_slot_count s)) (unat (slab_max_series s)) (unat c) (unat i) + 8 < 2 ^ 64"
    using val_cell_room [of "unat c" "unat (slab_max_series s)" "unat i" "unat (slab_slot_count s)"]
      wf_layout(3) [OF assms(1)] assms(2,3) by (metis le_less_trans word_less_nat_alt)
  then show ?thesis
    by (simp add: wf_layout(1) [OF assms(1)] value_column_offset_def uadd_def umul_def
        VALUE_SIZE_def val_cell_def)
qed

lemma dir_offset:
  assumes "slab_wf s" "i < slab_max_series s"
  shows "uadd (series_dir_offset (sl_layout s)) (umul (unat i) SERIES_DIR_ENTRY_SIZE)
    = dir_cell (unat i)"
proof -
  have "dir_cell (unat i) + 4 < 2 ^ 64"
    using dir_cell_room_size [of "unat i" "unat (slab_max_series s)"] wf_layout(3) [OF assms(1)]
      assms(2) by (metis le_less_trans word_less_nat_alt)
  then show ?thesis
    by (simp add: wf_layout(1) [OF assms(1)] uadd_def umul_def SERIES_DIR_ENTRY_SIZE_def dir_cell_def)
qed

lemmas slab_fields = slab_slot_count_def slab_max_series_def slab_interval_ns_def
  slab_write_cursor_def slab_schema_hash_def slab_series_count_def

lemma table_fields:
  "tb_slots (slab_table s) = slab_slot_count s" "tb_cols (slab_table s) = slab_max_series s"
  "tb_interval (slab_table s) = slab_interval_ns s" "tb_cursor (slab_table s) = slab_write_cursor s"
  "tb_hash (slab_table s) = slab_schema_hash s" "tb_count (slab_table s) = slab_series_count s"
  by (simp_all add: slab_table_def Let_def slab_fields)

lemma wf_length: "slab_wf s \<Longrightarrow> 64 \<le> length (sl_mmap s)"
  by (simp add: slab_wf_def Let_def slab_size_def)

lemma poke_wf:
  assumes "slab_wf s" "64 \<le> off" "off + length bs \<le> length (sl_mmap s)"
  shows "slab_wf (s\<lparr>sl_mmap := poke (sl_mmap s) off bs\<rparr>)"
  using assms by (simp add: slab_wf_def Let_def header_read_poke length_poke)

lemma set_write_cursor_law:
  assumes "slab_wf s"
  shows "slab_wf (set_write_cursor s p) \<and>
    slab_table (set_write_cursor s p) = (slab_table s)\<lparr>tb_cursor := p\<rparr>"
  using assms wf_length [OF assms]
  by (simp add: slab_wf_def Let_def set_write_cursor_def header_read_cursor slab_table_def
      c32.length_store c32.load_store_other dir_cell_def ts_cell_def val_cell_def cong: if_cong)

lemma set_series_count_law:
  assumes "slab_wf s"
  shows "slab_wf (set_series_count s p) \<and>
    slab_table (set_series_count s p) = (slab_table s)\<lparr>tb_count := p\<rparr>"
  using assms wf_length [OF assms]
  by (simp add: slab_wf_def Let_def set_series_count_def header_read_count slab_table_def
      c32.length_store c32.load_store_other dir_cell_def ts_cell_def val_cell_def cong: if_cong)

lemma read_timestamp_law:
  assumes "slab_wf s" "i < slab_slot_count s"
  shows "read_timestamp s i = Inr (tb_ts (slab_table s) i)"
  using assms ts_cell_room_size [of "unat i" "unat (slab_slot_count s)" "unat (slab_max_series s)"]
  by (simp add: read_timestamp_def ts_offset get_bytes_peek wf_layout(2) slab_table_def Let_def
      word_less_nat_alt slab_fields)

lemma read_value_law:
  assumes "slab_wf s" "i < slab_slot_count s" "c < slab_max_series s"
  shows "read_value s i c = Inr (tb_val (slab_table s) i c)"
  using assms val_cell_room [of "unat c" "unat (slab_max_series s)" "unat i" "unat (slab_slot_count s)"]
  by (simp add: read_value_def val_offset get_bytes_peek wf_layout(2) slab_table_def Let_def
      word_less_nat_alt slab_fields)

lemma get_series_column_law:
  assumes "slab_wf s"
  shows "get_series_column s i =
    Inr (if i < slab_max_series s \<and> tb_dir (slab_table s) i \<noteq> - 1
         then Some (tb_dir (slab_table s) i) else None)"
  using assms dir_cell_room_size [of "unat i" "unat (slab_max_series s)" "unat (slab_slot_count s)"]
  by (auto simp: get_series_column_def dir_offset get_bytes_peek wf_layout(2) slab_table_def Let_def
      word_less_nat_alt slab_fields not_le)

lemma write_timestamp_law:
  assumes wf: "slab_wf s" and i: "i < slab_slot_count s"
  shows "\<exists>s'. write_timestamp s i t = Inr s' \<and> slab_wf s' \<and>
    slab_table s' = tb_put_ts i t (slab_table s)"
proof -
  let ?sc = "unat (slab_slot_count s)" and ?ms = "unat (slab_max_series s)"
  let ?off = "ts_cell ?ms (unat i)"
  let ?s' = "s\<lparr>sl_mmap := poke (sl_mmap s) ?off (enc64 t)\<rparr>"
  have room: "?off + 8 \<le> length (sl_mmap s)"
    using i ts_cell_room_size by (simp add: wf_layout(2) [OF wf] word_less_nat_alt)
  have eq: "write_timestamp s i t = Inr ?s'"
    using wf i room by (simp add: write_timestamp_def ts_offset c64.store_ok)
  have hd: "header_read (sl_mmap ?s') = header_read (sl_mmap s)"
    using room cells_above_header(2) [of ?ms "unat i"] by (simp add: header_read_poke c64.enc_width)
  have wf': "slab_wf ?s'"
    using poke_wf [OF wf cells_above_header(2)] room by (simp add: c64.enc_width)
  have dir: "peek (sl_mmap ?s') (dir_cell j) 4 = peek (sl_mmap s) (dir_cell j) 4" if "j < ?ms" for j
    using room dir_cell_room [OF that, of "unat i"] by (simp add: c64.load_store_other)
  have val: "peek (sl_mmap ?s') (val_cell ?sc ?ms c j) 8 = peek (sl_mmap s) (val_cell ?sc ?ms c j) 8"
    for c j
    using room ts_cell_room [of "unat i" ?sc ?ms c j] i
    by (simp add: c64.load_store_other word_less_nat_alt)
  have ts: "dec64 (peek (sl_mmap ?s') (ts_cell ?ms (unat j)) 8)
      = (if j = i then t else dec64 (peek (sl_mmap s) (ts_cell ?ms (unat j)) 8))" for j
    using room ts_cells_disjoint [of "unat i" "unat j" ?ms]
    by (auto simp: c64.load_store_other c64.load_store_same word_unat_eq_iff)
  have "slab_table ?s' = tb_put_ts i t (slab_table s)"
    unfolding slab_table_def Let_def hd tb_put_ts_def
    using i dir val ts
    by (auto simp: fun_eq_iff slab_fields word_less_nat_alt)
  with eq wf' show ?thesis by blast
qed

lemma write_value_law:
  assumes wf: "slab_wf s" and i: "i < slab_slot_count s" and c: "c < slab_max_series s"
  shows "\<exists>s'. write_value s i c v = Inr s' \<and> slab_wf s' \<and>
    slab_table s' = tb_put_val i c v (slab_table s)"
proof -
  let ?sc = "unat (slab_slot_count s)" and ?ms = "unat (slab_max_series s)"
  let ?off = "val_cell ?sc ?ms (unat c) (unat i)"
  let ?s' = "s\<lparr>sl_mmap := poke (sl_mmap s) ?off (enc64 (to_bits v))\<rparr>"
  have room: "?off + 8 \<le> length (sl_mmap s)"
    using i c val_cell_room by (simp add: wf_layout(2) [OF wf] word_less_nat_alt)
  have eq: "write_value s i c v = Inr ?s'"
    using wf i c room by (simp add: write_value_def val_offset c64.store_ok)
  have hd: "header_read (sl_mmap ?s') = header_read (sl_mmap s)"
    using room cells_above_header(3) [of ?sc ?ms "unat c" "unat i"]
    by (simp add: header_read_poke c64.enc_width)
  have wf': "slab_wf ?s'"
    using poke_wf [OF wf cells_above_header(3)] room by (simp add: c64.enc_width)
  have ts: "peek (sl_mmap ?s') (ts_cell ?ms j) 8 = peek (sl_mmap s) (ts_cell ?ms j) 8"
    if "j < ?sc" for j
    using room ts_cell_room [OF that, of ?ms "unat c" "unat i"] by (simp add: c64.load_store_other)
  have dir: "peek (sl_mmap ?s') (dir_cell j) 4 = peek (sl_mmap s) (dir_cell j) 4" if "j < ?ms" for j
    using room dir_cell_room [OF that, of 0] ts_cell_room [of 0 ?sc ?ms "unat c" "unat i"] i
    by (simp add: c64.load_store_other word_less_nat_alt)
  have val: "dec64 (peek (sl_mmap ?s') (val_cell ?sc ?ms (unat d) (unat j)) 8)
      = (if d = c \<and> j = i then to_bits v
         else dec64 (peek (sl_mmap s) (val_cell ?sc ?ms (unat d) (unat j)) 8))" if "j < slab_slot_count s" for d j
    using room val_cells_disjoint [of "unat i" ?sc "unat j" "unat c" "unat d" ?ms] i that
    by (auto simp: c64.load_store_other c64.load_store_same word_unat_eq_iff word_less_nat_alt)
  have "slab_table ?s' = tb_put_val i c v (slab_table s)"
    unfolding slab_table_def Let_def hd tb_put_val_def
    using i c dir val ts
    by (auto simp: fun_eq_iff slab_fields word_less_nat_alt)
  with eq wf' show ?thesis by blast
qed

lemma set_series_column_law:
  assumes wf: "slab_wf s" and i: "i < slab_max_series s"
  shows "\<exists>s'. set_series_column s i c = Inr s' \<and> slab_wf s' \<and>
    slab_table s' = tb_put_dir i c (slab_table s)"
proof -
  let ?sc = "unat (slab_slot_count s)" and ?ms = "unat (slab_max_series s)"
  let ?off = "dir_cell (unat i)"
  let ?s' = "s\<lparr>sl_mmap := poke (sl_mmap s) ?off (enc32 c)\<rparr>"
  have room: "?off + 4 \<le> length (sl_mmap s)"
    using i dir_cell_room_size by (simp add: wf_layout(2) [OF wf] word_less_nat_alt)
  have eq: "set_series_column s i c = Inr ?s'"
    using wf i room by (simp add: set_series_column_def dir_offset c32.store_ok)
  have hd: "header_read (sl_mmap ?s') = header_read (sl_mmap s)"
    using room cells_above_header(1) [of "unat i"] by (simp add: header_read_poke c32.enc_width)
  have wf': "slab_wf ?s'"
    using poke_wf [OF wf cells_above_header(1)] room by (simp add: c32.enc_width)
  have ts: "peek (sl_mmap ?s') (ts_cell ?ms j) 8 = peek (sl_mmap s) (ts_cell ?ms j) 8" for j
    using room dir_cell_room [of "unat i" ?ms j] i
    by (simp add: c32.load_store_other word_less_nat_alt)
  have val: "peek (sl_mmap ?s') (val_cell ?sc ?ms d j) 8 = peek (sl_mmap s) (val_cell ?sc ?ms d j) 8"
    for d j
    using room dir_cell_room [of "unat i" ?ms 0] i
    by (simp add: c32.load_store_other word_less_nat_alt ts_cell_def val_cell_def)
  have dir: "dec32 (peek (sl_mmap ?s') (dir_cell (unat j)) 4)
      = (if j = i then c else dec32 (peek (sl_mmap s) (dir_cell (unat j)) 4))" for j
    using room dir_cells_disjoint [of "unat i" "unat j"]
    by (auto simp: c32.load_store_other c32.load_store_same word_unat_eq_iff)
  have "slab_table ?s' = tb_put_dir i c (slab_table s)"
    unfolding slab_table_def Let_def hd tb_put_dir_def
    using i dir val ts
    by (auto simp: fun_eq_iff slab_fields word_less_nat_alt)
  with eq wf' show ?thesis by blast
qed

section \<open>The interface of a slab\<close>

text \<open>
  What the ring buffer relies on: every access in range succeeds and acts on the
  abstract table like the operation of the same name.
\<close>

locale column_store =
  fixes wf :: "'s \<Rightarrow> bool" and abs :: "'s \<Rightarrow> table"
    and rd_ts :: "'s \<Rightarrow> u32 \<Rightarrow> 'e fault + u64" and wr_ts :: "'s \<Rightarrow> u32 \<Rightarrow> u64 \<Rightarrow> 'e fault + 's"
    and rd_val :: "'s \<Rightarrow> u32 \<Rightarrow> u32 \<Rightarrow> 'e fault + f64"
    and wr_val :: "'s \<Rightarrow> u32 \<Rightarrow> u32 \<Rightarrow> f64 \<Rightarrow> 'e fault + 's"
    and set_cur :: "'s \<Rightarrow> u32 \<Rightarrow> 's"
  assumes rd_ts: "wf s \<Longrightarrow> i < tb_slots (abs s) \<Longrightarrow> rd_ts s i = Inr (tb_ts (abs s) i)"
    and rd_val: "wf s \<Longrightarrow> i < tb_slots (abs s) \<Longrightarrow> c < tb_cols (abs s) \<Longrightarrow>
      rd_val s i c = Inr (tb_val (abs s) i c)"
    and wr_ts: "wf s \<Longrightarrow> i < tb_slots (abs s) \<Longrightarrow>
      \<exists>s'. wr_ts s i t = Inr s' \<and> wf s' \<and> abs s' = tb_put_ts i t (abs s)"
    and wr_val: "wf s \<Longrightarrow> i < tb_slots (abs s) \<Longrightarrow> c < tb_cols (abs s) \<Longrightarrow>
      \<exists>s'. wr_val s i c v = Inr s' \<and> wf s' \<and> abs s' = tb_put_val i c v (abs s)"
    and set_cur: "wf s \<Longrightarrow> wf (set_cur s p) \<and> abs (set_cur s p) = (abs s)\<lparr>tb_cursor := p\<rparr>"
begin

lemma wr_vals:
  "wf s \<Longrightarrow> i < tb_slots (abs s) \<Longrightarrow> list_all (\<lambda>(c, v). c < tb_cols (abs s)) cvs \<Longrightarrow>
     \<exists>s'. fold_res (\<lambda>(c, v) s. wr_val s i c v) cvs s = Inr s' \<and> wf s' \<and>
       abs s' = fold (\<lambda>(c, v). tb_put_val i c v) cvs (abs s)"
proof (induction cvs arbitrary: s)
  case (Cons cv cvs)
  obtain c v where cv: "cv = (c, v)" by force
  obtain s1 where s1: "wr_val s i c v = Inr s1" "wf s1" "abs s1 = tb_put_val i c v (abs s)"
    using wr_val [of s i c v] Cons.prems cv by auto
  moreover have "i < tb_slots (abs s1)" "list_all (\<lambda>(c, v). c < tb_cols (abs s1)) cvs"
    using Cons.prems by (simp_all add: s1 tb_put_val_def)
  ultimately show ?case
    using Cons.IH [of s1] by (simp add: cv)
qed simp

text \<open>The whole write of a slot: the timestamp, the values, and the cursor if asked for.\<close>

lemma wr_slot:
  assumes "wf s" and "i < tb_slots (abs s)" and "list_all (\<lambda>(c, v). c < tb_cols (abs s)) cvs"
  shows "\<exists>s'. rbind (wr_ts s i t) (fold_res (\<lambda>(c, v) s. wr_val s i c v) cvs) = Inr s' \<and> wf s' \<and>
    abs s' = fold (\<lambda>(c, v). tb_put_val i c v) cvs (tb_put_ts i t (abs s))"
proof -
  obtain s1 where s1: "wr_ts s i t = Inr s1" "wf s1" "abs s1 = tb_put_ts i t (abs s)"
    using wr_ts [of s i t] assms by auto
  then show ?thesis
    using wr_vals [of s1 i cvs] assms by (simp add: tb_put_ts_def)
qed

end

interpretation sl: column_store slab_wf slab_table read_timestamp write_timestamp read_value
    write_value set_write_cursor
  by unfold_locales
    (simp_all add: table_fields read_timestamp_law read_value_law write_timestamp_law
      write_value_law set_write_cursor_law)

section \<open>Creation\<close>

definition empty_table :: "u64 \<Rightarrow> u32 \<Rightarrow> u32 \<Rightarrow> u64 \<Rightarrow> table" where
  "empty_table h sc ms iv =
     \<lparr> tb_hash = h, tb_slots = sc, tb_cols = ms, tb_interval = iv, tb_cursor = 0, tb_count = 0,
       tb_dir = (\<lambda>_. - 1), tb_ts = (\<lambda>_. 0), tb_val = (\<lambda>_ _. f_nan) \<rparr>"

lemma length_header_bytes:
  "length (hd_magic h) = 4 \<Longrightarrow> length (hd_reserved h) = 16 \<Longrightarrow> length (header_bytes h) = 56"
  by (simp add: header_bytes_def c32.enc_width c64.enc_width)

lemma header_roundtrip:
  "length (hd_magic h) = 4 \<Longrightarrow> length (hd_reserved h) = 16 \<Longrightarrow> header_read (header_bytes h @ rest) = h"
  by (simp add: header_read_def header_bytes_def peek_skip peek_append_left peek_all
      c32.enc_width c64.enc_width c32.dec_enc c64.dec_enc)

definition initial_bytes :: "u64 \<Rightarrow> u32 \<Rightarrow> u32 \<Rightarrow> u64 \<Rightarrow> memory" where
  "initial_bytes h sc ms iv =
     header_bytes (header_new h sc ms iv) @ replicate 8 0
       @ concat (replicate (unat ms) (enc32 (- 1)))
       @ concat (replicate (unat sc) (enc64 0))
       @ concat (replicate (unat ms) (concat (replicate (unat sc) (enc64 (to_bits f_nan)))))"

lemma length_initial_bytes: "length (initial_bytes h sc ms iv) = slab_size (unat sc) (unat ms)"
  by (simp add: initial_bytes_def length_header_bytes header_new_def SLAB_MAGIC_def length_concat
      sum_list_replicate c32.enc_width c64.enc_width slab_size_def)

lemma value_column_cells:
  assumes "slab_size (unat sc) (unat ms) < 2 ^ 64" and "c < unat ms" and "0 < unat sc"
  shows "value_column_offset (layout_new sc ms) (word_of_nat c)
    = val_cell (unat sc) (unat ms) 0 0 + 8 * unat sc * c"
proof -
  have c: "unat (word_of_nat c :: u32) = c"
    using assms(2) u32_bound [of ms] by (intro u32_of_nat) simp
  have "val_cell (unat sc) (unat ms) c 0 + 8 < 2 ^ 64"
    using val_cell_room [OF assms(2,3)] assms(1) by simp
  then show ?thesis
    by (simp add: value_column_offset_def layout_new_exact [OF assms(1)] c uadd_def umul_def
        val_cell_def ac_simps)
qed

lemma slab_create_bytes:
  assumes size: "slab_size (unat sc) (unat ms) < 2 ^ 64"
    and os: "os_create os path = None" "os_set_len os path (slab_size (unat sc) (unat ms)) = None"
      "os_map os path = None"
  shows "slab_create os path h sc ms iv =
    Inr \<lparr> sl_mmap = initial_bytes h sc ms iv, sl_layout = layout_new sc ms, sl_path = path \<rparr>"
proof -
  let ?sc = "unat sc" and ?ms = "unat ms"
  let ?hd = "header_bytes (header_new h sc ms iv) @ replicate 8 0"
  let ?dir = "concat (replicate ?ms (enc32 (- 1)))"
  let ?ts = "concat (replicate ?sc (enc64 0))"
  let ?val = "concat (replicate ?ms (concat (replicate ?sc (enc64 (to_bits f_nan)))))"
  have lens: "length ?hd = 64" "length ?dir = 4 * ?ms" "length ?ts = 8 * ?sc"
      "length (header_bytes (header_new h sc ms iv)) = 56"
    by (simp_all add: length_header_bytes header_new_def SLAB_MAGIC_def length_concat
        sum_list_replicate c32.enc_width c64.enc_width)
  have room: "64 + 4 * ?ms + 8 * ?sc + ?ms * (8 * ?sc) = slab_size ?sc ?ms"
    by (simp add: slab_size_def)
  define m0 :: memory where "m0 = replicate (slab_size ?sc ?ms) 0"
  have s1: "(put_bytes m0 0 (header_bytes (header_new h sc ms iv)) :: memory res)
      = Inr (?hd @ drop 64 m0)"
  proof -
    have "drop 56 m0 = replicate 8 0 @ drop 64 m0"
      by (simp only: m0_def drop_replicate slab_size_def replicate_add [symmetric]) simp
    moreover have "0 + length (header_bytes (header_new h sc ms iv)) \<le> length m0"
      by (simp add: lens(4) m0_def slab_size_def)
    ultimately show ?thesis
      by (simp add: put_bytes_poke poke_def lens(4))
  qed
  define m1 where "m1 = ?hd @ drop 64 m0"
  have l1: "length m1 = slab_size ?sc ?ms"
    using lens(1) by (simp add: m1_def m0_def slab_size_def)
  have s2: "(fold_res (\<lambda>i m. put_bytes m (64 + 4 * i) (enc32 (- 1))) [0..<?ms] m1 :: memory res)
      = Inr (?hd @ ?dir @ drop (64 + 4 * ?ms) m1)"
    using lens(1) fill_cells [OF c32.enc_width, of 64 ?ms m1 "- 1"] l1
    by (simp add: m1_def slab_size_def)
  define m2 where "m2 = ?hd @ ?dir @ drop (64 + 4 * ?ms) m1"
  have l2: "length m2 = slab_size ?sc ?ms"
    using lens l1 by (simp add: m2_def slab_size_def)
  have s3: "(fold_res (\<lambda>i m. put_bytes m (64 + 4 * ?ms + 8 * i) (enc64 0)) [0..<?sc] m2 :: memory res)
      = Inr (?hd @ ?dir @ ?ts @ drop (64 + 4 * ?ms + 8 * ?sc) m2)"
    using lens fill_cells [OF c64.enc_width, of "64 + 4 * ?ms" ?sc m2 0] l2
    by (simp add: m2_def slab_size_def)
  define m3 where "m3 = ?hd @ ?dir @ ?ts @ drop (64 + 4 * ?ms + 8 * ?sc) m2"
  have l3: "length m3 = slab_size ?sc ?ms"
    using lens l2 by (simp add: m3_def slab_size_def)
  have "(fold_res (\<lambda>series m. fold_res
             (\<lambda>i m. put_bytes m (value_column_offset (layout_new sc ms) (word_of_nat series) + 8 * i)
                (enc64 (to_bits f_nan))) [0..<?sc] m) [0..<?ms] m3 :: memory res)
      = fold_res (\<lambda>c m. fold_res (\<lambda>i m. put_bytes m (64 + 4 * ?ms + 8 * ?sc + 8 * ?sc * c + 8 * i)
                (enc64 (to_bits f_nan))) [0..<?sc] m) [0..<?ms] m3"
    using value_column_cells [OF size]
    by (intro fold_res_cong_on [where P = "\<lambda>_. True"])
      (cases "?sc = 0"; simp add: val_cell_def)+
  also have "\<dots> = Inr (?hd @ ?dir @ ?ts @ ?val)"
  proof -
    let ?b = "64 + 4 * ?ms + 8 * ?sc"
    have t: "take ?b m3 = ?hd @ ?dir @ ?ts"
      using lens by (simp only: m3_def append_assoc [symmetric]) simp
    have r: "?b + ?ms * (8 * ?sc) \<le> length m3"
      by (simp only: l3 room order_refl)
    have d: "drop (?b + 8 * ?sc * ?ms) m3 = []"
      by (simp only: drop_eq_Nil l3 room [symmetric] mult.commute order_refl)
    show ?thesis
      by (simp only: fill_columns [OF c64.enc_width r] t d append_assoc append_Nil2)
  qed
  finally have s4: "(fold_res (\<lambda>series m. fold_res
             (\<lambda>i m. put_bytes m (value_column_offset (layout_new sc ms) (word_of_nat series) + 8 * i)
                (enc64 (to_bits f_nan))) [0..<?sc] m) [0..<?ms] m3 :: memory res)
      = Inr (initial_bytes h sc ms iv)"
    by (simp add: initial_bytes_def)
  show ?thesis
    unfolding slab_create_def Let_def initialize_data_region_def
    using os s1 [folded m1_def] s2 [folded m2_def] s3 [folded m3_def] s4
    by (simp add: layout_new_exact [OF size] m0_def [symmetric] ts_cell_def)
qed

lemma header_initial: "header_read (initial_bytes h sc ms iv) = header_new h sc ms iv"
  unfolding initial_bytes_def by (rule header_roundtrip) (simp_all add: header_new_def SLAB_MAGIC_def)

lemma initial_wf:
  "slab_size (unat sc) (unat ms) < 2 ^ 64 \<Longrightarrow>
     slab_wf \<lparr> sl_mmap = initial_bytes h sc ms iv, sl_layout = layout_new sc ms, sl_path = path \<rparr>"
  by (simp add: slab_wf_def header_initial length_initial_bytes Let_def) (simp add: header_new_def)

lemma initial_dir:
  "i < unat ms \<Longrightarrow> dec32 (peek (initial_bytes h sc ms iv) (dir_cell i) 4) = - 1"
  by (simp add: initial_bytes_def peek_skip peek_append_left length_header_bytes header_new_def
      SLAB_MAGIC_def dir_cell_def length_concat sum_list_replicate c32.enc_width
      peek_replicate c32.dec_enc)

lemma initial_ts:
  "i < unat sc \<Longrightarrow> dec64 (peek (initial_bytes h sc ms iv) (ts_cell (unat ms) i) 8) = 0"
  by (simp add: initial_bytes_def peek_skip peek_append_left length_header_bytes header_new_def
      SLAB_MAGIC_def ts_cell_def length_concat sum_list_replicate c32.enc_width c64.enc_width
      peek_replicate c64.dec_enc)

lemma initial_val:
  assumes "i < unat sc" "c < unat ms"
  shows "dec64 (peek (initial_bytes h sc ms iv) (val_cell (unat sc) (unat ms) c i) 8) = to_bits f_nan"
proof -
  let ?col = "concat (replicate (unat sc) (enc64 (to_bits f_nan)))"
  have col: "length ?col = 8 * unat sc"
    by (simp add: length_concat sum_list_replicate c64.enc_width)
  have rest: "replicate (unat ms) ?col = replicate c ?col @ ?col # replicate (unat ms - Suc c) ?col"
    using assms(2) by (metis Suc_diff_Suc le_add_diff_inverse less_imp_le_nat replicate_Suc
        replicate_add diff_Suc_Suc)
  have "length (concat (replicate c ?col)) = c * (8 * unat sc)"
    by (simp add: length_concat sum_list_replicate c64.enc_width)
  then have "peek (concat (replicate (unat ms) ?col)) (c * (8 * unat sc) + 8 * i) 8
      = peek ?col (8 * i) 8"
    using assms(1) col by (simp add: rest peek_skip peek_append_left)
  also have "\<dots> = enc64 (to_bits f_nan)"
    by (rule peek_replicate [OF c64.enc_width assms(1)])
  finally show ?thesis
    by (simp add: initial_bytes_def peek_skip length_header_bytes header_new_def
      SLAB_MAGIC_def val_cell_def length_concat sum_list_replicate c32.enc_width c64.enc_width
      c64.dec_enc)
qed

lemma header_new_fields:
  "hd_schema_hash (header_new h sc ms iv) = h" "hd_slot_count (header_new h sc ms iv) = sc"
  "hd_max_series (header_new h sc ms iv) = ms" "hd_interval_ns (header_new h sc ms iv) = iv"
  "hd_write_cursor (header_new h sc ms iv) = 0" "hd_series_count (header_new h sc ms iv) = 0"
  by (simp_all add: header_new_def)

lemma initial_table:
  "slab_table \<lparr> sl_mmap = initial_bytes h sc ms iv, sl_layout = layout_new sc ms, sl_path = path \<rparr>
     = empty_table h sc ms iv"
proof -
  have nan: "F64 (to_bits f_nan) = f_nan" by simp
  show ?thesis
    unfolding slab_table_def empty_table_def Let_def slab.simps header_initial header_new_fields
    by (auto simp: fun_eq_iff initial_dir initial_ts initial_val word_less_nat_alt nan)
qed

text \<open>
  \<open>Slab::create\<close> succeeds when the system calls do and the size fits in 64 bits.
  The new slab is well formed and holds the empty table: cursor and series count 0,
  every directory entry unassigned, every timestamp 0 and every value NaN.
\<close>

theorem slab_create_empty:
  assumes "slab_size (unat sc) (unat ms) < 2 ^ 64" and "os_create os path = None"
    and "os_set_len os path (slab_size (unat sc) (unat ms)) = None" and "os_map os path = None"
  shows "\<exists>s. slab_create os path h sc ms iv = Inr s \<and> slab_wf s \<and>
    slab_table s = empty_table h sc ms iv \<and> sl_path s = path"
  using slab_create_bytes [OF assms] initial_wf [OF assms(1)] initial_table by simp

theorem slab_create_empty_witness:
  "\<exists>s. slab_create os_ok ''a'' 7 3600 100 1000000000 = Inr s \<and>
     tb_ts (slab_table s) 17 = 0 \<and> read_value s 17 99 = Inr f_nan"
proof -
  obtain s where s: "slab_create os_ok ''a'' 7 3600 100 1000000000 = Inr s" "slab_wf s"
      "slab_table s = empty_table 7 3600 100 1000000000"
    using slab_create_empty [of 3600 100 os_ok "''a''" 7 1000000000]
    by (auto simp: slab_size_def os_ok_def)
  moreover have "slab_slot_count s = 3600" "slab_max_series s = 100"
    by (simp_all flip: table_fields add: s(3)) (simp_all add: empty_table_def)
  ultimately show ?thesis
    using read_value_law [of s 17 99] by (simp add: empty_table_def)
qed

lemma slab_open_wf:
  assumes "slab_wf s" and "os_open os path = None" and "os_map os path = None"
  shows "slab_open os (sl_mmap s) path = Inr (s\<lparr>sl_path := path\<rparr>)"
proof -
  have "HEADER_SIZE \<le> length (sl_mmap s)"
    using wf_length [OF assms(1)] by (simp add: HEADER_SIZE_def)
  then show ?thesis
    using assms
    by (simp add: slab_open_def Let_def slab_wf_def header_validate_def layout_new_exact not_less)
qed

text \<open>
  A well-formed slab survives being closed and reopened: opening the bytes of its
  mapping gives the same slab back.
\<close>

theorem slab_open_roundtrip:
  assumes "slab_wf s" and "os_open os path = None" and "os_map os path = None"
  shows "slab_open os (sl_mmap s) path = Inr (s\<lparr>sl_path := path\<rparr>)"
  using assms by (rule slab_open_wf)

theorem slab_open_roundtrip_witness:
  "\<exists>s. slab_create os_ok ''a'' 7 2 1 5 = Inr s \<and> slab_open os_ok (sl_mmap s) ''a'' = Inr s"
proof -
  let ?s = "\<lparr> sl_mmap = initial_bytes 7 2 1 5, sl_layout = layout_new 2 1, sl_path = ''a'' \<rparr>"
  have "slab_create os_ok ''a'' 7 2 1 5 = Inr ?s"
    by (rule slab_create_bytes) (simp_all add: slab_size_def os_ok_def)
  moreover have "slab_open os_ok (sl_mmap ?s) ''a'' = Inr (?s\<lparr>sl_path := ''a''\<rparr>)"
    by (rule slab_open_roundtrip [OF initial_wf]) (simp_all add: slab_size_def os_ok_def)
  ultimately show ?thesis by auto
qed

text \<open>
  C36. On a well-formed slab every access with indices in range succeeds and acts on
  the abstract table as intended: a timestamp or value write changes that one cell
  and nothing else of the table (no other slot, column, directory entry or header
  field), and a read returns the cell.
\<close>

theorem slab_refines_table:
  assumes "slab_wf s" and "i < slab_slot_count s" and "c < slab_max_series s"
  shows "read_timestamp s i = Inr (tb_ts (slab_table s) i) \<and>
    read_value s i c = Inr (tb_val (slab_table s) i c) \<and>
    (\<exists>s'. write_timestamp s i t = Inr s' \<and> slab_wf s' \<and>
      slab_table s' = (slab_table s)\<lparr>tb_ts := (tb_ts (slab_table s))(i := t)\<rparr>) \<and>
    (\<exists>s'. write_value s i c v = Inr s' \<and> slab_wf s' \<and>
      slab_table s' = (slab_table s)\<lparr>tb_val := (tb_val (slab_table s))
        (i := (tb_val (slab_table s) i)(c := v))\<rparr>) \<and>
    slab_table (set_write_cursor s p) = (slab_table s)\<lparr>tb_cursor := p\<rparr>"
  using read_timestamp_law [OF assms(1,2)] read_value_law [OF assms]
    write_timestamp_law [OF assms(1,2), of t] write_value_law [OF assms, of v]
    set_write_cursor_law [OF assms(1), of p]
  by (simp add: tb_put_ts_def tb_put_val_def)

theorem slab_refines_table_witness:
  "\<exists>s s'. slab_create os_ok ''a'' 7 2 1 5 = Inr s \<and> write_value s 1 0 f_one = Inr s' \<and>
     tb_val (slab_table s') 1 0 = f_one \<and> tb_val (slab_table s') 0 0 = f_nan"
proof -
  obtain s where s: "slab_create os_ok ''a'' 7 2 1 5 = Inr s" "slab_wf s"
      "slab_table s = empty_table 7 2 1 5"
    using slab_create_bytes [of 2 1 os_ok "''a''" 7 5] initial_wf [of 2 1 7 5 "''a''"]
      initial_table [of 7 2 1 5 "''a''"]
    by (auto simp: slab_size_def os_ok_def)
  moreover have "slab_slot_count s = 2" "slab_max_series s = 1"
    by (simp_all flip: table_fields add: s(3)) (simp_all add: empty_table_def)
  ultimately show ?thesis
    using slab_refines_table [of s 1 0 0 f_one 0] by (auto simp: empty_table_def)
qed

section \<open>Limits of the validation\<close>

definition wrapped_header :: slab_header where
  "wrapped_header = header_new 0 (2 ^ 30 - 2 ^ 15) (2 ^ 31 + 2 ^ 16) 1000000000"

lemma wrapped_layout:
  "layout_new (2 ^ 30 - 2 ^ 15) (2 ^ 31 + 2 ^ 16) =
     \<lparr> file_size = 64, series_dir_offset = 64, timestamp_column_offset = 8590196800,
       value_columns_offset = 17179869248, value_column_size = 8589672448 \<rparr>"
  by (simp add: layout_new_def Let_def uadd_def umul_def HEADER_SIZE_def
      SERIES_DIR_ENTRY_SIZE_def TIMESTAMP_SIZE_def VALUE_SIZE_def)

text \<open>
  The size check of \<open>Slab::open\<close> compares with a product that wraps around: a
  file of 64 bytes whose header announces about a billion slots and two billion
  series is accepted, and the first read of its data region leaves the mapping.
\<close>

theorem slab_open_accepts_wrapped_size:
  "\<exists>s. slab_open os_ok (header_bytes wrapped_header @ replicate 8 0) ''a'' = Inr s \<and>
     length (sl_mmap s) = 64 \<and> 0 < slab_slot_count s \<and> read_timestamp s 0 = Inl UB"
proof -
  let ?c = "header_bytes wrapped_header @ replicate 8 0"
  let ?s = "\<lparr> sl_mmap = ?c, sl_layout = layout_new (2 ^ 30 - 2 ^ 15) (2 ^ 31 + 2 ^ 16), sl_path = ''a'' \<rparr>"
  have len56: "length (header_bytes wrapped_header) = 56"
    by (simp add: length_header_bytes wrapped_header_def header_new_def SLAB_MAGIC_def)
  then have len: "length ?c = 64" by simp
  have hd: "header_read ?c = wrapped_header"
    by (rule header_roundtrip) (simp_all add: wrapped_header_def header_new_def SLAB_MAGIC_def)
  have fields: "hd_slot_count wrapped_header = 2 ^ 30 - 2 ^ 15"
    "hd_max_series wrapped_header = 2 ^ 31 + 2 ^ 16" "hd_magic wrapped_header = SLAB_MAGIC"
    "hd_version wrapped_header = SLAB_VERSION"
    by (simp_all only: wrapped_header_def header_new_def slab_header.simps)
  have "file_size (layout_new (2 ^ 30 - 2 ^ 15) (2 ^ 31 + 2 ^ 16)) = 64"
    by (simp only: wrapped_layout slab_layout.simps)
  then have "slab_open os_ok ?c ''a'' = Inr ?s"
    by (simp only: slab_open_def Let_def hd len fields header_validate_def HEADER_SIZE_def)
      (simp add: os_ok_def)
  moreover have "read_timestamp ?s 0 = Inl UB"
    by (simp only: read_timestamp_def Let_def slab.simps wrapped_layout slab_layout.simps)
      (simp add: get_bytes_UB uadd_def umul_def len56)
  moreover have "0 < slab_slot_count ?s"
    by (simp only: slab_slot_count_def slab.simps hd fields) simp
  ultimately show ?thesis using len by auto
qed

text \<open>
  The timestamp column is aligned for 64-bit accesses exactly when the maximal
  number of series is even: the series directory has four bytes per entry and no padding.
\<close>

theorem timestamp_column_alignment:
  assumes "slab_wf s"
  shows "timestamp_column_offset (sl_layout s) mod 8 = 0 \<longleftrightarrow> even (unat (slab_max_series s))"
  using wf_layout(1) [OF assms] by (simp add: ts_cell_def) presburger

theorem timestamp_column_alignment_witness:
  "\<exists>s. slab_create os_ok ''a'' 7 100 5 1000000000 = Inr s \<and>
     timestamp_column_offset (sl_layout s) mod 8 \<noteq> 0"
proof -
  obtain s where s: "slab_create os_ok ''a'' 7 100 5 1000000000 = Inr s" "slab_wf s"
      "slab_table s = empty_table 7 100 5 1000000000"
    using slab_create_bytes [of 100 5 os_ok "''a''" 7 1000000000]
      initial_wf [of 100 5 7 1000000000 "''a''"] initial_table [of 7 100 5 1000000000 "''a''"]
    by (auto simp: slab_size_def os_ok_def)
  moreover have "slab_max_series s = 5"
    by (simp flip: table_fields add: s(3)) (simp add: empty_table_def)
  ultimately show ?thesis
    using timestamp_column_alignment [of s] by auto
qed

end
