(* ===== verification/Ring_Buffer.thy ===== *)
theory Ring_Buffer
  imports Slab
begin

text \<open>
  \<open>rondo/src/ring.rs\<close>: the ring buffer over a slab. A timestamp determines its slot;
  a write overwrites the slot and moves the cursor; a read walks the slots from the
  oldest to the newest. A division or remainder by zero is a panic. The iterator is
  a record of its fields with the ring it borrows, \<open>iter_next\<close> is its \<open>next\<close>, and
  \<open>iter_collect\<close> is what a \<open>for\<close> loop or \<open>collect\<close> sees of it.
\<close>

section \<open>Ring buffers\<close>

record ring =
  rb_slab :: slab
  rb_has_wrapped :: bool

definition ring_new :: "slab \<Rightarrow> ring res" where
  "ring_new slab =
     (let write_cursor = slab_write_cursor slab in
      rbind
        (if write_cursor = 0 then
           if slab_slot_count slab > 1 then
             rbind (read_timestamp slab 1) (\<lambda>t. Inr (t \<noteq> 0))
           else Inr False
         else if slab_slot_count slab = 0 then Inl Panic
         else let next_slot = (write_cursor + 1) mod slab_slot_count slab in
           rbind (read_timestamp slab next_slot) (\<lambda>t. Inr (t \<noteq> 0)))
        (\<lambda>has_wrapped. Inr \<lparr> rb_slab = slab, rb_has_wrapped = has_wrapped \<rparr>))"

definition ring_has_wrapped :: "ring \<Rightarrow> bool" where
  "ring_has_wrapped r = rb_has_wrapped r"

definition compute_slot :: "ring \<Rightarrow> u64 \<Rightarrow> u32 res" where
  "compute_slot r timestamp_ns =
     (let interval_ns = slab_interval_ns (rb_slab r);
          slot_count = slab_slot_count (rb_slab r) in
      if interval_ns = 0 \<or> slot_count = 0 then Inl Panic
      else Inr (ucast ((timestamp_ns div interval_ns) mod ucast slot_count)))"

definition ring_write :: "ring \<Rightarrow> u32 \<Rightarrow> f64 \<Rightarrow> u64 \<Rightarrow> ring res" where
  "ring_write r series_column v timestamp_ns =
     (if is_infinite v then
        err (Record (InvalidValue v ''infinite values are not allowed''))
      else if timestamp_ns = 0 then
        err (Record (InvalidTimestamp timestamp_ns))
      else rbind (compute_slot r timestamp_ns) (\<lambda>slot_index.
      let current_cursor = slab_write_cursor (rb_slab r);
          has_wrapped = (if slot_index < current_cursor \<and> \<not> rb_has_wrapped r then True
                         else rb_has_wrapped r) in
      rbind (write_timestamp (rb_slab r) slot_index timestamp_ns) (\<lambda>slab.
      rbind (write_value slab slot_index series_column v) (\<lambda>slab.
      Inr \<lparr> rb_slab = (if has_wrapped \<or> slot_index \<ge> current_cursor
                        then set_write_cursor slab slot_index else slab),
            rb_has_wrapped = has_wrapped \<rparr>))))"

fun check_finite :: "(u32 \<times> f64) list \<Rightarrow> unit res" where
  "check_finite [] = Inr ()"
| "check_finite ((c, v) # entries) =
     (if is_infinite v then err (Record (InvalidValue v ''infinite values are not allowed''))
      else check_finite entries)"

definition ring_write_batch :: "ring \<Rightarrow> (u32 \<times> f64) list \<Rightarrow> u64 \<Rightarrow> ring res" where
  "ring_write_batch r entries timestamp_ns =
     (if timestamp_ns = 0 then err (Record (InvalidTimestamp timestamp_ns))
      else rbind (check_finite entries) (\<lambda>_.
      rbind (compute_slot r timestamp_ns) (\<lambda>slot_index.
      let current_cursor = slab_write_cursor (rb_slab r);
          has_wrapped = (if slot_index < current_cursor \<and> \<not> rb_has_wrapped r then True
                         else rb_has_wrapped r) in
      rbind (write_timestamp (rb_slab r) slot_index timestamp_ns) (\<lambda>slab.
      rbind (fold_res (\<lambda>(series_column, v) slab. write_value slab slot_index series_column v)
               entries slab) (\<lambda>slab.
      Inr \<lparr> rb_slab = (if has_wrapped \<or> slot_index \<ge> current_cursor
                        then set_write_cursor slab slot_index else slab),
            rb_has_wrapped = has_wrapped \<rparr>)))))"

text \<open>
  The same two methods step by step on \<open>&mut self\<close>: the outcome, and the ring as it is left
  behind, whatever the outcome. \<open>ring_write\<close> and \<open>ring_write_batch\<close> give the ring of an
  accepted write; \<open>ring_write_run_agrees\<close> below relates the two views.
\<close>

definition ring_write_run :: "ring \<Rightarrow> u32 \<Rightarrow> f64 \<Rightarrow> u64 \<Rightarrow> unit res \<times> ring" where
  "ring_write_run r series_column v timestamp_ns =
     (if is_infinite v then
        (err (Record (InvalidValue v ''infinite values are not allowed'')), r)
      else if timestamp_ns = 0 then
        (err (Record (InvalidTimestamp timestamp_ns)), r)
      else case compute_slot r timestamp_ns of Inl e \<Rightarrow> (Inl e, r) | Inr slot_index \<Rightarrow>
      let current_cursor = slab_write_cursor (rb_slab r);
          r = (if slot_index < current_cursor \<and> \<not> rb_has_wrapped r then r\<lparr>rb_has_wrapped := True\<rparr> else r) in
      case write_timestamp (rb_slab r) slot_index timestamp_ns of Inl e \<Rightarrow> (Inl e, r) | Inr slab \<Rightarrow>
      let r = r\<lparr>rb_slab := slab\<rparr> in
      case write_value (rb_slab r) slot_index series_column v of Inl e \<Rightarrow> (Inl e, r) | Inr slab \<Rightarrow>
      let r = r\<lparr>rb_slab := slab\<rparr> in
      (Inr (), if rb_has_wrapped r \<or> slot_index \<ge> current_cursor
               then r\<lparr>rb_slab := set_write_cursor (rb_slab r) slot_index\<rparr> else r))"

definition ring_write_batch_run :: "ring \<Rightarrow> (u32 \<times> f64) list \<Rightarrow> u64 \<Rightarrow> unit res \<times> ring" where
  "ring_write_batch_run r entries timestamp_ns =
     (if timestamp_ns = 0 then (err (Record (InvalidTimestamp timestamp_ns)), r)
      else case check_finite entries of Inl e \<Rightarrow> (Inl e, r) | Inr _ \<Rightarrow>
      case compute_slot r timestamp_ns of Inl e \<Rightarrow> (Inl e, r) | Inr slot_index \<Rightarrow>
      let current_cursor = slab_write_cursor (rb_slab r);
          r = (if slot_index < current_cursor \<and> \<not> rb_has_wrapped r then r\<lparr>rb_has_wrapped := True\<rparr> else r) in
      case write_timestamp (rb_slab r) slot_index timestamp_ns of Inl e \<Rightarrow> (Inl e, r) | Inr slab \<Rightarrow>
      let r = r\<lparr>rb_slab := slab\<rparr> in
      case fold_st (\<lambda>(series_column, v) slab. write_value slab slot_index series_column v) entries (rb_slab r) of
        (Inl e, slab) \<Rightarrow> (Inl e, r\<lparr>rb_slab := slab\<rparr>)
      | (Inr _, slab) \<Rightarrow>
      let r = r\<lparr>rb_slab := slab\<rparr> in
      (Inr (), if rb_has_wrapped r \<or> slot_index \<ge> current_cursor
               then r\<lparr>rb_slab := set_write_cursor (rb_slab r) slot_index\<rparr> else r))"

text \<open>The value view of such a method: the state after success, or the fault alone.\<close>

definition outcome :: "'e + 'a \<Rightarrow> 's \<Rightarrow> 'e + 's" where
  "outcome res s = (case res of Inl e \<Rightarrow> Inl e | Inr _ \<Rightarrow> Inr s)"

lemma outcome_simps [simp]: "outcome (Inl e) s = Inl e" "outcome (Inr x) s = Inr s"
  by (simp_all add: outcome_def)

lemma fold_st_outcome: "(case fold_st f xs s of (res, s') \<Rightarrow> outcome res s') = fold_res f xs s"
  by (induction xs arbitrary: s) (auto split: sum.splits)

lemma ring_write_run_agrees:
  "ring_write r c v t = (case ring_write_run r c v t of (res, r') \<Rightarrow> outcome res r')"
  "ring_write_batch r es t = (case ring_write_batch_run r es t of (res, r') \<Rightarrow> outcome res r')"
proof -
  show "ring_write r c v t = (case ring_write_run r c v t of (res, r') \<Rightarrow> outcome res r')"
    by (auto simp: ring_write_def ring_write_run_def Let_def split: sum.splits)
  have "fold_res (\<lambda>(c, v) s. write_value s i c v) es s =
      (case fold_st (\<lambda>(c, v) s. write_value s i c v) es s of (res, s') \<Rightarrow> outcome res s')" for i s
    by (simp add: fold_st_outcome)
  then show "ring_write_batch r es t = (case ring_write_batch_run r es t of (res, r') \<Rightarrow> outcome res r')"
    by (auto simp: ring_write_batch_def ring_write_batch_run_def Let_def split: sum.splits prod.splits)
qed

text \<open>An error of the library, as opposed to a panic, is found before anything is changed.\<close>

lemma ring_write_run_refused:
  "fst (ring_write_run r c v t) = err e \<Longrightarrow> snd (ring_write_run r c v t) = r"
  "fst (ring_write_batch_run r es t) = err e \<Longrightarrow> snd (ring_write_batch_run r es t) = r"
proof -
  have never: "compute_slot r t \<noteq> err e" "write_timestamp s i t \<noteq> err e" "write_value s i c v \<noteq> err e" for r s i c v
    by (auto simp: compute_slot_def write_timestamp_def write_value_def put_bytes_def rbind_def Let_def
        split: sum.splits if_splits)
  have cells: "fst (fold_st (\<lambda>(c, v) s. write_value s i c v) es s) \<noteq> err e" for i s
    using never(3) by (induction es arbitrary: s) (auto split: sum.splits)
  show "fst (ring_write_run r c v t) = err e \<Longrightarrow> snd (ring_write_run r c v t) = r"
    using never by (auto simp: ring_write_run_def Let_def split: sum.splits if_splits)
  show "fst (ring_write_batch_run r es t) = err e \<Longrightarrow> snd (ring_write_batch_run r es t) = r"
    using never cells by (auto simp: ring_write_batch_run_def Let_def split: sum.splits prod.splits if_splits)
      (metis fst_conv)+
qed

definition ring_is_empty :: "ring \<Rightarrow> bool res" where
  "ring_is_empty r =
     rbind (read_timestamp (rb_slab r) (slab_write_cursor (rb_slab r))) (\<lambda>t. Inr (t = 0))"

definition ring_newest_timestamp :: "ring \<Rightarrow> u64 option res" where
  "ring_newest_timestamp r =
     rbind (ring_is_empty r) (\<lambda>empty. if empty then Inr None else
     rbind (read_timestamp (rb_slab r) (slab_write_cursor (rb_slab r))) (\<lambda>t.
     Inr (if t \<noteq> 0 then Some t else None)))"

text \<open>The scan for the first used slot of a sequence of slots.\<close>

fun first_used :: "slab \<Rightarrow> u32 list \<Rightarrow> u64 option res" where
  "first_used s [] = Inr None"
| "first_used s (slot # slots) =
     rbind (read_timestamp s slot) (\<lambda>t. if t \<noteq> 0 then Inr (Some t) else first_used s slots)"

definition ring_oldest_timestamp :: "ring \<Rightarrow> u64 option res" where
  "ring_oldest_timestamp r =
     rbind (ring_is_empty r) (\<lambda>empty. if empty then Inr None else
     let cursor = slab_write_cursor (rb_slab r);
         slot_count = slab_slot_count (rb_slab r) in
     if rb_has_wrapped r then
       first_used (rb_slab r)
         (map (\<lambda>offset. (cursor + word_of_nat offset) mod slot_count) [1..<unat slot_count + 1])
     else first_used (rb_slab r) (map word_of_nat [0..<unat slot_count]))"

fun count_used :: "slab \<Rightarrow> u32 list \<Rightarrow> u32 \<Rightarrow> u32 res" where
  "count_used s [] count = Inr count"
| "count_used s (slot # slots) count =
     rbind (read_timestamp s slot) (\<lambda>t. count_used s slots (if t \<noteq> 0 then count + 1 else count))"

definition ring_slots_used :: "ring \<Rightarrow> u32 res" where
  "ring_slots_used r =
     rbind (ring_is_empty r) (\<lambda>empty. if empty then Inr 0 else
     if rb_has_wrapped r then Inr (slab_slot_count (rb_slab r))
     else count_used (rb_slab r) (map word_of_nat [0..<unat (slab_slot_count (rb_slab r))]) 0)"

section \<open>Iterators\<close>

record ring_iter =
  it_ring :: ring
  it_series_column :: u32
  it_start_ns :: u64
  it_end_ns :: u64
  it_current_slot :: u32
  it_slots_remaining :: u32

definition iter_new :: "ring \<Rightarrow> u32 \<Rightarrow> u64 \<Rightarrow> u64 \<Rightarrow> ring_iter res" where
  "iter_new r series_column start_ns end_ns =
     rbind (ring_is_empty r) (\<lambda>empty.
     if empty then
       Inr \<lparr> it_ring = r, it_series_column = series_column, it_start_ns = start_ns,
             it_end_ns = end_ns, it_current_slot = 0, it_slots_remaining = 0 \<rparr>
     else
       let cursor = slab_write_cursor (rb_slab r);
           slot_count = slab_slot_count (rb_slab r) in
       rbind
         (if rb_has_wrapped r then
            if slot_count = 0 then Inl Panic else Inr ((cursor + 1) mod slot_count, slot_count)
          else Inr (0, cursor + 1))
         (\<lambda>(start_slot, count).
       Inr \<lparr> it_ring = r, it_series_column = series_column, it_start_ns = start_ns,
             it_end_ns = end_ns, it_current_slot = start_slot, it_slots_remaining = count \<rparr>))"

lemma u32_pred_less: "0 < w \<Longrightarrow> unat (w - 1) < unat (w :: u32)"
  by (metis measure_unat word_neq_0_conv)

function iter_next :: "ring_iter \<Rightarrow> ((u64 \<times> f64) option \<times> ring_iter) res" where
  "iter_next it =
     (if 0 < it_slots_remaining it then
        let slab = rb_slab (it_ring it); slot = it_current_slot it in
        rbind (read_timestamp slab slot) (\<lambda>timestamp.
        rbind (read_value slab slot (it_series_column it)) (\<lambda>v.
        if slab_slot_count slab = 0 then Inl Panic else
        let it' = it\<lparr>it_current_slot := (slot + 1) mod slab_slot_count slab,
                     it_slots_remaining := it_slots_remaining it - 1\<rparr> in
        if it_start_ns it \<le> timestamp \<and> timestamp < it_end_ns it \<and> \<not> is_nan v
        then Inr (Some (timestamp, v), it') else iter_next it'))
      else Inr (None, it))"
  by pat_completeness auto
termination
  by (relation "measure (\<lambda>it. unat (it_slots_remaining it))") (auto simp: u32_pred_less)

declare iter_next.simps [simp del]

lemma iter_next_remaining:
  "iter_next it = Inr (Some p, it') \<Longrightarrow> unat (it_slots_remaining it') < unat (it_slots_remaining it)"
proof (induction it rule: iter_next.induct)
  case (1 it)
  let ?it = "it\<lparr>it_current_slot := (it_current_slot it + 1) mod slab_slot_count (rb_slab (it_ring it)),
                     it_slots_remaining := it_slots_remaining it - 1\<rparr>"
  from "1.prems" have pos: "0 < it_slots_remaining it"
    by (subst (asm) iter_next.simps) (auto split: if_splits)
  from "1.prems" have "iter_next ?it = Inr (Some p, it') \<or> it' = ?it"
    by (subst (asm) iter_next.simps) (auto simp: Let_def rbind_eq_Inr split: if_splits)
  then show ?case
    using "1.IH" [of "rb_slab (it_ring it)" "it_current_slot it"] "1.prems" pos u32_pred_less [OF pos]
    by (subst (asm) (2) iter_next.simps) (fastforce simp: Let_def rbind_eq_Inr split: if_splits)
qed

function iter_collect :: "ring_iter \<Rightarrow> (u64 \<times> f64) list res" where
  "iter_collect it =
     rbind (iter_next it) (\<lambda>(item, it').
       case item of None \<Rightarrow> Inr []
       | Some p \<Rightarrow> rbind (iter_collect it') (\<lambda>ps. Inr (p # ps)))"
  by pat_completeness auto
termination
  by (relation "measure (\<lambda>it. unat (it_slots_remaining it))") (auto simp: iter_next_remaining)

declare iter_collect.simps [simp del]

definition ring_read :: "ring \<Rightarrow> u32 \<Rightarrow> u64 \<Rightarrow> u64 \<Rightarrow> ring_iter res" where
  "ring_read r series_column start_ns end_ns =
     (if start_ns \<ge> end_ns then err (Query (InvalidTimeRange start_ns end_ns))
      else iter_new r series_column start_ns end_ns)"

text \<open>A read followed by the consumption of the whole iterator.\<close>

definition ring_read_all :: "ring \<Rightarrow> u32 \<Rightarrow> u64 \<Rightarrow> u64 \<Rightarrow> (u64 \<times> f64) list res" where
  "ring_read_all r series_column start_ns end_ns =
     rbind (ring_read r series_column start_ns end_ns) iter_collect"

section \<open>Walks around the ring\<close>

abbreviation rb_table :: "ring \<Rightarrow> table" where
  "rb_table r \<equiv> slab_table (rb_slab r)"

definition next_slot :: "u32 \<Rightarrow> u32 \<Rightarrow> u32" where
  "next_slot sc i = (i + 1) mod sc"

fun walk :: "u32 \<Rightarrow> u32 \<Rightarrow> nat \<Rightarrow> u32 list" where
  "walk sc i 0 = []"
| "walk sc i (Suc n) = i # walk sc (next_slot sc i) n"

lemma unat_next_slot: "i < sc \<Longrightarrow> unat (next_slot sc i) = (unat i + 1) mod unat sc"
proof -
  assume "i < sc"
  then have "unat i + 1 < 2 ^ 32"
    using u32_bound [of sc] by (simp add: word_less_nat_alt)
  then have "unat (i + 1) = unat i + 1"
    by (simp add: unat_word_ariths)
  then show ?thesis by (simp add: next_slot_def unat_mod)
qed

lemma next_slot_less: "i < sc \<Longrightarrow> next_slot sc i < sc"
  by (simp add: word_less_nat_alt unat_next_slot)

lemma walk_map:
  "i < sc \<Longrightarrow> walk sc i n = map (\<lambda>k. word_of_nat ((unat i + k) mod unat sc)) [0..<n]"
proof (induction n arbitrary: i)
  case (Suc n)
  have "unat i < unat sc" using Suc.prems by (simp add: word_less_nat_alt)
  moreover have "((unat i + 1) mod unat sc + k) mod unat sc = (unat i + Suc k) mod unat sc" for k
    by (simp add: mod_add_left_eq)
  ultimately show ?case
    using Suc.IH [OF next_slot_less [OF Suc.prems]]
    by (simp add: unat_next_slot [OF Suc.prems] map_upt_Suc del: upt_Suc)
qed simp

lemma unat_mod_slot: "0 < sc \<Longrightarrow> unat (word_of_nat (k mod unat (sc :: u32)) :: u32) = k mod unat sc"
proof -
  assume "0 < sc"
  then have "k mod unat sc < unat sc"
    by (simp add: word_less_nat_alt)
  then have "k mod unat sc < 2 ^ 32"
    using u32_bound [of sc] by linarith
  then show ?thesis by (rule u32_of_nat)
qed

lemma length_walk [simp]: "length (walk sc i n) = n"
  by (induction n arbitrary: i) auto

lemma walk_in_range: "i < sc \<Longrightarrow> j \<in> set (walk sc i n) \<Longrightarrow> j < sc"
  by (induction n arbitrary: i) (auto, metis next_slot_less)

lemma add_mod_inj:
  assumes "(a + j) mod m = (a + k) mod m" "j < m" "k < (m :: nat)"
  shows "j = k"
  using assms
proof (induction j k rule: linorder_wlog)
  case (le j k)
  then have "m dvd a + k - (a + j)"
    by (metis add_le_cancel_left mod_eq_dvd_iff_nat)
  then show ?case using le by (auto dest: dvd_imp_le)
qed (simp add: eq_commute)

lemma walk_distinct:
  assumes "i < sc"
  shows "distinct (walk sc i (unat sc))"
proof -
  have pos: "0 < sc" using assms word_gt_0 by fastforce
  have "inj_on (\<lambda>k. word_of_nat ((unat i + k) mod unat sc) :: u32) {0..<unat sc}"
  proof (rule inj_onI)
    fix j k assume "j \<in> {0..<unat sc}" "k \<in> {0..<unat sc}"
      and eq: "(word_of_nat ((unat i + j) mod unat sc) :: u32) = word_of_nat ((unat i + k) mod unat sc)"
    then have jk: "j < unat sc" "k < unat sc" by auto
    have "(unat i + j) mod unat sc = (unat i + k) mod unat sc"
      using arg_cong [OF eq, of unat] by (simp only: unat_mod_slot [OF pos])
    then show "j = k" using jk by (rule add_mod_inj)
  qed
  then show ?thesis by (simp add: walk_map [OF assms] distinct_map)
qed

lemma walk_rotate:
  assumes "i < sc"
  shows "walk sc (next_slot sc i) (unat sc) = tl (walk sc i (unat sc)) @ [i]"
proof -
  obtain n where n: "unat sc = Suc n"
    using assms by (metis not0_implies_Suc unat_eq_zero word_not_simps(1))
  have snoc: "walk sc j (Suc n) = walk sc j n @ [word_of_nat ((unat j + n) mod unat sc)]"
    if "j < sc" for j
    by (simp only: walk_map [OF that] upt_Suc_append map_append) simp
  have "unat (next_slot sc i) + n = (unat i + 1) mod unat sc + n"
    by (simp add: unat_next_slot [OF assms])
  then have "(unat (next_slot sc i) + n) mod unat sc = (unat i + unat sc) mod unat sc"
    using n by (simp add: mod_add_left_eq)
  then have "word_of_nat ((unat (next_slot sc i) + n) mod unat sc) = i"
    using assms by (simp add: word_less_nat_alt)
  then show ?thesis
    using snoc [OF next_slot_less [OF assms]] by (simp add: n)
qed

lemma walk_from_zero:
  "unat n \<le> unat sc \<Longrightarrow> 0 < sc \<Longrightarrow> walk sc 0 (unat n) = map word_of_nat [0..<unat n]"
  by (subst walk_map) simp_all

text \<open>All slots, from the one after the cursor round to the cursor.\<close>

definition circle :: "table \<Rightarrow> u32 list" where
  "circle tb = walk (tb_slots tb) (next_slot (tb_slots tb) (tb_cursor tb)) (unat (tb_slots tb))"

section \<open>Invariant\<close>

definition slot_of :: "table \<Rightarrow> u64 \<Rightarrow> u32" where
  "slot_of tb t = ucast ((t div tb_interval tb) mod ucast (tb_slots tb))"

definition ring_wf :: "ring \<Rightarrow> bool" where
  "ring_wf r \<longleftrightarrow> slab_wf (rb_slab r) \<and> 0 < tb_slots (rb_table r) \<and>
     0 < tb_interval (rb_table r) \<and> tb_cursor (rb_table r) < tb_slots (rb_table r)"

text \<open>
  Every used slot holds a timestamp that belongs there; an unused slot has no value; the
  cursor rests on a used slot unless the ring is empty; and as long as the ring has not
  wrapped, the slots after the cursor are unused.
\<close>

definition table_inv :: "table \<Rightarrow> bool" where
  "table_inv tb \<longleftrightarrow>
     (\<forall>i. tb_ts tb i \<noteq> 0 \<longrightarrow> i < tb_slots tb \<and> slot_of tb (tb_ts tb i) = i) \<and>
     (\<forall>i c. tb_ts tb i = 0 \<longrightarrow> is_nan (tb_val tb i c)) \<and>
     (tb_ts tb (tb_cursor tb) = 0 \<longrightarrow> (\<forall>i. tb_ts tb i = 0))"

definition unwrapped_inv :: "table \<Rightarrow> bool" where
  "unwrapped_inv tb \<longleftrightarrow> (\<forall>i. tb_cursor tb < i \<longrightarrow> tb_ts tb i = 0)"

definition ring_inv :: "ring \<Rightarrow> bool" where
  "ring_inv r \<longleftrightarrow> ring_wf r \<and> table_inv (rb_table r) \<and>
     (\<not> rb_has_wrapped r \<longrightarrow> unwrapped_inv (rb_table r))"

lemma unat_slot_of:
  assumes "0 < tb_slots tb"
  shows "unat (slot_of tb t) = (unat t div unat (tb_interval tb)) mod unat (tb_slots tb)"
proof -
  have "(unat t div unat (tb_interval tb)) mod unat (tb_slots tb) < unat (tb_slots tb)"
    using assms by (simp add: word_less_nat_alt)
  then have "(unat t div unat (tb_interval tb)) mod unat (tb_slots tb) < 2 ^ 32"
    using u32_bound [of "tb_slots tb"] by linarith
  then show ?thesis
    by (simp add: slot_of_def unat_u64_to_u32 unat_mod unat_div unat_u32_to_u64)
qed

lemma slot_of_less: "0 < tb_slots tb \<Longrightarrow> slot_of tb t < tb_slots tb"
  by (simp add: word_less_nat_alt unat_slot_of)

lemma compute_slot_ok:
  "ring_wf r \<Longrightarrow> compute_slot r t = Inr (slot_of (rb_table r) t)"
  by (auto simp: compute_slot_def ring_wf_def table_fields slot_of_def Let_def)

lemma circle_split:
  assumes "tb_cursor tb < tb_slots tb"
  shows "circle tb = map word_of_nat
    ([unat (tb_cursor tb) + 1..<unat (tb_slots tb)] @ [0..<unat (tb_cursor tb) + 1])"
proof -
  let ?c = "unat (tb_cursor tb)" and ?n = "unat (tb_slots tb)"
  have c: "?c < ?n" using assms by (simp add: word_less_nat_alt)
  have "map (\<lambda>k. (unat (next_slot (tb_slots tb) (tb_cursor tb)) + k) mod ?n) [0..<?n]
      = [?c + 1..<?n] @ [0..<?c + 1]"
  proof (rule nth_equalityI)
    fix k assume "k < length (map (\<lambda>k. (unat (next_slot (tb_slots tb) (tb_cursor tb)) + k) mod ?n) [0..<?n])"
    then have k: "k < ?n" by simp
    then show "map (\<lambda>k. (unat (next_slot (tb_slots tb) (tb_cursor tb)) + k) mod ?n) [0..<?n] ! k
        = ([?c + 1..<?n] @ [0..<?c + 1]) ! k"
      using c by (cases "?c + 1 + k < ?n")
        (auto simp: unat_next_slot [OF assms] nth_append mod_add_left_eq mod_if le_mod_geq
          simp del: upt_Suc)
  qed (use c in simp)
  then show ?thesis
    unfolding circle_def walk_map [OF next_slot_less [OF assms]]
    by (metis (no_types, lifting) comp_apply list.map_comp map_eq_conv)
qed

lemma circle_in_range: "tb_cursor tb < tb_slots tb \<Longrightarrow> i \<in> set (circle tb) \<Longrightarrow> i < tb_slots tb"
  unfolding circle_def using walk_in_range next_slot_less by blast

lemma circle_distinct: "tb_cursor tb < tb_slots tb \<Longrightarrow> distinct (circle tb)"
  unfolding circle_def by (rule walk_distinct) (rule next_slot_less)

lemma circle_all:
  assumes "tb_cursor tb < tb_slots tb" "i < tb_slots tb"
  shows "i \<in> set (circle tb)"
proof -
  have "i = word_of_nat (unat i)" by simp
  moreover have "unat i \<in> set ([unat (tb_cursor tb) + 1..<unat (tb_slots tb)] @ [0..<unat (tb_cursor tb) + 1])"
    using assms(2) by (auto simp: word_less_nat_alt)
  ultimately show ?thesis
    unfolding circle_split [OF assms(1)] by (metis imageI list.set_map)
qed

section \<open>Writes\<close>

text \<open>A write on the abstract table: the timestamp and the values of one slot, and the cursor.\<close>

definition row_update :: "(u32 \<times> f64) list \<Rightarrow> (u32 \<Rightarrow> f64) \<Rightarrow> u32 \<Rightarrow> f64" where
  "row_update cvs row = fold (\<lambda>(c, v) f. f(c := v)) cvs row"

definition tb_write :: "(u32 \<times> f64) list \<Rightarrow> u64 \<Rightarrow> table \<Rightarrow> table" where
  "tb_write cvs t tb =
     (let i = slot_of tb t in
      tb\<lparr>tb_ts := (tb_ts tb)(i := t), tb_val := (tb_val tb)(i := row_update cvs (tb_val tb i)),
         tb_cursor := i\<rparr>)"

lemma fold_put_val:
  "fold (\<lambda>(c, v). tb_put_val i c v) cvs tb =
     tb\<lparr>tb_val := (tb_val tb)(i := row_update cvs (tb_val tb i))\<rparr>"
  by (induction cvs arbitrary: tb) (auto simp: tb_put_val_def row_update_def)

lemma row_update_other: "c \<notin> fst ` set cvs \<Longrightarrow> row_update cvs row c = row c"
  unfolding row_update_def by (induction cvs arbitrary: row) auto

lemma row_update_single [simp]: "row_update [(c, v)] row = row(c := v)"
  by (simp add: row_update_def)

lemma row_update_Nil [simp]: "row_update [] row = row"
  by (simp add: row_update_def)

lemma row_update_Cons: "row_update ((c, v) # cvs) row = row_update cvs (row(c := v))"
  by (simp add: row_update_def)

lemma slot_write_refines:
  fixes t :: u64
  assumes wf: "ring_wf r" and cols: "list_all (\<lambda>(c, v). c < tb_cols (rb_table r)) cvs"
  defines "i \<equiv> slot_of (rb_table r) t"
  shows "\<exists>s. rbind (write_timestamp (rb_slab r) i t)
      (fold_res (\<lambda>(c, v) s. write_value s i c v) cvs) = Inr s \<and> slab_wf s \<and>
    slab_wf (set_write_cursor s i) \<and> slab_table (set_write_cursor s i) = tb_write cvs t (rb_table r)"
proof -
  have i: "i < tb_slots (rb_table r)"
    using wf slot_of_less by (simp add: i_def ring_wf_def)
  obtain s where s: "rbind (write_timestamp (rb_slab r) i t)
      (fold_res (\<lambda>(c, v) s. write_value s i c v) cvs) = Inr s" "slab_wf s"
      "slab_table s = fold (\<lambda>(c, v). tb_put_val i c v) cvs (tb_put_ts i t (rb_table r))"
    using sl.wr_slot [OF _ i cols] wf by (auto simp: ring_wf_def)
  then show ?thesis
    using sl.set_cur [OF s(2), of i]
    by (auto simp: fold_put_val tb_put_ts_def tb_write_def Let_def i_def)
qed

lemma check_finite_ok: "check_finite cvs = Inr () \<longleftrightarrow> list_all (\<lambda>(c, v). \<not> is_infinite v) cvs"
  by (induction cvs rule: check_finite.induct) auto

lemma ring_write_batch_ok:
  assumes wf: "ring_wf r" and t: "t \<noteq> 0"
    and vals: "list_all (\<lambda>(c, v). \<not> is_infinite v) cvs"
    and cols: "list_all (\<lambda>(c, v). c < tb_cols (rb_table r)) cvs"
  shows "\<exists>r'. ring_write_batch r cvs t = Inr r' \<and> ring_wf r' \<and>
    rb_table r' = tb_write cvs t (rb_table r) \<and>
    rb_has_wrapped r' = (rb_has_wrapped r \<or> slot_of (rb_table r) t < tb_cursor (rb_table r))"
proof -
  let ?i = "slot_of (rb_table r) t" and ?cur = "tb_cursor (rb_table r)"
  obtain s where s: "rbind (write_timestamp (rb_slab r) ?i t)
      (fold_res (\<lambda>(c, v) s. write_value s ?i c v) cvs) = Inr s"
      "slab_wf (set_write_cursor s ?i)"
      "slab_table (set_write_cursor s ?i) = tb_write cvs t (rb_table r)"
    using slot_write_refines [OF wf cols] by blast
  have cursor: "(rb_has_wrapped r \<or> ?i < ?cur) \<or> ?i \<ge> ?cur" by auto
  have i: "?i < tb_slots (rb_table r)"
    using wf slot_of_less by (simp add: ring_wf_def)
  have "ring_write_batch r cvs t = Inr \<lparr> rb_slab = set_write_cursor s ?i,
      rb_has_wrapped = (rb_has_wrapped r \<or> ?i < ?cur) \<rparr>"
    using s(1) t vals cursor
    by (auto simp: ring_write_batch_def check_finite_ok [THEN iffD2] compute_slot_ok [OF wf] Let_def
        table_fields rbind_eq_Inr)
  then show ?thesis
    using s(2,3) wf i by (auto simp: ring_wf_def tb_write_def Let_def)
qed

lemma ring_write_is_batch:
  "t \<noteq> 0 \<Longrightarrow> ring_write r c v t = ring_write_batch r [(c, v)] t"
  by (simp add: ring_write_def ring_write_batch_def Let_def cong: rbind_cong)

lemma slot_of_config:
  "tb_slots tb' = tb_slots tb \<Longrightarrow> tb_interval tb' = tb_interval tb \<Longrightarrow> slot_of tb' t = slot_of tb t"
  by (simp add: slot_of_def)

lemma tb_write_config:
  "tb_slots (tb_write cvs t tb) = tb_slots tb" "tb_cols (tb_write cvs t tb) = tb_cols tb"
  "tb_interval (tb_write cvs t tb) = tb_interval tb" "tb_hash (tb_write cvs t tb) = tb_hash tb"
  "tb_cursor (tb_write cvs t tb) = slot_of tb t" "tb_dir (tb_write cvs t tb) = tb_dir tb"
  "tb_count (tb_write cvs t tb) = tb_count tb"
  "slot_of (tb_write cvs t tb) u = slot_of tb u"
  by (simp_all add: tb_write_def Let_def slot_of_def)

lemma tb_write_ts: "tb_ts (tb_write cvs t tb) = (tb_ts tb)(slot_of tb t := t)"
  by (simp add: tb_write_def Let_def)

lemma tb_write_val:
  "tb_val (tb_write cvs t tb) = (tb_val tb)(slot_of tb t := row_update cvs (tb_val tb (slot_of tb t)))"
  by (simp add: tb_write_def Let_def)

lemma table_inv_write:
  "table_inv tb \<Longrightarrow> t \<noteq> 0 \<Longrightarrow> 0 < tb_slots tb \<Longrightarrow> table_inv (tb_write cvs t tb)"
  by (auto simp: table_inv_def tb_write_config tb_write_ts tb_write_val slot_of_less)

lemma unwrapped_inv_write:
  "unwrapped_inv tb \<Longrightarrow> \<not> slot_of tb t < tb_cursor tb \<Longrightarrow> unwrapped_inv (tb_write cvs t tb)"
  by (auto simp: unwrapped_inv_def tb_write_config tb_write_ts not_less)

lemma ring_write_batch_step:
  assumes "ring_inv r" and "t \<noteq> 0" and "list_all (\<lambda>(c, v). \<not> is_infinite v) cvs"
    and "list_all (\<lambda>(c, v). c < tb_cols (rb_table r)) cvs"
  shows "\<exists>r'. ring_write_batch r cvs t = Inr r' \<and> ring_inv r' \<and>
    rb_table r' = tb_write cvs t (rb_table r) \<and>
    rb_has_wrapped r' = (rb_has_wrapped r \<or> slot_of (rb_table r) t < tb_cursor (rb_table r))"
proof -
  have wf: "ring_wf r" and pos: "0 < tb_slots (rb_table r)" and inv: "table_inv (rb_table r)"
    using assms(1) by (auto simp: ring_inv_def ring_wf_def)
  obtain r' where r': "ring_write_batch r cvs t = Inr r'" "ring_wf r'"
      "rb_table r' = tb_write cvs t (rb_table r)"
      "rb_has_wrapped r' = (rb_has_wrapped r \<or> slot_of (rb_table r) t < tb_cursor (rb_table r))"
    using ring_write_batch_ok [OF wf assms(2-4)] by blast
  moreover have "ring_inv r'"
    using assms(1) r' table_inv_write [OF inv assms(2) pos] unwrapped_inv_write
    by (auto simp: ring_inv_def)
  ultimately show ?thesis by blast
qed

lemma ring_write_step:
  assumes "ring_inv r" and "t \<noteq> 0" and "\<not> is_infinite v" and "c < tb_cols (rb_table r)"
  shows "\<exists>r'. ring_write r c v t = Inr r' \<and> ring_inv r' \<and>
    rb_table r' = tb_write [(c, v)] t (rb_table r) \<and>
    rb_has_wrapped r' = (rb_has_wrapped r \<or> slot_of (rb_table r) t < tb_cursor (rb_table r))"
  using ring_write_batch_step [OF assms(1,2), of "[(c, v)]"] assms
  by (simp add: ring_write_is_batch)

text \<open>
  C13. On a ring that satisfies the invariant, a batch of finite-or-NaN values at a
  non-zero timestamp, in any order with earlier writes, is always accepted, acts on the
  abstract table as a write of one slot, and keeps the invariant.
\<close>

theorem ring_write_batch_refines:
  assumes "ring_inv r" and "t \<noteq> 0" and "list_all (\<lambda>(c, v). \<not> is_infinite v) cvs"
    and "list_all (\<lambda>(c, v). c < tb_cols (rb_table r)) cvs"
  shows "\<exists>r'. ring_write_batch r cvs t = Inr r' \<and> ring_inv r' \<and>
    rb_table r' = tb_write cvs t (rb_table r) \<and>
    rb_has_wrapped r' = (rb_has_wrapped r \<or> slot_of (rb_table r) t < tb_cursor (rb_table r))"
  using assms by (rule ring_write_batch_step)

section \<open>Reads\<close>

definition in_range :: "u64 \<Rightarrow> u64 \<Rightarrow> u64 \<times> f64 \<Rightarrow> bool" where
  "in_range start end' p \<longleftrightarrow> start \<le> fst p \<and> fst p < end'"

definition slot_sample :: "table \<Rightarrow> u32 \<Rightarrow> u32 \<Rightarrow> u64 \<times> f64" where
  "slot_sample tb c i = (tb_ts tb i, tb_val tb i c)"

text \<open>The samples of a column, from the slot after the cursor round to the cursor.\<close>

definition ring_contents :: "table \<Rightarrow> u32 \<Rightarrow> (u64 \<times> f64) list" where
  "ring_contents tb c = filter (\<lambda>p. \<not> is_nan (snd p)) (map (slot_sample tb c) (circle tb))"

lemma iter_collect_done: "it_slots_remaining it = 0 \<Longrightarrow> iter_collect it = Inr []"
  by (simp add: iter_collect.simps [of it] iter_next.simps [of it])

lemma iter_next_step:
  assumes wf: "ring_wf (it_ring it)" and c: "it_series_column it < tb_cols (rb_table (it_ring it))"
    and i: "it_current_slot it < tb_slots (rb_table (it_ring it))" and n: "0 < it_slots_remaining it"
  defines "p \<equiv> slot_sample (rb_table (it_ring it)) (it_series_column it) (it_current_slot it)"
    and "it' \<equiv> it\<lparr>it_current_slot := next_slot (tb_slots (rb_table (it_ring it))) (it_current_slot it),
               it_slots_remaining := it_slots_remaining it - 1\<rparr>"
  shows "iter_next it =
    (if in_range (it_start_ns it) (it_end_ns it) p \<and> \<not> is_nan (snd p)
     then Inr (Some p, it') else iter_next it')"
proof -
  let ?s = "rb_slab (it_ring it)" and ?i = "it_current_slot it"
  have s: "slab_wf ?s" "slab_slot_count ?s \<noteq> 0"
    using wf by (auto simp: ring_wf_def table_fields)
  have "read_timestamp ?s ?i = Inr (fst p)" "read_value ?s ?i (it_series_column it) = Inr (snd p)"
    using s i c by (simp_all add: p_def slot_sample_def read_timestamp_law read_value_law table_fields)
  then show ?thesis
    using n s(2)
    by (subst iter_next.simps) (simp add: Let_def in_range_def it'_def next_slot_def table_fields)
qed

lemma iter_collect_walk:
  assumes "ring_wf (it_ring it)" and "it_series_column it < tb_cols (rb_table (it_ring it))"
    and "it_current_slot it < tb_slots (rb_table (it_ring it))"
  shows "iter_collect it = Inr
    (filter (\<lambda>p. in_range (it_start_ns it) (it_end_ns it) p \<and> \<not> is_nan (snd p))
      (map (slot_sample (rb_table (it_ring it)) (it_series_column it))
        (walk (tb_slots (rb_table (it_ring it))) (it_current_slot it) (unat (it_slots_remaining it)))))"
  using assms
proof (induction "unat (it_slots_remaining it)" arbitrary: it)
  case 0
  then show ?case by (simp add: iter_collect_done unat_eq_zero)
next
  case (Suc n)
  let ?tb = "rb_table (it_ring it)"
  let ?it' = "it\<lparr>it_current_slot := next_slot (tb_slots ?tb) (it_current_slot it),
               it_slots_remaining := it_slots_remaining it - 1\<rparr>"
  have pos: "0 < it_slots_remaining it"
    using Suc.hyps(2) by (auto simp: word_gt_0)
  have n: "unat (it_slots_remaining it - 1) = n"
    using Suc.hyps(2) pos by (simp add: unat_minus_one word_gt_0)
  have IH: "iter_collect ?it' = Inr
    (filter (\<lambda>p. in_range (it_start_ns it) (it_end_ns it) p \<and> \<not> is_nan (snd p))
      (map (slot_sample ?tb (it_series_column it))
        (walk (tb_slots ?tb) (next_slot (tb_slots ?tb) (it_current_slot it)) n)))"
    using Suc.hyps(1) [of ?it'] Suc.prems n next_slot_less by simp
  show ?case
    using iter_next_step [OF Suc.prems pos] IH
    by (simp add: iter_collect.simps [of it] iter_collect.simps [of ?it'] flip: Suc.hyps(2))
qed

lemma ring_is_empty_ok:
  "ring_wf r \<Longrightarrow> ring_is_empty r = Inr (tb_ts (rb_table r) (tb_cursor (rb_table r)) = 0)"
  by (simp add: ring_is_empty_def ring_wf_def read_timestamp_law table_fields)

text \<open>Slots after the cursor of a ring that has not wrapped contribute nothing.\<close>

lemma unwrapped_contents:
  assumes cur: "tb_cursor tb < tb_slots tb" and inv: "table_inv tb" "unwrapped_inv tb"
  shows "ring_contents tb c = filter (\<lambda>p. \<not> is_nan (snd p))
    (map (slot_sample tb c) (walk (tb_slots tb) 0 (unat (tb_cursor tb + 1))))"
proof -
  have bound: "unat (tb_cursor tb) + 1 < 2 ^ 32" "unat (tb_cursor tb) + 1 \<le> unat (tb_slots tb)"
    using cur u32_bound [of "tb_slots tb"] by (simp_all add: word_less_nat_alt)
  then have u: "unat (tb_cursor tb + 1) = unat (tb_cursor tb) + 1"
    by (simp add: unat_word_ariths)
  have pos: "0 < tb_slots tb" using cur word_gt_0 by fastforce
  have "is_nan (tb_val tb (word_of_nat k) c)"
    if "k \<in> set [unat (tb_cursor tb) + 1..<unat (tb_slots tb)]" for k
  proof -
    have "k < 2 ^ 32" using that u32_bound [of "tb_slots tb"] by auto
    then have "tb_cursor tb < word_of_nat k"
      using that u32_of_nat by (simp add: word_less_nat_alt)
    then show ?thesis using inv by (simp add: unwrapped_inv_def table_inv_def)
  qed
  then have "filter (\<lambda>p. \<not> is_nan (snd p)) (map (slot_sample tb c)
      (map word_of_nat [unat (tb_cursor tb) + 1..<unat (tb_slots tb)])) = []"
    by (auto simp: filter_empty_conv slot_sample_def)
  then show ?thesis
    using walk_from_zero [of "tb_cursor tb + 1" "tb_slots tb"] pos bound(2)
    by (simp only: ring_contents_def circle_split [OF cur] map_append filter_append u append_Nil)
qed

lemma empty_contents:
  assumes "table_inv tb" and "tb_ts tb (tb_cursor tb) = 0"
  shows "ring_contents tb c = []"
  using assms by (auto simp: table_inv_def ring_contents_def slot_sample_def filter_empty_conv)

lemma ring_read_all_contents:
  assumes inv: "ring_inv r" and c: "c < tb_cols (rb_table r)" and "start < end'"
  shows "ring_read_all r c start end' = Inr (filter (in_range start end') (ring_contents (rb_table r) c))"
proof -
  let ?tb = "rb_table r"
  have wf: "ring_wf r" and ti: "table_inv ?tb" and cur: "tb_cursor ?tb < tb_slots ?tb"
    using inv by (auto simp: ring_inv_def ring_wf_def)
  have pos: "0 < tb_slots ?tb" using cur word_gt_0 by fastforce
  consider (empty) "tb_ts ?tb (tb_cursor ?tb) = 0"
    | (wrapped) "tb_ts ?tb (tb_cursor ?tb) \<noteq> 0" "rb_has_wrapped r"
    | (linear) "tb_ts ?tb (tb_cursor ?tb) \<noteq> 0" "\<not> rb_has_wrapped r" by blast
  then show ?thesis
  proof cases
    case empty
    then show ?thesis
      using assms(3) ring_is_empty_ok [OF wf] empty_contents [OF ti]
      by (simp add: ring_read_all_def ring_read_def iter_new_def iter_collect_done not_le)
  next
    case wrapped
    then show ?thesis
      using assms(3) ring_is_empty_ok [OF wf] wf c cur pos
        next_slot_less [OF cur]
      by (auto simp: ring_read_all_def ring_read_def iter_new_def iter_collect_walk not_le Let_def
          ring_contents_def circle_def next_slot_def simp flip: table_fields intro: filter_cong)
  next
    case linear
    then show ?thesis
      using assms(3) ring_is_empty_ok [OF wf] wf c cur pos inv
        unwrapped_contents [OF cur ti]
      by (auto simp: ring_read_all_def ring_read_def iter_new_def iter_collect_walk not_le Let_def
          ring_inv_def simp flip: table_fields intro: filter_cong)
  qed
qed

text \<open>
  C12. A read of a ring that satisfies the invariant succeeds and returns exactly the
  non-NaN samples of the column whose timestamp lies in the half-open range, walking
  from the slot after the cursor round to the cursor, whether the ring has wrapped or not.
\<close>

theorem ring_read_refines:
  assumes "ring_inv r" and "c < tb_cols (rb_table r)" and "start < end'"
  shows "ring_read_all r c start end' = Inr (filter (in_range start end') (ring_contents (rb_table r) c))"
  using assms by (rule ring_read_all_contents)

section \<open>Fresh rings\<close>

lemma fresh_slab:
  assumes "slab_size (unat sc) (unat ms) < 2 ^ 64"
  obtains s where "slab_create os_ok path h sc ms iv = Inr s" "slab_wf s"
    "slab_table s = empty_table h sc ms iv"
  using slab_create_bytes [OF assms, of os_ok path h iv] initial_wf [OF assms] initial_table
  by (auto simp: os_ok_def)

lemma empty_table_inv: "table_inv (empty_table h sc ms iv)" "unwrapped_inv (empty_table h sc ms iv)"
  by (simp_all add: table_inv_def unwrapped_inv_def empty_table_def)

lemma ring_new_fresh:
  assumes "slab_wf s" and "slab_table s = empty_table h sc ms iv" and "0 < sc" and "0 < iv"
  shows "ring_new s = Inr \<lparr> rb_slab = s, rb_has_wrapped = False \<rparr> \<and>
    ring_inv \<lparr> rb_slab = s, rb_has_wrapped = False \<rparr>"
proof -
  have f: "slab_write_cursor s = 0" "slab_slot_count s = sc"
    by (simp_all flip: table_fields add: assms(2)) (simp_all add: empty_table_def)
  have "ring_new s = Inr \<lparr> rb_slab = s, rb_has_wrapped = False \<rparr>"
    using read_timestamp_law [OF assms(1), of 1] f assms(2)
    by (simp add: ring_new_def Let_def) (simp add: empty_table_def)
  moreover have "ring_inv \<lparr> rb_slab = s, rb_has_wrapped = False \<rparr>"
    using assms empty_table_inv
    by (simp add: ring_inv_def ring_wf_def) (simp add: empty_table_def)
  ultimately show ?thesis ..
qed

lemma fresh_ring:
  assumes "slab_size (unat sc) (unat ms) < 2 ^ 64" and "0 < sc" and "0 < iv"
  obtains s r where "slab_create os_ok path h sc ms iv = Inr s" "ring_new s = Inr r" "ring_inv r"
    "rb_table r = empty_table h sc ms iv" "\<not> rb_has_wrapped r"
proof -
  obtain s where s: "slab_create os_ok path h sc ms iv = Inr s" "slab_wf s"
      "slab_table s = empty_table h sc ms iv"
    by (rule fresh_slab [OF assms(1)])
  then show ?thesis
    using that [of s "\<lparr> rb_slab = s, rb_has_wrapped = False \<rparr>"] ring_new_fresh [OF s(2,3) assms(2,3)]
    by simp
qed

theorem ring_read_refines_witness:
  "\<exists>s r. slab_create os_ok ''a'' 7 2 1 5 = Inr s \<and> ring_new s = Inr r \<and>
     ring_read_all r 0 0 100 = Inr (filter (in_range 0 100) (ring_contents (rb_table r) 0))"
proof -
  obtain s r where r: "slab_create os_ok ''a'' 7 2 1 5 = Inr s" "ring_new s = Inr r" "ring_inv r"
      "rb_table r = empty_table 7 2 1 5"
    by (rule fresh_ring [of 2 1 5 "''a''" 7]) (simp_all add: slab_size_def)
  then have "0 < tb_cols (rb_table r)" by (simp add: empty_table_def)
  then show ?thesis
    using r ring_read_refines [of r 0 0 100] by auto
qed

theorem ring_write_batch_refines_witness:
  "\<exists>s r r'. slab_create os_ok ''a'' 7 2 1 5 = Inr s \<and> ring_new s = Inr r \<and>
     ring_write_batch r [(0, f_one)] 12 = Inr r' \<and> ring_inv r'"
proof -
  obtain s r where r: "slab_create os_ok ''a'' 7 2 1 5 = Inr s" "ring_new s = Inr r" "ring_inv r"
      "rb_table r = empty_table 7 2 1 5"
    by (rule fresh_ring [of 2 1 5 "''a''" 7]) (simp_all add: slab_size_def)
  have "list_all (\<lambda>(c, v). c < tb_cols (rb_table r)) [(0, f_one)]"
    by (simp add: r(4)) (simp add: empty_table_def)
  then show ?thesis
    using r(1-3) ring_write_batch_refines [of r 12 "[(0, f_one)]"]
    by (auto simp: finite_not_infinite)
qed

section \<open>What is written is read\<close>

lemma contents_member:
  assumes "tb_cursor tb < tb_slots tb" and "i < tb_slots tb" and "\<not> is_nan (tb_val tb i c)"
  shows "(tb_ts tb i, tb_val tb i c) \<in> set (ring_contents tb c)"
  using assms circle_all [OF assms(1,2)] by (auto simp: ring_contents_def slot_sample_def)

lemma write_contents:
  assumes "0 < tb_slots tb" and "\<not> is_nan (row_update cvs (tb_val tb (slot_of tb t)) c)"
  shows "(t, row_update cvs (tb_val tb (slot_of tb t)) c) \<in> set (ring_contents (tb_write cvs t tb) c)"
  using contents_member [of "tb_write cvs t tb" "slot_of tb t" c] assms slot_of_less [OF assms(1)]
  by (simp add: tb_write_config tb_write_ts tb_write_val)

text \<open>
  An accepted sample that is a number is found by every read of its series whose
  range covers its timestamp, whatever was written before.
\<close>

theorem written_sample_is_read:
  assumes "ring_inv r" and "t \<noteq> 0" and "is_finite v" and "c < tb_cols (rb_table r)"
    and "start \<le> t" and "t < end'"
  shows "\<exists>r' ps. ring_write r c v t = Inr r' \<and> ring_read_all r' c start end' = Inr ps \<and> (t, v) \<in> set ps"
proof -
  have pos: "0 < tb_slots (rb_table r)"
    using assms(1) by (simp add: ring_inv_def ring_wf_def)
  obtain r' where r': "ring_write r c v t = Inr r'" "ring_inv r'"
      "rb_table r' = tb_write [(c, v)] t (rb_table r)"
    using ring_write_step assms(1-4) finite_not_infinite by blast
  have "start < end'" using assms(5,6) by simp
  moreover have "c < tb_cols (rb_table r')"
    using assms(4) by (simp add: r'(3) tb_write_config)
  moreover have "(t, v) \<in> set (ring_contents (rb_table r') c)"
    using write_contents [OF pos, of "[(c, v)]" t c] assms(3) r'(3) finite_not_nan by simp
  ultimately show ?thesis
    using r' ring_read_all_contents [OF r'(2)] assms(5,6) by (auto simp: in_range_def)
qed

theorem written_sample_is_read_witness:
  "\<exists>s r r' ps. slab_create os_ok ''a'' 7 2 1 5 = Inr s \<and> ring_new s = Inr r \<and>
     ring_write r 0 f_one 12 = Inr r' \<and> ring_read_all r' 0 10 20 = Inr ps \<and> (12, f_one) \<in> set ps"
proof -
  obtain s r where r: "slab_create os_ok ''a'' 7 2 1 5 = Inr s" "ring_new s = Inr r" "ring_inv r"
      "rb_table r = empty_table 7 2 1 5"
    by (rule fresh_ring [of 2 1 5 "''a''" 7]) (simp_all add: slab_size_def)
  then have "0 < tb_cols (rb_table r)" by (simp add: empty_table_def)
  then show ?thesis
    using r(1-3) written_sample_is_read [of r 12 f_one 0 10 20] by auto
qed

section \<open>Gap-free writing: a sliding window\<close>

text \<open>The column around the ring, unused slots included.\<close>

definition raw_column :: "table \<Rightarrow> u32 \<Rightarrow> (u64 \<times> f64) list" where
  "raw_column tb c = map (slot_sample tb c) (circle tb)"

lemma length_raw [simp]: "length (raw_column tb c) = unat (tb_slots tb)"
  by (simp add: raw_column_def circle_def)

text \<open>Moving the cursor to the next slot rotates the column: the oldest entry leaves.\<close>

lemma raw_write_next:
  assumes cur: "tb_cursor tb < tb_slots tb"
    and nxt: "slot_of tb t = next_slot (tb_slots tb) (tb_cursor tb)"
  shows "raw_column (tb_write [(c, v)] t tb) c = tl (raw_column tb c) @ [(t, v)]"
proof -
  let ?i = "next_slot (tb_slots tb) (tb_cursor tb)"
  have i: "?i < tb_slots tb" by (rule next_slot_less [OF cur])
  have circle': "circle (tb_write [(c, v)] t tb) = tl (circle tb) @ [?i]"
    using walk_rotate [OF i] by (simp add: circle_def tb_write_config nxt)
  obtain js where js: "circle tb = ?i # js"
    using i by (cases "unat (tb_slots tb)") (auto simp: circle_def word_less_nat_alt)
  have "?i \<notin> set js"
    using circle_distinct [OF cur] js by simp
  then have "map (slot_sample (tb_write [(c, v)] t tb) c) js = map (slot_sample tb c) js"
    by (auto simp: slot_sample_def tb_write_ts tb_write_val nxt)
  then show ?thesis
    by (simp add: raw_column_def circle' js) (simp add: slot_sample_def tb_write_ts tb_write_val nxt)
qed

lemma raw_write_empty:
  assumes cur: "tb_cursor tb < tb_slots tb" and empty: "\<forall>i. tb_ts tb i = 0" and inv: "table_inv tb"
  shows "\<exists>fill. raw_column (tb_write [(c, v)] t tb) c = fill @ [(t, v)] \<and>
    list_all (\<lambda>p. is_nan (snd p)) fill"
proof -
  let ?tb = "tb_write [(c, v)] t tb" and ?i = "slot_of tb t"
  have i: "?i < tb_slots tb" using cur slot_of_less word_gt_0 by fastforce
  then have cur': "tb_cursor ?tb < tb_slots ?tb" by (simp add: tb_write_config)
  have split: "circle ?tb = map word_of_nat
      ([unat ?i + 1..<unat (tb_slots tb)] @ [0..<unat ?i]) @ [?i]"
    using circle_split [OF cur'] by (simp add: tb_write_config)
  have "distinct (circle ?tb)" by (rule circle_distinct [OF cur'])
  then have ne: "?i \<notin> set (map word_of_nat ([unat ?i + 1..<unat (tb_slots tb)] @ [0..<unat ?i]))"
    by (simp only: split) simp
  have "is_nan (tb_val tb j c)" for j
    using empty inv by (simp add: table_inv_def)
  then have "list_all (\<lambda>p. is_nan (snd p)) (map (slot_sample ?tb c) js)" if "?i \<notin> set js" for js
    using that by (auto simp: list_all_iff slot_sample_def tb_write_val)
  note this [OF ne]
  moreover have "slot_sample ?tb c ?i = (t, v)"
    by (simp add: slot_sample_def tb_write_ts tb_write_val)
  ultimately show ?thesis
    by (simp add: raw_column_def split)
qed

fun gap_free :: "nat \<Rightarrow> (u64 \<times> f64) list \<Rightarrow> bool" where
  "gap_free iv ((t, v) # (u, w) # ps) \<longleftrightarrow>
     unat u div iv = Suc (unat t div iv) \<and> gap_free iv ((u, w) # ps)"
| "gap_free iv _ \<longleftrightarrow> True"

lemma slot_of_next:
  assumes "0 < tb_slots tb"
    and "unat u div unat (tb_interval tb) = Suc (unat t div unat (tb_interval tb))"
  shows "slot_of tb u = next_slot (tb_slots tb) (slot_of tb t)"
  using assms slot_of_less [OF assms(1), of t]
  by (simp add: word_unat_eq_iff unat_slot_of unat_next_slot mod_Suc_eq)

definition write_column :: "u32 \<Rightarrow> (u64 \<times> f64) list \<Rightarrow> ring \<Rightarrow> ring res" where
  "write_column c = fold_res (\<lambda>(t, v) r. ring_write r c v t)"

lemma write_column_rotates:
  assumes "ring_inv r" and "c < tb_cols (rb_table r)" and "tb_ts (rb_table r) (tb_cursor (rb_table r)) = t0"
    and "t0 \<noteq> 0" and "gap_free (unat (tb_interval (rb_table r))) ((t0, v0) # ps)"
    and "list_all (\<lambda>(t, v). t \<noteq> 0 \<and> \<not> is_infinite v) ps"
  shows "\<exists>r'. write_column c ps r = Inr r' \<and> ring_inv r' \<and> tb_cols (rb_table r') = tb_cols (rb_table r) \<and>
    raw_column (rb_table r') c = drop (length ps) (raw_column (rb_table r) c @ ps)"
  using assms
proof (induction ps arbitrary: r t0 v0)
  case Nil
  then show ?case by (simp add: write_column_def)
next
  case (Cons p ps)
  obtain t v where p: "p = (t, v)" by force
  let ?tb = "rb_table r"
  have ti: "table_inv ?tb" and pos: "0 < tb_slots ?tb" and cur: "tb_cursor ?tb < tb_slots ?tb"
    using Cons.prems(1) by (auto simp: ring_inv_def ring_wf_def)
  have "slot_of ?tb t0 = tb_cursor ?tb"
    using ti Cons.prems(3,4) by (auto simp: table_inv_def)
  then have nxt: "slot_of ?tb t = next_slot (tb_slots ?tb) (tb_cursor ?tb)"
    using slot_of_next [OF pos, of t t0] Cons.prems(5) p by simp
  obtain r1 where r1: "ring_write r c v t = Inr r1" "ring_inv r1" "rb_table r1 = tb_write [(c, v)] t ?tb"
    using ring_write_step [OF Cons.prems(1), of t v c] Cons.prems p by auto
  have raw1: "raw_column (rb_table r1) c = tl (raw_column ?tb c) @ [(t, v)]"
    using raw_write_next [OF cur nxt] by (simp add: r1(3))
  have "\<exists>r'. write_column c ps r1 = Inr r' \<and> ring_inv r' \<and> tb_cols (rb_table r') = tb_cols (rb_table r1) \<and>
    raw_column (rb_table r') c = drop (length ps) (raw_column (rb_table r1) c @ ps)"
    using Cons.prems r1 p
    by (intro Cons.IH [of r1 t v]) (simp_all add: tb_write_config tb_write_ts)
  moreover have "raw_column ?tb c \<noteq> []"
    using pos by (metis length_raw list.size(3) unat_eq_zero word_not_simps(1))
  then have "tl (raw_column ?tb c) @ (t, v) # ps = tl (raw_column ?tb c @ p # ps)"
    by (simp add: p)
  ultimately show ?case
    using r1 raw1 p
    by (auto simp: write_column_def tb_write_config drop_Suc simp del: drop_append)
qed

definition last_n :: "nat \<Rightarrow> 'a list \<Rightarrow> 'a list" where
  "last_n n xs = drop (length xs - n) xs"

lemma ring_contents_raw: "ring_contents tb c = filter (\<lambda>p. \<not> is_nan (snd p)) (raw_column tb c)"
  by (simp add: ring_contents_def raw_column_def)

lemma write_column_window:
  assumes inv: "ring_inv r" and empty: "\<forall>i. tb_ts (rb_table r) i = 0" and c: "c < tb_cols (rb_table r)"
    and gap: "gap_free (unat (tb_interval (rb_table r))) ps"
    and vals: "list_all (\<lambda>(t, v). t \<noteq> 0 \<and> is_finite v) ps"
  shows "\<exists>r'. write_column c ps r = Inr r' \<and> ring_inv r' \<and> tb_cols (rb_table r') = tb_cols (rb_table r) \<and>
    ring_contents (rb_table r') c = last_n (unat (tb_slots (rb_table r))) ps"
proof (cases ps)
  case Nil
  then show ?thesis
    using empty_contents [of "rb_table r" c] inv empty by (simp add: write_column_def last_n_def ring_inv_def)
next
  case (Cons p qs)
  obtain t v where p: "p = (t, v)" by force
  let ?tb = "rb_table r" and ?n = "unat (tb_slots (rb_table r))"
  have ti: "table_inv ?tb" and cur: "tb_cursor ?tb < tb_slots ?tb"
    using inv by (auto simp: ring_inv_def ring_wf_def)
  obtain r1 where r1: "ring_write r c v t = Inr r1" "ring_inv r1" "rb_table r1 = tb_write [(c, v)] t ?tb"
    using ring_write_step [OF inv, of t v c] c vals Cons p finite_not_infinite by auto
  obtain fill where fill: "raw_column (rb_table r1) c = fill @ [(t, v)]" "list_all (\<lambda>p. is_nan (snd p)) fill"
    using raw_write_empty [OF cur empty ti, of c v t] unfolding r1(3) by blast
  have len: "Suc (length fill) = ?n"
    using arg_cong [OF fill(1), of length] by (simp add: r1(3) tb_write_config)
  have "\<exists>r'. write_column c qs r1 = Inr r' \<and> ring_inv r' \<and> tb_cols (rb_table r') = tb_cols (rb_table r1) \<and>
    raw_column (rb_table r') c = drop (length qs) (raw_column (rb_table r1) c @ qs)"
    using r1 c gap vals Cons p finite_not_infinite
    by (intro write_column_rotates [of r1 c t v])
      (auto simp: tb_write_config tb_write_ts list_all_iff)
  then obtain r' where r': "write_column c qs r1 = Inr r'" "ring_inv r'"
      "tb_cols (rb_table r') = tb_cols (rb_table r1)"
      "raw_column (rb_table r') c = drop (length qs) (fill @ ps)"
    using fill(1) Cons p by auto
  have "filter (\<lambda>p. \<not> is_nan (snd p)) (drop k fill) = []" for k
    using fill(2) by (auto simp: filter_empty_conv list_all_iff dest: in_set_dropD)
  moreover have "filter (\<lambda>p. \<not> is_nan (snd p)) (drop k ps) = drop k ps" for k
    using vals by (auto simp: filter_id_conv list_all_iff finite_not_nan dest!: in_set_dropD)
  ultimately have "ring_contents (rb_table r') c = last_n ?n ps"
    using len by (simp add: ring_contents_raw r'(4) last_n_def Cons)
      (metis Suc_diff_Suc diff_Suc_Suc)
  then show ?thesis
    using r1 r' p Cons by (auto simp: write_column_def tb_write_config)
qed

text \<open>
  C11. The ring is a sliding window. When an empty ring receives one finite sample per
  interval, interval after interval, every read of the series returns the samples of
  its range among the last \<open>slot_count\<close> written ones, oldest first.
\<close>

theorem ring_sliding_window:
  assumes "ring_inv r" and "\<forall>i. tb_ts (rb_table r) i = 0" and "c < tb_cols (rb_table r)"
    and "gap_free (unat (tb_interval (rb_table r))) ps"
    and "list_all (\<lambda>(t, v). t \<noteq> 0 \<and> is_finite v) ps" and "start < end'"
  shows "\<exists>r'. write_column c ps r = Inr r' \<and>
    ring_read_all r' c start end' =
      Inr (filter (in_range start end') (last_n (unat (tb_slots (rb_table r))) ps))"
proof -
  obtain r' where r': "write_column c ps r = Inr r'" "ring_inv r'"
      "tb_cols (rb_table r') = tb_cols (rb_table r)"
      "ring_contents (rb_table r') c = last_n (unat (tb_slots (rb_table r))) ps"
    using write_column_window [OF assms(1-5)] by blast
  then show ?thesis
    using ring_read_all_contents [OF r'(2), of c start end'] assms(3,6) by auto
qed

lemma f_zero_finite: "is_finite f_zero"
  by (simp add: is_finite_def f_zero_def f_pattern_def inf_pattern_def)

theorem ring_sliding_window_witness:
  "\<exists>s r r'. slab_create os_ok ''a'' 7 2 1 10 = Inr s \<and> ring_new s = Inr r \<and>
     write_column 0 [(11, f_one), (25, f_zero), (30, f_one)] r = Inr r' \<and>
     ring_read_all r' 0 0 100 = Inr [(25, f_zero), (30, f_one)]"
proof -
  obtain s r where r: "slab_create os_ok ''a'' 7 2 1 10 = Inr s" "ring_new s = Inr r" "ring_inv r"
      "rb_table r = empty_table 7 2 1 10"
    by (rule fresh_ring [of 2 1 10 "''a''" 7]) (simp_all add: slab_size_def)
  moreover have "\<forall>i. tb_ts (rb_table r) i = 0" "0 < tb_cols (rb_table r)" "tb_slots (rb_table r) = 2"
      "tb_interval (rb_table r) = 10"
    by (simp_all add: r(4)) (simp_all add: empty_table_def)
  ultimately show ?thesis
    using ring_sliding_window [of r 0 "[(11, f_one), (25, f_zero), (30, f_one)]" 0 100]
    by (auto simp: last_n_def in_range_def f_zero_finite)
qed

section \<open>Batches\<close>

lemma tb_write_again:
  "tb_write cvs t (tb_write [(c, v)] t tb) = tb_write ((c, v) # cvs) t tb"
  by (simp add: tb_write_def Let_def slot_of_def row_update_Cons)

text \<open>
  An empty batch is not nothing: it stamps the slot and moves the cursor, and the values that an
  older timestamp left in the slot, if any, appear under the new one.
\<close>

lemma empty_batch_claims_slot:
  assumes "ring_inv r" and "t \<noteq> 0"
  shows "\<exists>r'. ring_write_batch r [] t = Inr r' \<and> fold_res (\<lambda>(c, v) r. ring_write r c v t) [] r = Inr r \<and>
    rb_table r' = (rb_table r)\<lparr>tb_ts := (tb_ts (rb_table r))(slot_of (rb_table r) t := t),
      tb_cursor := slot_of (rb_table r) t\<rparr>"
  using ring_write_batch_step [OF assms, of "[]"] by (auto simp: tb_write_def row_update_def Let_def)

text \<open>
  C37. A batch that is not empty, at a non-zero timestamp, of values that are not infinite and
  columns of the ring has the effect of the single writes in turn: the same table and the same
  wrap flag, including when a column occurs twice.
\<close>

lemma batch_is_writes:
  assumes "ring_inv r" and "t \<noteq> 0" and "cvs \<noteq> []"
    and "list_all (\<lambda>(c, v). \<not> is_infinite v \<and> c < tb_cols (rb_table r)) cvs"
  shows "\<exists>r1 r2. ring_write_batch r cvs t = Inr r1 \<and>
    fold_res (\<lambda>(c, v) r. ring_write r c v t) cvs r = Inr r2 \<and>
    rb_table r1 = rb_table r2 \<and> rb_has_wrapped r1 = rb_has_wrapped r2"
proof -
  have "\<exists>r2. fold_res (\<lambda>(c, v) r. ring_write r c v t) cvs r = Inr r2 \<and>
      rb_table r2 = tb_write cvs t (rb_table r) \<and>
      rb_has_wrapped r2 = (rb_has_wrapped r \<or> slot_of (rb_table r) t < tb_cursor (rb_table r))"
    using assms
  proof (induction cvs arbitrary: r)
    case (Cons cv cvs)
    obtain c v where cv: "cv = (c, v)" by force
    obtain r1 where r1: "ring_write r c v t = Inr r1" "ring_inv r1"
        "rb_table r1 = tb_write [(c, v)] t (rb_table r)"
        "rb_has_wrapped r1 = (rb_has_wrapped r \<or> slot_of (rb_table r) t < tb_cursor (rb_table r))"
      using ring_write_step [OF Cons.prems(1,2), of v c] Cons.prems(4) cv by auto
    show ?case
    proof (cases "cvs = []")
      case True
      then show ?thesis using r1 cv by simp
    next
      case False
      then show ?thesis
        using Cons.IH [OF r1(2) Cons.prems(2) False] Cons.prems(4) r1 cv
        by (auto simp: tb_write_config tb_write_again)
    qed
  qed simp
  moreover have "list_all (\<lambda>(c, v). \<not> is_infinite v) cvs" "list_all (\<lambda>(c, v). c < tb_cols (rb_table r)) cvs"
    using assms(4) by (auto simp: list_all_iff)
  ultimately show ?thesis
    using ring_write_batch_step [OF assms(1,2)] by metis
qed

section \<open>Oldest and newest\<close>

definition used_timestamps :: "table \<Rightarrow> u64 list" where
  "used_timestamps tb = filter (\<lambda>t. t \<noteq> 0) (map (tb_ts tb) (circle tb))"

lemma first_used_ok:
  "slab_wf s \<Longrightarrow> list_all (\<lambda>i. i < slab_slot_count s) is \<Longrightarrow>
     first_used s is = Inr (case filter (\<lambda>t. t \<noteq> 0) (map (tb_ts (slab_table s)) is) of
       [] \<Rightarrow> None | t # _ \<Rightarrow> Some t)"
  by (induction "is") (auto simp: read_timestamp_law)

lemma used_nil: "table_inv tb \<Longrightarrow> tb_cursor tb < tb_slots tb \<Longrightarrow>
    used_timestamps tb = [] \<longleftrightarrow> tb_ts tb (tb_cursor tb) = 0"
  using circle_all [of tb "tb_cursor tb"]
  by (auto simp: used_timestamps_def filter_empty_conv table_inv_def)

lemma circle_ends_at_cursor: "tb_cursor tb < tb_slots tb \<Longrightarrow> \<exists>js. circle tb = js @ [tb_cursor tb]"
  by (simp add: circle_split)

lemma used_last:
  "tb_cursor tb < tb_slots tb \<Longrightarrow> tb_ts tb (tb_cursor tb) \<noteq> 0 \<Longrightarrow>
     last (used_timestamps tb) = tb_ts tb (tb_cursor tb)"
  using circle_ends_at_cursor [of tb] by (auto simp: used_timestamps_def)

text \<open>The scan of a wrapped ring visits the slots in the order of the circle.\<close>

lemma scan_is_circle:
  assumes cur: "tb_cursor tb < tb_slots tb" and small: "unat (tb_slots tb) \<le> 2 ^ 31"
  shows "map (\<lambda>offset. (tb_cursor tb + word_of_nat offset) mod tb_slots tb) [1..<unat (tb_slots tb) + 1]
    = circle tb"
proof -
  let ?c = "unat (tb_cursor tb)" and ?n = "unat (tb_slots tb)"
  have c: "?c < ?n" using cur by (simp add: word_less_nat_alt)
  have pos: "0 < tb_slots tb" using cur word_gt_0 by fastforce
  have "(tb_cursor tb + word_of_nat (k + 1)) mod tb_slots tb
      = word_of_nat ((unat (next_slot (tb_slots tb) (tb_cursor tb)) + k) mod ?n)" if "k < ?n" for k
  proof -
    have "unat (tb_cursor tb + word_of_nat (k + 1)) = ?c + (k + 1)"
      using that c small by (simp add: unat_word_ariths unat_of_nat)
    then have "unat ((tb_cursor tb + word_of_nat (k + 1)) mod tb_slots tb) = (?c + (k + 1)) mod ?n"
      by (simp add: unat_mod)
    also have "\<dots> = (unat (next_slot (tb_slots tb) (tb_cursor tb)) + k) mod ?n"
      by (simp add: unat_next_slot [OF cur] mod_add_left_eq)
    finally show ?thesis
      by (metis word_unat_eq_iff unat_mod_slot [OF pos])
  qed
  moreover have "[1..<?n + 1] = map (\<lambda>k. k + 1) [0..<?n]"
    by (simp add: map_Suc_upt)
  ultimately show ?thesis
    unfolding circle_def walk_map [OF next_slot_less [OF cur]] by simp
qed

lemma linear_scan:
  assumes cur: "tb_cursor tb < tb_slots tb" and "unwrapped_inv tb"
  shows "filter (\<lambda>t. t \<noteq> 0) (map (tb_ts tb) (map word_of_nat [0..<unat (tb_slots tb)]))
    = used_timestamps tb"
proof -
  let ?c = "unat (tb_cursor tb)" and ?n = "unat (tb_slots tb)"
  have "tb_ts tb (word_of_nat k) = 0" if "k \<in> set [?c + 1..<?n]" for k
  proof -
    have "k < 2 ^ 32" using that u32_bound [of "tb_slots tb"] by auto
    then have "tb_cursor tb < word_of_nat k"
      using that u32_of_nat by (simp add: word_less_nat_alt)
    then show ?thesis using assms(2) by (simp add: unwrapped_inv_def)
  qed
  then have tail: "filter (\<lambda>t. t \<noteq> 0) (map (tb_ts tb) (map word_of_nat [?c + 1..<?n])) = []"
    by (auto simp: filter_empty_conv)
  have "?c + 1 \<le> ?n" using cur by (simp add: word_less_nat_alt)
  then have "[0..<?n] = [0..<?c + 1] @ [?c + 1..<?n]"
    by (metis le0 upt_add_eq_append le_add_diff_inverse)
  then show ?thesis
    unfolding used_timestamps_def circle_split [OF cur]
    by (simp only: map_append filter_append tail append_Nil append_Nil2)
qed

lemma ring_oldest_newest_scans:
  assumes "ring_inv r" and "unat (tb_slots (rb_table r)) \<le> 2 ^ 31"
  shows "ring_newest_timestamp r = Inr (if used_timestamps (rb_table r) = [] then None
      else Some (last (used_timestamps (rb_table r)))) \<and>
    ring_oldest_timestamp r = Inr (if used_timestamps (rb_table r) = [] then None
      else Some (hd (used_timestamps (rb_table r))))"
proof -
  let ?tb = "rb_table r"
  have wf: "ring_wf r" and swf: "slab_wf (rb_slab r)" and ti: "table_inv ?tb"
    and cur: "tb_cursor ?tb < tb_slots ?tb"
    using assms(1) by (auto simp: ring_inv_def ring_wf_def)
  have pos: "0 < tb_slots ?tb" using cur word_gt_0 by fastforce
  note empty = used_nil [OF ti cur] and last = used_last [OF cur]
  have newest: "ring_newest_timestamp r = Inr (if used_timestamps ?tb = [] then None
      else Some (last (used_timestamps ?tb)))"
    using ring_is_empty_ok [OF wf] read_timestamp_law [OF swf, of "tb_cursor ?tb"] cur empty last
    by (simp add: ring_newest_timestamp_def table_fields)
  have ranges: "list_all (\<lambda>i. i < slab_slot_count (rb_slab r)) (circle ?tb)"
      "list_all (\<lambda>i. i < slab_slot_count (rb_slab r)) (map word_of_nat [0..<unat (tb_slots ?tb)])"
    using circle_in_range [OF cur] walk_in_range [OF pos, of _ "unat (tb_slots ?tb)"]
      walk_from_zero [OF order_refl pos]
    by (auto simp: list_all_iff table_fields simp flip: list.set_map)
  have oldest: "ring_oldest_timestamp r = Inr (if used_timestamps ?tb = [] then None
      else Some (hd (used_timestamps ?tb)))"
  proof (cases "tb_ts ?tb (tb_cursor ?tb) = 0")
    case False
    have scan: "ring_oldest_timestamp r = first_used (rb_slab r)
        (if rb_has_wrapped r then circle ?tb else map word_of_nat [0..<unat (tb_slots ?tb)])"
      using False scan_is_circle [OF cur assms(2)]
      by (simp add: ring_oldest_timestamp_def ring_is_empty_ok [OF wf] Let_def table_fields
          del: upt_Suc)
    have "\<not> rb_has_wrapped r \<Longrightarrow> unwrapped_inv ?tb"
      using assms(1) by (simp add: ring_inv_def)
    then show ?thesis
      using first_used_ok [OF swf ranges(1)] first_used_ok [OF swf ranges(2)] linear_scan [OF cur]
        False empty
      by (auto simp: scan used_timestamps_def [symmetric] split: list.splits)
  qed (use empty in \<open>simp add: ring_oldest_timestamp_def ring_is_empty_ok [OF wf]\<close>)
  from newest oldest show ?thesis ..
qed

text \<open>
  On a ring that satisfies the invariant, the two scans agree with the order of
  reading: \<open>newest_timestamp\<close> is the last used timestamp of the walk and
  \<open>oldest_timestamp\<close> the first; both are \<open>None\<close> exactly on an empty ring.
\<close>

theorem ring_oldest_newest:
  assumes "ring_inv r" and "unat (tb_slots (rb_table r)) \<le> 2 ^ 31"
  shows "ring_newest_timestamp r = Inr (if used_timestamps (rb_table r) = [] then None
      else Some (last (used_timestamps (rb_table r)))) \<and>
    ring_oldest_timestamp r = Inr (if used_timestamps (rb_table r) = [] then None
      else Some (hd (used_timestamps (rb_table r))))"
  using assms by (rule ring_oldest_newest_scans)

lemma small_ring:
  obtains s r where "slab_create os_ok ''a'' 7 4 2 1 = Inr s" "ring_new s = Inr r" "ring_inv r"
    "\<not> rb_has_wrapped r" "tb_slots (rb_table r) = 4" "tb_cols (rb_table r) = 2"
    "tb_interval (rb_table r) = 1" "tb_cursor (rb_table r) = 0" "tb_ts (rb_table r) = (\<lambda>_. 0)"
    "tb_val (rb_table r) = (\<lambda>_ _. f_nan)"
proof -
  obtain s r where r: "slab_create os_ok ''a'' 7 4 2 1 = Inr s" "ring_new s = Inr r" "ring_inv r"
      "rb_table r = empty_table 7 4 2 1" "\<not> rb_has_wrapped r"
    by (rule fresh_ring [of 4 2 1 "''a''" 7]) (simp_all add: slab_size_def)
  show thesis
    by (rule that [OF r(1-3,5)]) (simp_all only: r(4), simp_all add: empty_table_def)
qed

theorem batch_is_writes_witness:
  "\<exists>s r r1 r2. slab_create os_ok ''a'' 7 4 2 1 = Inr s \<and> ring_new s = Inr r \<and>
     ring_write_batch r [(0, f_one), (1, f_zero), (0, f_zero)] 3 = Inr r1 \<and>
     fold_res (\<lambda>(c, v) r. ring_write r c v 3) [(0, f_one), (1, f_zero), (0, f_zero)] r = Inr r2 \<and>
     rb_table r1 = rb_table r2"
proof -
  obtain s r where r: "slab_create os_ok ''a'' 7 4 2 1 = Inr s" "ring_new s = Inr r" "ring_inv r"
      "tb_cols (rb_table r) = 2"
    by (rule small_ring)
  have "list_all (\<lambda>(c, v). \<not> is_infinite v \<and> c < tb_cols (rb_table r))
      [(0, f_one), (1, f_zero), (0, f_zero)]"
    by (simp add: r(4) finite_not_infinite f_zero_finite)
  then show ?thesis
    using batch_is_writes [OF r(3), of 3 "[(0, f_one), (1, f_zero), (0, f_zero)]"] r(1,2) by auto
qed

theorem ring_oldest_newest_witness:
  "\<exists>s r. slab_create os_ok ''a'' 7 4 2 1 = Inr s \<and> ring_new s = Inr r \<and>
     ring_newest_timestamp r = Inr None \<and> ring_oldest_timestamp r = Inr None"
proof -
  obtain s r where r: "slab_create os_ok ''a'' 7 4 2 1 = Inr s" "ring_new s = Inr r" "ring_inv r"
      "tb_slots (rb_table r) = 4" "tb_ts (rb_table r) = (\<lambda>_. 0)"
    by (rule small_ring)
  have "used_timestamps (rb_table r) = []"
    by (simp add: used_timestamps_def r(5))
  then show ?thesis
    using ring_oldest_newest [OF r(3)] r by auto
qed

section \<open>Reopening\<close>

lemma ring_new_flag:
  assumes "ring_wf r"
  shows "ring_new (rb_slab r) = Inr \<lparr> rb_slab = rb_slab r, rb_has_wrapped =
    (1 < tb_slots (rb_table r) \<and>
     tb_ts (rb_table r) (next_slot (tb_slots (rb_table r)) (tb_cursor (rb_table r))) \<noteq> 0) \<rparr>"
proof -
  let ?s = "rb_slab r" and ?tb = "rb_table r"
  have wf: "slab_wf ?s" "tb_slots ?tb \<noteq> 0" and cur: "tb_cursor ?tb < tb_slots ?tb"
    using assms by (auto simp: ring_wf_def)
  have nx: "read_timestamp ?s (next_slot (tb_slots ?tb) (tb_cursor ?tb))
      = Inr (tb_ts ?tb (next_slot (tb_slots ?tb) (tb_cursor ?tb)))"
    using next_slot_less [OF cur] wf(1) by (simp add: read_timestamp_law table_fields)
  show ?thesis
  proof (cases "tb_cursor ?tb = 0")
    case True
    have "1 < tb_slots ?tb \<Longrightarrow> next_slot (tb_slots ?tb) 0 = 1"
      by (simp add: next_slot_def word_unat_eq_iff unat_mod word_less_nat_alt)
    then show ?thesis
      using True nx by (auto simp: ring_new_def Let_def simp flip: table_fields)
  next
    case False
    then have "unat (tb_cursor ?tb) \<noteq> 0" by (simp add: unat_eq_zero)
    then have "1 < tb_slots ?tb"
      using cur by (simp add: word_less_nat_alt)
    then show ?thesis
      using False nx wf(2) by (auto simp: ring_new_def Let_def next_slot_def simp flip: table_fields)
  qed
qed

text \<open>The ring that reopening a slab gives.\<close>

definition reopened :: "ring \<Rightarrow> ring" where
  "reopened r = \<lparr> rb_slab = rb_slab r, rb_has_wrapped = (1 < tb_slots (rb_table r) \<and>
     tb_ts (rb_table r) (next_slot (tb_slots (rb_table r)) (tb_cursor (rb_table r))) \<noteq> 0) \<rparr>"

definition reopens_safely :: "ring \<Rightarrow> bool" where
  "reopens_safely r \<longleftrightarrow> (rb_has_wrapped r \<longrightarrow>
     tb_ts (rb_table r) (next_slot (tb_slots (rb_table r)) (tb_cursor (rb_table r))) \<noteq> 0)"

lemma ring_new_reopened: "ring_wf r \<Longrightarrow> ring_new (rb_slab r) = Inr (reopened r)"
  using ring_new_flag by (simp add: reopened_def)

lemma reopened_inv:
  assumes "ring_inv r" and "reopens_safely r"
  shows "ring_inv (reopened r)"
proof -
  let ?tb = "rb_table r"
  have ti: "table_inv ?tb" using assms(1) by (simp add: ring_inv_def)
  have one: "unwrapped_inv ?tb" if "\<not> 1 < tb_slots ?tb"
    using that ti by (auto simp: unwrapped_inv_def table_inv_def word_less_nat_alt not_less)
  show ?thesis
    using assms one by (auto simp: ring_inv_def ring_wf_def reopens_safely_def reopened_def)
qed

text \<open>
  Reopening a ring is safe when it never wrapped or when the slot after its cursor is
  used, in particular when the ring is full: the reopened ring satisfies the invariant
  over the same slab, so every read returns what it returned before.
\<close>

theorem ring_reopen:
  assumes "ring_inv r" and "reopens_safely r" and "c < tb_cols (rb_table r)" and "start < end'"
  shows "\<exists>r'. ring_new (rb_slab r) = Inr r' \<and> ring_inv r' \<and> rb_slab r' = rb_slab r \<and>
    ring_read_all r' c start end' = ring_read_all r c start end'"
proof -
  have "ring_inv (reopened r)" by (rule reopened_inv [OF assms(1,2)])
  moreover have slab: "rb_slab (reopened r) = rb_slab r" by (simp add: reopened_def)
  moreover have "ring_read_all (reopened r) c start end' = ring_read_all r c start end'"
    using ring_read_all_contents [OF \<open>ring_inv (reopened r)\<close>, of c] ring_read_all_contents [OF assms(1,3,4)]
      assms(3,4) slab by simp
  moreover have "ring_wf r" using assms(1) by (simp add: ring_inv_def)
  ultimately show ?thesis
    using ring_new_reopened by blast
qed

theorem ring_reopen_witness:
  "\<exists>s r r'. slab_create os_ok ''a'' 7 4 2 1 = Inr s \<and> ring_new s = Inr r \<and>
     ring_new (rb_slab r) = Inr r' \<and> ring_read_all r' 1 2 9 = ring_read_all r 1 2 9"
proof -
  obtain s r where r: "slab_create os_ok ''a'' 7 4 2 1 = Inr s" "ring_new s = Inr r" "ring_inv r"
      "\<not> rb_has_wrapped r" "tb_cols (rb_table r) = 2"
    by (rule small_ring)
  then show ?thesis
    using ring_reopen [of r 1 2 9] by (auto simp: reopens_safely_def)
qed

text \<open>
  A ring that wrapped before it was full can lose samples when it is reopened: the
  wrap flag is derived from the slot after the cursor alone. Four slots, samples at
  times 3 and 4: both are read before the restart, only the second after it.
\<close>

theorem ring_reopen_loses_sample:
  "\<exists>s r r1 r2. slab_create os_ok ''a'' 7 4 2 1 = Inr s \<and> ring_new s = Inr r \<and>
     write_column 0 [(3, f_one), (4, f_zero)] r = Inr r1 \<and>
     ring_read_all r1 0 0 100 = Inr [(3, f_one), (4, f_zero)] \<and>
     ring_new (rb_slab r1) = Inr r2 \<and> ring_read_all r2 0 0 100 = Inr [(4, f_zero)]"
proof -
  obtain s r where r: "slab_create os_ok ''a'' 7 4 2 1 = Inr s" "ring_new s = Inr r" "ring_inv r"
      "\<not> rb_has_wrapped r" "tb_slots (rb_table r) = 4" "tb_cols (rb_table r) = 2"
      "tb_interval (rb_table r) = 1" "tb_cursor (rb_table r) = 0" "tb_ts (rb_table r) = (\<lambda>_. 0)"
      "tb_val (rb_table r) = (\<lambda>_ _. f_nan)"
    by (rule small_ring)
  obtain q where q: "ring_write r 0 f_one 3 = Inr q" "ring_inv q"
      "rb_table q = tb_write [(0, f_one)] 3 (rb_table r)"
    using ring_write_step [OF r(3), of 3 f_one 0] r(6) by (auto simp: finite_not_infinite)
  obtain r1 where r1: "ring_write q 0 f_zero 4 = Inr r1" "ring_inv r1"
      "rb_table r1 = tb_write [(0, f_zero)] 4 (rb_table q)"
    using ring_write_step [OF q(2), of 4 f_zero 0] r(6)
    by (auto simp: finite_not_infinite f_zero_finite q(3) tb_write_config)
  let ?tb = "rb_table r1"
  have slots: "slot_of (rb_table r) 3 = 3" "slot_of (rb_table r) 4 = 0"
    by (simp_all add: slot_of_def r(5,7))
  have cfg: "tb_slots ?tb = 4" "tb_cols ?tb = 2" "tb_cursor ?tb = 0"
    by (simp_all add: r1(3) q(3) tb_write_config r(5,6) slots)
  have ts: "tb_ts ?tb = (\<lambda>_. 0)(3 := 3, 0 := 4)"
    and val: "\<And>i. tb_val ?tb i 0 = (if i = 0 then f_zero else if i = 3 then f_one else f_nan)"
    by (auto simp: r1(3) q(3) tb_write_ts tb_write_val tb_write_config r(9,10) slots)
  have "circle ?tb = [1, 2, 3, 0]"
    by (subst circle_split) (simp_all add: cfg upt_rec)
  then have all: "ring_contents ?tb 0 = [(3, f_one), (4, f_zero)]"
    by (simp add: ring_contents_def slot_sample_def ts val finite_not_nan f_zero_finite)
  then have before: "ring_read_all r1 0 0 100 = Inr [(3, f_one), (4, f_zero)]"
    using ring_read_all_contents [OF r1(2), of 0 0 100] cfg by (simp add: in_range_def)
  have wf: "ring_wf r1" using r1(2) by (simp add: ring_inv_def)
  define r2 where "r2 = \<lparr> rb_slab = rb_slab r1, rb_has_wrapped = False \<rparr>"
  have new: "ring_new (rb_slab r1) = Inr r2"
    using ring_new_flag [OF wf] by (simp add: cfg ts next_slot_def r2_def)
  have "ring_wf r2" "rb_table r2 = ?tb" using wf by (simp_all add: r2_def ring_wf_def)
  then have "ring_read_all r2 0 0 100 = Inr [(4, f_zero)]"
    using ring_is_empty_ok [of r2]
    by (simp add: ring_read_all_def ring_read_def iter_new_def iter_collect_walk cfg Let_def
        flip: table_fields) (simp add: r2_def cfg ts val slot_sample_def in_range_def finite_not_nan
        f_zero_finite flip: table_fields)
  then show ?thesis
    using r(1,2) q(1) r1(1) before new by (auto simp: write_column_def)
qed

section \<open>Shared timestamps\<close>

text \<open>
  All columns of a slot share one timestamp, and a write does not clear the other
  columns: after a write to column \<open>d\<close>, the old value of any other column in that slot is
  read as a sample of the new timestamp, at which that series was never written.
\<close>

theorem stale_column_is_read:
  assumes "ring_inv r" and "t \<noteq> 0" and "\<not> is_infinite w" and "d < tb_cols (rb_table r)"
    and "c < tb_cols (rb_table r)" and "c \<noteq> d"
    and "\<not> is_nan (tb_val (rb_table r) (slot_of (rb_table r) t) c)" and "start \<le> t" and "t < end'"
  shows "\<exists>r' ps. ring_write r d w t = Inr r' \<and> ring_read_all r' c start end' = Inr ps \<and>
    (t, tb_val (rb_table r) (slot_of (rb_table r) t) c) \<in> set ps"
proof -
  have pos: "0 < tb_slots (rb_table r)"
    using assms(1) by (simp add: ring_inv_def ring_wf_def)
  obtain r' where r': "ring_write r d w t = Inr r'" "ring_inv r'"
      "rb_table r' = tb_write [(d, w)] t (rb_table r)"
    using ring_write_step assms(1-4) by blast
  have "start < end'" using assms(8,9) by simp
  moreover have "c < tb_cols (rb_table r')"
    using assms(5) by (simp add: r'(3) tb_write_config)
  moreover have "(t, tb_val (rb_table r) (slot_of (rb_table r) t) c) \<in> set (ring_contents (rb_table r') c)"
    using write_contents [OF pos, of "[(d, w)]" t c] assms(6,7) r'(3) by simp
  ultimately show ?thesis
    using r' ring_read_all_contents [OF r'(2)] assms(8,9) by (auto simp: in_range_def)
qed

theorem stale_column_is_read_witness:
  "\<exists>s r q r' ps. slab_create os_ok ''a'' 7 4 2 1 = Inr s \<and> ring_new s = Inr r \<and>
     ring_write r 0 f_one 2 = Inr q \<and> ring_write q 1 f_zero 6 = Inr r' \<and>
     ring_read_all r' 0 6 7 = Inr ps \<and> (6, f_one) \<in> set ps"
proof -
  obtain s r where r: "slab_create os_ok ''a'' 7 4 2 1 = Inr s" "ring_new s = Inr r" "ring_inv r"
      "tb_slots (rb_table r) = 4" "tb_cols (rb_table r) = 2" "tb_interval (rb_table r) = 1"
    by (rule small_ring)
  obtain q where q: "ring_write r 0 f_one 2 = Inr q" "ring_inv q"
      "rb_table q = tb_write [(0, f_one)] 2 (rb_table r)"
    using ring_write_step [OF r(3), of 2 f_one 0] r(5) by (auto simp: finite_not_infinite)
  have "slot_of (rb_table r) 2 = 2" "slot_of (rb_table r) 6 = 2"
    by (simp_all add: slot_of_def r(4,6))
  then have "tb_val (rb_table q) (slot_of (rb_table q) 6) 0 = f_one"
    by (simp add: q(3) tb_write_val tb_write_config)
  moreover have "tb_cols (rb_table q) = 2"
    by (simp add: q(3) tb_write_config r(5))
  ultimately show ?thesis
    using stale_column_is_read [OF q(2), of 6 f_zero 1 0 6 7] r(1,2) q(1)
    by (auto simp: f_zero_finite finite_not_infinite finite_not_nan)
qed

lemma newest_of_write:
  assumes "ring_inv r'" and "rb_table r' = tb_write cvs t tb" and "t \<noteq> 0"
  shows "ring_newest_timestamp r' = Inr (Some t)"
proof -
  have wf: "ring_wf r'" using assms(1) by (simp add: ring_inv_def)
  have "tb_ts (rb_table r') (tb_cursor (rb_table r')) = t"
    by (simp add: assms(2) tb_write_config tb_write_ts)
  then show ?thesis
    using wf ring_is_empty_ok [OF wf] read_timestamp_law [of "rb_slab r'" "tb_cursor (rb_table r')"] assms(3)
    by (simp add: ring_newest_timestamp_def ring_wf_def table_fields)
qed

text \<open>
  The cursor follows the last write, not the newest: after any accepted write
  \<open>newest_timestamp\<close> reports the timestamp just written, however old it is.
\<close>

theorem newest_is_last_written:
  assumes "ring_inv r" and "t \<noteq> 0" and "\<not> is_infinite v" and "c < tb_cols (rb_table r)"
  shows "\<exists>r'. ring_write r c v t = Inr r' \<and> ring_newest_timestamp r' = Inr (Some t)"
proof -
  obtain r' where r': "ring_write r c v t = Inr r'" "ring_inv r'"
      "rb_table r' = tb_write [(c, v)] t (rb_table r)"
    using ring_write_step assms by blast
  then have "ring_newest_timestamp r' = Inr (Some t)"
    by (intro newest_of_write assms(2))
  then show ?thesis using r'(1) by blast
qed

theorem newest_is_last_written_witness:
  "\<exists>s r q r'. slab_create os_ok ''a'' 7 4 2 1 = Inr s \<and> ring_new s = Inr r \<and>
     ring_write r 0 f_one 100 = Inr q \<and> ring_write q 0 f_one 3 = Inr r' \<and>
     ring_newest_timestamp r' = Inr (Some 3)"
proof -
  obtain s r where r: "slab_create os_ok ''a'' 7 4 2 1 = Inr s" "ring_new s = Inr r" "ring_inv r"
      "tb_cols (rb_table r) = 2"
    by (rule small_ring)
  obtain q where q: "ring_write r 0 f_one 100 = Inr q" "ring_inv q"
      "rb_table q = tb_write [(0, f_one)] 100 (rb_table r)"
    using ring_write_step [OF r(3), of 100 f_one 0] r(4) by (auto simp: finite_not_infinite)
  have "0 < tb_cols (rb_table q)" by (simp add: q(3) tb_write_config r(4))
  then show ?thesis
    using newest_is_last_written [OF q(2), of 3 f_one 0] r(1,2) q(1)
    by (auto simp: finite_not_infinite)
qed

end
