(* ===== verification/Series_Registry.thy ===== *)
theory Series_Registry
  imports Schema Slab "HOL-Library.Multiset"
begin

text \<open>
  \<open>rondo/src/series.rs\<close>: the registry that gives each series (a name with labels) a
  column of its schema. Operations that iterate over the \<open>HashMap\<close> of series take the
  iteration order \<open>ord\<close>; the JSON text of the index is produced and parsed by
  \<open>serde_json\<close>, a pair of parameters.
\<close>

section \<open>Data\<close>

record series_handle =
  sh_schema_index :: usize
  sh_series_id :: u32
  sh_column :: u32

record series_info =
  si_name :: string
  si_labels :: labels
  si_schema_index :: usize
  si_series_id :: u32
  si_column :: u32

definition handle_new :: "usize \<Rightarrow> u32 \<Rightarrow> u32 \<Rightarrow> series_handle" where
  "handle_new schema_index series_id column =
     \<lparr> sh_schema_index = schema_index, sh_series_id = series_id, sh_column = column \<rparr>"

definition info_new :: "string \<Rightarrow> labels \<Rightarrow> usize \<Rightarrow> u32 \<Rightarrow> u32 \<Rightarrow> series_info" where
  "info_new name labels schema_index series_id column =
     \<lparr> si_name = name, si_labels = labels, si_schema_index = schema_index,
       si_series_id = series_id, si_column = column \<rparr>"

definition info_handle :: "series_info \<Rightarrow> series_handle" where
  "info_handle i = handle_new (si_schema_index i) (si_series_id i) (si_column i)"

lemmas series_new_simps [simp] = handle_new_def info_new_def

datatype series_key = SeriesKey (key_name: string) (key_labels: labels)

definition key_new :: "string \<Rightarrow> labels \<Rightarrow> series_key" where
  "key_new name labels = SeriesKey name (sort_key fst labels)"

record series_registry =
  rg_schemas :: "schema_config list"
  rg_series_map :: "(series_key, series_info) hash_map"
  rg_next_series_id :: "u32 list"
  rg_next_column :: "u32 list"

record series_index =
  ix_series :: "series_info list"
  ix_next_series_id :: "u32 list"
  ix_next_column :: "u32 list"

section \<open>Operations\<close>

definition registry_new :: "schema_config list \<Rightarrow> series_registry" where
  "registry_new schemas =
     \<lparr> rg_schemas = schemas, rg_series_map = [], rg_next_series_id = replicate (length schemas) 0,
       rg_next_column = replicate (length schemas) 0 \<rparr>"

definition validate_name :: "string \<Rightarrow> unit res" where
  "validate_name name =
     (if name = [] then err (Series (InvalidLabel ''__name__'' name ''name cannot be empty''))
      else Inr ())"

fun validate_labels :: "labels \<Rightarrow> unit res" where
  "validate_labels [] = Inr ()"
| "validate_labels ((key, v) # labels) =
     (if key = [] then err (Series (InvalidLabel key v ''key cannot be empty''))
      else if v = [] then err (Series (InvalidLabel key v ''value cannot be empty''))
      else if take 2 key = ''__'' then
        err (Series (InvalidLabel key v ''keys starting with '__' are reserved for internal use''))
      else validate_labels labels)"

fun find_schema_from :: "nat \<Rightarrow> schema_config list \<Rightarrow> labels \<Rightarrow> nat res" where
  "find_schema_from i [] labels = err (Series (NoMatchingSchema labels))"
| "find_schema_from i (schema # schemas) labels =
     (if matches_labels schema labels then Inr i else find_schema_from (Suc i) schemas labels)"

definition find_matching_schema :: "series_registry \<Rightarrow> labels \<Rightarrow> nat res" where
  "find_matching_schema rg labels = find_schema_from 0 (rg_schemas rg) labels"

definition register ::
    "series_registry \<Rightarrow> string \<Rightarrow> labels \<Rightarrow> (series_handle \<times> series_registry) res" where
  "register rg name labels =
     rbind (validate_name name) (\<lambda>_.
     rbind (validate_labels labels) (\<lambda>_.
     let key = key_new name labels in
     case hm_get (rg_series_map rg) key of
       Some info \<Rightarrow> Inr (info_handle info, rg)
     | None \<Rightarrow>
         rbind (find_matching_schema rg labels) (\<lambda>schema_index.
         rbind (nth_res (rg_next_series_id rg) schema_index) (\<lambda>series_id.
         rbind (nth_res (rg_schemas rg) schema_index) (\<lambda>schema.
         if series_id \<ge> sc_max_series schema then
           err (Series (MaxSeriesExceeded (sc_max_series schema)))
         else
           rbind (nth_res (rg_next_column rg) schema_index) (\<lambda>column.
           let info = info_new name labels schema_index series_id column in
           Inr (info_handle info,
                rg\<lparr>rg_series_map := hm_insert key info (rg_series_map rg),
                   rg_next_series_id := (rg_next_series_id rg)[schema_index := series_id + 1],
                   rg_next_column := (rg_next_column rg)[schema_index := column + 1]\<rparr>)))))))"

definition get_handle :: "series_registry \<Rightarrow> string \<Rightarrow> labels \<Rightarrow> series_handle option" where
  "get_handle rg name labels =
     map_option info_handle (hm_get (rg_series_map rg) (key_new name labels))"

type_synonym key_order = "series_key list \<Rightarrow> series_key list"

definition get_series_info ::
    "key_order \<Rightarrow> series_registry \<Rightarrow> series_handle \<Rightarrow> series_info option" where
  "get_series_info ord rg handle =
     List.find (\<lambda>info. info_handle info = handle) (hm_values ord (rg_series_map rg))"

definition registry_series_count :: "series_registry \<Rightarrow> nat \<Rightarrow> u32" where
  "registry_series_count rg schema_index =
     (if schema_index < length (rg_next_series_id rg) then rg_next_series_id rg ! schema_index else 0)"

definition total_series_count :: "series_registry \<Rightarrow> nat" where
  "total_series_count rg = length (rg_series_map rg)"

definition handles :: "key_order \<Rightarrow> series_registry \<Rightarrow> series_handle list" where
  "handles ord rg = map info_handle (hm_values ord (rg_series_map rg))"

text \<open>
  The loop of \<open>sync_to_slabs\<close>: one slab per index, the position counted from \<open>i\<close>. The
  slabs stand behind mutable references, so the ones written before a fault stay changed.
\<close>

definition sync_slab :: "series_info list \<Rightarrow> series_registry \<Rightarrow> nat \<Rightarrow> slab \<Rightarrow> unit res \<times> slab" where
  "sync_slab infos rg i slab =
     fold_st (\<lambda>info slab. if si_schema_index info = i
        then set_series_column slab (si_series_id info) (si_column info) else Inr slab)
       infos (set_series_count slab (registry_series_count rg i))"

fun sync_from :: "series_info list \<Rightarrow> series_registry \<Rightarrow> nat \<Rightarrow> slab list \<Rightarrow> unit res \<times> slab list" where
  "sync_from infos rg i [] = (Inr (), [])"
| "sync_from infos rg i (slab # slabs) =
     (case sync_slab infos rg i slab of
        (Inl e, slab) \<Rightarrow> (Inl e, slab # slabs)
      | (Inr _, slab) \<Rightarrow>
          (case sync_from infos rg (Suc i) slabs of (r, slabs) \<Rightarrow> (r, slab # slabs)))"

definition sync_to_slabs :: "key_order \<Rightarrow> series_registry \<Rightarrow> slab list \<Rightarrow> unit res \<times> slab list" where
  "sync_to_slabs ord rg slabs = sync_from (hm_values ord (rg_series_map rg)) rg 0 slabs"

text \<open>JSON: rendering and parsing by the serialisation library.\<close>

record 'a json =
  to_json :: "'a \<Rightarrow> json_error + string"
  of_json :: "string \<Rightarrow> json_error + 'a"

text \<open>The library reads back what it wrote for a value.\<close>

definition json_reads_back :: "'a json \<Rightarrow> 'a \<Rightarrow> bool" where
  "json_reads_back j x \<longleftrightarrow> (case to_json j x of Inl _ \<Rightarrow> False | Inr s \<Rightarrow> of_json j s = Inr x)"

definition registry_index :: "key_order \<Rightarrow> series_registry \<Rightarrow> series_index" where
  "registry_index ord rg =
     \<lparr> ix_series = hm_values ord (rg_series_map rg), ix_next_series_id = rg_next_series_id rg,
       ix_next_column = rg_next_column rg \<rparr>"

definition registry_save ::
    "os \<Rightarrow> series_index json \<Rightarrow> key_order \<Rightarrow> series_registry \<Rightarrow> string \<Rightarrow> disk \<Rightarrow> disk res" where
  "registry_save os js ord rg path d =
     (let index = registry_index ord rg in
      rbind (map_err (\<lambda>e. Error (Store (MetadataSerialize e))) (to_json js index)) (\<lambda>json.
      map_err (\<lambda>e. Error (Store (DirectoryAccess ''series_index.bin'' e)))
        (write_text os d path json)))"

definition registry_load ::
    "os \<Rightarrow> series_index json \<Rightarrow> disk \<Rightarrow> string \<Rightarrow> schema_config list \<Rightarrow> series_registry res" where
  "registry_load os js d path schemas =
     rbind (map_err (\<lambda>e. Error (Store (DirectoryAccess ''series_index.bin'' e)))
              (read_text os d path)) (\<lambda>json.
     rbind (map_err (\<lambda>e. Error (Store (MetadataSerialize e))) (of_json js json)) (\<lambda>index.
     if length schemas \<noteq> length (ix_next_series_id index) then
       err (Store (CorruptedMetadata
         (''schema count mismatch: '' @ fmt_nat (length schemas) @ '' schemas configured, ''
           @ fmt_nat (length (ix_next_series_id index)) @ '' in index'')))
     else
       Inr \<lparr> rg_schemas = schemas,
             rg_series_map = fold (\<lambda>info m. hm_insert (key_new (si_name info) (si_labels info)) info m)
               (ix_series index) [],
             rg_next_series_id = ix_next_series_id index,
             rg_next_column = ix_next_column index \<rparr>))"

section \<open>Invariant\<close>

text \<open>
  Identifiers and columns are handed out together; every entry stands under the key of its
  name and labels, belongs to an existing schema and has an identifier below the next free
  one; no two entries share an identifier of a schema; no schema exceeds its maximum.
\<close>

definition reg_inv :: "series_registry \<Rightarrow> bool" where
  "reg_inv rg \<longleftrightarrow>
     hm_wf (rg_series_map rg) \<and> length (rg_next_series_id rg) = length (rg_schemas rg) \<and>
     rg_next_column rg = rg_next_series_id rg \<and>
     (\<forall>k info. hm_get (rg_series_map rg) k = Some info \<longrightarrow>
        k = key_new (si_name info) (si_labels info) \<and> si_schema_index info < length (rg_schemas rg) \<and>
        si_column info = si_series_id info \<and>
        si_series_id info < rg_next_series_id rg ! si_schema_index info) \<and>
     (\<forall>k k' info info'. hm_get (rg_series_map rg) k = Some info \<longrightarrow>
        hm_get (rg_series_map rg) k' = Some info' \<longrightarrow>
        si_schema_index info = si_schema_index info' \<longrightarrow> si_series_id info = si_series_id info' \<longrightarrow> k = k') \<and>
     (\<forall>i < length (rg_schemas rg). rg_next_series_id rg ! i \<le> sc_max_series (rg_schemas rg ! i))"

lemma reg_inv_new: "reg_inv (registry_new schemas)"
  by (simp add: reg_inv_def registry_new_def hm.get_empty hm.inv_empty)

lemma find_schema_from_ok:
  "find_schema_from i schemas labels = Inr k \<Longrightarrow>
     \<exists>m. k = i + m \<and> m < length schemas \<and> matches_labels (schemas ! m) labels \<and>
       (\<forall>j < m. \<not> matches_labels (schemas ! j) labels)"
proof (induction i schemas labels rule: find_schema_from.induct)
  case (2 i schema schemas labels)
  show ?case
  proof (cases "matches_labels schema labels")
    case True
    then show ?thesis using "2.prems" by (intro exI [of _ 0]) simp
  next
    case False
    then obtain m where "k = Suc i + m" "m < length schemas" "matches_labels (schemas ! m) labels"
        "\<forall>j < m. \<not> matches_labels (schemas ! j) labels"
      using 2 by auto
    then show ?thesis
      using False by (intro exI [of _ "Suc m"]) (auto simp: nth_Cons split: nat.splits)
  qed
qed simp

lemma u32_succ: "a < (b :: u32) \<Longrightarrow> a < a + 1 \<and> a + 1 \<le> b"
proof -
  assume "a < b"
  then have "unat a + 1 < 2 ^ 32" and "unat a + 1 \<le> unat b"
    using u32_bound [of b] by (simp_all add: word_less_nat_alt)
  then show ?thesis
    by (simp add: word_less_nat_alt word_le_nat_alt unat_word_ariths)
qed

text \<open>The two ways in which a registration succeeds.\<close>

definition new_info :: "string \<Rightarrow> labels \<Rightarrow> nat \<Rightarrow> u32 \<Rightarrow> series_info" where
  "new_info name labels i n = \<lparr> si_name = name, si_labels = labels, si_schema_index = i,
     si_series_id = n, si_column = n \<rparr>"

lemma register_cases:
  assumes inv: "reg_inv rg" and ok: "register rg name labels = Inr (h, rg')"
  shows "(\<exists>info. hm_get (rg_series_map rg) (key_new name labels) = Some info \<and>
            h = info_handle info \<and> rg' = rg) \<or>
    (\<exists>i. hm_get (rg_series_map rg) (key_new name labels) = None \<and> i < length (rg_schemas rg) \<and>
       find_matching_schema rg labels = Inr i \<and>
       rg_next_series_id rg ! i < sc_max_series (rg_schemas rg ! i) \<and>
       h = info_handle (new_info name labels i (rg_next_series_id rg ! i)) \<and>
       rg' = rg\<lparr>rg_series_map := hm_insert (key_new name labels)
                  (new_info name labels i (rg_next_series_id rg ! i)) (rg_series_map rg),
                rg_next_series_id := (rg_next_series_id rg)[i := rg_next_series_id rg ! i + 1],
                rg_next_column := (rg_next_series_id rg)[i := rg_next_series_id rg ! i + 1]\<rparr>)"
proof (cases "hm_get (rg_series_map rg) (key_new name labels)")
  case None
  have len: "length (rg_next_series_id rg) = length (rg_schemas rg)"
      "rg_next_column rg = rg_next_series_id rg"
    using inv by (simp_all add: reg_inv_def)
  obtain i where i: "find_matching_schema rg labels = Inr i"
    using ok None by (auto simp: register_def Let_def rbind_eq_Inr)
  then have "i < length (rg_schemas rg)"
    using find_schema_from_ok [of 0 "rg_schemas rg" labels i] by (auto simp: find_matching_schema_def)
  then show ?thesis
    using ok None i len
    by (auto simp: register_def Let_def rbind_eq_Inr new_info_def not_le split: if_splits)
next
  case (Some info)
  then show ?thesis
    using ok by (auto simp: register_def Let_def rbind_eq_Inr)
qed

lemma register_inv:
  assumes inv: "reg_inv rg" and ok: "register rg name labels = Inr (h, rg')"
  shows "reg_inv rg'"
  using register_cases [OF assms]
proof
  assume "\<exists>info. hm_get (rg_series_map rg) (key_new name labels) = Some info \<and>
            h = info_handle info \<and> rg' = rg"
  then show ?thesis using inv by blast
next
  let ?key = "key_new name labels"
  let ?n = "\<lambda>i. rg_next_series_id rg ! i"
  assume "\<exists>i. hm_get (rg_series_map rg) ?key = None \<and> i < length (rg_schemas rg) \<and>
       find_matching_schema rg labels = Inr i \<and> ?n i < sc_max_series (rg_schemas rg ! i) \<and>
       h = info_handle (new_info name labels i (?n i)) \<and>
       rg' = rg\<lparr>rg_series_map := hm_insert ?key (new_info name labels i (?n i)) (rg_series_map rg),
                rg_next_series_id := (rg_next_series_id rg)[i := ?n i + 1],
                rg_next_column := (rg_next_series_id rg)[i := ?n i + 1]\<rparr>"
  then obtain i where i: "hm_get (rg_series_map rg) ?key = None" "i < length (rg_schemas rg)"
      "?n i < sc_max_series (rg_schemas rg ! i)"
    and rg': "rg' = rg\<lparr>rg_series_map := hm_insert ?key (new_info name labels i (?n i)) (rg_series_map rg),
                rg_next_series_id := (rg_next_series_id rg)[i := ?n i + 1],
                rg_next_column := (rg_next_series_id rg)[i := ?n i + 1]\<rparr>"
    by blast
  have succ: "?n i < ?n i + 1 \<and> ?n i + 1 \<le> sc_max_series (rg_schemas rg ! i)"
    using u32_succ [OF i(3)] .
  have len: "length (rg_next_series_id rg) = length (rg_schemas rg)"
    using inv by (simp add: reg_inv_def)
  have entry: "k = key_new (si_name info) (si_labels info)" "si_schema_index info < length (rg_schemas rg)"
      "si_column info = si_series_id info" "si_series_id info < ?n (si_schema_index info)"
    if "hm_get (rg_series_map rg) k = Some info" for k info
    using inv that by (auto simp: reg_inv_def)
  have grow: "si_series_id info < (rg_next_series_id rg)[i := ?n i + 1] ! si_schema_index info"
    if "hm_get (rg_series_map rg) k = Some info" for k info
    using entry [OF that] succ len by (cases "si_schema_index info = i") auto
  have fresh: "\<not> (si_schema_index info = i \<and> si_series_id info = ?n i)"
    if "hm_get (rg_series_map rg) k = Some info" for k info
    using entry(4) [OF that] by auto
  show ?thesis
    unfolding reg_inv_def
  proof (intro conjI allI impI)
    show "hm_wf (rg_series_map rg')"
      using inv by (simp add: rg' reg_inv_def hm.inv_put)
  next
    fix k info assume "hm_get (rg_series_map rg') k = Some info"
    then have "k = ?key \<and> info = new_info name labels i (?n i) \<or> hm_get (rg_series_map rg) k = Some info"
      by (auto simp: rg' hm.get_put split: if_splits)
    then show "k = key_new (si_name info) (si_labels info)"
      "si_schema_index info < length (rg_schemas rg')"
      "si_column info = si_series_id info"
      "si_series_id info < rg_next_series_id rg' ! si_schema_index info"
      using entry grow succ i(2) len by (auto simp: rg' new_info_def)
  next
    fix k k' info info'
    assume "hm_get (rg_series_map rg') k = Some info" "hm_get (rg_series_map rg') k' = Some info'"
      "si_schema_index info = si_schema_index info'" "si_series_id info = si_series_id info'"
    then show "k = k'"
      using fresh [of k info] fresh [of k' info'] inv
      by (auto simp: rg' hm.get_put new_info_def reg_inv_def split: if_splits)
  next
    fix j assume "j < length (rg_schemas rg')"
    then show "rg_next_series_id rg' ! j \<le> sc_max_series (rg_schemas rg' ! j)"
      using inv succ len by (cases "j = i") (auto simp: rg' reg_inv_def)
  qed (use inv len in \<open>simp_all add: rg' reg_inv_def\<close>)
qed

section \<open>Registration\<close>

text \<open>The registries that a sequence of registrations can produce.\<close>

inductive reg_reachable :: "schema_config list \<Rightarrow> series_registry \<Rightarrow> bool" for schemas where
  start: "reg_reachable schemas (registry_new schemas)"
| step: "reg_reachable schemas rg \<Longrightarrow> register rg name labels = Inr (h, rg') \<Longrightarrow>
     reg_reachable schemas rg'"

lemma reachable_inv: "reg_reachable schemas rg \<Longrightarrow> reg_inv rg"
  by (induction rule: reg_reachable.induct) (auto intro: reg_inv_new register_inv)

lemma register_schemas: "register rg name labels = Inr (h, rg') \<Longrightarrow> rg_schemas rg' = rg_schemas rg"
  by (auto simp: register_def Let_def rbind_eq_Inr split: option.splits if_splits)

lemma reachable_schemas: "reg_reachable schemas rg \<Longrightarrow> rg_schemas rg = schemas"
  by (induction rule: reg_reachable.induct) (auto simp: registry_new_def register_schemas)

lemma get_handle_bounds:
  assumes "reg_inv rg" and "get_handle rg name labels = Some h"
  shows "sh_schema_index h < length (rg_schemas rg) \<and> sh_column h = sh_series_id h \<and>
    sh_series_id h < sc_max_series (rg_schemas rg ! sh_schema_index h) \<and>
    sh_column h < sc_max_series (rg_schemas rg ! sh_schema_index h)"
proof -
  obtain info where info: "hm_get (rg_series_map rg) (key_new name labels) = Some info" "h = info_handle info"
    using assms(2) by (auto simp: get_handle_def)
  then have "si_schema_index info < length (rg_schemas rg)" "si_column info = si_series_id info"
      "si_series_id info < rg_next_series_id rg ! si_schema_index info"
      "rg_next_series_id rg ! si_schema_index info \<le> sc_max_series (rg_schemas rg ! si_schema_index info)"
    using assms(1) by (auto simp: reg_inv_def)
  then show ?thesis using info(2) by (auto simp: info_handle_def)
qed

lemma register_bound:
  assumes "reg_inv rg" and "register rg name labels = Inr (h, rg')"
  shows "sh_schema_index h < length (rg_schemas rg)"
  using register_cases [OF assms] assms(1)
  by (auto simp: new_info_def info_handle_def reg_inv_def)

lemma find_schema_from_crash: "no_crash (find_schema_from i schemas labels)"
  by (induction i schemas labels rule: find_schema_from.induct) auto

lemma register_no_crash:
  assumes "reg_inv rg"
  shows "no_crash (register rg name labels)"
proof -
  have "no_crash (validate_name name)" by (simp add: validate_name_def)
  moreover have "no_crash (validate_labels labels)" by (induction labels rule: validate_labels.induct) auto
  moreover have "i < length (rg_schemas rg)" if "find_matching_schema rg labels = Inr i" for i
    using that find_schema_from_ok [of 0 "rg_schemas rg" labels i] by (auto simp: find_matching_schema_def)
  moreover have "length (rg_next_series_id rg) = length (rg_schemas rg)" "rg_next_column rg = rg_next_series_id rg"
    using assms by (simp_all add: reg_inv_def)
  ultimately show ?thesis
    by (auto simp: register_def Let_def find_matching_schema_def find_schema_from_crash
        intro!: no_crash_rbind split: option.splits)
qed

text \<open>
  C14. In every registry that registrations can produce, two series have the same handle
  only if they have the same name and the same labels up to the order of the keys, and a
  handle's column lies within the columns its schema's slabs were created with.
\<close>

theorem handles_unique:
  assumes "reg_reachable schemas rg" and "get_handle rg name labels = Some h"
    and "get_handle rg name' labels' = Some h"
  shows "name = name' \<and> sort_key fst labels = sort_key fst labels' \<and>
    sh_schema_index h < length schemas \<and> sh_column h < sc_max_series (schemas ! sh_schema_index h)"
proof -
  have inv: "reg_inv rg" and schemas: "rg_schemas rg = schemas"
    using assms(1) by (simp_all add: reachable_inv reachable_schemas)
  obtain info info' where i: "hm_get (rg_series_map rg) (key_new name labels) = Some info"
      "hm_get (rg_series_map rg) (key_new name' labels') = Some info'"
      "info_handle info = h" "info_handle info' = h"
    using assms(2,3) by (auto simp: get_handle_def)
  then have "si_schema_index info = si_schema_index info'" "si_series_id info = si_series_id info'"
    by (auto simp: info_handle_def)
  then have "key_new name labels = key_new name' labels'"
    using inv i(1,2) unfolding reg_inv_def by blast
  then show ?thesis
    using get_handle_bounds [OF inv assms(2)] schemas unfolding key_new_def by fastforce
qed

text \<open>
  C15. A successful registration: a known series keeps its handle and the registry is
  unchanged; a new one goes to the first schema whose matcher accepts the labels, below its
  capacity, and gets the next identifier and the next column of that schema, both of which move on
  by one while those of the other schemas stay. Either way the series is found under its handle
  afterwards and no other series changes.
\<close>

theorem register_spec:
  assumes "reg_reachable schemas rg" and "register rg name labels = Inr (h, rg')"
  shows "get_handle rg' name labels = Some h \<and>
    (case get_handle rg name labels of
       Some h' \<Rightarrow> h' = h \<and> rg' = rg
     | None \<Rightarrow> let i = sh_schema_index h in
         i < length schemas \<and> matches_labels (schemas ! i) labels \<and> (\<forall>j < i. \<not> matches_labels (schemas ! j) labels) \<and>
         sh_series_id h = rg_next_series_id rg ! i \<and> sh_column h = rg_next_column rg ! i \<and>
         sh_column h < sc_max_series (schemas ! i) \<and>
         rg_next_series_id rg' = (rg_next_series_id rg)[i := rg_next_series_id rg ! i + 1] \<and>
         rg_next_column rg' = (rg_next_column rg)[i := rg_next_column rg ! i + 1]) \<and>
    (key_new name' labels' \<noteq> key_new name labels \<longrightarrow>
       get_handle rg' name' labels' = get_handle rg name' labels')"
proof -
  have inv: "reg_inv rg" and sch: "rg_schemas rg = schemas"
    using reachable_inv [OF assms(1)] reachable_schemas [OF assms(1)] by simp_all
  have cols: "rg_next_column rg = rg_next_series_id rg" using inv by (simp add: reg_inv_def)
  have first: "matches_labels (schemas ! i) labels \<and> (\<forall>j < i. \<not> matches_labels (schemas ! j) labels)"
    if "find_matching_schema rg labels = Inr i" for i
    using find_schema_from_ok [of 0 schemas labels i] that by (auto simp: find_matching_schema_def sch)
  from register_cases [OF inv assms(2)] show ?thesis
    using first by (auto simp: get_handle_def hm.get_put new_info_def info_handle_def sch cols Let_def)
qed

lemma validate_labels_ok:
  "validate_labels labels = Inr () \<longleftrightarrow>
     list_all (\<lambda>(k, v). k \<noteq> [] \<and> v \<noteq> [] \<and> take 2 k \<noteq> ''__'') labels"
  by (induction labels rule: validate_labels.induct) auto

lemma key_new_perm:
  assumes "distinct (map fst labels)" and "mset labels' = mset labels"
  shows "key_new name labels' = key_new name labels"
proof -
  have "inj_on fst (set labels')"
    using assms by (metis distinct_map mset_eq_setD)
  moreover have "mset labels' = mset (sort_key fst labels)"
    using assms(2) by simp
  ultimately have "sort_key fst labels' = sort_key fst labels"
    by (intro sort_key_inj_key_eq) simp_all
  then show ?thesis by (simp add: key_new_def)
qed

text \<open>
  Registering is idempotent and does not depend on the order of the labels: after a
  successful registration, the same name with any permutation of the same labels gives
  the same handle and leaves the registry as it is.
\<close>

theorem register_idempotent:
  assumes "reg_reachable schemas rg" and ok: "register rg name labels = Inr (h, rg')"
    and "distinct (map fst labels)" and "mset labels' = mset labels"
  shows "register rg' name labels' = Inr (h, rg')"
proof -
  have v: "validate_name name = Inr ()" "validate_labels labels = Inr ()"
    using ok by (auto simp: register_def rbind_eq_Inr)
  then have v': "validate_labels labels' = Inr ()"
    using mset_eq_setD [OF assms(4)] by (simp add: validate_labels_ok list_all_iff)
  have "get_handle rg' name labels = Some h"
    using register_cases [OF reachable_inv [OF assms(1)] ok]
    by (auto simp: get_handle_def hm.get_put new_info_def info_handle_def)
  then show ?thesis
    using v(1) v' key_new_perm [OF assms(3,4)]
    by (auto simp: register_def get_handle_def)
qed

section \<open>A small registry\<close>

definition any_schema :: schema_config where
  "any_schema = \<lparr> sc_name = ''all'', sc_label_matcher = matcher_any, sc_tiers = [hour_tier],
     sc_max_series = 2 \<rparr>"

definition cpu_handle :: "series_handle" where
  "cpu_handle = \<lparr> sh_schema_index = 0, sh_series_id = 0, sh_column = 0 \<rparr>"

definition cpu_labels :: labels where
  "cpu_labels = [(''host'', ''a''), (''type'', ''c'')]"

definition cpu_registry :: series_registry where
  "cpu_registry = \<lparr> rg_schemas = [any_schema],
     rg_series_map = [(key_new ''cpu'' cpu_labels, new_info ''cpu'' cpu_labels 0 0)],
     rg_next_series_id = [1], rg_next_column = [1] \<rparr>"

lemma cpu_register:
  "register (registry_new [any_schema]) ''cpu'' cpu_labels = Inr (cpu_handle, cpu_registry)"
  by (simp add: register_def registry_new_def validate_name_def cpu_labels_def hm.get_empty
      find_matching_schema_def any_schema_def matches_labels_def matches_iff matcher_any_def
      new_info_def info_handle_def cpu_handle_def cpu_registry_def hm_insert_def)

lemma cpu_reachable: "reg_reachable [any_schema] cpu_registry"
  by (rule reg_reachable.step [OF reg_reachable.start cpu_register])

lemma cpu_get_handle: "get_handle cpu_registry ''cpu'' cpu_labels = Some cpu_handle"
  by (simp add: get_handle_def cpu_registry_def hm_get_def new_info_def info_handle_def cpu_handle_def)

theorem handles_unique_witness:
  "get_handle cpu_registry ''cpu'' cpu_labels = Some cpu_handle \<and> sh_column cpu_handle < 2"
  using handles_unique [OF cpu_reachable cpu_get_handle cpu_get_handle] cpu_get_handle
  by (simp add: cpu_handle_def any_schema_def)

theorem register_spec_witness:
  "get_handle cpu_registry ''cpu'' cpu_labels = Some cpu_handle \<and> rg_next_column cpu_registry = [1]"
  using register_spec [OF reg_reachable.start cpu_register, of "''x''" "[]"]
  by (simp add: cpu_registry_def cpu_handle_def)

theorem register_idempotent_witness:
  "register cpu_registry ''cpu'' [(''type'', ''c''), (''host'', ''a'')] = Inr (cpu_handle, cpu_registry)"
  by (rule register_idempotent [OF reg_reachable.start cpu_register])
    (simp_all add: cpu_labels_def)

section \<open>Persistence\<close>

lemma find_snoc:
  "find P (xs @ [x]) = (case find P xs of Some y \<Rightarrow> Some y | None \<Rightarrow> if P x then Some x else None)"
  by (induction xs) auto

lemma find_someD: "find P xs = Some x \<Longrightarrow> x \<in> set xs \<and> P x"
  by (induction xs) (auto split: if_splits)

lemma rebuild_map:
  "hm_get (fold (\<lambda>info m. hm_insert (key_new (si_name info) (si_labels info)) info m) infos m) k
     = (case find (\<lambda>info. key_new (si_name info) (si_labels info) = k) (rev infos) of
          Some info \<Rightarrow> Some info | None \<Rightarrow> hm_get m k)"
proof (induction infos arbitrary: m)
  case (Cons info infos)
  show ?case
    by (simp add: Cons.IH hm.get_put find_snoc split: option.splits)
qed simp

lemma rebuild_same:
  assumes inv: "reg_inv rg" and ord: "iteration_order ord"
  shows "hm_get (fold (\<lambda>info m. hm_insert (key_new (si_name info) (si_labels info)) info m)
      (hm_values ord (rg_series_map rg)) []) k = hm_get (rg_series_map rg) k"
proof -
  let ?P = "\<lambda>info. key_new (si_name info) (si_labels info) = k"
  let ?vs = "hm_values ord (rg_series_map rg)"
  have vals: "set ?vs = ran (hm_get (rg_series_map rg))"
    using inv ord by (simp add: hm_values_set reg_inv_def)
  have key: "k' = key_new (si_name info) (si_labels info)"
    if "hm_get (rg_series_map rg) k' = Some info" for k' info
    using inv that by (simp add: reg_inv_def)
  show ?thesis
  proof (cases "find ?P (rev ?vs)")
    case None
    then have none: "\<not> ?P info" if "info \<in> set ?vs" for info
      using that by (simp add: find_None_iff)
    have "hm_get (rg_series_map rg) k = None"
    proof (cases "hm_get (rg_series_map rg) k")
      case (Some info)
      then have "info \<in> set ?vs" by (auto simp: vals ran_def)
      then show ?thesis using none [OF \<open>info \<in> set ?vs\<close>] key [OF Some] by simp
    qed
    then show ?thesis using None by (simp add: rebuild_map hm.get_empty)
  next
    case (Some info)
    then have "info \<in> set ?vs" "?P info"
      using find_someD [OF Some] by simp_all
    then have "hm_get (rg_series_map rg) k = Some info"
      using vals key by (auto simp: ran_def)
    then show ?thesis using Some by (simp add: rebuild_map)
  qed
qed

lemma registry_reload:
  assumes inv: "reg_inv rg" and "rg_schemas rg = schemas" and "iteration_order ord"
    and "to_json js (registry_index ord rg) = Inr s" and "of_json js s = Inr (registry_index ord rg)"
    and "read_text os d path = Inr s"
  shows "\<exists>rg'. registry_load os js d path schemas = Inr rg' \<and> reg_inv rg' \<and> rg_schemas rg' = schemas \<and>
    (\<forall>name labels. get_handle rg' name labels = get_handle rg name labels) \<and>
    rg_next_series_id rg' = rg_next_series_id rg \<and> rg_next_column rg' = rg_next_column rg"
proof -
  let ?map = "fold (\<lambda>info m. hm_insert (key_new (si_name info) (si_labels info)) info m)
      (hm_values ord (rg_series_map rg)) []"
  let ?rg = "\<lparr> rg_schemas = schemas, rg_series_map = ?map,
      rg_next_series_id = rg_next_series_id rg, rg_next_column = rg_next_column rg \<rparr>"
  have "length schemas = length (rg_next_series_id rg)"
    using inv assms(2) by (simp add: reg_inv_def)
  then have "registry_load os js d path schemas = Inr ?rg"
    using assms(5,6) by (simp add: registry_load_def registry_index_def)
  moreover have same: "hm_get ?map k = hm_get (rg_series_map rg) k" for k
    by (rule rebuild_same [OF inv assms(3)])
  have "hm_wf (fold (\<lambda>info m. hm_insert (key_new (si_name info) (si_labels info)) info m) infos m)"
    if "hm_wf m" for infos m
    using that by (induction infos arbitrary: m) (auto simp: hm.inv_put)
  then have "hm_wf ?map" using hm.inv_empty by blast
  then have "reg_inv ?rg"
    using inv unfolding reg_inv_def assms(2) [symmetric]
    by (simp only: series_registry.simps same simp_thms) blast
  ultimately show ?thesis
    using same by (auto simp: get_handle_def)
qed

text \<open>
  Saving the index and loading it with the same schemas gives a registry in which every
  lookup and every later registration sees the same series and counters, whatever the
  iteration order of the map, as long as the JSON library reads back what it wrote.
\<close>

theorem registry_roundtrip:
  assumes "reg_reachable schemas rg" and "iteration_order ord" and "json_reads_back js (registry_index ord rg)"
    and "registry_save os js ord rg path d = Inr d'" and "os_read os path = None"
  shows "\<exists>rg'. registry_load os js d' path schemas = Inr rg' \<and> reg_inv rg' \<and>
    get_handle rg' name labels = get_handle rg name labels \<and>
    rg_next_series_id rg' = rg_next_series_id rg \<and> rg_next_column rg' = rg_next_column rg"
proof -
  have inv: "reg_inv rg" "rg_schemas rg = schemas"
    using assms(1) by (simp_all add: reachable_inv reachable_schemas)
  obtain s where s: "to_json js (registry_index ord rg) = Inr s" "of_json js s = Inr (registry_index ord rg)"
    using assms(3) by (auto simp: json_reads_back_def split: sum.splits)
  have "read_text os d' path = Inr s"
    using assms(4,5) s(1) read_after_write
    by (auto simp: registry_save_def Let_def map_err_def split: sum.splits)
  then show ?thesis
    using registry_reload [OF inv assms(2) s] by blast
qed

definition cpu_json :: "series_index json" where
  "cpu_json = \<lparr> to_json = (\<lambda>_. Inr ''{}''), of_json = (\<lambda>_. Inr (registry_index (\<lambda>ks. ks) cpu_registry)) \<rparr>"

theorem registry_roundtrip_witness:
  "\<exists>d' rg'. registry_save os_ok cpu_json (\<lambda>ks. ks) cpu_registry ''i'' empty_disk = Inr d' \<and> registry_load os_ok cpu_json d' ''i'' [any_schema] = Inr rg' \<and>
     get_handle rg' ''cpu'' cpu_labels = Some cpu_handle"
proof -
  let ?d = "empty_disk"
  let ?d' = "?d\<lparr>dk_text := (dk_text ?d)(''i'' := Some ''{}'')\<rparr>"
  have save: "registry_save os_ok cpu_json (\<lambda>ks. ks) cpu_registry ''i'' ?d = Inr ?d'"
    by (simp add: registry_save_def cpu_json_def write_text_def os_ok_def)
  have "iteration_order (\<lambda>ks. ks)" "json_reads_back cpu_json (registry_index (\<lambda>ks. ks) cpu_registry)"
      "os_read os_ok ''i'' = None"
    by (simp_all add: iteration_order_def json_reads_back_def cpu_json_def os_ok_def)
  then obtain rg' where "registry_load os_ok cpu_json ?d' ''i'' [any_schema] = Inr rg'"
      "get_handle rg' ''cpu'' cpu_labels = get_handle cpu_registry ''cpu'' cpu_labels"
    using registry_roundtrip [OF cpu_reachable _ _ save, of "''cpu''" cpu_labels] by blast
  then show ?thesis
    using save cpu_get_handle by (intro exI [of _ ?d'] exI [of _ rg']) simp
qed

section \<open>The series directory of the slabs\<close>

lemma set_dirs:
  assumes "slab_wf s" and "\<forall>info \<in> set infos. P info \<longrightarrow> si_series_id info < tb_cols (slab_table s)"
  shows "\<exists>s'. fold_res (\<lambda>info s. if P info then set_series_column s (si_series_id info) (si_column info)
      else Inr s) infos s = Inr s' \<and> slab_wf s' \<and>
    slab_table s' = (slab_table s)\<lparr>tb_dir :=
      fold (\<lambda>info d. if P info then d(si_series_id info := si_column info) else d) infos (tb_dir (slab_table s))\<rparr>"
  using assms
proof (induction infos arbitrary: s)
  case (Cons info infos)
  show ?case
  proof (cases "P info")
    case True
    then obtain s1 where s1: "set_series_column s (si_series_id info) (si_column info) = Inr s1"
        "slab_wf s1" "slab_table s1 = tb_put_dir (si_series_id info) (si_column info) (slab_table s)"
      using set_series_column_law [OF Cons.prems(1), of "si_series_id info" "si_column info"]
        Cons.prems(2) by (auto simp: table_fields)
    then show ?thesis
      using Cons.IH [OF s1(2)] Cons.prems(2) True by (simp add: tb_put_dir_def fun_upd_def)
  qed (use Cons in simp)
qed simp

lemma fold_dir_last:
  assumes "\<forall>info \<in> set infos. P info \<longrightarrow> si_column info = si_series_id info"
  shows "fold (\<lambda>info d. if P info then d(si_series_id info := si_column info) else d) infos dir i
    = (if \<exists>info \<in> set infos. P info \<and> si_series_id info = i then i else dir i)"
  using assms by (induction infos arbitrary: dir) auto

definition dir_of :: "series_info list \<Rightarrow> nat \<Rightarrow> (u32 \<Rightarrow> u32) \<Rightarrow> u32 \<Rightarrow> u32" where
  "dir_of infos i = fold (\<lambda>info d. if si_schema_index info = i then d(si_series_id info := si_column info)
     else d) infos"

lemma sync_from_ok:
  assumes "\<forall>j < length slabs. slab_wf (slabs ! j) \<and>
      (\<forall>info \<in> set infos. si_schema_index info = i + j \<longrightarrow> si_series_id info < tb_cols (slab_table (slabs ! j)))"
  shows "\<exists>slabs'. sync_from infos rg i slabs = (Inr (), slabs') \<and> length slabs' = length slabs \<and>
    (\<forall>j < length slabs. slab_wf (slabs' ! j) \<and> slab_table (slabs' ! j) =
       (slab_table (slabs ! j))\<lparr>tb_count := registry_series_count rg (i + j),
         tb_dir := dir_of infos (i + j) (tb_dir (slab_table (slabs ! j)))\<rparr>)"
  using assms
proof (induction slabs arbitrary: i)
  case (Cons s slabs)
  let ?s = "set_series_count s (registry_series_count rg i)"
  have wf: "slab_wf s" and ids: "\<forall>info \<in> set infos. si_schema_index info = i \<longrightarrow>
      si_series_id info < tb_cols (slab_table s)"
    using Cons.prems by (auto dest: spec [of _ 0])
  have c: "slab_wf ?s" "slab_table ?s = (slab_table s)\<lparr>tb_count := registry_series_count rg i\<rparr>"
    using set_series_count_law [OF wf] by simp_all
  obtain s1 where s1: "fold_res (\<lambda>info s. if si_schema_index info = i
      then set_series_column s (si_series_id info) (si_column info) else Inr s) infos ?s = Inr s1"
      "slab_wf s1" "slab_table s1 = (slab_table s)\<lparr>tb_count := registry_series_count rg i,
        tb_dir := dir_of infos i (tb_dir (slab_table s))\<rparr>"
    using set_dirs [OF c(1), of infos "\<lambda>info. si_schema_index info = i"] ids
    by (auto simp: c(2) dir_of_def)
  obtain slabs' where sl: "sync_from infos rg (Suc i) slabs = (Inr (), slabs')" "length slabs' = length slabs"
      "\<forall>j < length slabs. slab_wf (slabs' ! j) \<and> slab_table (slabs' ! j) =
       (slab_table (slabs ! j))\<lparr>tb_count := registry_series_count rg (Suc i + j),
         tb_dir := dir_of infos (Suc i + j) (tb_dir (slab_table (slabs ! j)))\<rparr>"
    using Cons.IH [of "Suc i"] Cons.prems by fastforce
  have "sync_slab infos rg i s = (Inr (), s1)"
    using s1(1) by (simp add: sync_slab_def fold_st_fold_res)
  then have "sync_from infos rg i (s # slabs) = (Inr (), s1 # slabs')"
    using sl(1) by simp
  moreover have "\<forall>j < length (s # slabs). slab_wf ((s1 # slabs') ! j) \<and> slab_table ((s1 # slabs') ! j) =
       (slab_table ((s # slabs) ! j))\<lparr>tb_count := registry_series_count rg (i + j),
         tb_dir := dir_of infos (i + j) (tb_dir (slab_table ((s # slabs) ! j)))\<rparr>"
    using s1(2,3) sl(3) by (simp add: All_less_Suc2)
  ultimately show ?case using sl(2) by auto
qed simp

lemma dir_of_registered:
  assumes inv: "reg_inv rg" and "iteration_order ord"
    and h: "get_handle rg name labels = Some h"
  shows "dir_of (hm_values ord (rg_series_map rg)) (sh_schema_index h) dir (sh_series_id h) = sh_column h"
proof -
  have vals: "set (hm_values ord (rg_series_map rg)) = ran (hm_get (rg_series_map rg))"
    using assms by (simp add: hm_values_set reg_inv_def)
  have cols: "\<forall>info \<in> set (hm_values ord (rg_series_map rg)). si_column info = si_series_id info"
    using inv by (auto simp: vals ran_def reg_inv_def)
  obtain info where "hm_get (rg_series_map rg) (key_new name labels) = Some info" "h = info_handle info"
    using h by (auto simp: get_handle_def)
  then have "info \<in> set (hm_values ord (rg_series_map rg))" "si_schema_index info = sh_schema_index h"
      "si_series_id info = sh_series_id h" "sh_column h = sh_series_id h"
    using get_handle_bounds [OF inv h] by (auto simp: vals ran_def info_handle_def)
  then show ?thesis
    using cols unfolding dir_of_def by (subst fold_dir_last) auto
qed

text \<open>
  Synchronising slabs that stand one per schema, each with the columns of its schema:
  every slab gets the series count of its schema and a directory that resolves each
  registered series to its column; timestamps, values, cursor and configuration stay.
\<close>

theorem sync_directory:
  assumes "reg_reachable schemas rg" and "iteration_order ord" and "length slabs \<le> length schemas"
    and "\<forall>j < length slabs. slab_wf (slabs ! j) \<and> slab_max_series (slabs ! j) = sc_max_series (schemas ! j)"
    and "get_handle rg name labels = Some h" and "sh_schema_index h < length slabs"
  defines "i \<equiv> sh_schema_index h"
  shows "\<exists>slabs'. sync_to_slabs ord rg slabs = (Inr (), slabs') \<and> length slabs' = length slabs \<and>
    slab_table (slabs' ! i) = (slab_table (slabs ! i))\<lparr>tb_count := rg_next_series_id rg ! i,
      tb_dir := tb_dir (slab_table (slabs' ! i))\<rparr> \<and>
    get_series_column (slabs' ! i) (sh_series_id h) = Inr (if sh_column h = - 1 then None else Some (sh_column h))"
proof -
  have inv: "reg_inv rg" and schemas: "rg_schemas rg = schemas"
    using assms(1) by (simp_all add: reachable_inv reachable_schemas)
  let ?infos = "hm_values ord (rg_series_map rg)"
  have vals: "set ?infos = ran (hm_get (rg_series_map rg))"
    using inv assms(2) by (simp add: hm_values_set reg_inv_def)
  have room: "si_series_id info < sc_max_series (schemas ! si_schema_index info)" if "info \<in> set ?infos" for info
    using that inv schemas unfolding vals ran_def reg_inv_def by force
  obtain slabs' where sl: "sync_from ?infos rg 0 slabs = (Inr (), slabs')" "length slabs' = length slabs"
      "\<forall>j < length slabs. slab_wf (slabs' ! j) \<and> slab_table (slabs' ! j) =
       (slab_table (slabs ! j))\<lparr>tb_count := registry_series_count rg j,
         tb_dir := dir_of ?infos j (tb_dir (slab_table (slabs ! j)))\<rparr>"
    using sync_from_ok [of slabs ?infos 0 rg] assms(4) room by (auto simp: table_fields)
  have i: "i < length slabs" using assms(6) by (simp add: i_def)
  have "registry_series_count rg i = rg_next_series_id rg ! i"
    using inv i assms(3) schemas by (simp add: registry_series_count_def reg_inv_def)
  moreover have "tb_dir (slab_table (slabs' ! i)) (sh_series_id h) = sh_column h"
    using sl(3) i dir_of_registered [OF inv assms(2,5)] by (simp add: i_def)
  moreover have "sh_series_id h < slab_max_series (slabs' ! i)"
  proof -
    have "tb_cols (slab_table (slabs' ! i)) = sc_max_series (schemas ! i)"
      using sl(3) i assms(4) by (simp add: table_fields)
    then show ?thesis
      using get_handle_bounds [OF inv assms(5)] schemas by (simp add: table_fields i_def)
  qed
  ultimately show ?thesis
    using sl i by (auto simp: sync_to_slabs_def get_series_column_law)
qed

theorem sync_directory_witness:
  "\<exists>s slabs'. slab_create os_ok ''a'' 7 4 2 1 = Inr s \<and>
     sync_to_slabs (\<lambda>ks. ks) cpu_registry [s] = (Inr (), slabs') \<and>
     get_series_column (slabs' ! 0) 0 = Inr (Some 0)"
proof -
  let ?s = "\<lparr> sl_mmap = initial_bytes 7 4 2 1, sl_layout = layout_new 4 2, sl_path = ''a'' \<rparr>"
  have size: "slab_size (unat (4 :: u32)) (unat (2 :: u32)) < 2 ^ 64" by (simp add: slab_size_def)
  have s: "slab_create os_ok ''a'' 7 4 2 1 = Inr ?s"
    by (rule slab_create_bytes [OF size]) (simp_all add: os_ok_def)
  have wf: "slab_wf ?s" by (rule initial_wf [OF size])
  have tb: "slab_table ?s = empty_table 7 4 2 1" by (rule initial_table)
  have "slab_max_series ?s = 2"
    by (simp only: table_fields [symmetric] tb) (simp add: empty_table_def)
  then have room: "\<forall>j < length [?s]. slab_wf ([?s] ! j) \<and>
      slab_max_series ([?s] ! j) = sc_max_series ([any_schema] ! j)"
    using wf by (simp add: any_schema_def)
  have "iteration_order (\<lambda>ks. ks)" by (simp add: iteration_order_def)
  then show ?thesis
    using sync_directory [OF cpu_reachable _ _ room cpu_get_handle] s
    by (auto simp: cpu_handle_def)
qed

end
