(* ===== verification/Cursors.thy ===== *)
theory Cursors
  imports Strings Slab
begin

text \<open>
  Tables of cursors, indexed by three numbers. The consolidation engine and the export
  both keep one, in a \<open>HashMap\<close> whose keys are the rendered numbers; \<open>cursor_table\<close> is the
  contract both rely on, and \<open>path.exists()\<close> with the text of a cursor file is shared here.
\<close>

locale cursor_table =
  fixes get :: "'t \<Rightarrow> nat \<Rightarrow> nat \<Rightarrow> 'k \<Rightarrow> 'v option"
    and update :: "nat \<Rightarrow> nat \<Rightarrow> 'k \<Rightarrow> 'v \<Rightarrow> 't \<Rightarrow> 't"
  assumes get_update: "get (update a b c v t) a' b' c' =
    (if a' = a \<and> b' = b \<and> c' = c then Some v else get t a' b' c')"
begin

lemma get_same: "get (update a b c v t) a b c = Some v"
  by (simp add: get_update)

lemma get_other: "(a', b', c') \<noteq> (a, b, c) \<Longrightarrow> get (update a b c v t) a' b' c' = get t a' b' c'"
  by (auto simp: get_update)

lemma update_twice: "get (update a b c v (update a b c w t)) = get (update a b c v t)"
  by (auto simp: fun_eq_iff get_update)

lemma update_swap:
  "(a, b, c) \<noteq> (a', b', c') \<Longrightarrow>
     get (update a b c v (update a' b' c' w t)) = get (update a' b' c' w (update a b c v t))"
  by (auto simp: fun_eq_iff get_update)

end

definition path_exists :: "disk \<Rightarrow> string \<Rightarrow> bool" where
  "path_exists d path \<longleftrightarrow> dk_text d path \<noteq> None \<or> dk_slab d path \<noteq> None \<or> dk_dir d path"

text \<open>\<open>Path::join\<close> with a relative component.\<close>

definition path_join :: "string \<Rightarrow> string \<Rightarrow> string" where
  "path_join base name =
     (if base = [] then name else if last base = CHR ''/'' then base @ name
      else base @ ''/'' @ name)"

lemma path_join_inject: "path_join base m = path_join base n \<longleftrightarrow> m = n"
  by (simp add: path_join_def)

end
