(* ===== verification/Consolidate.thy ===== *)
theory Consolidate
  imports Schema Ring_Buffer Series_Registry Cursors
begin

text \<open>
  \<open>rondo/src/consolidate.rs\<close>: downsampling from each tier to the next. The points of the
  source tier that are newer than a cursor are grouped into windows of the destination
  interval, and one value per window and column is written to the destination ring. The
  order in which the two levels of \<open>HashMap\<close> are visited is a parameter. An operation that
  can fail half-way returns the state it leaves behind beside its result.
\<close>

section \<open>Cursors\<close>

record consolidation_cursor =
  cc_schema_index :: usize
  cc_source_tier_index :: usize
  cc_dest_tier_index :: usize
  cc_last_processed_timestamp :: u64

type_synonym consolidation_cursors = "(string, consolidation_cursor) hash_map"

definition CURSORS_FILE :: string where
  "CURSORS_FILE = ''consolidation_cursors.json''"

definition cursor_key :: "usize \<Rightarrow> usize \<Rightarrow> usize \<Rightarrow> string" where
  "cursor_key schema_index source_tier dest_tier = colon_key schema_index source_tier dest_tier"

definition get_cursor ::
    "consolidation_cursors \<Rightarrow> usize \<Rightarrow> usize \<Rightarrow> usize \<Rightarrow> consolidation_cursor option" where
  "get_cursor cs schema_index source_tier dest_tier =
     hm_get cs (cursor_key schema_index source_tier dest_tier)"

definition set_cursor :: "consolidation_cursor \<Rightarrow> consolidation_cursors \<Rightarrow> consolidation_cursors" where
  "set_cursor c cs =
     hm_insert (cursor_key (cc_schema_index c) (cc_source_tier_index c) (cc_dest_tier_index c)) c cs"

definition get_last_processed ::
    "consolidation_cursors \<Rightarrow> usize \<Rightarrow> usize \<Rightarrow> usize \<Rightarrow> u64 option" where
  "get_last_processed cs schema_index source_tier dest_tier =
     map_option cc_last_processed_timestamp (get_cursor cs schema_index source_tier dest_tier)"

definition update_last_processed ::
    "usize \<Rightarrow> usize \<Rightarrow> usize \<Rightarrow> u64 \<Rightarrow> consolidation_cursors \<Rightarrow> consolidation_cursors" where
  "update_last_processed schema_index source_tier dest_tier timestamp cs =
     set_cursor \<lparr> cc_schema_index = schema_index, cc_source_tier_index = source_tier,
       cc_dest_tier_index = dest_tier, cc_last_processed_timestamp = timestamp \<rparr> cs"

interpretation cc: cursor_table get_last_processed update_last_processed
  by unfold_locales
    (simp add: get_last_processed_def update_last_processed_def get_cursor_def set_cursor_def
      cursor_key_def hm.get_put colon_key_inject)

definition cursors_load ::
    "os \<Rightarrow> consolidation_cursors json \<Rightarrow> disk \<Rightarrow> string \<Rightarrow> consolidation_cursors res" where
  "cursors_load os js d path =
     (if \<not> path_exists d path then Inr []
      else rbind (map_err (\<lambda>e. Error (Consolidation (CursorLoad path e))) (read_text os d path))
        (\<lambda>content. map_err (\<lambda>e. Error (Consolidation (CursorParse path e))) (of_json js content)))"

definition cursors_save ::
    "os \<Rightarrow> consolidation_cursors json \<Rightarrow> consolidation_cursors \<Rightarrow> string \<Rightarrow> disk \<Rightarrow> disk res" where
  "cursors_save os js cs path d =
     rbind (map_err (\<lambda>e. Error (Consolidation (CursorSerialize e))) (to_json js cs))
       (\<lambda>content. map_err (\<lambda>e. Error (Consolidation (CursorSave path e)))
         (write_text os d path content))"

definition iter_cursors ::
    "(string list \<Rightarrow> string list) \<Rightarrow> consolidation_cursors \<Rightarrow> consolidation_cursor list" where
  "iter_cursors ord cs = hm_values ord cs"

section \<open>Windows\<close>

record window =
  cw_start_timestamp :: u64
  cw_end_timestamp :: u64
  cw_data :: "(u32, f64 list) hash_map"

definition window_new :: "u64 \<Rightarrow> u64 \<Rightarrow> window" where
  "window_new start end' = \<lparr> cw_start_timestamp = start, cw_end_timestamp = end', cw_data = [] \<rparr>"

definition add_point :: "u32 \<Rightarrow> f64 \<Rightarrow> window \<Rightarrow> window" where
  "add_point series_column v w =
     (if is_nan v then w
      else w\<lparr>cw_data := hm_insert series_column
             ((case hm_get (cw_data w) series_column of None \<Rightarrow> [] | Some vs \<Rightarrow> vs) @ [v]) (cw_data w)\<rparr>)"

definition has_data :: "window \<Rightarrow> bool" where
  "has_data w \<longleftrightarrow> cw_data w \<noteq> []"

definition series_columns :: "(u32 list \<Rightarrow> u32 list) \<Rightarrow> window \<Rightarrow> u32 list" where
  "series_columns ord w = ord (hm_keys (cw_data w))"

definition get_values :: "window \<Rightarrow> u32 \<Rightarrow> f64 list option" where
  "get_values w series_column = hm_get (cw_data w) series_column"

definition consolidate_series :: "window \<Rightarrow> u32 \<Rightarrow> consolidation_fn \<Rightarrow> f64 option" where
  "consolidate_series w series_column fn =
     (case get_values w series_column of None \<Rightarrow> None
      | Some values \<Rightarrow> if values = [] then None else Some (apply_fn fn values))"

type_synonym windows = "(u64, window) hash_map"

text \<open>The order of iteration of the two maps; that of a window's columns may depend on the window.\<close>

record orders =
  or_windows :: "u64 list \<Rightarrow> u64 list"
  or_columns :: "u64 \<Rightarrow> u32 list \<Rightarrow> u32 list"

definition orders_ok :: "orders \<Rightarrow> bool" where
  "orders_ok o' \<longleftrightarrow> iteration_order (or_windows o') \<and> (\<forall>w. iteration_order (or_columns o' w))"

text \<open>One point of the inner loop; a division by a zero interval panics.\<close>

definition group_point :: "u64 \<Rightarrow> u32 \<Rightarrow> u64 \<times> f64 \<Rightarrow> windows \<Rightarrow> windows res" where
  "group_point dest_interval_ns series_column p all_windows =
     (case p of (timestamp, v) \<Rightarrow>
      if is_nan v then Inr all_windows
      else if dest_interval_ns = 0 then Inl Panic
      else let window_start = (timestamp div dest_interval_ns) * dest_interval_ns;
               window_end = window_start + dest_interval_ns;
               w = (case hm_get all_windows window_start of
                      None \<Rightarrow> window_new window_start window_end | Some w \<Rightarrow> w)
           in Inr (hm_insert window_start (add_point series_column v w) all_windows))"

definition collect_windows :: "ring \<Rightarrow> u64 \<Rightarrow> u64 \<Rightarrow> u64 \<Rightarrow> u32 \<Rightarrow> windows res" where
  "collect_windows source_ring dest_interval_ns start_timestamp end_timestamp max_series =
     fold_res (\<lambda>series_column all_windows.
        rbind (ring_read_all source_ring series_column start_timestamp end_timestamp) (\<lambda>points.
        fold_res (group_point dest_interval_ns series_column) points all_windows))
       (map word_of_nat [0..<unat max_series]) []"

text \<open>The writes of the last loop, in the order of iteration.\<close>

definition window_writes :: "orders \<Rightarrow> consolidation_fn \<Rightarrow> windows \<Rightarrow> (u32 \<times> f64 \<times> u64) list" where
  "window_writes o' fn all_windows =
     concat (map (\<lambda>w. List.map_filter (\<lambda>series_column.
         map_option (\<lambda>v. (series_column, v, cw_start_timestamp w)) (consolidate_series w series_column fn))
         (series_columns (or_columns o' (cw_start_timestamp w)) w))
       (hm_values (or_windows o') all_windows))"

definition write_step :: "u32 \<times> f64 \<times> u64 \<Rightarrow> ring \<times> usize \<Rightarrow> rondo_error fault + (ring \<times> usize)" where
  "write_step wr s =
     (case wr of (series_column, v, timestamp) \<Rightarrow> case s of (dest_ring, operations) \<Rightarrow>
      rbind (ring_write dest_ring series_column v timestamp) (\<lambda>r. Inr (r, uadd operations 1)))"

definition process_windows ::
    "orders \<Rightarrow> ring \<Rightarrow> ring \<Rightarrow> tier_config \<Rightarrow> consolidation_fn \<Rightarrow> u64 \<Rightarrow> u64 \<Rightarrow> u32 \<Rightarrow>
       usize res \<times> ring" where
  "process_windows o' source_ring dest_ring dest_tier fn start_timestamp end_timestamp max_series =
     (let dest_interval_ns = word_of_nat (as_nanos (tc_interval dest_tier)) in
      case collect_windows source_ring dest_interval_ns start_timestamp end_timestamp max_series of
        Inl e \<Rightarrow> (Inl e, dest_ring)
      | Inr all_windows \<Rightarrow>
          (case fold_st write_step (window_writes o' fn all_windows) (dest_ring, 0) of
             (Inl e, (ring, _)) \<Rightarrow> (Inl e, ring)
           | (Inr _, (ring, operations)) \<Rightarrow> (Inr operations, ring)))"

section \<open>The engine\<close>

record engine =
  ce_store_path :: string
  ce_schemas :: "schema_config list"
  ce_cursors :: consolidation_cursors

definition engine_new ::
    "os \<Rightarrow> consolidation_cursors json \<Rightarrow> disk \<Rightarrow> string \<Rightarrow> schema_config list \<Rightarrow> engine res" where
  "engine_new os js d store_path schemas =
     rbind (cursors_load os js d (path_join store_path CURSORS_FILE)) (\<lambda>cursors.
       Inr \<lparr> ce_store_path = store_path, ce_schemas = schemas, ce_cursors = cursors \<rparr>)"

definition get_or_initialize_cursor ::
    "consolidation_cursors \<Rightarrow> ring \<Rightarrow> usize \<Rightarrow> usize \<Rightarrow> usize \<Rightarrow> (u64 \<times> consolidation_cursors) res" where
  "get_or_initialize_cursor cs source_ring schema_index source_tier dest_tier =
     (case get_last_processed cs schema_index source_tier dest_tier of
        Some timestamp \<Rightarrow> Inr (timestamp, cs)
      | None \<Rightarrow> rbind (ring_oldest_timestamp source_ring) (\<lambda>_.
          Inr (0, update_last_processed schema_index source_tier dest_tier 0 cs)))"

text \<open>The range of new source data: from the cursor, or from the oldest data, to the newest.\<close>

definition new_range :: "ring \<Rightarrow> tier_config \<Rightarrow> u64 \<Rightarrow> (u64 option \<times> u64 \<times> u64) res" where
  "new_range source_ring source_tier last_processed =
     rbind (ring_newest_timestamp source_ring) (\<lambda>source_newest.
     rbind (if last_processed = 0
            then rbind (ring_oldest_timestamp source_ring) (\<lambda>oldest.
              Inr (case oldest of None \<Rightarrow> 0 | Some t \<Rightarrow> t))
            else Inr (last_processed + word_of_nat (as_nanos (tc_interval source_tier)))) (\<lambda>start_timestamp.
     Inr (source_newest, start_timestamp, case source_newest of None \<Rightarrow> 0 | Some t \<Rightarrow> t + 1)))"

text \<open>The configurations, the function and the two rings of a pair of tiers.\<close>

definition pair_inputs ::
    "schema_config \<Rightarrow> ring list list \<Rightarrow> usize \<Rightarrow> usize \<Rightarrow> usize \<Rightarrow>
       (tier_config \<times> tier_config \<times> consolidation_fn \<times> ring \<times> ring) res" where
  "pair_inputs schema rings schema_index source_tier_index dest_tier_index =
     rbind (nth_res (sc_tiers schema) source_tier_index) (\<lambda>source_tier.
     rbind (nth_res (sc_tiers schema) dest_tier_index) (\<lambda>dest_tier.
     case tc_consolidation_fn dest_tier of
       None \<Rightarrow> err (Consolidation (NoConsolidationFunction schema_index dest_tier_index))
     | Some fn \<Rightarrow>
         rbind (nth_res rings schema_index) (\<lambda>tiers.
         if dest_tier_index \<le> source_tier_index then Inl Panic else
         rbind (nth_res tiers dest_tier_index) (\<lambda>dest_ring.
         rbind (nth_res tiers source_tier_index) (\<lambda>source_ring.
         Inr (source_tier, dest_tier, fn, source_ring, dest_ring))))))"

type_synonym engine_state = "consolidation_cursors \<times> ring list list"

definition consolidate_tier_pair ::
    "orders \<Rightarrow> schema_config \<Rightarrow> usize \<Rightarrow> usize \<Rightarrow> usize \<Rightarrow> engine_state \<Rightarrow> usize res \<times> engine_state" where
  "consolidate_tier_pair o' schema schema_index source_tier_index dest_tier_index st =
     (case st of (cs, rings) \<Rightarrow>
      case pair_inputs schema rings schema_index source_tier_index dest_tier_index of
        Inl e \<Rightarrow> (Inl e, (cs, rings))
      | Inr (source_tier, dest_tier, fn, source_ring, dest_ring) \<Rightarrow>
      case get_or_initialize_cursor cs source_ring schema_index source_tier_index dest_tier_index of
        Inl e \<Rightarrow> (Inl e, (cs, rings))
      | Inr (last_processed, cs) \<Rightarrow>
      case new_range source_ring source_tier last_processed of
        Inl e \<Rightarrow> (Inl e, (cs, rings))
      | Inr (source_newest, start_timestamp, end_timestamp) \<Rightarrow>
      if start_timestamp \<ge> end_timestamp then (Inr 0, (cs, rings))
      else
        case process_windows o' source_ring dest_ring dest_tier fn start_timestamp end_timestamp
               (sc_max_series schema) of
          (result, dest_ring) \<Rightarrow>
            let rings = rings[schema_index := (rings ! schema_index)[dest_tier_index := dest_ring]] in
            (case result of
               Inl e \<Rightarrow> (Inl e, (cs, rings))
             | Inr operations \<Rightarrow>
                 (Inr operations,
                  (if operations > 0
                   then update_last_processed schema_index source_tier_index dest_tier_index
                          (case source_newest of None \<Rightarrow> 0 | Some t \<Rightarrow> t) cs
                   else cs, rings))))"

fun pairs_loop ::
    "orders \<Rightarrow> schema_config \<Rightarrow> usize \<Rightarrow> usize list \<Rightarrow> usize \<Rightarrow> engine_state \<Rightarrow> usize res \<times> engine_state" where
  "pairs_loop o' schema schema_index [] acc st = (Inr acc, st)"
| "pairs_loop o' schema schema_index (source # sources) acc st =
     (case consolidate_tier_pair o' schema schema_index source (source + 1) st of
        (Inl e, st) \<Rightarrow> (Inl e, st)
      | (Inr operations, st) \<Rightarrow> pairs_loop o' schema schema_index sources (uadd acc operations) st)"

fun schemas_loop ::
    "orders \<Rightarrow> usize \<Rightarrow> schema_config list \<Rightarrow> usize \<Rightarrow> engine_state \<Rightarrow> usize res \<times> engine_state" where
  "schemas_loop o' schema_index [] acc st = (Inr acc, st)"
| "schemas_loop o' schema_index (schema # schemas) acc st =
     (if length (sc_tiers schema) < 2 then schemas_loop o' (Suc schema_index) schemas acc st
      else case pairs_loop o' schema schema_index [0..<length (sc_tiers schema) - 1] acc st of
        (Inl e, st) \<Rightarrow> (Inl e, st)
      | (Inr acc, st) \<Rightarrow> schemas_loop o' (Suc schema_index) schemas acc st)"

definition save_cursors :: "os \<Rightarrow> consolidation_cursors json \<Rightarrow> engine \<Rightarrow> disk \<Rightarrow> disk res" where
  "save_cursors os js e d = cursors_save os js (ce_cursors e) (path_join (ce_store_path e) CURSORS_FILE) d"

definition engine_consolidate ::
    "os \<Rightarrow> consolidation_cursors json \<Rightarrow> orders \<Rightarrow> engine \<Rightarrow> ring list list \<Rightarrow> disk \<Rightarrow>
       usize res \<times> engine \<times> ring list list \<times> disk" where
  "engine_consolidate os js o' e rings d =
     (case schemas_loop o' 0 (ce_schemas e) 0 (ce_cursors e, rings) of
        (result, (cs, rings)) \<Rightarrow>
          let e = e\<lparr>ce_cursors := cs\<rparr> in
          (case result of
             Inl er \<Rightarrow> (Inl er, e, rings, d)
           | Inr operations \<Rightarrow>
               (case save_cursors os js e d of
                  Inl er \<Rightarrow> (Inl er, e, rings, d)
                | Inr d \<Rightarrow> (Inr operations, e, rings, d))))"

definition consolidation_pair_count :: "engine \<Rightarrow> usize" where
  "consolidation_pair_count e =
     sum_list (map (\<lambda>schema. if length (sc_tiers schema) > 1 then length (sc_tiers schema) - 1 else 0)
       (ce_schemas e))"

section \<open>Grouping\<close>

definition window_start :: "u64 \<Rightarrow> u64 \<Rightarrow> u64" where
  "window_start d t = (t div d) * d"

text \<open>The values of one column in one window, empty when there are none.\<close>

definition win_vals :: "windows \<Rightarrow> u64 \<Rightarrow> u32 \<Rightarrow> f64 list" where
  "win_vals W w c = (case hm_get W w of None \<Rightarrow> [] | Some win \<Rightarrow>
     case hm_get (cw_data win) c of None \<Rightarrow> [] | Some vs \<Rightarrow> vs)"

definition windows_ok :: "windows \<Rightarrow> bool" where
  "windows_ok W \<longleftrightarrow> hm_wf W \<and> (\<forall>w win. hm_get W w = Some win \<longrightarrow>
     cw_start_timestamp win = w \<and> hm_wf (cw_data win) \<and>
     (\<forall>c vs. hm_get (cw_data win) c = Some vs \<longrightarrow> vs \<noteq> []))"

definition in_window :: "u64 \<Rightarrow> u64 \<Rightarrow> (u64 \<times> f64) list \<Rightarrow> f64 list" where
  "in_window d w ps = map snd (filter (\<lambda>p. window_start d (fst p) = w) ps)"

lemma windows_ok_empty: "windows_ok []" "win_vals [] w c = []"
  by (simp_all add: windows_ok_def win_vals_def hm.get_empty hm.inv_empty)

lemma group_point_ok:
  assumes "windows_ok W" and "d \<noteq> 0" and "\<not> is_nan v"
  shows "\<exists>W'. group_point d c (t, v) W = Inr W' \<and> windows_ok W' \<and>
    (\<forall>w c'. win_vals W' w c' = win_vals W w c' @ (if c' = c \<and> w = window_start d t then [v] else []))"
proof -
  let ?w = "window_start d t"
  let ?win = "case hm_get W ?w of None \<Rightarrow> window_new ?w (?w + d) | Some w \<Rightarrow> w"
  let ?W = "hm_insert ?w (add_point c v ?win) W"
  have "group_point d c (t, v) W = Inr ?W"
    using assms(2,3) unfolding window_start_def by (simp add: group_point_def Let_def)
  moreover have win: "cw_start_timestamp ?win = ?w" "hm_wf (cw_data ?win)"
      "\<And>c vs. hm_get (cw_data ?win) c = Some vs \<Longrightarrow> vs \<noteq> []"
    using assms(1)
    by (auto simp: windows_ok_def window_new_def hm.get_empty hm.inv_empty split: option.splits)
  have "windows_ok ?W"
    using assms(1,3) win
    by (auto simp: windows_ok_def hm.get_put hm.inv_put add_point_def split: if_splits)
  moreover have "win_vals ?W w c' = win_vals W w c' @ (if c' = c \<and> w = ?w then [v] else [])" for w c'
    using assms(3)
    by (auto simp: win_vals_def hm.get_put add_point_def window_new_def hm.get_empty
        split: option.splits)
  ultimately show ?thesis by blast
qed

lemma group_points_ok:
  assumes "windows_ok W" and "d \<noteq> 0" and "list_all (\<lambda>p. \<not> is_nan (snd p)) ps"
  shows "\<exists>W'. fold_res (group_point d c) ps W = Inr W' \<and> windows_ok W' \<and>
    (\<forall>w c'. win_vals W' w c' = win_vals W w c' @ (if c' = c then in_window d w ps else []))"
  using assms
proof (induction ps arbitrary: W)
  case (Cons p ps)
  obtain t v where p: "p = (t, v)" by force
  obtain W1 where W1: "group_point d c (t, v) W = Inr W1" "windows_ok W1"
      "\<forall>w c'. win_vals W1 w c' = win_vals W w c' @ (if c' = c \<and> w = window_start d t then [v] else [])"
    using group_point_ok [OF Cons.prems(1,2), of v c t] Cons.prems(3) p by auto
  obtain W2 where W2: "fold_res (group_point d c) ps W1 = Inr W2" "windows_ok W2"
      "\<forall>w c'. win_vals W2 w c' = win_vals W1 w c' @ (if c' = c then in_window d w ps else [])"
    using Cons.IH [OF W1(2) Cons.prems(2)] Cons.prems(3) by auto
  have "win_vals W2 w c' = win_vals W w c' @ (if c' = c then in_window d w (p # ps) else [])" for w c'
    using W1(3) W2(3) by (auto simp: in_window_def p)
  then show ?case
    using W1(1) W2(1,2) p by auto
qed (simp add: in_window_def)

text \<open>The points of a column in the range that a run considers.\<close>

definition source_points :: "table \<Rightarrow> u64 \<Rightarrow> u64 \<Rightarrow> u32 \<Rightarrow> (u64 \<times> f64) list" where
  "source_points tb start end' c = filter (in_range start end') (ring_contents tb c)"

lemma source_points_numbers: "list_all (\<lambda>p. \<not> is_nan (snd p)) (source_points tb start end' c)"
  by (auto simp: source_points_def ring_contents_def list_all_iff)

lemma collect_columns:
  assumes "ring_inv src" and "start < end'" and "d \<noteq> 0" and "distinct cs"
    and "list_all (\<lambda>c. c < tb_cols (rb_table src)) cs" and "windows_ok W"
    and "\<forall>c \<in> set cs. \<forall>w. win_vals W w c = []"
  shows "\<exists>W'. fold_res (\<lambda>c W. rbind (ring_read_all src c start end') (\<lambda>ps. fold_res (group_point d c) ps W))
      cs W = Inr W' \<and> windows_ok W' \<and>
    (\<forall>w c. win_vals W' w c = (if c \<in> set cs then in_window d w (source_points (rb_table src) start end' c)
        else win_vals W w c))"
  using assms
proof (induction cs arbitrary: W)
  case (Cons c cs)
  have read: "ring_read_all src c start end' = Inr (source_points (rb_table src) start end' c)"
    using ring_read_all_contents [OF Cons.prems(1)] Cons.prems by (simp add: source_points_def)
  obtain W1 where W1: "fold_res (group_point d c) (source_points (rb_table src) start end' c) W = Inr W1"
      "windows_ok W1"
      "\<forall>w c'. win_vals W1 w c' = win_vals W w c' @
        (if c' = c then in_window d w (source_points (rb_table src) start end' c) else [])"
    using group_points_ok [OF Cons.prems(6,3) source_points_numbers] by blast
  obtain W2 where W2: "fold_res (\<lambda>c W. rbind (ring_read_all src c start end') (\<lambda>ps. fold_res (group_point d c) ps W))
      cs W1 = Inr W2" "windows_ok W2"
      "\<forall>w c. win_vals W2 w c = (if c \<in> set cs then in_window d w (source_points (rb_table src) start end' c)
        else win_vals W1 w c)"
  proof -
    have "\<forall>c' \<in> set cs. \<forall>w. win_vals W1 w c' = []"
      using W1(3) Cons.prems(4,7) by auto
    then show thesis
      using that Cons.IH [OF Cons.prems(1-3) _ _ W1(2)] Cons.prems(4,5) by auto
  qed
  have "win_vals W2 w c' = (if c' \<in> set (c # cs)
      then in_window d w (source_points (rb_table src) start end' c') else win_vals W w c')" for w c'
    using W1(3) W2(3) Cons.prems(4,7) by auto
  then show ?case
    using read W1(1) W2(1,2) by auto
qed simp

lemma columns_list:
  "distinct (map word_of_nat [0..<unat (n :: u32)] :: u32 list)"
  "set (map word_of_nat [0..<unat n]) = {c. c < (n :: u32)}"
proof -
  have u: "unat (word_of_nat k :: u32) = k" if "k < unat n" for k
    using that u32_bound [of n] by (intro u32_of_nat) simp
  show "distinct (map word_of_nat [0..<unat n] :: u32 list)"
    unfolding distinct_map by (auto intro!: inj_onI dest!: arg_cong [where f = unat] simp: u)
  show "set (map word_of_nat [0..<unat n]) = {c. c < n}"
  proof (intro set_eqI iffI)
    fix c :: u32 assume "c \<in> set (map word_of_nat [0..<unat n])"
    then show "c \<in> {c. c < n}" using u by (auto simp: word_less_nat_alt)
  next
    fix c :: u32 assume "c \<in> {c. c < n}"
    then have "unat c \<in> set [0..<unat n]" "c = word_of_nat (unat c)"
      by (simp_all add: word_less_nat_alt)
    then show "c \<in> set (map word_of_nat [0..<unat n])" by (metis imageI list.set_map)
  qed
qed

lemma collect_windows_ok:
  assumes "ring_inv src" and "start < end'" and "d \<noteq> 0" and "n \<le> tb_cols (rb_table src)"
  shows "\<exists>W. collect_windows src d start end' n = Inr W \<and> windows_ok W \<and>
    (\<forall>w c. win_vals W w c = (if c < n then in_window d w (source_points (rb_table src) start end' c) else []))"
proof -
  have "list_all (\<lambda>c. c < tb_cols (rb_table src)) (map word_of_nat [0..<unat n])"
    unfolding list_all_iff columns_list using assms(4) by auto
  then obtain W where "fold_res (\<lambda>c W. rbind (ring_read_all src c start end') (\<lambda>ps. fold_res (group_point d c) ps W))
      (map word_of_nat [0..<unat n]) [] = Inr W" "windows_ok W"
      "\<forall>w c. win_vals W w c = (if c \<in> set (map word_of_nat [0..<unat n])
        then in_window d w (source_points (rb_table src) start end' c) else win_vals [] w c)"
    using collect_columns [OF assms(1-3) columns_list(1) _ windows_ok_empty(1), of n]
    by (auto simp only: windows_ok_empty)
  then show ?thesis
    unfolding collect_windows_def columns_list(2) by (simp add: windows_ok_empty)
qed

section \<open>The writes of a run\<close>

lemma hm_values_distinct_starts:
  assumes "windows_ok W" and "iteration_order ord"
  shows "map cw_start_timestamp (hm_values ord W) = ord (hm_keys W)"
proof -
  have "set (ord (hm_keys W)) = set (hm_keys W)"
    using assms by (simp add: iteration_order_def windows_ok_def hm_wf_def hm_keys_def)
  then have "\<forall>w \<in> set (ord (hm_keys W)). \<exists>win. hm_get W w = Some win"
    by (auto simp: hm_keys_def hm_get_def) (metis map_of_eq_None_iff not_None_eq fst_conv image_eqI)
  then have "map cw_start_timestamp (List.map_filter (hm_get W) ws) = ws"
    if "set ws \<subseteq> set (ord (hm_keys W))" for ws
    using that assms(1)
    by (induction ws) (auto simp: List.map_filter_def windows_ok_def split: option.splits)
  then show ?thesis by (simp add: hm_values_def)
qed

lemma window_writes_set:
  assumes "windows_ok W" and "orders_ok o'"
  shows "set (window_writes o' fn W) = {(c, apply_fn fn (win_vals W w c), w) | c w. win_vals W w c \<noteq> []}"
proof (intro set_eqI iffI)
  fix x assume "x \<in> set (window_writes o' fn W)"
  then obtain win c v where x: "x = (c, v, cw_start_timestamp win)" "win \<in> set (hm_values (or_windows o') W)"
      "consolidate_series win c fn = Some v"
    by (auto simp: window_writes_def List.map_filter_def)
  then obtain w where w: "hm_get W w = Some win"
    using hm_values_set [of W "or_windows o'"] assms
    by (auto simp: windows_ok_def orders_ok_def ran_def)
  then show "x \<in> {(c, apply_fn fn (win_vals W w c), w) | c w. win_vals W w c \<noteq> []}"
    using x assms(1)
    by (auto simp: consolidate_series_def get_values_def win_vals_def windows_ok_def
        split: option.splits if_splits)
next
  fix x assume "x \<in> {(c, apply_fn fn (win_vals W w c), w) | c w. win_vals W w c \<noteq> []}"
  then obtain c w where x: "x = (c, apply_fn fn (win_vals W w c), w)" "win_vals W w c \<noteq> []" by blast
  then obtain win vs where w: "hm_get W w = Some win" "hm_get (cw_data win) c = Some vs" "vs \<noteq> []"
      "win_vals W w c = vs"
    by (auto simp: win_vals_def split: option.splits)
  have win: "win \<in> set (hm_values (or_windows o') W)" "cw_start_timestamp win = w" "hm_wf (cw_data win)"
    using hm_values_set [of W "or_windows o'"] assms w(1)
    by (auto simp: windows_ok_def orders_ok_def ran_def)
  have "c \<in> set (hm_keys (cw_data win))"
    using w(2) unfolding hm_keys_def hm_get_def
    by (metis domI dom_map_of_conv_image_fst list.set_map)
  then have "c \<in> set (series_columns (or_columns o' w) win)"
    using assms(2) win(3)
    by (auto simp: series_columns_def orders_ok_def iteration_order_def hm_wf_def hm_keys_def)
  moreover have "consolidate_series win c fn = Some (apply_fn fn vs)"
    using w by (simp add: consolidate_series_def get_values_def)
  ultimately show "x \<in> set (window_writes o' fn W)"
    using win x(1) w(4) unfolding window_writes_def List.map_filter_def by force
qed

lemma distinct_map_filter_fst:
  "distinct cs \<Longrightarrow> distinct (map fst (List.map_filter (\<lambda>c. map_option (\<lambda>v. (c, v, w)) (f c)) cs))"
  by (induction cs) (auto simp: List.map_filter_def split: option.splits)

lemma distinct_swap: "distinct (map fst xs) \<Longrightarrow> distinct (map (\<lambda>(c, v, t). (t, c)) xs)"
  by (induction xs) force+

lemma distinct_concat_starts:
  assumes "\<And>x. x \<in> set xs \<Longrightarrow> distinct (map (\<lambda>(c, v, t). (t, c)) (f x))"
    and "\<And>x e. x \<in> set xs \<Longrightarrow> e \<in> set (f x) \<Longrightarrow> snd (snd e) = k x" and "distinct (map k xs)"
  shows "distinct (map (\<lambda>(c, v, t). (t, c)) (concat (map f xs)))"
  using assms
proof (induction xs)
  case (Cons x xs)
  have "fst p = k x" if "p \<in> (\<lambda>(c, v, t). (t, c)) ` set (f x)" for p
    using that Cons.prems(2) [of x] by force
  moreover have "fst p \<in> k ` set xs" if "p \<in> (\<lambda>(c, v, t). (t, c)) ` set (concat (map f xs))" for p
  proof -
    obtain y e where "y \<in> set xs" "e \<in> set (f y)" "p = (\<lambda>(c, v, t). (t, c)) e"
      using \<open>p \<in> _\<close> by auto
    then show ?thesis using Cons.prems(2) [of y e] by (cases e) simp
  qed
  moreover have "k x \<notin> k ` set xs"
    using Cons.prems(3) by simp
  ultimately have disj: "(\<lambda>(c, v, t). (t, c)) ` set (f x) \<inter> (\<lambda>(c, v, t). (t, c)) ` set (concat (map f xs)) = {}"
    by (intro equals0I) (metis IntE)
  have "distinct (map (\<lambda>(c, v, t). (t, c)) (concat (map f xs)))"
    using Cons.IH Cons.prems by simp
  then show ?case
    using disj Cons.prems(1) [of x]
    by (simp only: list.map(2) concat.simps map_append distinct_append set_map list.set_intros simp_thms)
qed simp

lemma window_writes_distinct:
  assumes "windows_ok W" and "orders_ok o'"
  shows "distinct (map (\<lambda>(c, v, t). (t, c)) (window_writes o' fn W))"
proof -
  let ?f = "\<lambda>win. List.map_filter (\<lambda>c. map_option (\<lambda>v. (c, v, cw_start_timestamp win))
      (consolidate_series win c fn)) (series_columns (or_columns o' (cw_start_timestamp win)) win)"
  have wins: "distinct (map cw_start_timestamp (hm_values (or_windows o') W))"
    using hm_values_distinct_starts [of W "or_windows o'"] assms
    by (simp add: orders_ok_def iteration_order_def windows_ok_def hm_wf_def hm_keys_def)
  have one: "distinct (map (\<lambda>(c, v, t). (t, c)) (?f win))"
    if "win \<in> set (hm_values (or_windows o') W)" for win
  proof -
    have "hm_wf (cw_data win)"
      using that hm_values_set [of W "or_windows o'"] assms
      by (auto simp: windows_ok_def orders_ok_def ran_def)
    then have "distinct (series_columns (or_columns o' (cw_start_timestamp win)) win)"
      using assms(2)
      by (simp add: series_columns_def orders_ok_def iteration_order_def hm_wf_def hm_keys_def)
    then have "distinct (map fst (?f win))" by (rule distinct_map_filter_fst)
    then show ?thesis by (rule distinct_swap)
  qed
  show ?thesis
    unfolding window_writes_def
    by (rule distinct_concat_starts [where k = cw_start_timestamp, OF one _ wins])
      (auto simp: List.map_filter_def)
qed

section \<open>Writing the windows\<close>

definition apply_writes :: "(u32 \<times> f64 \<times> u64) list \<Rightarrow> table \<Rightarrow> table" where
  "apply_writes ws tb = fold (\<lambda>(c, v, t). tb_write [(c, v)] t) ws tb"

lemma write_steps_ok:
  assumes "ring_inv r"
    and "list_all (\<lambda>(c, v, t). t \<noteq> 0 \<and> \<not> is_infinite v \<and> c < tb_cols (rb_table r)) ws"
  shows "\<exists>r'. fold_res write_step ws (r, n mod 2 ^ 64) = Inr (r', (n + length ws) mod 2 ^ 64) \<and>
    ring_inv r' \<and> rb_table r' = apply_writes ws (rb_table r)"
  using assms
proof (induction ws arbitrary: r n)
  case (Cons x ws)
  obtain c v t where x: "x = (c, v, t)" by (cases x) auto
  obtain r1 where r1: "ring_write r c v t = Inr r1" "ring_inv r1"
      "rb_table r1 = tb_write [(c, v)] t (rb_table r)"
    using ring_write_step [OF Cons.prems(1), of t v c] Cons.prems(2) x by auto
  have "uadd (n mod 2 ^ 64) 1 = (n + 1) mod 2 ^ 64" by (simp add: uadd_def mod_Suc_eq)
  then have step: "write_step x (r, n mod 2 ^ 64) = Inr (r1, (n + 1) mod 2 ^ 64)"
    using r1(1) by (simp add: write_step_def x)
  have "list_all (\<lambda>(c, v, t). t \<noteq> 0 \<and> \<not> is_infinite v \<and> c < tb_cols (rb_table r1)) ws"
    using Cons.prems(2) by (simp add: r1(3) tb_write_config)
  then show ?case
    using Cons.IH [OF r1(2), of "n + 1"] step r1(3)
    by (auto simp: apply_writes_def x)
qed (simp add: apply_writes_def)

lemma apply_writes_config:
  "tb_slots (apply_writes ws tb) = tb_slots tb" "tb_interval (apply_writes ws tb) = tb_interval tb"
  "tb_cols (apply_writes ws tb) = tb_cols tb"
  unfolding apply_writes_def
  by (induction ws arbitrary: tb) (auto simp: tb_write_config)

lemma apply_writes_snoc:
  "apply_writes (ws @ [(c, v, t)]) tb = tb_write [(c, v)] t (apply_writes ws tb)"
  by (simp add: apply_writes_def)

text \<open>When distinct timestamps have distinct slots, every write of the list is still there at the end.\<close>

lemma apply_writes_cells:
  assumes "distinct (map (\<lambda>(c, v, t). (t, c)) ws)" and "inj_on (slot_of tb) ((\<lambda>(c, v, t). t) ` set ws)"
    and "(c, v, t) \<in> set ws"
  shows "tb_ts (apply_writes ws tb) (slot_of tb t) = t \<and>
    tb_val (apply_writes ws tb) (slot_of tb t) c = v"
  using assms
proof (induction ws rule: rev_induct)
  case (snoc x ws)
  obtain c' v' t' where x: "x = (c', v', t')" by (cases x) auto
  let ?tb = "apply_writes ws tb"
  have slot: "slot_of ?tb u = slot_of tb u" for u
    by (rule slot_of_config) (simp_all add: apply_writes_config)
  show ?case
  proof (cases "(c, v, t) \<in> set ws")
    case True
    have inj: "inj_on (slot_of tb) ((\<lambda>(c, v, t). t) ` set ws)"
      using snoc.prems(2) by (rule inj_on_subset) (rule image_mono, simp add: subset_insertI)
    have IH: "tb_ts ?tb (slot_of tb t) = t \<and> tb_val ?tb (slot_of tb t) c = v"
      using snoc.IH [OF _ inj True] snoc.prems(1) by simp
    have "(t, c) \<in> set (map (\<lambda>(c, v, t). (t, c)) ws)"
      using True by force
    moreover have "(t', c') \<notin> set (map (\<lambda>(c, v, t). (t, c)) ws)"
      using snoc.prems(1) by (simp add: x)
    ultimately have "(t', c') \<noteq> (t, c)" by metis
    moreover have mem: "t \<in> (\<lambda>(c, v, t). t) ` set (ws @ [x])" "t' \<in> (\<lambda>(c, v, t). t) ` set (ws @ [x])"
      using True x by force+
    have "t' = t" if "slot_of tb t' = slot_of tb t"
      by (rule inj_onD [OF snoc.prems(2) that mem(2,1)])
    ultimately show ?thesis
      using IH by (cases "slot_of tb t' = slot_of tb t")
        (simp_all add: x apply_writes_snoc tb_write_ts tb_write_val slot)
  next
    case False
    then have "c' = c" "v' = v" "t' = t" using snoc.prems(3) x by auto
    then show ?thesis
      by (simp add: x apply_writes_snoc tb_write_ts tb_write_val slot)
  qed
qed simp

section \<open>What a run computes\<close>

text \<open>The aggregate of a column over one window of the points a run considers.\<close>

definition aggregate :: "consolidation_fn \<Rightarrow> u64 \<Rightarrow> table \<Rightarrow> u64 \<Rightarrow> u64 \<Rightarrow> u32 \<Rightarrow> u64 \<Rightarrow> f64" where
  "aggregate fn d tb start end' c w = apply_fn fn (in_window d w (source_points tb start end' c))"

definition window_starts :: "u64 \<Rightarrow> table \<Rightarrow> u64 \<Rightarrow> u64 \<Rightarrow> u32 \<Rightarrow> u64 set" where
  "window_starts d tb start end' n =
     {window_start d t | t c. c < n \<and> t \<in> fst ` set (source_points tb start end' c)}"

text \<open>
  The destination can take the run: no window starts at time zero, no aggregate is infinite,
  and no two windows share a slot.
\<close>

definition run_fits :: "consolidation_fn \<Rightarrow> u64 \<Rightarrow> table \<Rightarrow> table \<Rightarrow> u64 \<Rightarrow> u64 \<Rightarrow> u32 \<Rightarrow> bool" where
  "run_fits fn d src dst start end' n \<longleftrightarrow>
     0 \<notin> window_starts d src start end' n \<and> inj_on (slot_of dst) (window_starts d src start end' n) \<and>
     (\<forall>c < n. \<forall>t \<in> fst ` set (source_points src start end' c).
        \<not> is_infinite (aggregate fn d src start end' c (window_start d t)))"

lemma in_window_nonempty: "in_window d w ps \<noteq> [] \<longleftrightarrow> (\<exists>t \<in> fst ` set ps. window_start d t = w)"
  by (auto simp: in_window_def filter_empty_conv)

text \<open>The cells a run writes: one per window and column with points.\<close>

definition run_cells :: "u64 \<Rightarrow> table \<Rightarrow> u64 \<Rightarrow> u64 \<Rightarrow> u32 \<Rightarrow> (u64 \<times> u32) set" where
  "run_cells d tb start end' n =
     {(window_start d t, c) | t c. c < n \<and> t \<in> fst ` set (source_points tb start end' c)}"

lemma process_windows_writes:
  fixes d :: u64
  assumes src: "ring_inv src" and dst: "ring_inv dst" and orders: "orders_ok o'"
    and "start < end'" and n: "n \<le> tb_cols (rb_table src)" "n \<le> tb_cols (rb_table dst)"
    and d: "d = word_of_nat (as_nanos (tc_interval dt))" "d \<noteq> 0"
    and fits: "run_fits fn d (rb_table src) (rb_table dst) start end' n"
  shows "\<exists>r' ws. process_windows o' src dst dt fn start end' n = (Inr (length ws mod 2 ^ 64), r') \<and>
    ring_inv r' \<and> rb_table r' = apply_writes ws (rb_table dst) \<and>
    distinct (map (\<lambda>(c, v, t). (t, c)) ws) \<and>
    inj_on (slot_of (rb_table dst)) ((\<lambda>(c, v, t). t) ` set ws) \<and>
    set ws = (\<lambda>(w, c). (c, aggregate fn d (rb_table src) start end' c w, w)) `
      run_cells d (rb_table src) start end' n"
proof -
  let ?pts = "source_points (rb_table src) start end'"
  let ?agg = "aggregate fn d (rb_table src) start end'"
  obtain W where W: "collect_windows src d start end' n = Inr W" "windows_ok W"
      "\<And>w c. win_vals W w c = (if c < n then in_window d w (?pts c) else [])"
    using collect_windows_ok [OF src assms(4) d(2) n(1)] by blast
  define ws where "ws = window_writes o' fn W"
  have set_ws: "set ws = {(c, ?agg c w, w) | c w. c < n \<and> (\<exists>t \<in> fst ` set (?pts c). window_start d t = w)}"
    unfolding ws_def window_writes_set [OF W(2) orders] W(3) aggregate_def
    using in_window_nonempty by (auto split: if_splits)
  have stamps: "(\<lambda>(c, v, t). t) ` set ws = window_starts d (rb_table src) start end' n"
    unfolding set_ws window_starts_def by (auto simp: image_iff) (metis fst_conv)
  have cells: "set ws = (\<lambda>(w, c). (c, ?agg c w, w)) ` run_cells d (rb_table src) start end' n"
    unfolding set_ws run_cells_def by (auto simp: image_iff) (metis fst_conv)+
  have ok: "list_all (\<lambda>(c, v, t). t \<noteq> 0 \<and> \<not> is_infinite v \<and> c < tb_cols (rb_table dst)) ws"
    unfolding list_all_iff set_ws
    using fits n(2) unfolding run_fits_def window_starts_def by auto
  have dist: "distinct (map (\<lambda>(c, v, t). (t, c)) ws)"
    unfolding ws_def by (rule window_writes_distinct [OF W(2) orders])
  have inj: "inj_on (slot_of (rb_table dst)) ((\<lambda>(c, v, t). t) ` set ws)"
    unfolding stamps using fits by (simp add: run_fits_def)
  obtain r' where r': "fold_res write_step ws (dst, 0) = Inr (r', length ws mod 2 ^ 64)"
      "ring_inv r'" "rb_table r' = apply_writes ws (rb_table dst)"
    using write_steps_ok [OF dst ok, of 0] by auto
  have "process_windows o' src dst dt fn start end' n = (Inr (length ws mod 2 ^ 64), r')"
    using W(1) fold_st_ok [OF r'(1)]
    by (simp add: process_windows_def Let_def ws_def flip: d(1))
  then show ?thesis using r'(2,3) dist inj cells by blast
qed

lemma process_windows_ok:
  fixes d :: u64
  assumes "ring_inv src" and "ring_inv dst" and "orders_ok o'"
    and "start < end'" and "n \<le> tb_cols (rb_table src)" "n \<le> tb_cols (rb_table dst)"
    and "d = word_of_nat (as_nanos (tc_interval dt))" "d \<noteq> 0"
    and "run_fits fn d (rb_table src) (rb_table dst) start end' n"
  shows "\<exists>r'. process_windows o' src dst dt fn start end' n =
      (Inr (card (run_cells d (rb_table src) start end' n) mod 2 ^ 64), r') \<and> ring_inv r' \<and>
    (\<forall>(w, c) \<in> run_cells d (rb_table src) start end' n.
       tb_ts (rb_table r') (slot_of (rb_table dst) w) = w \<and>
       tb_val (rb_table r') (slot_of (rb_table dst) w) c = aggregate fn d (rb_table src) start end' c w)"
proof -
  let ?cells = "run_cells d (rb_table src) start end' n"
  obtain r' ws where ws: "process_windows o' src dst dt fn start end' n = (Inr (length ws mod 2 ^ 64), r')"
    "ring_inv r'" "rb_table r' = apply_writes ws (rb_table dst)"
    "distinct (map (\<lambda>(c, v, t). (t, c)) ws)"
    "inj_on (slot_of (rb_table dst)) ((\<lambda>(c, v, t). t) ` set ws)"
    "set ws = (\<lambda>(w, c). (c, aggregate fn d (rb_table src) start end' c w, w)) ` ?cells"
    using process_windows_writes [OF assms] by blast
  have "(\<lambda>(c, v, t). (t, c)) ` set ws = ?cells"
    unfolding ws(6) image_image by force
  then have len: "length ws = card ?cells"
    using distinct_card [OF ws(4)] by simp
  have "tb_ts (rb_table r') (slot_of (rb_table dst) w) = w \<and>
       tb_val (rb_table r') (slot_of (rb_table dst) w) c = aggregate fn d (rb_table src) start end' c w"
    if "(w, c) \<in> ?cells" for w c
  proof -
    have "(c, aggregate fn d (rb_table src) start end' c w, w) \<in> set ws"
      unfolding ws(6) using that by force
    then show ?thesis
      using apply_writes_cells [OF ws(4,5)] by (simp add: ws(3))
  qed
  then show ?thesis
    using ws(1,2) by (auto simp: len)
qed

text \<open>A run over one point writes one value.\<close>

lemma process_single:
  fixes d :: u64
  assumes "ring_inv src" and "ring_inv dst" and "orders_ok o'"
    and "start < end'" and "1 \<le> tb_cols (rb_table src)" "1 \<le> tb_cols (rb_table dst)"
    and "d = word_of_nat (as_nanos (tc_interval dt))" "d \<noteq> 0"
    and pts: "source_points (rb_table src) start end' 0 = [(t, v)]"
    and "window_start d t \<noteq> 0" and "is_finite v" and "fn \<noteq> Count"
  shows "\<exists>r'. process_windows o' src dst dt fn start end' 1 = (Inr 1, r') \<and> ring_inv r' \<and>
    rb_table r' = tb_write [(0, v)] (window_start d t) (rb_table dst)"
proof -
  have c: "c < (1 :: u32) \<longleftrightarrow> c = 0" for c by (simp add: word_less_nat_alt unat_eq_zero)
  have agg: "aggregate fn d (rb_table src) start end' 0 (window_start d t) = v"
    using apply_single_fn assms(11,12) by (simp add: aggregate_def pts in_window_def)
  have fits: "run_fits fn d (rb_table src) (rb_table dst) start end' 1"
    using assms(10,11) agg by (auto simp: run_fits_def window_starts_def c pts finite_not_infinite)
  obtain r' ws where ws: "process_windows o' src dst dt fn start end' 1 = (Inr (length ws mod 2 ^ 64), r')"
    "ring_inv r'" "rb_table r' = apply_writes ws (rb_table dst)"
    "distinct (map (\<lambda>(c, v, t). (t, c)) ws)"
    "set ws = (\<lambda>(w, c). (c, aggregate fn d (rb_table src) start end' c w, w)) `
      run_cells d (rb_table src) start end' 1"
    using process_windows_writes [OF assms(1-8) fits] assms(5,6) by auto
  have "run_cells d (rb_table src) start end' 1 = {(window_start d t, 0)}"
    by (auto simp: run_cells_def c pts)
  then have "set ws = {(0, v, window_start d t)}"
    by (simp add: ws(5) agg)
  moreover have "distinct ws" using ws(4) by (rule distinct_map [THEN iffD1, THEN conjunct1])
  ultimately have "ws = [(0, v, window_start d t)]"
    by (cases ws; cases "tl ws") auto
  then show ?thesis
    using ws(1-3) by (simp add: apply_writes_def)
qed

text \<open>
  C5. A run over the points of a non-empty range, with columns that both rings have and windows
  that the destination can take (\<open>run_fits\<close>: none starts at time zero, no two share a slot of the
  destination, and no aggregate is infinite), leaves in the destination ring, for every window
  and every column with points of that range in it, the aggregate of exactly the points of the
  range in that window and column, stamped with the start of the window, whatever the order in
  which the maps are visited; the destination keeps its invariant. Points of the window outside
  the range play no part (\<open>consolidation_overwrites_window\<close>).
\<close>

theorem consolidation_values:
  fixes d :: u64
  assumes "ring_inv src" and "ring_inv dst" and "orders_ok o'" and "start < end'"
    and "n \<le> tb_cols (rb_table src)" and "n \<le> tb_cols (rb_table dst)"
    and "d = word_of_nat (as_nanos (tc_interval dt))" and "d \<noteq> 0"
    and "run_fits fn d (rb_table src) (rb_table dst) start end' n"
    and "c < n" and "(t, v) \<in> set (source_points (rb_table src) start end' c)"
  shows "\<exists>r'. process_windows o' src dst dt fn start end' n =
      (Inr (card (run_cells d (rb_table src) start end' n) mod 2 ^ 64), r') \<and> ring_inv r' \<and>
    tb_ts (rb_table r') (slot_of (rb_table dst) (window_start d t)) = window_start d t \<and>
    tb_val (rb_table r') (slot_of (rb_table dst) (window_start d t)) c
      = apply_fn fn (in_window d (window_start d t) (source_points (rb_table src) start end' c))"
proof -
  have "(window_start d t, c) \<in> run_cells d (rb_table src) start end' n"
    using assms(10,11) unfolding run_cells_def by force
  then show ?thesis
    using process_windows_ok [OF assms(1-9)] unfolding aggregate_def by fast
qed

section \<open>Incremental runs\<close>

lemma pair_inputs_ok:
  "pair_inputs schema rings i s j = Inr (st, dt, fn, src, dst) \<longleftrightarrow>
     s < length (sc_tiers schema) \<and> j < length (sc_tiers schema) \<and> st = sc_tiers schema ! s \<and>
     dt = sc_tiers schema ! j \<and> tc_consolidation_fn dt = Some fn \<and> i < length rings \<and>
     s < j \<and> s < length (rings ! i) \<and> j < length (rings ! i) \<and> src = rings ! i ! s \<and> dst = rings ! i ! j"
  by (auto simp: pair_inputs_def nth_res_def rbind_eq_Inr split: if_splits option.splits)

lemma tier_pair_result:
  assumes "consolidate_tier_pair o' schema i s j (cs, rings) = (Inr k, (cs', rings'))" and "0 < k"
  shows "\<exists>src t st dt fn. i < length rings \<and> s < j \<and> s < length (rings ! i) \<and> j < length (rings ! i) \<and>
    src = rings ! i ! s \<and> rings' ! i ! s = src \<and> length rings' = length rings \<and>
    length (rings' ! i) = length (rings ! i) \<and>
    s < length (sc_tiers schema) \<and> j < length (sc_tiers schema) \<and>
    st = sc_tiers schema ! s \<and> dt = sc_tiers schema ! j \<and> tc_consolidation_fn dt = Some fn \<and>
    ring_newest_timestamp src = Inr (Some t) \<and> get_last_processed cs' i s j = Some t"
proof -
  obtain st dt fn src dst where inp: "pair_inputs schema rings i s j = Inr (st, dt, fn, src, dst)"
    using assms(1) by (auto simp: consolidate_tier_pair_def split: sum.splits)
  then have head: "s < length (sc_tiers schema)" "j < length (sc_tiers schema)"
      "st = sc_tiers schema ! s" "dt = sc_tiers schema ! j" "tc_consolidation_fn dt = Some fn"
      "i < length rings" "s < length (rings ! i)" "j < length (rings ! i)" "src = rings ! i ! s" "s < j"
    by (auto simp: pair_inputs_ok)
  obtain last cs1 where cur: "get_or_initialize_cursor cs src i s j = Inr (last, cs1)"
    using assms(1) inp by (auto simp: consolidate_tier_pair_def split: sum.splits)
  obtain newest start end' where range: "new_range src st last = Inr (newest, start, end')"
    using assms(1) inp cur by (auto simp: consolidate_tier_pair_def split: sum.splits)
  have lt: "start < end'"
    using assms(1,2) inp cur range by (auto simp: consolidate_tier_pair_def split: if_splits)
  obtain r dst' where run: "process_windows o' src dst dt fn start end' (sc_max_series schema) = (r, dst')"
    by force
  have r: "r = Inr k" "rings' = rings[i := (rings ! i)[j := dst']]"
      "cs' = update_last_processed i s j (case newest of None \<Rightarrow> 0 | Some t \<Rightarrow> t) cs1"
    using assms(1,2) inp cur range lt run
    by (auto simp: consolidate_tier_pair_def Let_def split: sum.splits if_splits)
  have "ring_newest_timestamp src = Inr newest" "end' = (case newest of None \<Rightarrow> 0 | Some t \<Rightarrow> t + 1)"
    using range by (auto simp: new_range_def rbind_eq_Inr)
  moreover have "newest \<noteq> None"
    using lt calculation(2) by (cases newest) auto
  ultimately obtain t where "newest = Some t" "ring_newest_timestamp src = Inr (Some t)" by auto
  then show ?thesis
    using head r cc.get_same by (auto simp: nth_list_update)
qed

text \<open>A run has fewer cells than its count can hold.\<close>

lemma run_cells_small: "finite (run_cells d tb start end' n) \<and> card (run_cells d tb start end' n) < 2 ^ 64"
proof -
  let ?f = "\<lambda>(i, c). (window_start d (tb_ts tb i), c)" and ?S = "set (circle tb) \<times> (UNIV :: u32 set)"
  have sub: "run_cells d tb start end' n \<subseteq> ?f ` ?S"
    by (force simp: run_cells_def source_points_def ring_contents_def slot_sample_def)
  have fin: "finite ?S" by simp
  have "card (set (circle tb)) \<le> unat (tb_slots tb)"
    using card_length [of "circle tb"] by (simp add: circle_def length_walk)
  also have "\<dots> \<le> 2 ^ 32 - 1" using u32_bound [of "tb_slots tb"] by simp
  finally have "card ?S \<le> (2 ^ 32 - 1) * 2 ^ 32" by (simp add: card_cartesian_product card_word)
  then have "card (?f ` ?S) < 2 ^ 64" using card_image_le [OF fin, of ?f] by simp
  then show ?thesis
    using card_mono [OF finite_imageI [OF fin] sub] finite_subset [OF sub finite_imageI [OF fin]] by linarith
qed

text \<open>
  C38. Consolidation catches up in one run. For a pair of tiers with non-zero intervals, whose
  rings satisfy their invariant and have the columns of the schema, and a source with data (from
  \<open>oldest\<close> to \<open>newest\<close>, below the end of the 64-bit range by one source interval), take the range
  from one source interval after the cursor of the pair (from \<open>oldest\<close> without a cursor or with one
  at zero) to \<open>newest\<close>, with points in it whose windows the destination can take (\<open>run_fits\<close>). Then
  a run of the pair performs one operation for every window and column with points, leaves in the destination exactly their
  aggregates, and moves the cursor to the newest timestamp; running the pair again, in whatever order
  of iteration, performs no operation and changes neither the cursors nor the rings.
\<close>

theorem consolidation_catches_up:
  fixes d k :: u64
  assumes rings: "ring_inv (rings ! i ! s)" "ring_inv (rings ! i ! j)" and "orders_ok o'"
    and inputs: "pair_inputs schema rings i s j = Inr (st, dt, fn, rings ! i ! s, rings ! i ! j)"
    and bounds: "ring_oldest_timestamp (rings ! i ! s) = Inr (Some oldest)"
      "ring_newest_timestamp (rings ! i ! s) = Inr (Some newest)"
    and k: "k = word_of_nat (as_nanos (tc_interval st))" "0 < k" "unat newest + unat k < 2 ^ 64" "0 < newest"
    and start: "start = (case get_last_processed cs i s j of
        None \<Rightarrow> oldest | Some l \<Rightarrow> if l = 0 then oldest else l + k)" "start \<le> newest"
    and d: "d = word_of_nat (as_nanos (tc_interval dt))" "d \<noteq> 0"
    and n: "n = sc_max_series schema" "n \<le> tb_cols (rb_table (rings ! i ! s))" "n \<le> tb_cols (rb_table (rings ! i ! j))"
    and fits: "run_fits fn d (rb_table (rings ! i ! s)) (rb_table (rings ! i ! j)) start (newest + 1) n"
    and cells: "cells = run_cells d (rb_table (rings ! i ! s)) start (newest + 1) n" "cells \<noteq> {}"
  shows "\<exists>cs' dst rings'. rings' = rings[i := (rings ! i)[j := dst]] \<and> ring_inv dst \<and>
    consolidate_tier_pair o' schema i s j (cs, rings) = (Inr (card cells), (cs', rings')) \<and>
    (\<forall>(w, c) \<in> cells. tb_ts (rb_table dst) (slot_of (rb_table (rings ! i ! j)) w) = w \<and>
       tb_val (rb_table dst) (slot_of (rb_table (rings ! i ! j)) w) c =
         apply_fn fn (in_window d w (source_points (rb_table (rings ! i ! s)) start (newest + 1) c))) \<and>
    get_last_processed cs' i s j = Some newest \<and>
    consolidate_tier_pair o2 schema i s j (cs', rings') = (Inr 0, (cs', rings'))"
proof -
  let ?src = "rings ! i ! s" and ?dst = "rings ! i ! j"
  have idx: "i < length rings" "s < length (rings ! i)" "j < length (rings ! i)" "s < j"
      "s < length (sc_tiers schema)" "j < length (sc_tiers schema)" "st = sc_tiers schema ! s"
      "dt = sc_tiers schema ! j" "tc_consolidation_fn dt = Some fn"
    using inputs by (auto simp: pair_inputs_ok)
  have "unat newest + 1 < 2 ^ 64" using k(2,3) by (simp add: word_less_nat_alt)
  then have up: "start < newest + 1" "newest + 1 \<le> newest + k"
    using start(2) k(2,3) by (simp_all add: word_le_nat_alt word_less_nat_alt unat_word_ariths)
  obtain dst where run: "process_windows o' ?src ?dst dt fn start (newest + 1) n = (Inr (card cells mod 2 ^ 64), dst)"
      "ring_inv dst" "\<forall>(w, c) \<in> cells. tb_ts (rb_table dst) (slot_of (rb_table ?dst) w) = w \<and>
       tb_val (rb_table dst) (slot_of (rb_table ?dst) w) c = aggregate fn d (rb_table ?src) start (newest + 1) c w"
    using process_windows_ok [OF rings assms(3) up(1) n(2,3) d fits] unfolding cells(1) by blast
  have count: "card cells mod 2 ^ 64 = card cells" "0 < card cells"
    using run_cells_small [of d "rb_table ?src" start "newest + 1" n] cells by (simp_all add: card_gt_0_iff)
  obtain l cs1 where cur: "get_or_initialize_cursor cs ?src i s j = Inr (l, cs1)"
      "new_range ?src st l = Inr (Some newest, start, newest + 1)"
    using bounds start(1) k(1)
    by (cases "get_last_processed cs i s j") (auto simp: get_or_initialize_cursor_def new_range_def)
  define cs' where "cs' = update_last_processed i s j newest cs1"
  define rings' where "rings' = rings[i := (rings ! i)[j := dst]]"
  have first: "consolidate_tier_pair o' schema i s j (cs, rings) = (Inr (card cells), (cs', rings'))"
    using inputs cur run(1) count up(1) [folded not_le]
    by (simp add: consolidate_tier_pair_def cs'_def rings'_def flip: n(1))
  have last: "get_last_processed cs' i s j = Some newest"
    unfolding cs'_def by (rule cc.get_same)
  have "rings' ! i ! s = ?src" "rings' ! i ! j = dst" using idx(1-4) by (simp_all add: rings'_def)
  then have "pair_inputs schema rings' i s j = Inr (st, dt, fn, ?src, dst)"
    using idx by (simp add: pair_inputs_ok rings'_def)
  moreover have "get_or_initialize_cursor cs' ?src i s j = Inr (newest, cs')"
    using last by (simp add: get_or_initialize_cursor_def)
  moreover have "new_range ?src st newest = Inr (Some newest, newest + k, newest + 1)"
    using bounds k(1,4) by (auto simp: new_range_def)
  ultimately have "consolidate_tier_pair o2 schema i s j (cs', rings') = (Inr 0, (cs', rings'))"
    using up(2) by (simp add: consolidate_tier_pair_def)
  then show ?thesis
    using run(2,3) first last unfolding aggregate_def
    by (intro exI [of _ cs'] exI [of _ dst] exI [of _ rings']) (simp add: rings'_def)
qed

section \<open>A pair of small tiers\<close>

definition fine_tier :: tier_config where
  "fine_tier = \<lparr> tc_interval = Duration 0 1, tc_retention = Duration 0 4, tc_consolidation_fn = None \<rparr>"

definition coarse_tier :: tier_config where
  "coarse_tier = \<lparr> tc_interval = Duration 0 10, tc_retention = Duration 0 40,
     tc_consolidation_fn = Some Max_fn \<rparr>"

definition two_tiers :: schema_config where
  "two_tiers = \<lparr> sc_name = ''m'', sc_label_matcher = matcher_any,
     sc_tiers = [fine_tier, coarse_tier], sc_max_series = 1 \<rparr>"

definition any_order :: orders where
  "any_order = \<lparr> or_windows = (\<lambda>ks. ks), or_columns = (\<lambda>_ ks. ks) \<rparr>"

lemma any_order_ok: "orders_ok any_order"
  by (simp add: orders_ok_def any_order_def iteration_order_def)

lemma tier_nanos:
  "(word_of_nat (as_nanos (tc_interval fine_tier)) :: u64) = 1"
  "(word_of_nat (as_nanos (tc_interval coarse_tier)) :: u64) = 10"
  by (simp_all add: fine_tier_def coarse_tier_def as_nanos_def)

text \<open>One column, four slots: a source ring holding one sample, and an empty destination.\<close>

lemma ring_holding:
  assumes "gap_free 1 ps" and "list_all (\<lambda>(t, v). t \<noteq> 0 \<and> is_finite v) ps"
  obtains s r r' where "slab_create os_ok ''s'' 7 4 1 1 = Inr s" "ring_new s = Inr r"
    "write_column 0 ps r = Inr r'" "ring_inv r'" "tb_cols (rb_table r') = 1"
    "ring_contents (rb_table r') 0 = last_n 4 ps"
proof -
  obtain s r where r: "slab_create os_ok ''s'' 7 4 1 1 = Inr s" "ring_new s = Inr r" "ring_inv r"
      "rb_table r = empty_table 7 4 1 1"
    by (rule fresh_ring [of 4 1 1 "''s''" 7]) (simp_all add: slab_size_def)
  have f: "\<forall>i. tb_ts (rb_table r) i = 0" "tb_cols (rb_table r) = 1" "tb_interval (rb_table r) = 1"
      "tb_slots (rb_table r) = 4"
    by (simp_all only: r(4), simp_all add: empty_table_def)
  show thesis
    using write_column_window [OF r(3) f(1), of 0 ps] assms that r(1,2) f by auto
qed

lemma coarse_ring:
  obtains s r where "slab_create os_ok ''d'' 7 4 1 10 = Inr s" "ring_new s = Inr r" "ring_inv r"
    "rb_table r = empty_table 7 4 1 10"
  by (rule fresh_ring [of 4 1 10 "''d''" 7]) (simp_all add: slab_size_def)

theorem consolidation_values_witness:
  "\<exists>s r src s' dst r'. slab_create os_ok ''s'' 7 4 1 1 = Inr s \<and> ring_new s = Inr r \<and>
     write_column 0 [(11, f_one)] r = Inr src \<and> slab_create os_ok ''d'' 7 4 1 10 = Inr s' \<and>
     ring_new s' = Inr dst \<and>
     process_windows any_order src dst coarse_tier Max_fn 11 12 1 = (Inr 1, r') \<and>
     tb_val (rb_table r') 1 0 = f_one"
proof -
  obtain s r src where src: "slab_create os_ok ''s'' 7 4 1 1 = Inr s" "ring_new s = Inr r"
      "write_column 0 [(11, f_one)] r = Inr src" "ring_inv src" "tb_cols (rb_table src) = 1"
      "ring_contents (rb_table src) 0 = last_n 4 [(11, f_one)]"
    by (rule ring_holding [of "[(11, f_one)]"]) simp_all
  obtain s' dst where dst: "slab_create os_ok ''d'' 7 4 1 10 = Inr s'" "ring_new s' = Inr dst"
      "ring_inv dst" "rb_table dst = empty_table 7 4 1 10"
    by (rule coarse_ring)
  have cfg: "tb_cols (rb_table dst) = 1" "slot_of (rb_table dst) 10 = 1"
    by (simp_all add: dst(4) slot_of_def) (simp_all add: empty_table_def)
  have c: "c < (1 :: u32) \<longleftrightarrow> c = 0" for c by (simp add: word_less_nat_alt unat_eq_zero)
  have pts: "source_points (rb_table src) 11 12 0 = [(11, f_one)]"
    by (simp add: source_points_def src(6) last_n_def in_range_def)
  have w: "window_start 10 11 = 10" by (simp add: window_start_def)
  have agg: "apply_fn Max_fn (in_window 10 10 [(11, f_one)]) = f_one"
    by (simp add: in_window_def w apply_single_fn)
  have fits: "run_fits Max_fn 10 (rb_table src) (rb_table dst) 11 12 1"
    by (auto simp: run_fits_def window_starts_def c pts w aggregate_def agg finite_not_infinite)
  have cells: "run_cells 10 (rb_table src) 11 12 1 = {(10, 0)}"
    by (auto simp: run_cells_def c pts w)
  obtain r' where "process_windows any_order src dst coarse_tier Max_fn 11 12 1 = (Inr 1, r')"
      "tb_val (rb_table r') 1 0 = f_one"
    using consolidation_values [OF src(4) dst(3) any_order_ok _ _ _ _ _ fits, of coarse_tier 0 11 f_one]
    by (auto simp: src(5) cfg tier_nanos pts w agg cells)
  then show ?thesis using src(1-3) dst(1,2) by blast
qed

section \<open>Windows that are consolidated twice\<close>

lemma pair_run:
  assumes src: "ring_inv src" "tb_cols (rb_table src) = 1" and dst: "ring_inv dst" "tb_cols (rb_table dst) = 1"
    and newest: "ring_newest_timestamp src = Inr (Some t)"
    and last: "get_last_processed cs 0 0 1 = None \<and> ring_oldest_timestamp src = Inr (Some t) \<or>
      get_last_processed cs 0 0 1 = Some (t - 1) \<and> 1 < t"
    and t: "t < t + 1" and pts: "source_points (rb_table src) t (t + 1) 0 = [(t, v)]"
    and "window_start 10 t \<noteq> 0" and "is_finite v"
  shows "\<exists>cs' dst'. consolidate_tier_pair any_order two_tiers 0 0 1 (cs, [[src, dst]])
      = (Inr 1, (cs', [[src, dst']])) \<and> get_last_processed cs' 0 0 1 = Some t \<and> ring_inv dst' \<and>
    rb_table dst' = tb_write [(0, v)] (window_start 10 t) (rb_table dst)"
proof -
  obtain dst' where run: "process_windows any_order src dst coarse_tier Max_fn t (t + 1) 1 = (Inr 1, dst')"
      "ring_inv dst'" "rb_table dst' = tb_write [(0, v)] (window_start 10 t) (rb_table dst)"
    using process_single [OF src(1) dst(1) any_order_ok t _ _ _ _ pts, of 10 coarse_tier Max_fn]
      assms(9,10) src(2) dst(2) by (auto simp: tier_nanos)
  have inp: "pair_inputs two_tiers [[src, dst]] 0 0 1 = Inr (fine_tier, coarse_tier, Max_fn, src, dst)"
    by (simp add: pair_inputs_ok two_tiers_def) (simp add: coarse_tier_def)
  have start: "\<exists>cs1 last. get_or_initialize_cursor cs src 0 0 1 = Inr (last, cs1) \<and>
      new_range src fine_tier last = Inr (Some t, t, t + 1)"
  proof (cases "get_last_processed cs 0 0 1")
    case None
    then show ?thesis
      using last newest by (simp add: get_or_initialize_cursor_def new_range_def)
  next
    case (Some l)
    then have "l = t - 1" "t - 1 \<noteq> 0" using last by auto
    then show ?thesis
      using Some newest by (simp add: get_or_initialize_cursor_def new_range_def tier_nanos)
  qed
  then obtain cs1 last where cur: "get_or_initialize_cursor cs src 0 0 1 = Inr (last, cs1)"
      "new_range src fine_tier last = Inr (Some t, t, t + 1)"
    by blast
  then have "consolidate_tier_pair any_order two_tiers 0 0 1 (cs, [[src, dst]])
      = (Inr 1, (update_last_processed 0 0 1 t cs1, [[src, dst']]))"
    using run(1) inp t by (simp add: consolidate_tier_pair_def not_le Let_def) (simp add: two_tiers_def)
  then show ?thesis using run(2,3) cc.get_same by blast
qed

lemma walk_4: "walk 4 0 4 = [0, 1, 2, 3]" "walk 4 1 4 = [1, 2, 3, 0]"
proof -
  have "walk 4 0 (Suc (Suc (Suc (Suc 0)))) = [0, 1, 2, 3]"
      "walk 4 1 (Suc (Suc (Suc (Suc 0)))) = [1, 2, 3, 0]"
    by (simp_all add: next_slot_def)
  then show "walk 4 0 4 = [0, 1, 2, 3]" "walk 4 1 4 = [1, 2, 3, 0]"
    by (simp_all only: numeral_nat)
qed

text \<open>The first run over a source with the sample 1.0 at 11.\<close>

lemma first_run:
  obtains s r src s' dst cs1 dst1 where
    "slab_create os_ok ''s'' 7 4 1 1 = Inr s" "ring_new s = Inr r"
    "slab_create os_ok ''d'' 7 4 1 10 = Inr s'" "ring_new s' = Inr dst"
    "ring_write r 0 f_one 11 = Inr src" "ring_inv src"
    "rb_table src = tb_write [(0, f_one)] 11 (empty_table 7 4 1 1)"
    "ring_newest_timestamp src = Inr (Some 11)"
    "consolidate_tier_pair any_order two_tiers 0 0 1 ([], [[src, dst]]) = (Inr 1, (cs1, [[src, dst1]]))"
    "get_last_processed cs1 0 0 1 = Some 11" "ring_inv dst1"
    "rb_table dst1 = tb_write [(0, f_one)] 10 (empty_table 7 4 1 10)"
    "ring_oldest_timestamp src = Inr (Some 11)" "source_points (rb_table src) 11 12 0 = [(11, f_one)]"
    "ring_inv dst" "rb_table dst = empty_table 7 4 1 10"
proof -
  obtain s r where r: "slab_create os_ok ''s'' 7 4 1 1 = Inr s" "ring_new s = Inr r" "ring_inv r"
      "rb_table r = empty_table 7 4 1 1"
    by (rule fresh_ring [of 4 1 1 "''s''" 7]) (simp_all add: slab_size_def)
  obtain s' dst where dst: "slab_create os_ok ''d'' 7 4 1 10 = Inr s'" "ring_new s' = Inr dst"
      "ring_inv dst" "rb_table dst = empty_table 7 4 1 10"
    by (rule coarse_ring)
  have cols: "tb_cols (rb_table r) = 1" "tb_cols (rb_table dst) = 1"
    by (simp_all add: r(4) dst(4)) (simp_all add: empty_table_def)
  obtain src where src: "ring_write r 0 f_one 11 = Inr src" "ring_inv src"
      "rb_table src = tb_write [(0, f_one)] 11 (empty_table 7 4 1 1)"
    using ring_write_step [OF r(3), of 11 f_one 0] cols r(4) by (auto simp: finite_not_infinite)
  have cols1: "tb_cols (rb_table src) = 1" by (simp add: src(3) tb_write_config) (simp add: empty_table_def)
  have slot: "slot_of (empty_table 7 4 1 1) 11 = 3"
    by (simp add: slot_of_def empty_table_def)
  have small: "unat (tb_slots (rb_table src)) \<le> 2 ^ 31"
    by (simp add: src(3) tb_write_config) (simp add: empty_table_def)
  have circle: "circle (rb_table src) = [0, 1, 2, 3]"
    unfolding circle_def src(3) tb_write_config slot
    by (simp add: empty_table_def next_slot_def walk_4)
  have used: "used_timestamps (rb_table src) = [11]"
    unfolding used_timestamps_def circle
    unfolding src(3) tb_write_config tb_write_ts slot
    by (simp add: empty_table_def)
  have new: "ring_newest_timestamp src = Inr (Some 11)" "ring_oldest_timestamp src = Inr (Some 11)"
    using ring_oldest_newest_scans [OF src(2) small] used by simp_all
  have pts: "source_points (rb_table src) 11 12 0 = [(11, f_one)]"
    unfolding source_points_def ring_contents_def circle
    by (simp add: src(3) slot_sample_def tb_write_ts tb_write_val tb_write_config slot in_range_def)
      (simp add: empty_table_def finite_not_nan)
  obtain cs1 dst1 where run: "consolidate_tier_pair any_order two_tiers 0 0 1 ([], [[src, dst]])
      = (Inr 1, (cs1, [[src, dst1]]))" "get_last_processed cs1 0 0 1 = Some 11" "ring_inv dst1"
      "rb_table dst1 = tb_write [(0, f_one)] 10 (rb_table dst)"
    using pair_run [OF src(2) cols1 dst(3) cols(2) new(1), of "[]" f_one] new(2) pts
    by (auto simp: get_last_processed_def get_cursor_def hm.get_empty window_start_def)
  show thesis
    by (rule that [OF r(1,2) dst(1,2) src new(1) run(1-3) _ new(2) pts dst(3,4)]) (simp add: run(4) dst(4))
qed

theorem consolidation_catches_up_witness:
  "\<exists>s r s' src dst cs1 dst1. slab_create os_ok ''s'' 7 4 1 1 = Inr s \<and> ring_new s = Inr r \<and>
     slab_create os_ok ''d'' 7 4 1 10 = Inr s' \<and> ring_new s' = Inr dst \<and>
     ring_write r 0 f_one 11 = Inr src \<and>
     consolidate_tier_pair any_order two_tiers 0 0 1 ([], [[src, dst]]) = (Inr 1, (cs1, [[src, dst1]])) \<and>
     tb_val (rb_table dst1) 1 0 = f_one \<and>
     consolidate_tier_pair any_order two_tiers 0 0 1 (cs1, [[src, dst1]]) = (Inr 0, (cs1, [[src, dst1]]))"
proof -
  obtain s r src s' dst where run:
    "slab_create os_ok ''s'' 7 4 1 1 = Inr s" "ring_new s = Inr r"
    "slab_create os_ok ''d'' 7 4 1 10 = Inr s'" "ring_new s' = Inr dst"
    "ring_write r 0 f_one 11 = Inr src" "ring_inv src"
    "rb_table src = tb_write [(0, f_one)] 11 (empty_table 7 4 1 1)"
    "ring_newest_timestamp src = Inr (Some 11)" "ring_oldest_timestamp src = Inr (Some 11)"
    "source_points (rb_table src) 11 12 0 = [(11, f_one)]" "ring_inv dst" "rb_table dst = empty_table 7 4 1 10"
    by (rule first_run) blast
  have cols: "tb_cols (rb_table src) = 1" "tb_cols (rb_table dst) = 1"
    by (simp_all add: run(7,12) tb_write_config) (simp_all add: empty_table_def)
  have c: "c < (1 :: u32) \<longleftrightarrow> c = 0" for c by (simp add: word_less_nat_alt unat_eq_zero)
  have w: "window_start 10 11 = 10" by (simp add: window_start_def)
  have agg: "apply_fn Max_fn (in_window 10 10 [(11, f_one)]) = f_one"
    by (simp add: in_window_def w apply_single_fn)
  have slot: "slot_of (rb_table dst) 10 = 1" by (simp add: run(12) slot_of_def) (simp add: empty_table_def)
  have fits: "run_fits Max_fn 10 (rb_table src) (rb_table dst) 11 12 1"
    by (auto simp: run_fits_def window_starts_def c run(10) w aggregate_def agg finite_not_infinite)
  have max: "sc_max_series two_tiers = 1" by (simp add: two_tiers_def)
  have cells: "run_cells 10 (rb_table src) 11 12 1 = {(10, 0)}"
    by (auto simp: run_cells_def c run(10) w)
  have inp: "pair_inputs two_tiers [[src, dst]] 0 0 1 = Inr (fine_tier, coarse_tier, Max_fn, src, dst)"
    by (simp add: pair_inputs_ok two_tiers_def) (simp add: coarse_tier_def)
  have none: "get_last_processed [] 0 0 1 = None"
    by (simp add: get_last_processed_def get_cursor_def hm.get_empty)
  obtain cs1 dst1 where "consolidate_tier_pair any_order two_tiers 0 0 1 ([], [[src, dst]]) = (Inr 1, (cs1, [[src, dst1]]))"
      "tb_val (rb_table dst1) 1 0 = f_one"
      "consolidate_tier_pair any_order two_tiers 0 0 1 (cs1, [[src, dst1]]) = (Inr 0, (cs1, [[src, dst1]]))"
    using consolidation_catches_up [of "[[src, dst]]" 0 0 1 any_order two_tiers fine_tier coarse_tier Max_fn 11 11 1 11 "[]" 10 1 "{(10, 0)}" any_order]
      run(6,8,9,10,11) any_order_ok inp none fits cells cols agg slot max
    by (auto simp: tier_nanos)
  then show ?thesis using run(1-5) by blast
qed

text \<open>
  A window that receives new points after it was consolidated is overwritten with the
  aggregate of the new points alone: with a Max tier of interval 10 over a tier of interval
  1, consolidating after the sample 1.0 at 11 stores 1.0 for the window that starts at 10;
  consolidating again after the sample 0.0 at 12 replaces it with 0.0.
\<close>

theorem consolidation_overwrites_window:
  "\<exists>s r src1 src2 s' dst cs1 dst1 cs2 dst2.
     slab_create os_ok ''s'' 7 4 1 1 = Inr s \<and> ring_new s = Inr r \<and>
     slab_create os_ok ''d'' 7 4 1 10 = Inr s' \<and> ring_new s' = Inr dst \<and>
     ring_write r 0 f_one 11 = Inr src1 \<and>
     consolidate_tier_pair any_order two_tiers 0 0 1 ([], [[src1, dst]]) = (Inr 1, (cs1, [[src1, dst1]])) \<and>
     tb_val (rb_table dst1) 1 0 = f_one \<and>
     ring_write src1 0 f_zero 12 = Inr src2 \<and>
     consolidate_tier_pair any_order two_tiers 0 0 1 (cs1, [[src2, dst1]]) = (Inr 1, (cs2, [[src2, dst2]])) \<and>
     tb_val (rb_table dst2) 1 0 = f_zero"
proof -
  obtain s r src1 s' dst cs1 dst1 where run1:
    "slab_create os_ok ''s'' 7 4 1 1 = Inr s" "ring_new s = Inr r"
    "slab_create os_ok ''d'' 7 4 1 10 = Inr s'" "ring_new s' = Inr dst"
    "ring_write r 0 f_one 11 = Inr src1" "ring_inv src1"
    "rb_table src1 = tb_write [(0, f_one)] 11 (empty_table 7 4 1 1)"
    "ring_newest_timestamp src1 = Inr (Some 11)"
    "consolidate_tier_pair any_order two_tiers 0 0 1 ([], [[src1, dst]]) = (Inr 1, (cs1, [[src1, dst1]]))"
    "get_last_processed cs1 0 0 1 = Some 11" "ring_inv dst1"
    "rb_table dst1 = tb_write [(0, f_one)] 10 (empty_table 7 4 1 10)"
    by (rule first_run)
  have cols: "tb_cols (rb_table src1) = 1" "tb_cols (rb_table dst1) = 1"
    by (simp_all add: run1(7,12) tb_write_config) (simp_all add: empty_table_def)
  obtain src2 where src2: "ring_write src1 0 f_zero 12 = Inr src2" "ring_inv src2"
      "rb_table src2 = tb_write [(0, f_zero)] 12 (rb_table src1)"
    using ring_write_step [OF run1(6), of 12 f_zero 0] cols by (auto simp: f_zero_finite finite_not_infinite)
  have cols2: "tb_cols (rb_table src2) = 1" by (simp add: src2(3) tb_write_config cols)
  have slots: "slot_of (empty_table 7 4 1 1) 11 = 3" "slot_of (empty_table 7 4 1 1) 12 = 0"
      "slot_of (empty_table 7 4 1 10) 10 = 1"
    by (simp_all add: slot_of_def empty_table_def)
  have circle: "circle (rb_table src2) = [1, 2, 3, 0]"
    unfolding circle_def src2(3) run1(7) tb_write_config slots
    by (simp add: empty_table_def next_slot_def walk_4)
  have pts: "source_points (rb_table src2) 12 13 0 = [(12, f_zero)]"
    unfolding source_points_def ring_contents_def circle
    by (simp add: src2(3) run1(7) slot_sample_def tb_write_ts tb_write_val tb_write_config slots in_range_def)
      (simp add: empty_table_def finite_not_nan f_zero_finite)
  have new: "ring_newest_timestamp src2 = Inr (Some 12)"
    by (rule newest_of_write [OF src2(2,3)]) simp
  obtain cs2 dst2 where run2: "consolidate_tier_pair any_order two_tiers 0 0 1 (cs1, [[src2, dst1]])
      = (Inr 1, (cs2, [[src2, dst2]]))" "rb_table dst2 = tb_write [(0, f_zero)] 10 (rb_table dst1)"
    using pair_run [OF src2(2) cols2 run1(11) cols(2) new, of cs1 f_zero] run1(10) pts
    by (auto simp: f_zero_finite window_start_def)
  have "tb_val (rb_table dst1) 1 0 = f_one" "tb_val (rb_table dst2) 1 0 = f_zero"
    by (simp_all add: run2(2) run1(12) tb_write_val tb_write_config slots)
  then show ?thesis
    using run1(1-5,9) src2(1) run2(1) by blast
qed

end
