(* ===== verification/Query.thy ===== *)
theory Query
  imports Ring_Buffer
begin

text \<open>
  \<open>rondo/src/query.rs\<close>: the result of a query, an iterator with what is known about the
  coverage of the request, and the analysis of that coverage.
\<close>

section \<open>Query results\<close>

record query_result =
  qr_iterator :: ring_iter
  qr_tier_used :: usize
  qr_available_range :: "u64 option \<times> u64 option"
  qr_requested_range :: "u64 \<times> u64"
  qr_may_be_incomplete :: bool

definition query_result_new ::
    "ring_iter \<Rightarrow> usize \<Rightarrow> u64 option \<times> u64 option \<Rightarrow> u64 \<times> u64 \<Rightarrow> bool \<Rightarrow> query_result" where
  "query_result_new iterator tier_used available_range requested_range may_be_incomplete =
     \<lparr> qr_iterator = iterator, qr_tier_used = tier_used, qr_available_range = available_range,
       qr_requested_range = requested_range, qr_may_be_incomplete = may_be_incomplete \<rparr>"

definition tier_used :: "query_result \<Rightarrow> usize" where
  "tier_used q = qr_tier_used q"

definition available_range :: "query_result \<Rightarrow> u64 option \<times> u64 option" where
  "available_range q = qr_available_range q"

definition requested_range :: "query_result \<Rightarrow> u64 \<times> u64" where
  "requested_range q = qr_requested_range q"

definition may_be_incomplete :: "query_result \<Rightarrow> bool" where
  "may_be_incomplete q = qr_may_be_incomplete q"

definition query_next :: "query_result \<Rightarrow> ((u64 \<times> f64) option \<times> query_result) res" where
  "query_next q =
     rbind (iter_next (qr_iterator q)) (\<lambda>(item, it). Inr (item, q\<lparr>qr_iterator := it\<rparr>))"

text \<open>\<open>Iterator::count\<close> calls \<open>next\<close> until it returns \<open>None\<close>.\<close>

function iter_count :: "ring_iter \<Rightarrow> usize \<Rightarrow> usize res" where
  "iter_count it n =
     rbind (iter_next it) (\<lambda>(item, it').
       case item of None \<Rightarrow> Inr n | Some _ \<Rightarrow> iter_count it' (uadd n 1))"
  by pat_completeness auto
termination
  by (relation "measure (\<lambda>(it, n). unat (it_slots_remaining it))") (auto simp: iter_next_remaining)

declare iter_count.simps [simp del]

definition query_count :: "query_result \<Rightarrow> usize res" where
  "query_count q = iter_count (qr_iterator q) 0"

definition collect_all :: "query_result \<Rightarrow> (u64 \<times> f64) list res" where
  "collect_all q = iter_collect (qr_iterator q)"

section \<open>Coverage\<close>

definition analyze_coverage :: "u64 option \<Rightarrow> u64 option \<Rightarrow> u64 \<Rightarrow> u64 \<Rightarrow> bool \<times> bool" where
  "analyze_coverage oldest newest start_ns end_ns =
     (case (oldest, newest) of
        (Some oldest_ts, Some newest_ts) \<Rightarrow>
          (start_ns \<ge> oldest_ts \<and> end_ns \<le> newest_ts, start_ns < oldest_ts)
      | _ \<Rightarrow> (False, True))"

lemma analyze_coverage_excl: "\<not> (fst (analyze_coverage oldest newest s e) \<and> snd (analyze_coverage oldest newest s e))"
  by (auto simp: analyze_coverage_def split: option.splits)

section \<open>Counting and collecting\<close>

lemma iter_collect_length:
  "iter_collect it = Inr ps \<Longrightarrow> length ps \<le> unat (it_slots_remaining it)"
proof (induction it arbitrary: ps rule: iter_collect.induct)
  case (1 it)
  from "1.prems" obtain item it' where n: "iter_next it = Inr (item, it')"
    by (subst (asm) iter_collect.simps) (auto simp: rbind_eq_Inr)
  show ?case
  proof (cases item)
    case None
    then show ?thesis using "1.prems" n by (subst (asm) iter_collect.simps) simp
  next
    case (Some p)
    then obtain qs where "iter_collect it' = Inr qs" "ps = p # qs"
      using "1.prems" n by (subst (asm) iter_collect.simps) (auto simp: rbind_eq_Inr)
    then show ?thesis
      using "1.IH" [OF n refl Some, of qs] iter_next_remaining [of it p it'] n Some by simp
  qed
qed

lemma iter_count_collect:
  "iter_collect it = Inr ps \<Longrightarrow> n + length ps < 2 ^ 64 \<Longrightarrow> iter_count it n = Inr (n + length ps)"
proof (induction it arbitrary: ps n rule: iter_collect.induct)
  case (1 it)
  from "1.prems"(1) obtain item it' where nx: "iter_next it = Inr (item, it')"
    by (subst (asm) iter_collect.simps) (auto simp: rbind_eq_Inr)
  show ?case
  proof (cases item)
    case None
    then show ?thesis
      using "1.prems"(1) nx by (subst (asm) iter_collect.simps, subst iter_count.simps) simp
  next
    case (Some p)
    then obtain qs where q: "iter_collect it' = Inr qs" "ps = p # qs"
      using "1.prems"(1) nx by (subst (asm) iter_collect.simps) (auto simp: rbind_eq_Inr)
    have "uadd n 1 = n + 1" using "1.prems"(2) q by (intro uadd_exact) simp
    then show ?thesis
      using "1.IH" [OF nx refl Some q(1), of "n + 1"] "1.prems"(2) q(2) nx Some
      by (subst iter_count.simps) simp
  qed
qed

text \<open>The iterator of a read, without consuming it.\<close>

lemma ring_read_ok:
  assumes "ring_inv r" and "c < tb_cols (rb_table r)" and "start < end'"
  obtains it where "ring_read r c start end' = Inr it"
    "iter_collect it = Inr (filter (in_range start end') (ring_contents (rb_table r) c))"
proof (cases "ring_read r c start end'")
  case (Inl e)
  then show ?thesis using ring_read_all_contents [OF assms] by (simp add: ring_read_all_def)
next
  case (Inr it)
  then show ?thesis using ring_read_all_contents [OF assms] that by (simp add: ring_read_all_def)
qed

lemma ring_contents_length: "length (ring_contents tb c) \<le> unat (tb_slots tb)"
  unfolding ring_contents_def circle_def
  by (rule order_trans [OF length_filter_le]) simp

end
