(* ===== verification/Export.thy ===== *)
theory Export
  imports Ring_Buffer Series_Registry Cursors
begin

text \<open>
  \<open>rondo/src/export.rs\<close>: draining the samples that are newer than a persistent cursor.
  The cursor is a mutable reference: \<open>drain_tier\<close> returns the one it leaves behind, also
  when it fails.
\<close>

section \<open>Cursors\<close>

record export_point =
  ep_timestamp :: u64
  ep_value :: f64
  ep_schema_index :: usize
  ep_tier_index :: usize
  ep_series_column :: u32

record series_export =
  se_handle :: series_handle
  se_points :: "(u64 \<times> f64) list"

record export_cursor =
  ec_path :: string
  ec_cursors :: "(string, u64) hash_map"

definition export_cursor_new :: export_cursor where
  "export_cursor_new = \<lparr> ec_path = [], ec_cursors = [] \<rparr>"

text \<open>The path is not part of the JSON text: a parsed cursor gets its path afterwards.\<close>

definition export_load_or_new :: "os \<Rightarrow> export_cursor json \<Rightarrow> disk \<Rightarrow> string \<Rightarrow> export_cursor res" where
  "export_load_or_new os js d path =
     (if path_exists d path then
        rbind (map_err (\<lambda>e. Error (Export (ExportCursorLoad path e))) (read_text os d path)) (\<lambda>data.
        rbind (map_err (\<lambda>e. Error (Export (ExportCursorParse path e))) (of_json js data)) (\<lambda>cursor.
        Inr (cursor\<lparr>ec_path := path\<rparr>)))
      else Inr \<lparr> ec_path = path, ec_cursors = [] \<rparr>)"

definition export_save :: "os \<Rightarrow> export_cursor json \<Rightarrow> export_cursor \<Rightarrow> disk \<Rightarrow> disk res" where
  "export_save os js cursor d =
     (if ec_path cursor = [] then Inr d
      else rbind (map_err (\<lambda>e. Error (Export (ExportCursorSerialize e))) (to_json js cursor)) (\<lambda>data.
        map_err (\<lambda>e. Error (Export (ExportCursorSave (ec_path cursor) e)))
          (write_text os d (ec_path cursor) data)))"

definition make_key :: "usize \<Rightarrow> usize \<Rightarrow> u32 \<Rightarrow> string" where
  "make_key schema_index tier_index series_column =
     colon_key schema_index tier_index (unat series_column)"

definition export_get :: "export_cursor \<Rightarrow> usize \<Rightarrow> usize \<Rightarrow> u32 \<Rightarrow> u64 option" where
  "export_get cursor schema_index tier_index series_column =
     hm_get (ec_cursors cursor) (make_key schema_index tier_index series_column)"

definition export_update :: "usize \<Rightarrow> usize \<Rightarrow> u32 \<Rightarrow> u64 \<Rightarrow> export_cursor \<Rightarrow> export_cursor" where
  "export_update schema_index tier_index series_column timestamp cursor =
     cursor\<lparr>ec_cursors := hm_insert (make_key schema_index tier_index series_column) timestamp
       (ec_cursors cursor)\<rparr>"

interpretation ec: cursor_table export_get export_update
  by unfold_locales
    (simp add: export_get_def export_update_def make_key_def hm.get_put colon_key_inject word_unat_eq_iff)

section \<open>Draining\<close>

definition drain_series ::
    "ring \<Rightarrow> usize \<Rightarrow> usize \<Rightarrow> u32 \<Rightarrow> export_cursor \<Rightarrow> ((u64 \<times> f64) list \<times> export_cursor) res" where
  "drain_series ring schema_index tier_index series_column cursor =
     (let last_exported = export_get cursor schema_index tier_index series_column in
      rbind (ring_oldest_timestamp ring) (\<lambda>oldest.
      rbind (ring_newest_timestamp ring) (\<lambda>newest.
      case (oldest, newest) of
        (Some oldest_ts, Some newest_ts) \<Rightarrow>
          let start = (case last_exported of Some ts \<Rightarrow> ts + 1 | None \<Rightarrow> oldest_ts) in
          if start > newest_ts then Inr ([], cursor)
          else
            rbind (ring_read_all ring series_column start (newest_ts + 1)) (\<lambda>points.
            Inr (points,
                 if points = [] then cursor
                 else export_update schema_index tier_index series_column (fst (last points)) cursor))
      | _ \<Rightarrow> Inr ([], cursor))))"

fun drain_handles ::
    "ring \<Rightarrow> usize \<Rightarrow> usize \<Rightarrow> series_handle list \<Rightarrow> export_cursor \<Rightarrow>
       series_export list res \<times> export_cursor" where
  "drain_handles ring schema_index tier_index [] cursor = (Inr [], cursor)"
| "drain_handles ring schema_index tier_index (handle # hs) cursor =
     (if sh_schema_index handle \<noteq> schema_index
      then drain_handles ring schema_index tier_index hs cursor
      else case drain_series ring schema_index tier_index (sh_column handle) cursor of
        Inl e \<Rightarrow> (Inl e, cursor)
      | Inr (points, cursor) \<Rightarrow>
          (case drain_handles ring schema_index tier_index hs cursor of
             (Inl e, cursor) \<Rightarrow> (Inl e, cursor)
           | (Inr exports, cursor) \<Rightarrow>
               (Inr (if points = [] then exports
                     else \<lparr> se_handle = handle, se_points = points \<rparr> # exports), cursor)))"

definition drain_tier ::
    "ring list list \<Rightarrow> usize \<Rightarrow> usize \<Rightarrow> series_handle list \<Rightarrow> export_cursor \<Rightarrow>
       series_export list res \<times> export_cursor" where
  "drain_tier rings schema_index tier_index hs cursor =
     (case rbind (nth_res rings schema_index) (\<lambda>tiers. nth_res tiers tier_index) of
        Inl e \<Rightarrow> (Inl e, cursor)
      | Inr ring \<Rightarrow> drain_handles ring schema_index tier_index hs cursor)"

section \<open>Chronological rings\<close>

text \<open>The used slots in increasing order of their timestamps, as reads and drains expect.\<close>

definition chronological :: "table \<Rightarrow> bool" where
  "chronological tb \<longleftrightarrow> sorted_wrt (<) (used_timestamps tb)"

lemma contents_used:
  assumes "table_inv tb"
  shows "map fst (ring_contents tb c) =
    map (tb_ts tb) (filter (\<lambda>i. \<not> is_nan (tb_val tb i c)) (filter (\<lambda>i. tb_ts tb i \<noteq> 0) (circle tb)))"
proof -
  have "filter (\<lambda>i. \<not> is_nan (tb_val tb i c)) xs =
      filter (\<lambda>i. \<not> is_nan (tb_val tb i c)) (filter (\<lambda>i. tb_ts tb i \<noteq> 0) xs)" for xs
    using assms by (induction xs) (auto simp: table_inv_def)
  then show ?thesis
    by (simp add: ring_contents_def filter_map o_def slot_sample_def)
qed

lemma used_as_map: "used_timestamps tb = map (tb_ts tb) (filter (\<lambda>i. tb_ts tb i \<noteq> 0) (circle tb))"
  by (simp add: used_timestamps_def filter_map o_def)

lemma contents_subset_used:
  "table_inv tb \<Longrightarrow> p \<in> set (ring_contents tb c) \<Longrightarrow> fst p \<in> set (used_timestamps tb)"
proof -
  assume "table_inv tb" "p \<in> set (ring_contents tb c)"
  then have "fst p \<in> set (map fst (ring_contents tb c))" by simp
  then show ?thesis
    unfolding contents_used [OF \<open>table_inv tb\<close>] used_as_map by auto
qed

lemma contents_sorted:
  assumes "table_inv tb" and "chronological tb"
  shows "sorted_wrt (<) (map fst (ring_contents tb c))"
  using assms(2) unfolding contents_used [OF assms(1)] chronological_def used_as_map sorted_wrt_map
  by (rule sorted_wrt_filter)

lemma circle_write_next:
  assumes cur: "tb_cursor tb < tb_slots tb" and nxt: "slot_of tb t = next_slot (tb_slots tb) (tb_cursor tb)"
  shows "circle (tb_write cvs t tb) = tl (circle tb) @ [slot_of tb t]"
  using walk_rotate [OF next_slot_less [OF cur]] by (simp add: circle_def tb_write_config nxt)

lemma chronological_next:
  assumes cur: "tb_cursor tb < tb_slots tb" and nxt: "slot_of tb t = next_slot (tb_slots tb) (tb_cursor tb)"
    and "chronological tb" and later: "\<forall>u \<in> set (used_timestamps tb). u < t" and "t \<noteq> 0"
  shows "chronological (tb_write cvs t tb)"
proof -
  let ?i = "slot_of tb t"
  obtain js where js: "circle tb = ?i # js"
    using next_slot_less [OF cur] nxt
    by (cases "unat (tb_slots tb)") (auto simp: circle_def word_less_nat_alt)
  have "?i \<notin> set js" using circle_distinct [OF cur] js by simp
  then have same: "map (tb_ts (tb_write cvs t tb)) js = map (tb_ts tb) js"
    by (auto simp: tb_write_ts)
  have "used_timestamps (tb_write cvs t tb) = filter (\<lambda>t. t \<noteq> 0) (map (tb_ts tb) js) @ [t]"
    unfolding used_timestamps_def circle_write_next [OF cur nxt] js
    using assms(5) by (simp add: same del: list.map) (simp add: same tb_write_ts)
  moreover have "sorted_wrt (<) (filter (\<lambda>t. t \<noteq> 0) (map (tb_ts tb) js))"
      "\<forall>u \<in> set (filter (\<lambda>t. t \<noteq> 0) (map (tb_ts tb) js)). u < t"
    using assms(3) later js by (auto simp: chronological_def used_timestamps_def split: if_splits)
  ultimately show ?thesis
    by (simp add: chronological_def sorted_wrt_append)
qed

lemma chronological_first:
  assumes cur: "tb_cursor tb < tb_slots tb" and "\<forall>i. tb_ts tb i = 0" and "t \<noteq> 0"
  shows "used_timestamps (tb_write cvs t tb) = [t]"
proof -
  let ?tb = "tb_write cvs t tb"
  have cur': "tb_cursor ?tb < tb_slots ?tb"
    using slot_of_less [of tb t] cur by (simp add: tb_write_config) (metis word_gt_0 word_not_simps(1))
  obtain js where js: "circle ?tb = js @ [slot_of tb t]"
    using circle_ends_at_cursor [OF cur'] by (auto simp: tb_write_config)
  have "slot_of tb t \<notin> set js"
    using circle_distinct [OF cur'] js by simp
  then have "filter (\<lambda>t. t \<noteq> 0) (map (tb_ts ?tb) js) = []"
    using assms(2) by (auto simp: tb_write_ts filter_empty_conv)
  then show ?thesis
    unfolding used_timestamps_def js map_append filter_append
    using assms(3) by (simp add: tb_write_ts)
qed


lemma gap_free_later:
  "unat u div iv = Suc (unat t div iv) \<Longrightarrow> t < (u :: u64)"
  by (metis div_le_mono leD leI lessI word_le_nat_alt)

lemma gap_free_snoc:
  "gap_free iv (ps @ [(t, v), (u, w)]) \<longleftrightarrow>
     gap_free iv (ps @ [(t, v)]) \<and> unat u div iv = Suc (unat t div iv)"
  by (induction iv ps rule: gap_free.induct) auto

lemma write_column_snoc:
  "write_column c (ps @ [(t, v)]) r = rbind (write_column c ps r) (\<lambda>r. ring_write r c v t)"
  by (simp add: write_column_def fold_res_append fold_res_single)

text \<open>In-order, gap-free writes of one column into an empty ring keep it chronological.\<close>

lemma write_column_chronological:
  assumes "ring_inv r" and "\<forall>i. tb_ts (rb_table r) i = 0" and "c < tb_cols (rb_table r)"
    and "gap_free (unat (tb_interval (rb_table r))) ps" and "list_all (\<lambda>(t, v). t \<noteq> 0 \<and> is_finite v) ps"
    and "ps \<noteq> []"
  shows "\<exists>r'. write_column c ps r = Inr r' \<and> ring_inv r' \<and> chronological (rb_table r') \<and>
    ring_newest_timestamp r' = Inr (Some (fst (last ps))) \<and>
    tb_cursor (rb_table r') = slot_of (rb_table r') (fst (last ps)) \<and>
    tb_ts (rb_table r') (tb_cursor (rb_table r')) = fst (last ps) \<and>
    tb_slots (rb_table r') = tb_slots (rb_table r) \<and> tb_cols (rb_table r') = tb_cols (rb_table r) \<and>
    tb_interval (rb_table r') = tb_interval (rb_table r)"
  using assms
proof (induction ps rule: rev_induct)
  case (snoc p ps)
  obtain u w where p: "p = (u, w)" by force
  have u: "u \<noteq> 0" "\<not> is_infinite w" using snoc.prems(5) p finite_not_infinite by auto
  show ?case
  proof (cases "ps = []")
    case True
    have cur: "tb_cursor (rb_table r) < tb_slots (rb_table r)"
      using assms(1) by (simp add: ring_inv_def ring_wf_def)
    obtain r' where r': "ring_write r c w u = Inr r'" "ring_inv r'"
        "rb_table r' = tb_write [(c, w)] u (rb_table r)"
      using ring_write_step [OF assms(1) u assms(3)] by blast
    have "chronological (rb_table r')"
      by (simp add: r'(3) chronological_def chronological_first [OF cur assms(2) u(1)])
    then show ?thesis
      using r' newest_of_write [OF r'(2,3) u(1)] True p
      by (simp add: write_column_def tb_write_config tb_write_ts)
  next
    case False
    then obtain qs t v where ps: "ps = qs @ [(t, v)]"
      by (metis rev_exhaust surj_pair)
    have g: "gap_free (unat (tb_interval (rb_table r))) ps"
        "unat u div unat (tb_interval (rb_table r)) = Suc (unat t div unat (tb_interval (rb_table r)))"
      using snoc.prems(4) by (simp_all add: ps p gap_free_snoc)
    obtain r1 where r1: "write_column c ps r = Inr r1" "ring_inv r1" "chronological (rb_table r1)"
        "tb_cursor (rb_table r1) = slot_of (rb_table r1) t" "tb_ts (rb_table r1) (tb_cursor (rb_table r1)) = t"
        "tb_slots (rb_table r1) = tb_slots (rb_table r)" "tb_cols (rb_table r1) = tb_cols (rb_table r)"
        "tb_interval (rb_table r1) = tb_interval (rb_table r)"
      using snoc.IH [OF assms(1-3) g(1) _ False] snoc.prems(5) ps by auto
    have ti: "table_inv (rb_table r1)" and cur: "tb_cursor (rb_table r1) < tb_slots (rb_table r1)"
      and pos: "0 < tb_slots (rb_table r1)"
      using r1(2) by (auto simp: ring_inv_def ring_wf_def)
    have t: "t \<noteq> 0" using snoc.prems(5) ps by simp
    have nxt: "slot_of (rb_table r1) u = next_slot (tb_slots (rb_table r1)) (tb_cursor (rb_table r1))"
      using slot_of_next [OF pos, of u t] g(2) r1(4,8) by simp
    have last: "last (used_timestamps (rb_table r1)) = t" "used_timestamps (rb_table r1) \<noteq> []"
      using used_last [OF cur] used_nil [OF ti cur] r1(5) t by auto
    have "\<forall>x \<in> set (used_timestamps (rb_table r1)). x \<le> t"
      using r1(3) last(1) le_last_strict unfolding chronological_def by blast
    then have "\<forall>x \<in> set (used_timestamps (rb_table r1)). x < u"
      using gap_free_later [OF g(2)] by auto
    then have chr: "chronological (tb_write [(c, w)] u (rb_table r1))"
      using chronological_next [OF cur nxt r1(3) _ u(1)] by blast
    obtain r' where r': "ring_write r1 c w u = Inr r'" "ring_inv r'"
        "rb_table r' = tb_write [(c, w)] u (rb_table r1)"
      using ring_write_step [OF r1(2) u, of c] r1(7) assms(3) by auto
    have "write_column c (ps @ [p]) r = Inr r'"
      using r1(1) r'(1) by (simp add: p write_column_snoc)
    then show ?thesis
      using r' chr newest_of_write [OF r'(2,3) u(1)] r1(6-8) p
      by (simp add: tb_write_config tb_write_ts)
  qed
qed simp


section \<open>What a drain returns\<close>

definition new_points :: "u64 option \<Rightarrow> (u64 \<times> f64) list \<Rightarrow> (u64 \<times> f64) list" where
  "new_points mark ps = filter (\<lambda>p. case mark of None \<Rightarrow> True | Some u \<Rightarrow> u < fst p) ps"

definition advance :: "usize \<Rightarrow> usize \<Rightarrow> u32 \<Rightarrow> (u64 \<times> f64) list \<Rightarrow> export_cursor \<Rightarrow> export_cursor" where
  "advance i j c ps cursor = (if ps = [] then cursor else export_update i j c (fst (last ps)) cursor)"

lemma export_get_advance:
  "export_get (advance i j c ps cursor) i j c = (if ps = [] then export_get cursor i j c else Some (fst (last ps)))"
  by (simp add: advance_def ec.get_same)

lemma unat_u64_succ:
  fixes a :: u64
  assumes "a \<noteq> - 1"
  shows "unat (a + 1) = unat a + 1"
proof -
  have "unat a \<noteq> unat (- 1 :: u64)" using assms by (simp only: word_unat_eq_iff simp_thms)
  then have "unat a + 1 < 2 ^ 64"
    using u64_bound [of a] by (simp add: unsigned_minus_1_eq_mask mask_eq_exp_minus_1)
  then show ?thesis by (simp add: unat_word_ariths)
qed

lemma u64_succ_less: "a \<noteq> - 1 \<Longrightarrow> a + 1 \<le> b \<longleftrightarrow> a < (b :: u64)"
  by (simp add: word_le_nat_alt word_less_nat_alt unat_u64_succ Suc_le_eq)

lemma u64_less_succ: "b \<noteq> - 1 \<Longrightarrow> a < b + 1 \<longleftrightarrow> a \<le> (b :: u64)"
  using u64_succ_less [of b a] by (metis linorder_not_less)

lemma hd_least: "sorted_wrt (<) xs \<Longrightarrow> x \<in> set xs \<Longrightarrow> hd xs \<le> (x :: 'a :: linorder)"
  by (cases xs) auto

lemma drain_series_chronological:
  assumes inv: "ring_inv r" and chr: "chronological (rb_table r)" and c: "c < tb_cols (rb_table r)"
    and small: "unat (tb_slots (rb_table r)) \<le> 2 ^ 31"
    and max: "- 1 \<notin> set (used_timestamps (rb_table r))" "export_get cursor i j c \<noteq> Some (- 1)"
  shows "drain_series r i j c cursor =
    (let ps = new_points (export_get cursor i j c) (ring_contents (rb_table r) c) in
     Inr (ps, advance i j c ps cursor))"
proof -
  let ?us = "used_timestamps (rb_table r)" and ?cs = "ring_contents (rb_table r) c"
  have ti: "table_inv (rb_table r)" using inv by (simp add: ring_inv_def)
  note used = contents_subset_used [OF ti]
  note scans = ring_oldest_newest_scans [OF inv small]
  show ?thesis
  proof (cases "?us = []")
    case True
    then have "?cs = []"
      using used by (metis empty_iff empty_set last_in_set)
    then show ?thesis
      using scans True by (simp add: drain_series_def new_points_def advance_def)
  next
    case False
    let ?start = "case export_get cursor i j c of Some ts \<Rightarrow> ts + 1 | None \<Rightarrow> hd ?us"
    have bounds: "hd ?us \<le> fst p \<and> fst p \<le> last ?us" if "p \<in> set ?cs" for p
      using used [OF that] chr le_last_strict hd_least unfolding chronological_def by blast
    have newest: "last ?us \<noteq> - 1" using max(1) False last_in_set by metis
    have sel: "in_range ?start (last ?us + 1) p \<longleftrightarrow>
        (case export_get cursor i j c of None \<Rightarrow> True | Some u \<Rightarrow> u < fst p)" if "p \<in> set ?cs" for p
      using bounds [OF that] max(2)
      by (auto simp: in_range_def u64_less_succ [OF newest] u64_succ_less split: option.splits)
    then have new: "new_points (export_get cursor i j c) ?cs = filter (in_range ?start (last ?us + 1)) ?cs"
      by (simp add: new_points_def cong: filter_cong)
    show ?thesis
    proof (cases "?start > last ?us")
      case True
      then have "filter (in_range ?start (last ?us + 1)) ?cs = []"
        using bounds by (fastforce simp: filter_empty_conv in_range_def)
      then show ?thesis
        using scans False True new
        by (simp add: drain_series_def advance_def Let_def)
    next
      case le: False
      then have "?start < last ?us + 1"
        using u64_less_succ [OF newest] by simp
      then have "ring_read_all r c ?start (last ?us + 1) = Inr (filter (in_range ?start (last ?us + 1)) ?cs)"
        by (rule ring_read_all_contents [OF inv c])
      then show ?thesis
        using scans False le new
        by (auto simp: drain_series_def advance_def Let_def)
    qed
  qed
qed

lemma new_points_again:
  assumes sorted: "sorted_wrt (<) (map fst cs)" and some: "new_points old cs \<noteq> []"
  shows "new_points (Some (fst (last (new_points old cs)))) cs = []"
proof -
  let ?ps = "new_points old cs"
  have "sorted_wrt (<) (map fst ?ps)"
    using sorted by (simp add: new_points_def sorted_wrt_map sorted_wrt_filter)
  then have le: "fst p \<le> fst (last ?ps)" if "p \<in> set ?ps" for p
    using le_last_strict [of "map fst ?ps" "fst p"] that some by (simp add: last_map)
  have "\<not> fst (last ?ps) < fst p" if p: "p \<in> set cs" for p
  proof (cases "p \<in> set ?ps")
    case True
    then show ?thesis using le by (simp add: not_less)
  next
    case False
    then obtain u where u: "old = Some u" "\<not> u < fst p"
      using p by (auto simp: new_points_def split: option.splits)
    then have "u < fst (last ?ps)"
      using last_in_set [OF some] by (auto simp: new_points_def)
    then show ?thesis using u(2) by force
  qed
  then show ?thesis by (simp add: new_points_def)
qed

lemma drain_series_settles:
  assumes "ring_inv r" and "chronological (rb_table r)" and "c < tb_cols (rb_table r)"
    and "unat (tb_slots (rb_table r)) \<le> 2 ^ 31"
    and "- 1 \<notin> set (used_timestamps (rb_table r))" and "export_get cursor i j c \<noteq> Some (- 1)"
  shows "\<exists>ps cursor'. drain_series r i j c cursor = Inr (ps, cursor') \<and>
    ps = new_points (export_get cursor i j c) (ring_contents (rb_table r) c) \<and>
    export_get cursor' i j c = (if ps = [] then export_get cursor i j c else Some (fst (last ps))) \<and>
    ((i', j', c') \<noteq> (i, j, c) \<longrightarrow> export_get cursor' i' j' c' = export_get cursor i' j' c') \<and>
    drain_series r i j c cursor' = Inr ([], cursor') \<and> export_get cursor' i j c \<noteq> Some (- 1)"
proof -
  let ?cs = "ring_contents (rb_table r) c"
  define ps where "ps = new_points (export_get cursor i j c) ?cs"
  define cursor' where "cursor' = advance i j c ps cursor"
  have ti: "table_inv (rb_table r)" using assms(1) by (simp add: ring_inv_def)
  have first: "drain_series r i j c cursor = Inr (ps, cursor')"
    using drain_series_chronological [OF assms(1-6)] by (simp add: ps_def cursor'_def Let_def)
  have get: "export_get cursor' i j c = (if ps = [] then export_get cursor i j c else Some (fst (last ps)))"
    by (simp add: cursor'_def export_get_advance)
  have other: "(i', j', c') \<noteq> (i, j, c) \<Longrightarrow> export_get cursor' i' j' c' = export_get cursor i' j' c'"
    by (auto simp: cursor'_def advance_def ec.get_update)
  have sub: "set ps \<subseteq> set ?cs" by (auto simp: ps_def new_points_def)
  have max: "export_get cursor' i j c \<noteq> Some (- 1)"
  proof (cases "ps = []")
    case False
    then have "last ps \<in> set ?cs" using sub last_in_set by blast
    then show ?thesis
      using False get contents_subset_used [OF ti, of "last ps" c] assms(5) by auto
  qed (use get assms(6) in simp)
  have "new_points (export_get cursor' i j c) ?cs = []"
  proof (cases "ps = []")
    case True
    then show ?thesis using get by (simp add: ps_def)
  next
    case False
    then show ?thesis
      using get new_points_again [OF contents_sorted [OF ti assms(2)]] by (simp add: ps_def)
  qed
  then have "drain_series r i j c cursor' = Inr ([], cursor')"
    using drain_series_chronological [OF assms(1-5) max] by (simp add: advance_def)
  then show ?thesis
    using first get other max by (auto simp: ps_def)
qed

text \<open>
  On a ring in chronological order a drain returns exactly the stored samples of the
  series that are newer than its cursor, oldest first, and moves the cursor of that series
  to the newest of them; the cursors of all other series, tiers and schemas stay. A second
  drain returns nothing.
\<close>

theorem drain_new_points:
  assumes "ring_inv r" and "chronological (rb_table r)" and "c < tb_cols (rb_table r)"
    and "unat (tb_slots (rb_table r)) \<le> 2 ^ 31"
    and "- 1 \<notin> set (used_timestamps (rb_table r))" and "export_get cursor i j c \<noteq> Some (- 1)"
  shows "\<exists>ps cursor'. drain_series r i j c cursor = Inr (ps, cursor') \<and>
    ps = new_points (export_get cursor i j c) (ring_contents (rb_table r) c) \<and>
    export_get cursor' i j c = (if ps = [] then export_get cursor i j c else Some (fst (last ps))) \<and>
    ((i', j', c') \<noteq> (i, j, c) \<longrightarrow> export_get cursor' i' j' c' = export_get cursor i' j' c') \<and>
    drain_series r i j c cursor' = Inr ([], cursor')"
  using drain_series_settles [OF assms, of i' j' c'] by blast


section \<open>Periodic export\<close>

text \<open>A producer and an exporter in turn: a batch of samples is written, then drained.\<close>

fun export_run ::
    "usize \<Rightarrow> usize \<Rightarrow> u32 \<Rightarrow> (u64 \<times> f64) list list \<Rightarrow> ring \<Rightarrow> export_cursor \<Rightarrow> (u64 \<times> f64) list list res" where
  "export_run i j c [] r cursor = Inr []"
| "export_run i j c (ps # pss) r cursor =
     rbind (write_column c ps r) (\<lambda>r.
     rbind (drain_series r i j c cursor) (\<lambda>(xs, cursor).
     rbind (export_run i j c pss r cursor) (\<lambda>xss. Inr (xs # xss))))"

lemma gap_free_sorted: "gap_free iv ps \<Longrightarrow> sorted_wrt (\<lambda>p q. fst p < fst q) ps"
  by (induction iv ps rule: gap_free.induct) (fastforce dest: gap_free_later)+

lemma gap_free_prefix: "gap_free iv (ps @ qs) \<Longrightarrow> gap_free iv ps"
proof (induction ps)
  case (Cons p ps)
  show ?case
  proof (cases ps)
    case Nil
    then show ?thesis by (cases p) simp
  next
    case (Cons q rest)
    then show ?thesis using Cons.IH Cons.prems by (cases p; cases q) simp
  qed
qed simp

lemma new_points_suffix:
  assumes "sorted_wrt (\<lambda>p q. fst p < fst q) (hs @ ps)" and "length ps \<le> n"
  shows "new_points (if hs = [] then None else Some (fst (last hs))) (last_n n (hs @ ps)) = ps"
proof (cases "hs = []")
  case True
  then show ?thesis using assms(2) by (simp add: new_points_def last_n_def)
next
  case False
  have "last_n n (hs @ ps) = drop (length hs + length ps - n) hs @ ps"
    using assms(2) by (simp add: last_n_def)
  moreover have "filter (\<lambda>p. fst (last hs) < fst p) ps = ps"
    using assms(1) False by (auto simp: filter_id_conv sorted_wrt_append)
  moreover have "\<not> fst (last hs) < fst p" if "p \<in> set hs" for p
  proof -
    have "sorted_wrt (<) (map fst hs)"
      using assms(1) by (simp add: sorted_wrt_append sorted_wrt_map)
    then show ?thesis
      using le_last_strict [of "map fst hs" "fst p"] that False by (simp add: last_map not_less)
  qed
  then have "filter (\<lambda>p. fst (last hs) < fst p) (drop k hs) = []" for k
    by (auto simp: filter_empty_conv dest: in_set_dropD)
  ultimately show ?thesis using False by (simp add: new_points_def)
qed

lemma export_run_from:
  assumes r0: "ring_inv r0" "\<forall>i. tb_ts (rb_table r0) i = 0" "c < tb_cols (rb_table r0)"
    and small: "unat (tb_slots (rb_table r0)) \<le> 2 ^ 31"
    and "write_column c hs r0 = Inr r" and "gap_free (unat (tb_interval (rb_table r0))) (hs @ concat pss)"
    and "list_all (\<lambda>(t, v). t \<noteq> 0 \<and> t \<noteq> - 1 \<and> is_finite v) (hs @ concat pss)"
    and "list_all (\<lambda>ps. length ps \<le> unat (tb_slots (rb_table r0))) pss"
    and "export_get cursor i j c = (if hs = [] then None else Some (fst (last hs)))"
  shows "export_run i j c pss r cursor = Inr pss"
  using assms(5-9)
proof (induction pss arbitrary: hs r cursor)
  case (Cons ps pss)
  let ?hs = "hs @ ps"
  have gap: "gap_free (unat (tb_interval (rb_table r0))) ?hs"
    using Cons.prems(2) gap_free_prefix by (metis append_assoc concat.simps(2))
  have vals: "list_all (\<lambda>(t, v). t \<noteq> 0 \<and> is_finite v) ?hs" "list_all (\<lambda>p. fst p \<noteq> - 1) ?hs"
    using Cons.prems(3) by (auto simp: list_all_iff)
  obtain r' where r': "write_column c ?hs r0 = Inr r'" "ring_inv r'"
      "ring_contents (rb_table r') c = last_n (unat (tb_slots (rb_table r0))) ?hs"
    using write_column_window [OF r0 gap vals(1)] by blast
  have step: "write_column c ps r = Inr r'"
    using r'(1) Cons.prems(1) by (simp add: write_column_def fold_res_append)
  have len: "length ps \<le> unat (tb_slots (rb_table r0))" using Cons.prems(4) by simp
  have "\<exists>cursor'. drain_series r' i j c cursor = Inr (ps, cursor') \<and>
      export_get cursor' i j c = (if ?hs = [] then None else Some (fst (last ?hs)))"
  proof (cases "?hs = []")
    case True
    then have "r' = r0" using r'(1) by (simp add: write_column_def)
    have "used_timestamps (rb_table r0) = []"
      using r0(2) by (simp add: used_timestamps_def filter_empty_conv)
    then have "drain_series r' i j c cursor = Inr ([], cursor)"
      using ring_oldest_newest_scans [OF r0(1) small] \<open>r' = r0\<close> by (simp add: drain_series_def)
    then show ?thesis using True Cons.prems(5) by simp
  next
    case False
    have chr: "chronological (rb_table r')" and newest: "ring_newest_timestamp r' = Inr (Some (fst (last ?hs)))"
      and conf: "tb_slots (rb_table r') = tb_slots (rb_table r0)" "tb_cols (rb_table r') = tb_cols (rb_table r0)"
      using write_column_chronological [OF r0 gap vals(1) False] r'(1) by auto
    have small': "unat (tb_slots (rb_table r')) \<le> 2 ^ 31" using small conf by simp
    have last: "last (used_timestamps (rb_table r')) = fst (last ?hs)"
      using ring_oldest_newest_scans [OF r'(2) small'] newest by (simp split: if_splits)
    have "fst (last ?hs) \<noteq> - 1"
      using vals(2) last_in_set [OF False] by (auto simp: list_all_iff)
    moreover have "x \<le> fst (last ?hs)" if "x \<in> set (used_timestamps (rb_table r'))" for x
      using le_last_strict that chr last unfolding chronological_def by metis
    ultimately have max: "- 1 \<notin> set (used_timestamps (rb_table r'))"
      by (metis antisym_conv word_order.extremum)
    have mark: "export_get cursor i j c \<noteq> Some (- 1)"
    proof (cases "hs = []")
      case False
      then have "last hs \<in> set ?hs" by simp
      then show ?thesis using False Cons.prems(5) vals(2) by (auto simp: list_all_iff)
    qed (use Cons.prems(5) in simp)
    have "new_points (export_get cursor i j c) (ring_contents (rb_table r') c) = ps"
      using new_points_suffix [OF gap_free_sorted [OF gap] len] Cons.prems(5) r'(3) by simp
    then have "drain_series r' i j c cursor = Inr (ps, advance i j c ps cursor)"
      using drain_series_chronological [OF r'(2) chr _ small' max mark] r0(3) conf by (simp add: Let_def)
    then show ?thesis
      using Cons.prems(5) False by (auto simp: export_get_advance)
  qed
  then obtain cursor' where d: "drain_series r' i j c cursor = Inr (ps, cursor')"
      "export_get cursor' i j c = (if ?hs = [] then None else Some (fst (last ?hs)))" by blast
  have "export_run i j c pss r' cursor' = Inr pss"
    using Cons.IH [OF r'(1) _ _ _ d(2)] Cons.prems(2-4) by simp
  then show ?case using step d(1) by simp
qed simp

text \<open>
  C6. Export of a gap-free column delivers every sample exactly once and in order. When an
  initially empty ring of at most \<open>2 ^ 31\<close> slots receives samples in one column only, exactly one
  finite sample per interval without a gap, at timestamps other than zero and the last one, and is
  drained with one new cursor, at most \<open>slot_count\<close> samples apart so that none is overwritten in
  between, each drain returns exactly the samples that were written since the previous one.
\<close>

theorem drain_exactly_once:
  assumes "ring_inv r" and "\<forall>i. tb_ts (rb_table r) i = 0" and "c < tb_cols (rb_table r)"
    and "unat (tb_slots (rb_table r)) \<le> 2 ^ 31"
    and "gap_free (unat (tb_interval (rb_table r))) (concat pss)"
    and "list_all (\<lambda>(t, v). t \<noteq> 0 \<and> t \<noteq> - 1 \<and> is_finite v) (concat pss)"
    and "list_all (\<lambda>ps. length ps \<le> unat (tb_slots (rb_table r))) pss"
    and "export_get cursor i j c = None"
  shows "export_run i j c pss r cursor = Inr pss"
  using export_run_from [OF assms(1-4), of "[]" r pss] assms(5-8) by (simp add: write_column_def)

lemma new_cursor_empty: "export_get export_cursor_new i j c = None"
  by (simp add: export_get_def export_cursor_new_def hm.get_empty)

theorem drain_exactly_once_witness:
  "\<exists>s r. slab_create os_ok ''a'' 7 2 1 10 = Inr s \<and> ring_new s = Inr r \<and>
     export_run 0 0 0 [[(11, f_one), (25, f_zero)], [(30, f_one)], []] r export_cursor_new
       = Inr [[(11, f_one), (25, f_zero)], [(30, f_one)], []]"
proof -
  obtain s r where r: "slab_create os_ok ''a'' 7 2 1 10 = Inr s" "ring_new s = Inr r" "ring_inv r"
      "rb_table r = empty_table 7 2 1 10"
    by (rule fresh_ring [of 2 1 10 "''a''" 7]) (simp_all add: slab_size_def)
  moreover have "\<forall>i. tb_ts (rb_table r) i = 0" "0 < tb_cols (rb_table r)" "tb_slots (rb_table r) = 2"
      "tb_interval (rb_table r) = 10"
    by (simp_all add: r(4)) (simp_all add: empty_table_def)
  ultimately show ?thesis
    using drain_exactly_once [of r 0 "[[(11, f_one), (25, f_zero)], [(30, f_one)], []]" export_cursor_new 0 0]
    by (auto simp: f_zero_finite new_cursor_empty)
qed

theorem drain_new_points_witness:
  "\<exists>s r r' cursor. slab_create os_ok ''a'' 7 2 1 10 = Inr s \<and> ring_new s = Inr r \<and>
     write_column 0 [(11, f_one), (25, f_zero)] r = Inr r' \<and>
     drain_series r' 0 0 0 export_cursor_new = Inr ([(11, f_one), (25, f_zero)], cursor) \<and>
     drain_series r' 0 0 0 cursor = Inr ([], cursor)"
proof -
  obtain s r where r: "slab_create os_ok ''a'' 7 2 1 10 = Inr s" "ring_new s = Inr r" "ring_inv r"
      "rb_table r = empty_table 7 2 1 10"
    by (rule fresh_ring [of 2 1 10 "''a''" 7]) (simp_all add: slab_size_def)
  have f: "\<forall>i. tb_ts (rb_table r) i = 0" "0 < tb_cols (rb_table r)" "tb_slots (rb_table r) = 2"
      "tb_interval (rb_table r) = 10"
    by (simp_all add: r(4)) (simp_all add: empty_table_def)
  let ?ps = "[(11, f_one), (25, f_zero)] :: (u64 \<times> f64) list"
  have ok: "gap_free (unat (tb_interval (rb_table r))) ?ps" "list_all (\<lambda>(t :: u64, v). t \<noteq> 0 \<and> is_finite v) ?ps"
    by (simp_all add: f f_zero_finite)
  obtain r' where w: "write_column 0 ?ps r = Inr r'" "ring_inv r'" "chronological (rb_table r')"
      "ring_newest_timestamp r' = Inr (Some 25)" "tb_slots (rb_table r') = 2"
      "tb_cols (rb_table r') = tb_cols (rb_table r)"
    using write_column_chronological [OF r(3) f(1,2) ok] f(3) by auto
  have cs: "ring_contents (rb_table r') 0 = ?ps"
    using write_column_window [OF r(3) f(1,2) ok] w(1) f(3) by (auto simp: last_n_def)
  have "last (used_timestamps (rb_table r')) = 25"
    using ring_oldest_newest_scans [OF w(2)] w(4,5) by (simp split: if_splits)
  moreover have "\<not> (- 1 :: u64) \<le> 25" by (simp add: word_le_nat_alt unsigned_minus_1_eq_mask mask_eq_exp_minus_1)
  ultimately have max: "- 1 \<notin> set (used_timestamps (rb_table r'))"
    using w(3) le_last_strict [of "used_timestamps (rb_table r')" "- 1"] by (auto simp: chronological_def)
  show ?thesis
    using drain_new_points [where i' = 0 and j' = 0 and c' = 0, OF w(2,3) _ _ max, of 0 export_cursor_new 0 0] r(1,2) w(1,5,6) f(2) cs
    by (auto simp: new_cursor_empty new_points_def)
qed

text \<open>
  With a gap a sample can be missed though nothing overwrites it: four slots, samples at 1, 4 and 6.
  The walk starts at the slot of 4, so 4 passes for the oldest timestamp, and the first drain
  starts there and moves the cursor past 1, which is still in the ring.
\<close>

theorem gap_hides_sample:
  "\<exists>s r r' cursor. slab_create os_ok ''a'' 7 4 2 1 = Inr s \<and> ring_new s = Inr r \<and>
     write_column 0 [(1, f_one), (4, f_one), (6, f_one)] r = Inr r' \<and>
     (1, f_one) \<in> set (ring_contents (rb_table r') 0) \<and>
     drain_series r' 0 0 0 export_cursor_new = Inr ([(4, f_one), (6, f_one)], cursor) \<and>
     drain_series r' 0 0 0 cursor = Inr ([], cursor)"
proof -
  obtain s r where r: "slab_create os_ok ''a'' 7 4 2 1 = Inr s" "ring_new s = Inr r" "ring_inv r"
      "tb_slots (rb_table r) = 4" "tb_cols (rb_table r) = 2"
      "tb_interval (rb_table r) = 1" "tb_cursor (rb_table r) = 0" "tb_ts (rb_table r) = (\<lambda>_. 0)"
      "tb_val (rb_table r) = (\<lambda>_ _. f_nan)"
    by (rule small_ring)
  obtain q where q: "ring_write r 0 f_one 1 = Inr q" "ring_inv q" "rb_table q = tb_write [(0, f_one)] 1 (rb_table r)"
    using ring_write_step [OF r(3), of 1 f_one 0] r(5) by (auto simp: finite_not_infinite)
  obtain p where p: "ring_write q 0 f_one 4 = Inr p" "ring_inv p" "rb_table p = tb_write [(0, f_one)] 4 (rb_table q)"
    using ring_write_step [OF q(2), of 4 f_one 0] r(5) by (auto simp: finite_not_infinite q(3) tb_write_config)
  obtain r' where r': "ring_write p 0 f_one 6 = Inr r'" "ring_inv r'" "rb_table r' = tb_write [(0, f_one)] 6 (rb_table p)"
    using ring_write_step [OF p(2), of 6 f_one 0] r(5) by (auto simp: finite_not_infinite p(3) q(3) tb_write_config)
  let ?tb = "rb_table r'"
  have slots: "slot_of (rb_table r) 1 = 1" "slot_of (rb_table r) 4 = 0" "slot_of (rb_table r) 6 = 2"
    by (simp_all add: slot_of_def r(4,6))
  note tabs = r'(3) p(3) q(3)
  have cfg: "tb_slots ?tb = 4" "tb_cols ?tb = 2" "tb_cursor ?tb = 2"
    by (simp_all add: tabs tb_write_config r(4,5) slots)
  have ts: "tb_ts ?tb = (\<lambda>_. 0)(1 := 1, 0 := 4, 2 := 6)"
    and val: "\<And>i. tb_val ?tb i 0 = (if i = 0 \<or> i = 1 \<or> i = 2 then f_one else f_nan)"
    by (auto simp: tabs tb_write_ts tb_write_val tb_write_config r(8,9) slots row_update_def)
  have circle: "circle ?tb = [3, 0, 1, 2]"
    by (subst circle_split) (simp_all add: cfg upt_rec)
  have all: "ring_contents ?tb 0 = [(4, f_one), (1, f_one), (6, f_one)]"
    by (simp add: ring_contents_def circle slot_sample_def ts val finite_not_nan)
  have used: "used_timestamps ?tb = [4, 1, 6]"
    by (simp add: used_timestamps_def circle ts)
  have scans: "ring_newest_timestamp r' = Inr (Some 6)" "ring_oldest_timestamp r' = Inr (Some 4)"
    using ring_oldest_newest_scans [OF r'(2)] by (simp_all add: cfg used)
  have read: "ring_read_all r' 0 4 7 = Inr [(4, f_one), (6, f_one)]"
    using ring_read_all_contents [OF r'(2), of 0 4 7] by (simp add: cfg all in_range_def word_le_nat_alt word_less_nat_alt)
  let ?cursor = "export_update 0 0 0 6 export_cursor_new"
  have "drain_series r' 0 0 0 export_cursor_new = Inr ([(4, f_one), (6, f_one)], ?cursor)"
    using scans read by (simp add: drain_series_def new_cursor_empty)
  moreover have "drain_series r' 0 0 0 ?cursor = Inr ([], ?cursor)"
  proof -
    have "export_get ?cursor 0 0 0 = Some 6"
      by (simp add: export_get_def export_update_def hm.get_put)
    then show ?thesis using scans by (simp add: drain_series_def)
  qed
  moreover have "write_column 0 [(1, f_one), (4, f_one), (6, f_one)] r = Inr r'"
    using q(1) p(1) r'(1) by (simp add: write_column_def)
  ultimately show ?thesis
    using r(1,2) all by auto
qed

end
