(* ===== verification/Store.thy ===== *)
theory Store
  imports Query Export Consolidate
begin

text \<open>
  \<open>rondo/src/store.rs\<close>: the store, which owns the schemas, the registry and the rings of
  every schema and tier, and the files of its directory. The mapping of a slab is shared:
  the bytes of a ring's slab are the contents of its file at any moment, and
  \<open>store_files\<close> puts them back on the disk when the store is closed.
\<close>

section \<open>Data\<close>

definition METADATA_VERSION :: u32 where "METADATA_VERSION = 1"
definition METADATA_FILE :: string where "METADATA_FILE = ''meta.json''"
definition SERIES_INDEX_FILE :: string where "SERIES_INDEX_FILE = ''series_index.bin''"

record store =
  st_path :: string
  st_schemas :: "schema_config list"
  st_registry :: series_registry
  st_rings :: "ring list list"

record tier_info =
  ti_slot_count :: u32
  ti_interval_ns :: u64
  ti_oldest_timestamp :: "u64 option"
  ti_newest_timestamp :: "u64 option"
  ti_is_empty :: bool
  ti_has_wrapped :: bool

record schema_with_hash =
  sw_config :: schema_config
  sw_hash :: u64

record store_metadata =
  sm_version :: u32
  sm_schemas :: "schema_with_hash list"

text \<open>
  What the store takes from its surroundings: the operating system, the hasher, the JSON
  library for its three kinds of documents and the iteration orders of the hash maps.
\<close>

record platform =
  pf_os :: os
  pf_hasher :: schema_hasher
  pf_metadata_json :: "store_metadata json"
  pf_index_json :: "series_index json"
  pf_cursors_json :: "consolidation_cursors json"
  pf_keys :: key_order
  pf_orders :: orders
  pf_groups :: "usize list \<Rightarrow> usize list"

section \<open>Directories\<close>

definition ALREADY_EXISTS :: io_error where
  "ALREADY_EXISTS = ''File exists (os error 17)''"

text \<open>\<open>fs::create_dir_all\<close>: the directory and its ancestors exist afterwards.\<close>

definition ancestor :: "string \<Rightarrow> string \<Rightarrow> bool" where
  "ancestor p path \<longleftrightarrow> p = path \<or> take (length p + 1) path = p @ ''/''"

definition create_dir_all :: "os \<Rightarrow> disk \<Rightarrow> string \<Rightarrow> io_error + disk" where
  "create_dir_all os d path =
     (case os_mkdir os path of Some e \<Rightarrow> Inl e
      | None \<Rightarrow> if dk_text d path \<noteq> None \<or> dk_slab d path \<noteq> None then Inl ALREADY_EXISTS
          else Inr (d\<lparr>dk_dir := \<lambda>p. dk_dir d p \<or> ancestor p path\<rparr>))"

definition schema_dir :: "string \<Rightarrow> usize \<Rightarrow> string" where
  "schema_dir path schema_index = path_join path (''schema_'' @ fmt_nat schema_index)"

definition slab_path :: "string \<Rightarrow> usize \<Rightarrow> usize \<Rightarrow> string" where
  "slab_path path schema_index tier_index =
     path_join (schema_dir path schema_index) (''tier_'' @ fmt_nat tier_index @ ''.slab'')"

definition put_slab :: "slab \<Rightarrow> disk \<Rightarrow> disk" where
  "put_slab s d = d\<lparr>dk_slab := (dk_slab d)(sl_path s := Some (sl_mmap s))\<rparr>"

definition store_files :: "store \<Rightarrow> disk \<Rightarrow> disk" where
  "store_files st d = fold (\<lambda>r. put_slab (rb_slab r)) (concat (st_rings st)) d"

section \<open>Creating and opening\<close>

definition metadata_of :: "platform \<Rightarrow> schema_config list \<Rightarrow> store_metadata" where
  "metadata_of pf schemas =
     \<lparr> sm_version = METADATA_VERSION,
       sm_schemas = map (\<lambda>config. \<lparr> sw_config = config, sw_hash = stable_hash (pf_hasher pf) config \<rparr>) schemas \<rparr>"

definition create_schema_dirs :: "platform \<Rightarrow> string \<Rightarrow> usize \<Rightarrow> disk \<Rightarrow> unit res \<times> disk" where
  "create_schema_dirs pf path n d =
     fold_st (\<lambda>schema_index d. map_err (\<lambda>e. Error (Store (DirectoryAccess (schema_dir path schema_index) e)))
       (create_dir_all (pf_os pf) d (schema_dir path schema_index))) [0..<n] d"

text \<open>
  The file that \<open>Slab::create\<close> leaves behind when it fails: none if the file could not be
  created, an empty one if it could not be extended, and zeros if it could not be mapped.
\<close>

definition abandoned_file :: "os \<Rightarrow> string \<Rightarrow> usize \<Rightarrow> disk \<Rightarrow> disk" where
  "abandoned_file os path len d =
     (if os_create os path \<noteq> None then d
      else d\<lparr>dk_slab := (dk_slab d)(path := Some (if os_set_len os path len \<noteq> None then [] else replicate len 0))\<rparr>)"

definition create_tier :: "platform \<Rightarrow> string \<Rightarrow> usize \<Rightarrow> schema_config \<Rightarrow> usize \<Rightarrow> tier_config \<Rightarrow>
    disk \<Rightarrow> ring res \<times> disk" where
  "create_tier pf path schema_index schema tier_index tier d =
     (let p = slab_path path schema_index tier_index; slot_count = ucast (tier_slot_count tier) in
      case slab_create (pf_os pf) p (stable_hash (pf_hasher pf) schema) slot_count (sc_max_series schema)
             (word_of_nat (as_nanos (tc_interval tier))) of
        Inl e \<Rightarrow> (Inl e, abandoned_file (pf_os pf) p (file_size (layout_new slot_count (sc_max_series schema))) d)
      | Inr slab \<Rightarrow> (ring_new slab, put_slab slab d))"

definition create_rings :: "platform \<Rightarrow> string \<Rightarrow> schema_config list \<Rightarrow> disk \<Rightarrow> ring list list res \<times> disk" where
  "create_rings pf path schemas d =
     mapi_st (\<lambda>schema_index schema. mapi_st (create_tier pf path schema_index schema) 0 (sc_tiers schema))
       0 schemas d"

definition create_new :: "platform \<Rightarrow> string \<Rightarrow> schema_config list \<Rightarrow> disk \<Rightarrow> store res \<times> disk" where
  "create_new pf path schemas d =
     (case create_dir_all (pf_os pf) d path of
        Inl e \<Rightarrow> (err (Store (DirectoryAccess path e)), d)
      | Inr d \<Rightarrow>
      case create_schema_dirs pf path (length schemas) d of
        (Inl e, d) \<Rightarrow> (Inl e, d)
      | (Inr _, d) \<Rightarrow>
      case to_json (pf_metadata_json pf) (metadata_of pf schemas) of
        Inl e \<Rightarrow> (err (Store (MetadataSerialize e)), d)
      | Inr metadata_json \<Rightarrow>
      let metadata_path = path_join path METADATA_FILE in
      case write_text (pf_os pf) d metadata_path metadata_json of
        Inl e \<Rightarrow> (err (Store (DirectoryAccess metadata_path e)), d)
      | Inr d \<Rightarrow>
      case create_rings pf path schemas d of
        (Inl e, d) \<Rightarrow> (Inl e, d)
      | (Inr rings, d) \<Rightarrow>
      let registry = registry_new schemas in
      case registry_save (pf_os pf) (pf_index_json pf) (pf_keys pf) registry
             (path_join path SERIES_INDEX_FILE) d of
        Inl e \<Rightarrow> (Inl e, d)
      | Inr d \<Rightarrow>
          (Inr \<lparr> st_path = path, st_schemas = schemas, st_registry = registry, st_rings = rings \<rparr>, d))"

text \<open>The hashes and tier counts of the provided schemas against those of the metadata.\<close>

fun check_schemas :: "platform \<Rightarrow> usize \<Rightarrow> schema_config list \<Rightarrow> schema_with_hash list \<Rightarrow> unit res" where
  "check_schemas pf index (provided # ps) (stored # ss) =
     (let provided_hash = stable_hash (pf_hasher pf) provided in
      if provided_hash \<noteq> sw_hash stored then err (Store (SchemaMismatch (sw_hash stored) provided_hash))
      else if length (sc_tiers provided) \<noteq> length (sc_tiers (sw_config stored)) then
        err (Store (CorruptedMetadata
          (''tier count mismatch for schema '' @ fmt_nat index @ '': expected ''
            @ fmt_nat (length (sc_tiers provided)) @ '', found ''
            @ fmt_nat (length (sc_tiers (sw_config stored))))))
      else check_schemas pf (Suc index) ps ss)"
| "check_schemas pf index _ _ = Inr ()"

definition open_tier :: "platform \<Rightarrow> string \<Rightarrow> usize \<Rightarrow> disk \<Rightarrow> usize \<Rightarrow> ring res" where
  "open_tier pf path schema_index d tier_index =
     (let p = slab_path path schema_index tier_index in
      case dk_slab d p of
        None \<Rightarrow> err (SlabIo (ReadFailed p 0 NOT_FOUND))
      | Some content \<Rightarrow> rbind (slab_open (pf_os pf) content p) ring_new)"

definition open_rings :: "platform \<Rightarrow> string \<Rightarrow> schema_config list \<Rightarrow> disk \<Rightarrow> ring list list res" where
  "open_rings pf path schemas d =
     map_res (\<lambda>(schema_index, schema). map_res (open_tier pf path schema_index d) [0..<length (sc_tiers schema)])
       (enumerate 0 schemas)"

definition open_existing :: "platform \<Rightarrow> string \<Rightarrow> schema_config list \<Rightarrow> disk \<Rightarrow> store res" where
  "open_existing pf path schemas d =
     (let metadata_path = path_join path METADATA_FILE in
      rbind (map_err (\<lambda>e. Error (Store (DirectoryAccess metadata_path e))) (read_text (pf_os pf) d metadata_path))
        (\<lambda>metadata_json.
      rbind (map_err (\<lambda>e. Error (Store (MetadataSerialize e))) (of_json (pf_metadata_json pf) metadata_json))
        (\<lambda>metadata.
      if sm_version metadata \<noteq> METADATA_VERSION then
        err (Store (CorruptedMetadata
          (''unsupported metadata version: expected '' @ fmt_nat (unat METADATA_VERSION) @ '', found ''
            @ fmt_nat (unat (sm_version metadata)))))
      else if length schemas \<noteq> length (sm_schemas metadata) then
        err (Store (CorruptedMetadata
          (''schema count mismatch: expected '' @ fmt_nat (length schemas) @ '', found ''
            @ fmt_nat (length (sm_schemas metadata)) @ '' in metadata'')))
      else
        rbind (check_schemas pf 0 schemas (sm_schemas metadata)) (\<lambda>_.
        rbind (open_rings pf path schemas d) (\<lambda>rings.
        let series_index_path = path_join path SERIES_INDEX_FILE in
        rbind (if path_exists d series_index_path
               then registry_load (pf_os pf) (pf_index_json pf) d series_index_path schemas
               else Inr (registry_new schemas)) (\<lambda>registry.
        Inr \<lparr> st_path = path, st_schemas = schemas, st_registry = registry, st_rings = rings \<rparr>))))))"

definition store_open :: "platform \<Rightarrow> string \<Rightarrow> schema_config list \<Rightarrow> disk \<Rightarrow> store res \<times> disk" where
  "store_open pf path schemas d =
     (case fold_res (\<lambda>schema _. schema_validate schema) schemas () of
        Inl e \<Rightarrow> (Inl e, d)
      | Inr _ \<Rightarrow>
          if path_exists d path then (open_existing pf path schemas d, d)
          else create_new pf path schemas d)"

section \<open>Registration and recording\<close>

text \<open>The tiers of one schema with their slabs replaced.\<close>

definition put_slabs :: "ring list \<Rightarrow> slab list \<Rightarrow> ring list" where
  "put_slabs tiers slabs = map2 (\<lambda>r s. r\<lparr>rb_slab := s\<rparr>) tiers slabs"

definition store_register ::
    "platform \<Rightarrow> string \<Rightarrow> labels \<Rightarrow> store \<Rightarrow> disk \<Rightarrow> series_handle res \<times> store \<times> disk" where
  "store_register pf name labels st d =
     (case register (st_registry st) name labels of
        Inl e \<Rightarrow> (Inl e, st, d)
      | Inr (handle, registry) \<Rightarrow>
      let st = st\<lparr>st_registry := registry\<rparr>; schema_index = sh_schema_index handle in
      case nth_res (st_rings st) schema_index of
        Inl e \<Rightarrow> (Inl e, st, d)
      | Inr tiers \<Rightarrow>
      case sync_to_slabs (pf_keys pf) registry (map rb_slab tiers) of
        (r, slabs) \<Rightarrow>
          let st = st\<lparr>st_rings := (st_rings st)[schema_index := put_slabs tiers slabs]\<rparr> in
          (case r of
             Inl e \<Rightarrow> (Inl e, st, d)
           | Inr _ \<Rightarrow>
               (case registry_save (pf_os pf) (pf_index_json pf) (pf_keys pf) registry
                       (path_join (st_path st) SERIES_INDEX_FILE) d of
                  Inl e \<Rightarrow> (Inl e, st, d)
                | Inr d \<Rightarrow> (Inr handle, st, d))))"

definition update_tier :: "usize \<Rightarrow> usize \<Rightarrow> (ring \<Rightarrow> ring res) \<Rightarrow> store \<Rightarrow> store res" where
  "update_tier schema_index tier f st =
     rbind (nth_res (st_rings st) schema_index) (\<lambda>tiers.
     rbind (nth_res tiers tier) (\<lambda>ring.
     rbind (f ring) (\<lambda>ring.
     Inr (st\<lparr>st_rings := (st_rings st)[schema_index := tiers[tier := ring]]\<rparr>))))"

text \<open>
  A method of one ring, run in place: \<open>self.rings[schema_index][tier].f(..)\<close>. The ring that it
  leaves behind stays in the store, whatever the outcome.
\<close>

definition run_tier :: "usize \<Rightarrow> usize \<Rightarrow> (ring \<Rightarrow> unit res \<times> ring) \<Rightarrow> store \<Rightarrow> unit res \<times> store" where
  "run_tier schema_index tier f st =
     (case nth_res (st_rings st) schema_index of Inl e \<Rightarrow> (Inl e, st) | Inr tiers \<Rightarrow>
      case nth_res tiers tier of Inl e \<Rightarrow> (Inl e, st) | Inr ring \<Rightarrow>
      case f ring of (r, ring) \<Rightarrow>
        (r, st\<lparr>st_rings := (st_rings st)[schema_index := tiers[tier := ring]]\<rparr>))"

definition store_record_run :: "series_handle \<Rightarrow> f64 \<Rightarrow> u64 \<Rightarrow> store \<Rightarrow> unit res \<times> store" where
  "store_record_run handle v timestamp_ns st =
     run_tier (sh_schema_index handle) 0
       (\<lambda>ring. ring_write_run ring (sh_column handle) v timestamp_ns) st"

text \<open>The store after an accepted record, or the fault; \<open>store_record_run\<close> has what a refused one leaves.\<close>

definition store_record :: "series_handle \<Rightarrow> f64 \<Rightarrow> u64 \<Rightarrow> store \<Rightarrow> store res" where
  "store_record handle v timestamp_ns st =
     (case store_record_run handle v timestamp_ns st of (r, st') \<Rightarrow> outcome r st')"

lemma run_tier_outcome:
  assumes "\<And>ring. g ring = (case f ring of (r, ring') \<Rightarrow> outcome r ring')"
  shows "(case run_tier i j f st of (r, st') \<Rightarrow> outcome r st') = update_tier i j g st"
  by (auto simp: run_tier_def update_tier_def assms outcome_def split: sum.splits prod.splits)

text \<open>Unless it panics, a method that leaves a refused ring alone is its value view.\<close>

lemma run_tier_agrees:
  assumes "\<And>ring. g ring = (case f ring of (r, ring') \<Rightarrow> outcome r ring')"
    and "\<And>ring e. fst (f ring) = err e \<Longrightarrow> snd (f ring) = ring"
  shows "update_tier i j g st = Inr st' \<Longrightarrow> run_tier i j f st = (Inr (), st')"
    and "update_tier i j g st = err e \<Longrightarrow> run_tier i j f st = (err e, st)"
proof -
  show "run_tier i j f st = (Inr (), st')" if u: "update_tier i j g st = Inr st'"
  proof -
    obtain tiers ring ring' where at: "nth_res (st_rings st) i = (Inr tiers :: ring list res)" "nth_res tiers j = (Inr ring :: ring res)"
        and g: "g ring = Inr ring'" "st' = st\<lparr>st_rings := (st_rings st)[i := tiers[j := ring']]\<rparr>"
      using u by (auto simp: update_tier_def rbind_eq_Inr)
    have "f ring = (Inr (), ring')"
      using g(1) assms(1) [of ring] by (cases "f ring"; cases "fst (f ring)") auto
    then show ?thesis using at g(2) by (simp add: run_tier_def)
  qed
  show "run_tier i j f st = (err e, st)" if u: "update_tier i j g st = err e"
  proof -
    obtain tiers ring where at: "nth_res (st_rings st) i = (Inr tiers :: ring list res)" "nth_res tiers j = (Inr ring :: ring res)"
      using u by (auto simp: update_tier_def rbind_def nth_res_def split: sum.splits if_splits)
    obtain r ring' where f: "f ring = (r, ring')" by force
    then have "r = err e" using u at by (auto simp: update_tier_def assms(1) outcome_def split: sum.splits)
    moreover from this have "ring' = ring" using assms(2) [of ring e] f by simp
    ultimately show ?thesis
      using at f by (auto simp: run_tier_def nth_res_def split: if_splits)
  qed
qed

lemma store_record_tier:
  "store_record h v t st = update_tier (sh_schema_index h) 0 (\<lambda>ring. ring_write ring (sh_column h) v t) st"
  unfolding store_record_def store_record_run_def by (rule run_tier_outcome) (rule ring_write_run_agrees)

definition group_entries :: "(series_handle \<times> f64) list \<Rightarrow> (usize, (u32 \<times> f64) list) hash_map" where
  "group_entries entries =
     fold (\<lambda>(handle, v) groups. hm_insert (sh_schema_index handle)
         ((case hm_get groups (sh_schema_index handle) of None \<Rightarrow> [] | Some es \<Rightarrow> es) @ [(sh_column handle, v)])
         groups)
       entries []"

text \<open>The batches written before a failing one stay written.\<close>

definition store_record_batch ::
    "platform \<Rightarrow> (series_handle \<times> f64) list \<Rightarrow> u64 \<Rightarrow> store \<Rightarrow> unit res \<times> store" where
  "store_record_batch pf entries timestamp_ns st =
     (let schema_groups = group_entries entries in
      run_all (\<lambda>schema_index. run_tier schema_index 0
          (\<lambda>ring. ring_write_batch_run ring (case hm_get schema_groups schema_index of None \<Rightarrow> [] | Some es \<Rightarrow> es)
             timestamp_ns))
        (pf_groups pf (hm_keys schema_groups)) st)"

section \<open>Accessors\<close>

definition store_series_count :: "store \<Rightarrow> usize" where
  "store_series_count st = total_series_count (st_registry st)"

definition tier_count :: "store \<Rightarrow> usize \<Rightarrow> usize" where
  "tier_count st schema_index =
     (if schema_index < length (st_rings st) then length (st_rings st ! schema_index) else 0)"

definition store_tier_info :: "store \<Rightarrow> usize \<Rightarrow> usize \<Rightarrow> tier_info option res" where
  "store_tier_info st schema_index tier_index =
     (if schema_index < length (st_rings st) \<and> tier_index < length (st_rings st ! schema_index) then
        let ring = st_rings st ! schema_index ! tier_index in
        rbind (ring_oldest_timestamp ring) (\<lambda>oldest.
        rbind (ring_newest_timestamp ring) (\<lambda>newest.
        rbind (ring_is_empty ring) (\<lambda>empty.
        Inr (Some \<lparr> ti_slot_count = slab_slot_count (rb_slab ring),
                    ti_interval_ns = slab_interval_ns (rb_slab ring), ti_oldest_timestamp = oldest,
                    ti_newest_timestamp = newest, ti_is_empty = empty,
                    ti_has_wrapped = ring_has_wrapped ring \<rparr>))))
      else Inr None)"

definition schema_series_count :: "store \<Rightarrow> usize \<Rightarrow> u32" where
  "schema_series_count st schema_index = registry_series_count (st_registry st) schema_index"

definition store_handles :: "platform \<Rightarrow> store \<Rightarrow> series_handle list" where
  "store_handles pf st = handles (pf_keys pf) (st_registry st)"

definition store_series_info :: "platform \<Rightarrow> store \<Rightarrow> series_handle \<Rightarrow> (string \<times> labels) option" where
  "store_series_info pf st handle =
     map_option (\<lambda>info. (si_name info, si_labels info)) (get_series_info (pf_keys pf) (st_registry st) handle)"

section \<open>Queries\<close>

definition store_query :: "store \<Rightarrow> series_handle \<Rightarrow> usize \<Rightarrow> u64 \<Rightarrow> u64 \<Rightarrow> query_result res" where
  "store_query st handle tier start_ns end_ns =
     rbind (nth_res (st_schemas st) (sh_schema_index handle)) (\<lambda>schema.
     if tier \<ge> length (sc_tiers schema) then err (Query (InvalidTier tier (length (sc_tiers schema))))
     else if start_ns \<ge> end_ns then err (Query (InvalidTimeRange start_ns end_ns))
     else
       rbind (nth_res (st_rings st) (sh_schema_index handle)) (\<lambda>tiers.
       rbind (nth_res tiers tier) (\<lambda>ring.
       rbind (ring_oldest_timestamp ring) (\<lambda>oldest.
       rbind (ring_newest_timestamp ring) (\<lambda>newest.
       let (_, incomplete) = analyze_coverage oldest newest start_ns end_ns in
       rbind (ring_read ring (sh_column handle) start_ns end_ns) (\<lambda>iterator.
       Inr (query_result_new iterator tier (oldest, newest) (start_ns, end_ns) incomplete)))))))"

text \<open>The loop over the tiers: the tier selected so far and whether it covers the range.\<close>

fun select_tier :: "ring list list \<Rightarrow> usize \<Rightarrow> u64 \<Rightarrow> u64 \<Rightarrow> usize list \<Rightarrow> usize \<Rightarrow> (usize \<times> bool) res" where
  "select_tier rings schema_index start_ns end_ns [] selected = Inr (selected, False)"
| "select_tier rings schema_index start_ns end_ns (tier_index # tier_indices) selected =
     rbind (nth_res rings schema_index) (\<lambda>tiers.
     rbind (nth_res tiers tier_index) (\<lambda>ring.
     rbind (ring_oldest_timestamp ring) (\<lambda>oldest.
     rbind (ring_newest_timestamp ring) (\<lambda>newest.
     if fst (analyze_coverage oldest newest start_ns end_ns) then Inr (tier_index, True)
     else select_tier rings schema_index start_ns end_ns tier_indices
            (if oldest \<noteq> None \<and> newest \<noteq> None then tier_index else selected)))))"

definition store_query_auto :: "store \<Rightarrow> series_handle \<Rightarrow> u64 \<Rightarrow> u64 \<Rightarrow> query_result res" where
  "store_query_auto st handle start_ns end_ns =
     (if start_ns \<ge> end_ns then err (Query (InvalidTimeRange start_ns end_ns))
      else
        rbind (nth_res (st_schemas st) (sh_schema_index handle)) (\<lambda>schema.
        rbind (select_tier (st_rings st) (sh_schema_index handle) start_ns end_ns
                 [0..<length (sc_tiers schema)] 0) (\<lambda>(selected_tier, best_coverage).
        if \<not> best_coverage \<and> sc_tiers schema = [] then err (Query (InvalidTier 0 0))
        else store_query st handle selected_tier start_ns end_ns)))"

section \<open>Consolidation and draining\<close>

definition store_consolidate :: "platform \<Rightarrow> store \<Rightarrow> disk \<Rightarrow> usize res \<times> store \<times> disk" where
  "store_consolidate pf st d =
     (case engine_new (pf_os pf) (pf_cursors_json pf) d (st_path st) (st_schemas st) of
        Inl e \<Rightarrow> (Inl e, st, d)
      | Inr engine \<Rightarrow>
          (case engine_consolidate (pf_os pf) (pf_cursors_json pf) (pf_orders pf) engine (st_rings st) d of
             (r, _, rings, d) \<Rightarrow> (r, st\<lparr>st_rings := rings\<rparr>, d)))"

fun drain_schemas ::
    "ring list list \<Rightarrow> usize \<Rightarrow> series_handle list \<Rightarrow> usize list \<Rightarrow> export_cursor \<Rightarrow>
       series_export list res \<times> export_cursor" where
  "drain_schemas rings tier hs [] cursor = (Inr [], cursor)"
| "drain_schemas rings tier hs (schema_index # is) cursor =
     (let schema_handles = filter (\<lambda>h. sh_schema_index h = schema_index) hs in
      if schema_handles = [] then drain_schemas rings tier hs is cursor
      else case nth_res rings schema_index of
        Inl e \<Rightarrow> (Inl e, cursor)
      | Inr tiers \<Rightarrow>
          if tier \<ge> length tiers then drain_schemas rings tier hs is cursor
          else (case drain_tier rings schema_index tier schema_handles cursor of
            (Inl e, cursor) \<Rightarrow> (Inl e, cursor)
          | (Inr exports, cursor) \<Rightarrow>
              (case drain_schemas rings tier hs is cursor of
                 (Inl e, cursor) \<Rightarrow> (Inl e, cursor)
               | (Inr rest, cursor) \<Rightarrow> (Inr (exports @ rest), cursor))))"

definition store_drain :: "platform \<Rightarrow> store \<Rightarrow> usize \<Rightarrow> export_cursor \<Rightarrow> series_export list res \<times> export_cursor" where
  "store_drain pf st tier cursor =
     drain_schemas (st_rings st) tier (store_handles pf st) [0..<length (st_schemas st)] cursor"

end
