(* ===== verification/Store_Inv.thy ===== *)
theory Store_Inv
  imports Store
begin

text \<open>
  The invariant of a store: the registry is consistent, every schema has one ring per tier,
  and every ring satisfies the ring invariant with the geometry its tier asks for. Creation
  establishes it and the operations that write keep it.
\<close>

section \<open>Paths\<close>

lemma slash_not_in_number: "CHR ''/'' \<notin> set (fmt_nat n)"
  using fmt_nat_digits [of n] by (auto simp: list_all_iff is_digit_def)

lemma last_fmt_nat: "last (fmt_nat n) \<noteq> CHR ''/''"
  using slash_not_in_number [of n] last_in_set [OF fmt_nat_nonempty] by metis

lemma schema_dir_shape: "\<exists>base. \<forall>i. schema_dir path i = base @ ''schema_'' @ fmt_nat i"
  by (auto simp: schema_dir_def path_join_def)

lemma slab_path_inject: "slab_path path i j = slab_path path i' j' \<longleftrightarrow> i = i' \<and> j = j'"
proof
  assume eq: "slab_path path i j = slab_path path i' j'"
  obtain base where base: "\<And>i. schema_dir path i = base @ ''schema_'' @ fmt_nat i"
    using schema_dir_shape by blast
  have shape: "slab_path path i j = base @ ''schema_'' @ fmt_nat i @ CHR ''/'' # ''tier_'' @ fmt_nat j @ ''.slab''"
    for i j
    by (simp add: slab_path_def path_join_def base fmt_nat_nonempty last_fmt_nat)
  have "fmt_nat i @ CHR ''/'' # ''tier_'' @ fmt_nat j @ ''.slab''
      = fmt_nat i' @ CHR ''/'' # ''tier_'' @ fmt_nat j' @ ''.slab''"
    using eq by (simp add: shape)
  then have "split_once (CHR ''/'') (fmt_nat i @ CHR ''/'' # ''tier_'' @ fmt_nat j @ ''.slab'')
      = split_once (CHR ''/'') (fmt_nat i' @ CHR ''/'' # ''tier_'' @ fmt_nat j' @ ''.slab'')"
    by (simp only:)
  then show "i = i' \<and> j = j'"
    by (simp add: split_once_append slash_not_in_number fmt_nat_inject)
qed simp

section \<open>The invariant\<close>

definition tier_ring :: "schema_config \<Rightarrow> tier_config \<Rightarrow> string \<Rightarrow> ring \<Rightarrow> bool" where
  "tier_ring schema tier path r \<longleftrightarrow>
     ring_inv r \<and> tb_cols (rb_table r) = sc_max_series schema \<and>
     tb_slots (rb_table r) = ucast (tier_slot_count tier) \<and> unat (tb_slots (rb_table r)) \<le> 10 ^ 9 \<and>
     tb_interval (rb_table r) = word_of_nat (as_nanos (tc_interval tier)) \<and> sl_path (rb_slab r) = path"

definition rings_inv :: "string \<Rightarrow> schema_config list \<Rightarrow> ring list list \<Rightarrow> bool" where
  "rings_inv path schemas rings \<longleftrightarrow> length rings = length schemas \<and>
     (\<forall>i < length schemas. sc_tiers (schemas ! i) \<noteq> [] \<and>
        length (rings ! i) = length (sc_tiers (schemas ! i)) \<and>
        (\<forall>j < length (sc_tiers (schemas ! i)).
           tier_ring (schemas ! i) (sc_tiers (schemas ! i) ! j) (slab_path path i j) (rings ! i ! j)))"

definition store_inv :: "store \<Rightarrow> bool" where
  "store_inv st \<longleftrightarrow> reg_inv (st_registry st) \<and> rg_schemas (st_registry st) = st_schemas st \<and>
     rings_inv (st_path st) (st_schemas st) (st_rings st)"

text \<open>A handle that the store has given out.\<close>

definition registered :: "store \<Rightarrow> series_handle \<Rightarrow> bool" where
  "registered st h \<longleftrightarrow> (\<exists>name labels. get_handle (st_registry st) name labels = Some h)"

lemma registered_bounds:
  assumes "store_inv st" and "registered st h"
  shows "sh_schema_index h < length (st_schemas st) \<and>
    sh_column h < sc_max_series (st_schemas st ! sh_schema_index h)"
  using assms get_handle_bounds [of "st_registry st"] by (auto simp: store_inv_def registered_def)

lemma rings_inv_at:
  assumes "rings_inv path schemas rings" and "i < length schemas"
  shows "i < length rings" and "sc_tiers (schemas ! i) \<noteq> []" and "length (rings ! i) = length (sc_tiers (schemas ! i))"
    and "j < length (sc_tiers (schemas ! i)) \<Longrightarrow>
      tier_ring (schemas ! i) (sc_tiers (schemas ! i) ! j) (slab_path path i j) (rings ! i ! j)"
  using assms by (auto simp: rings_inv_def)

lemma rings_inv_update:
  assumes "rings_inv path schemas rings" and "i < length schemas" and "j < length (sc_tiers (schemas ! i))"
    and "tier_ring (schemas ! i) (sc_tiers (schemas ! i) ! j) (slab_path path i j) r"
  shows "rings_inv path schemas (rings[i := (rings ! i)[j := r]])"
  using assms by (auto simp: rings_inv_def nth_list_update)

section \<open>Writes keep the geometry\<close>

lemma put_path:
  "write_timestamp s i t = Inr s' \<Longrightarrow> sl_path s' = sl_path s"
  "write_value s i c v = Inr s' \<Longrightarrow> sl_path s' = sl_path s"
  "set_series_column s k c = Inr s' \<Longrightarrow> sl_path s' = sl_path s"
  "sl_path (set_write_cursor s p) = sl_path s"
  "sl_path (set_series_count s n) = sl_path s"
  by (auto simp: write_timestamp_def write_value_def set_series_column_def set_write_cursor_def
      set_series_count_def Let_def rbind_eq_Inr)

lemma write_values_path:
  assumes "fold_res (\<lambda>(c, v) s. write_value s i c v) es s = Inr s'"
  shows "sl_path s' = sl_path s"
  using fold_res_invariant [where P = "\<lambda>s'. sl_path s' = sl_path s", OF _ _ assms] put_path(2) by fastforce

lemma ring_write_batch_path:
  assumes "ring_write_batch r es t = Inr r'"
  shows "sl_path (rb_slab r') = sl_path (rb_slab r)"
proof -
  obtain slot s1 s2 where w: "write_timestamp (rb_slab r) slot t = Inr s1"
      "fold_res (\<lambda>(c, v) s. write_value s slot c v) es s1 = Inr s2"
      "rb_slab r' = set_write_cursor s2 slot \<or> rb_slab r' = s2"
    using assms by (auto simp: ring_write_batch_def rbind_eq_Inr Let_def split: if_splits)
  show ?thesis
    using w(3) put_path(1) [OF w(1)] write_values_path [OF w(2)] put_path(4) [of s2 slot] by auto
qed

lemma tier_ring_write:
  assumes tr: "tier_ring schema tier path r" and "ring_write_batch r es t = Inr r'"
    and "ring_inv r'" and "rb_table r' = tb_write es t (rb_table r)"
  shows "tier_ring schema tier path r'"
  using assms ring_write_batch_path [OF assms(2)] by (auto simp: tier_ring_def tb_write_config)

text \<open>What a batch does on a ring of the store: the two rejections, or a table write.\<close>

lemma tier_batch:
  assumes "tier_ring schema tier path r" and "list_all (\<lambda>(c, v). c < sc_max_series schema) es"
  shows "t = 0 \<and> ring_write_batch r es t = err (Record (InvalidTimestamp t)) \<or>
    t \<noteq> 0 \<and> (\<exists>v. v \<in> snd ` set es \<and> is_infinite v \<and>
      ring_write_batch r es t = err (Record (InvalidValue v ''infinite values are not allowed''))) \<or>
    t \<noteq> 0 \<and> list_all (\<lambda>(c, v). \<not> is_infinite v) es \<and> (\<exists>r'. ring_write_batch r es t = Inr r' \<and>
      tier_ring schema tier path r' \<and> rb_table r' = tb_write es t (rb_table r))"
proof (cases "t = 0")
  case False
  show ?thesis
  proof (cases "list_all (\<lambda>(c, v). \<not> is_infinite v) es")
    case True
    have "ring_inv r" "list_all (\<lambda>(c, v). c < tb_cols (rb_table r)) es"
      using assms by (simp_all add: tier_ring_def)
    then show ?thesis
      using ring_write_batch_step [OF _ False True] tier_ring_write [OF assms(1)] False True by blast
  next
    case inf: False
    then have "\<exists>v. v \<in> snd ` set es \<and> is_infinite v \<and>
        check_finite es = err (Record (InvalidValue v ''infinite values are not allowed''))"
      by (induction es rule: check_finite.induct) (force split: if_splits)+
    then show ?thesis using False by (auto simp: ring_write_batch_def)
  qed
qed (simp add: ring_write_batch_def)

lemma tier_write:
  assumes "tier_ring schema tier path r" and "c < sc_max_series schema"
  shows "ring_write r c v t =
      (if is_infinite v then err (Record (InvalidValue v ''infinite values are not allowed''))
       else if t = 0 then err (Record (InvalidTimestamp t)) else ring_write r c v t)"
    and "\<not> is_infinite v \<Longrightarrow> t \<noteq> 0 \<Longrightarrow> \<exists>r'. ring_write r c v t = Inr r' \<and> tier_ring schema tier path r' \<and>
      rb_table r' = tb_write [(c, v)] t (rb_table r)"
proof -
  show "ring_write r c v t =
      (if is_infinite v then err (Record (InvalidValue v ''infinite values are not allowed''))
       else if t = 0 then err (Record (InvalidTimestamp t)) else ring_write r c v t)"
    by (simp add: ring_write_def)
  assume "\<not> is_infinite v" "t \<noteq> 0"
  then show "\<exists>r'. ring_write r c v t = Inr r' \<and> tier_ring schema tier path r' \<and>
      rb_table r' = tb_write [(c, v)] t (rb_table r)"
    using tier_batch [OF assms(1), of "[(c, v)]" t] assms(2) by (auto simp: ring_write_is_batch)
qed

lemma tier_write_ok:
  assumes "tier_ring schema tier path r" and "c < sc_max_series schema" and "ring_write r c v t = Inr r'"
  shows "tier_ring schema tier path r' \<and> \<not> is_infinite v \<and> t \<noteq> 0 \<and>
    rb_table r' = tb_write [(c, v)] t (rb_table r)"
proof -
  have "\<not> is_infinite v" "t \<noteq> 0" using assms(3) by (auto simp: ring_write_def split: if_splits)
  then show ?thesis using tier_write(2) [OF assms(1,2)] assms(3) by fastforce
qed

section \<open>Recording\<close>

lemma update_tier_at:
  assumes "rings_inv path schemas (st_rings st)" and "i < length schemas" and "j < length (sc_tiers (schemas ! i))"
  shows "update_tier i j f st = rbind (f (st_rings st ! i ! j))
    (\<lambda>r. Inr (st\<lparr>st_rings := (st_rings st)[i := (st_rings st ! i)[j := r]]\<rparr>))"
  using rings_inv_at [OF assms(1,2)] assms(3) by (simp add: update_tier_def)

lemma store_record_inv:
  assumes inv: "store_inv st" and h: "registered st h" and ok: "store_record h v t st = Inr st'"
  shows "store_inv st'"
proof -
  let ?i = "sh_schema_index h"
  have ri: "rings_inv (st_path st) (st_schemas st) (st_rings st)" using inv by (simp add: store_inv_def)
  have b: "?i < length (st_schemas st)" "sh_column h < sc_max_series (st_schemas st ! ?i)"
    using registered_bounds [OF inv h] by auto
  have j: "0 < length (sc_tiers (st_schemas st ! ?i))" using rings_inv_at(2) [OF ri b(1)] by simp
  obtain r' where r': "ring_write (st_rings st ! ?i ! 0) (sh_column h) v t = Inr r'"
      "st' = st\<lparr>st_rings := (st_rings st)[?i := (st_rings st ! ?i)[0 := r']]\<rparr>"
    using ok update_tier_at [OF ri b(1) j] by (auto simp: store_record_tier rbind_eq_Inr)
  have "tier_ring (st_schemas st ! ?i) (sc_tiers (st_schemas st ! ?i) ! 0) (slab_path (st_path st) ?i 0) r'"
    using tier_write_ok [OF rings_inv_at(4) [OF ri b(1) j] b(2) r'(1)] by simp
  then show ?thesis
    using inv rings_inv_update [OF ri b(1) j] by (simp add: store_inv_def r'(2))
qed

end
