(* ===== verification/Store_Queries.thy ===== *)
theory Store_Queries
  imports Store_Inv
begin

text \<open>
  What the reading and recording operations of a store return, in terms of the tables its
  rings refine to: the errors of each, and the samples a query gives.
\<close>

abbreviation tier_table :: "store \<Rightarrow> series_handle \<Rightarrow> usize \<Rightarrow> table" where
  "tier_table st h tier \<equiv> rb_table (st_rings st ! sh_schema_index h ! tier)"

abbreviation tiers_of :: "store \<Rightarrow> series_handle \<Rightarrow> tier_config list" where
  "tiers_of st h \<equiv> sc_tiers (st_schemas st ! sh_schema_index h)"

lemma store_tier:
  assumes "store_inv st" and "registered st h" and "tier < length (tiers_of st h)"
  shows "sh_schema_index h < length (st_schemas st)" and "sh_schema_index h < length (st_rings st)"
    and "tier < length (st_rings st ! sh_schema_index h)"
    and "ring_inv (st_rings st ! sh_schema_index h ! tier)" and "unat (tb_slots (tier_table st h tier)) \<le> 2 ^ 31"
    and "sh_column h < tb_cols (tier_table st h tier)"
proof -
  have ri: "rings_inv (st_path st) (st_schemas st) (st_rings st)" using assms(1) by (simp add: store_inv_def)
  have b: "sh_schema_index h < length (st_schemas st)"
      "sh_column h < sc_max_series (st_schemas st ! sh_schema_index h)"
    using registered_bounds [OF assms(1,2)] by auto
  note at = rings_inv_at [OF ri b(1)]
  show "sh_schema_index h < length (st_schemas st)" "sh_schema_index h < length (st_rings st)"
    "tier < length (st_rings st ! sh_schema_index h)"
    using b(1) at(1,3) assms(3) by auto
  show "ring_inv (st_rings st ! sh_schema_index h ! tier)" "unat (tb_slots (tier_table st h tier)) \<le> 2 ^ 31"
    "sh_column h < tb_cols (tier_table st h tier)"
    using at(4) [OF assms(3)] b(2) by (auto simp: tier_ring_def)
qed

section \<open>Queries\<close>

definition samples :: "store \<Rightarrow> series_handle \<Rightarrow> usize \<Rightarrow> u64 \<Rightarrow> u64 \<Rightarrow> (u64 \<times> f64) list" where
  "samples st h tier start end' = filter (in_range start end') (ring_contents (tier_table st h tier) (sh_column h))"

definition covered_range :: "table \<Rightarrow> u64 option \<times> u64 option" where
  "covered_range tb = (if used_timestamps tb = [] then (None, None)
     else (Some (hd (used_timestamps tb)), Some (last (used_timestamps tb))))"

lemma tier_scans:
  assumes "store_inv st" and "registered st h" and "tier < length (tiers_of st h)"
  shows "ring_oldest_timestamp (st_rings st ! sh_schema_index h ! tier) = Inr (fst (covered_range (tier_table st h tier)))"
    and "ring_newest_timestamp (st_rings st ! sh_schema_index h ! tier) = Inr (snd (covered_range (tier_table st h tier)))"
  using ring_oldest_newest_scans [OF store_tier(4,5) [OF assms]] by (auto simp: covered_range_def)

lemma samples_length: "length (samples st h tier s e) \<le> unat (tb_slots (tier_table st h tier))"
  unfolding samples_def by (rule order_trans [OF length_filter_le ring_contents_length])

lemma store_query_ok:
  assumes inv: "store_inv st" "registered st h" and "tier < length (tiers_of st h)" and "s < e"
  shows "\<exists>q. store_query st h tier s e = Inr q \<and> tier_used q = tier \<and> requested_range q = (s, e) \<and>
    available_range q = covered_range (tier_table st h tier) \<and>
    (may_be_incomplete q \<longleftrightarrow> (case fst (covered_range (tier_table st h tier)) of None \<Rightarrow> True | Some t \<Rightarrow> s < t)) \<and>
    collect_all q = Inr (samples st h tier s e) \<and> query_count q = Inr (length (samples st h tier s e))"
proof -
  note t = store_tier [OF assms(1-3)]
  let ?r = "st_rings st ! sh_schema_index h ! tier"
  obtain it where it: "ring_read ?r (sh_column h) s e = Inr it" "iter_collect it = Inr (samples st h tier s e)"
    using ring_read_ok [OF t(4,6) assms(4)] unfolding samples_def by blast
  have "length (samples st h tier s e) < 2 ^ 64"
    using samples_length [of st h tier s e] t(5) by simp
  then have count: "iter_count it 0 = Inr (length (samples st h tier s e))"
    using iter_count_collect [OF it(2), of 0] by simp
  obtain inc where inc: "analyze_coverage (fst (covered_range (rb_table ?r))) (snd (covered_range (rb_table ?r))) s e
      = (fst (analyze_coverage (fst (covered_range (rb_table ?r))) (snd (covered_range (rb_table ?r))) s e), inc)"
      "inc \<longleftrightarrow> (case fst (covered_range (rb_table ?r)) of None \<Rightarrow> True | Some t \<Rightarrow> s < t)"
    by (auto simp: analyze_coverage_def covered_range_def)
  have "store_query st h tier s e = Inr (query_result_new it tier (covered_range (rb_table ?r)) (s, e) inc)"
    using t(1-3) assms(3,4) it(1) tier_scans [OF assms(1-3)] inc(1)
    by (simp add: store_query_def not_le case_prod_beta) (metis inc(1) snd_conv)
  then show ?thesis
    using it(2) count inc(2)
    by (simp add: query_result_new_def tier_used_def requested_range_def available_range_def may_be_incomplete_def
        collect_all_def query_count_def)
qed

text \<open>
  C4. A query of a registered series: an invalid tier is reported first, then an empty
  time range; every other query succeeds, names its tier and range, yields exactly the
  stored samples of the series in that tier and range, and is marked as possibly incomplete
  exactly when the tier is empty or the range starts before its oldest timestamp.
\<close>

theorem query_result_spec:
  assumes "store_inv st" and "registered st h"
  shows "(tier \<ge> length (tiers_of st h) \<longrightarrow>
      store_query st h tier s e = err (Query (InvalidTier tier (length (tiers_of st h))))) \<and>
    (tier < length (tiers_of st h) \<and> s \<ge> e \<longrightarrow>
      store_query st h tier s e = err (Query (InvalidTimeRange s e))) \<and>
    (tier < length (tiers_of st h) \<and> s < e \<longrightarrow>
      (\<exists>q. store_query st h tier s e = Inr q \<and> tier_used q = tier \<and> requested_range q = (s, e) \<and>
        collect_all q = Inr (samples st h tier s e) \<and>
        (may_be_incomplete q \<longleftrightarrow> used_timestamps (tier_table st h tier) = [] \<or>
           s < hd (used_timestamps (tier_table st h tier)))))"
proof -
  have b: "sh_schema_index h < length (st_schemas st)" using registered_bounds [OF assms] by simp
  have 1: "tier \<ge> length (tiers_of st h) \<Longrightarrow>
      store_query st h tier s e = err (Query (InvalidTier tier (length (tiers_of st h))))"
    using b by (simp add: store_query_def)
  have 2: "tier < length (tiers_of st h) \<Longrightarrow> s \<ge> e \<Longrightarrow> store_query st h tier s e = err (Query (InvalidTimeRange s e))"
    using b by (simp add: store_query_def)
  have 3: "\<exists>q. store_query st h tier s e = Inr q \<and> tier_used q = tier \<and> requested_range q = (s, e) \<and>
        collect_all q = Inr (samples st h tier s e) \<and>
        (may_be_incomplete q \<longleftrightarrow> used_timestamps (tier_table st h tier) = [] \<or>
           s < hd (used_timestamps (tier_table st h tier)))"
    if t: "tier < length (tiers_of st h)" "s < e"
    using store_query_ok [OF assms t] by (auto simp: covered_range_def split: if_splits)
  show ?thesis using 1 2 3 by blast
qed

text \<open>
  C39. Consuming a query result always ends, after at most as many samples as the tier has
  slots, and \<open>count\<close> returns the number of samples that \<open>collect_all\<close> would.
\<close>

theorem query_terminates:
  assumes "store_inv st" and "registered st h" and "store_query st h tier s e = Inr q"
  shows "\<exists>ps. collect_all q = Inr ps \<and> query_count q = Inr (length ps) \<and>
    length ps \<le> unat (tb_slots (tier_table st h tier))"
proof -
  have b: "sh_schema_index h < length (st_schemas st)" using registered_bounds [OF assms(1,2)] by simp
  have t: "tier < length (tiers_of st h)" "s < e"
    using assms(3) b by (auto simp: store_query_def not_le split: if_splits)
  show ?thesis
    using store_query_ok [OF assms(1,2) t] assms(3) samples_length [of st h tier s e] by auto
qed

section \<open>Tier selection\<close>

definition covers :: "table \<Rightarrow> u64 \<Rightarrow> u64 \<Rightarrow> bool" where
  "covers tb s e \<longleftrightarrow> used_timestamps tb \<noteq> [] \<and> hd (used_timestamps tb) \<le> s \<and> e \<le> last (used_timestamps tb)"

text \<open>The first tier that covers the range, otherwise the last one with data, otherwise tier 0.\<close>

definition best_tier :: "store \<Rightarrow> series_handle \<Rightarrow> u64 \<Rightarrow> u64 \<Rightarrow> usize" where
  "best_tier st h s e =
     (let n = length (tiers_of st h) in
      case find (\<lambda>j. covers (tier_table st h j) s e) [0..<n] of
        Some j \<Rightarrow> j
      | None \<Rightarrow> (case find (\<lambda>j. used_timestamps (tier_table st h j) \<noteq> []) (rev [0..<n]) of
          Some j \<Rightarrow> j | None \<Rightarrow> 0))"

lemma find_rev_cons:
  "find P (rev (x # xs)) = (case find P (rev xs) of Some y \<Rightarrow> Some y | None \<Rightarrow> if P x then Some x else None)"
  by (simp add: find_snoc)

lemma select_tier_ok:
  assumes inv: "store_inv st" "registered st h" and "\<forall>j \<in> set js. j < length (tiers_of st h)"
  shows "\<exists>b. select_tier (st_rings st) (sh_schema_index h) s e js k =
    Inr (case find (\<lambda>j. covers (tier_table st h j) s e) js of
        Some j \<Rightarrow> j
      | None \<Rightarrow> (case find (\<lambda>j. used_timestamps (tier_table st h j) \<noteq> []) (rev js) of
          Some j \<Rightarrow> j | None \<Rightarrow> k), b)"
  using assms(3)
proof (induction js arbitrary: k)
  case (Cons j js)
  have j: "j < length (tiers_of st h)" using Cons.prems by simp
  note t = store_tier [OF inv j]
  have cov: "fst (analyze_coverage (fst (covered_range (tier_table st h j))) (snd (covered_range (tier_table st h j))) s e)
      \<longleftrightarrow> covers (tier_table st h j) s e"
    by (auto simp: analyze_coverage_def covered_range_def covers_def)
  have data: "fst (covered_range (tier_table st h j)) \<noteq> None \<and> snd (covered_range (tier_table st h j)) \<noteq> None
      \<longleftrightarrow> used_timestamps (tier_table st h j) \<noteq> []"
    by (simp add: covered_range_def)
  show ?case
  proof (cases "covers (tier_table st h j) s e")
    case True
    then show ?thesis
      using t(2,3) tier_scans [OF inv j] cov by auto
  next
    case False
    have step: "select_tier (st_rings st) (sh_schema_index h) s e (j # js) k =
        select_tier (st_rings st) (sh_schema_index h) s e js
          (if used_timestamps (tier_table st h j) \<noteq> [] then j else k)"
      using False t(2,3) tier_scans [OF inv j] cov data by auto
    obtain b where "select_tier (st_rings st) (sh_schema_index h) s e js
          (if used_timestamps (tier_table st h j) \<noteq> [] then j else k) =
        Inr (case find (\<lambda>j. covers (tier_table st h j) s e) js of
            Some j \<Rightarrow> j
          | None \<Rightarrow> (case find (\<lambda>j. used_timestamps (tier_table st h j) \<noteq> []) (rev js) of
              Some j \<Rightarrow> j | None \<Rightarrow> (if used_timestamps (tier_table st h j) \<noteq> [] then j else k)), b)"
      using Cons.IH [of "if used_timestamps (tier_table st h j) \<noteq> [] then j else k"] Cons.prems by auto
    then show ?thesis
      unfolding step using False
      by (auto simp: find_snoc split: option.splits)
  qed
qed auto

lemma query_auto_ok:
  assumes "store_inv st" and "registered st h"
  shows "store_query_auto st h s e =
      (if s \<ge> e then err (Query (InvalidTimeRange s e)) else store_query st h (best_tier st h s e) s e)"
    and "best_tier st h s e < length (tiers_of st h)"
proof -
  let ?n = "length (tiers_of st h)"
  have ri: "rings_inv (st_path st) (st_schemas st) (st_rings st)" using assms(1) by (simp add: store_inv_def)
  have b: "sh_schema_index h < length (st_schemas st)" using registered_bounds [OF assms] by simp
  have ne: "tiers_of st h \<noteq> []" using rings_inv_at(2) [OF ri b] .
  obtain sel where sel: "select_tier (st_rings st) (sh_schema_index h) s e [0..<?n] 0 = Inr (best_tier st h s e, sel)"
    using select_tier_ok [OF assms, of "[0..<?n]" s e 0] by (auto simp: best_tier_def Let_def)
  show "store_query_auto st h s e =
      (if s \<ge> e then err (Query (InvalidTimeRange s e)) else store_query st h (best_tier st h s e) s e)"
    using b sel ne by (simp add: store_query_auto_def)
  show "best_tier st h s e < ?n"
    using ne by (auto simp: best_tier_def Let_def split: option.splits dest!: find_someD)
qed

text \<open>
  C35. Automatic tier selection: after rejecting an empty range, the query is the query of the
  first (finest) tier whose oldest and newest timestamps enclose the request, of the last tier with
  data when none does, and of tier 0 when there is no data at all; it never fails otherwise. The
  documentation of \<open>query_auto\<close> promises the lowest resolution tier when no tier has coverage,
  whether or not that tier has data: the code does not do that.
\<close>

theorem query_auto_selects:
  assumes "store_inv st" and "registered st h"
  shows "store_query_auto st h s e =
    (if s \<ge> e then err (Query (InvalidTimeRange s e)) else store_query st h (best_tier st h s e) s e) \<and>
    (s < e \<longrightarrow> (\<exists>q. store_query_auto st h s e = Inr q \<and> tier_used q = best_tier st h s e))"
  using query_auto_ok [OF assms, of s e] store_query_ok [OF assms, of "best_tier st h s e" s e] by auto

text \<open>
  Where the code and the documentation of \<open>query_auto\<close> part: when no tier covers the range and
  only tier 0 has data, tier 0 answers and not the lowest resolution tier; and a range that ends after
  the newest sample of every tier, such as one that ends now, is covered by no tier, so that it is
  the last tier with data that answers even if tier 0 has retained all of the range.
\<close>

lemma auto_fallback:
  assumes "\<forall>j < length (tiers_of st h). used_timestamps (tier_table st h j) = [] \<or> last (used_timestamps (tier_table st h j)) < e"
    and "k < length (tiers_of st h)" and "used_timestamps (tier_table st h k) \<noteq> []"
    and "\<forall>j < length (tiers_of st h). k < j \<longrightarrow> used_timestamps (tier_table st h j) = []"
  shows "best_tier st h s e = k"
proof -
  let ?n = "length (tiers_of st h)" and ?P = "\<lambda>j. used_timestamps (tier_table st h j) \<noteq> []"
  have "find (\<lambda>j. covers (tier_table st h j) s e) [0..<?n] = None"
    using assms(1) by (auto simp: find_None_iff covers_def not_le)
  moreover have "find ?P (rev [0..<?n]) = Some k"
  proof -
    have "[0..<?n] = [0..<k] @ k # [Suc k..<?n]" using assms(2) upt_add_eq_append [of 0 k "?n - k"] by (simp add: upt_conv_Cons)
    moreover have "find ?P (rev [Suc k..<?n]) = None" using assms(4) by (auto simp: find_None_iff)
    moreover have "find P (xs @ ys) = (case find P xs of Some x \<Rightarrow> Some x | None \<Rightarrow> find P ys)" for P :: "nat \<Rightarrow> bool" and xs ys
      by (induction xs) auto
    ultimately show ?thesis using assms(3) by simp
  qed
  ultimately show ?thesis by (simp add: best_tier_def Let_def)
qed

end
