(* ===== verification/Store_Records.thy ===== *)
theory Store_Records
  imports Store_Queries
begin

text \<open>
  Recording: what \<open>record\<close> and \<open>record_batch\<close> accept, what they write, and what a batch
  leaves behind when one of its schemas is refused.
\<close>

section \<open>Single samples\<close>

lemma store_record_ok:
  assumes inv: "store_inv st" "registered st h" and "\<not> is_infinite v" and "t \<noteq> 0"
  shows "\<exists>r'. store_record h v t st = Inr (st\<lparr>st_rings := (st_rings st)[sh_schema_index h :=
      (st_rings st ! sh_schema_index h)[0 := r']]\<rparr>) \<and>
    rb_table r' = tb_write [(sh_column h, v)] t (tier_table st h 0)"
proof -
  let ?i = "sh_schema_index h"
  have ri: "rings_inv (st_path st) (st_schemas st) (st_rings st)" using inv(1) by (simp add: store_inv_def)
  have b: "?i < length (st_schemas st)" "sh_column h < sc_max_series (st_schemas st ! ?i)"
    using registered_bounds [OF inv] by auto
  have j: "0 < length (sc_tiers (st_schemas st ! ?i))" using rings_inv_at(2) [OF ri b(1)] by simp
  obtain r' where "ring_write (st_rings st ! ?i ! 0) (sh_column h) v t = Inr r'"
      "rb_table r' = tb_write [(sh_column h, v)] t (tier_table st h 0)"
    using tier_write(2) [OF rings_inv_at(4) [OF ri b(1) j] b(2) assms(3,4)] by blast
  then show ?thesis
    using update_tier_at [OF ri b(1) j] by (auto simp: store_record_tier)
qed

lemma store_record_err:
  assumes inv: "store_inv st" "registered st h"
  shows "is_infinite v \<Longrightarrow>
      store_record h v t st = err (Record (InvalidValue v ''infinite values are not allowed''))"
    and "\<not> is_infinite v \<Longrightarrow> store_record h v 0 st = err (Record (InvalidTimestamp 0))"
proof -
  have ri: "rings_inv (st_path st) (st_schemas st) (st_rings st)" using inv(1) by (simp add: store_inv_def)
  have b: "sh_schema_index h < length (st_schemas st)" using registered_bounds [OF inv] by simp
  then have j: "0 < length (tiers_of st h)" using rings_inv_at(2) [OF ri] by simp
  show "is_infinite v \<Longrightarrow>
      store_record h v t st = err (Record (InvalidValue v ''infinite values are not allowed''))"
    "\<not> is_infinite v \<Longrightarrow> store_record h v 0 st = err (Record (InvalidTimestamp 0))"
    unfolding store_record_tier update_tier_at [OF ri b j] by (simp_all add: ring_write_def)
qed

lemma record_run_accepted:
  assumes "store_inv st" and "registered st h" and "\<not> is_infinite v" and "t \<noteq> 0"
  obtains r' where "store_record_run h v t st = (Inr (), st\<lparr>st_rings := (st_rings st)[sh_schema_index h :=
      (st_rings st ! sh_schema_index h)[0 := r']]\<rparr>)"
    and "rb_table r' = tb_write [(sh_column h, v)] t (tier_table st h 0)"
  using store_record_ok [OF assms] that by (auto simp: store_record_def outcome_def split: prod.splits sum.splits)

lemma record_run_refused:
  assumes inv: "store_inv st" "registered st h"
  shows "is_infinite v \<Longrightarrow>
      store_record_run h v t st = (err (Record (InvalidValue v ''infinite values are not allowed'')), st)"
    and "\<not> is_infinite v \<Longrightarrow> store_record_run h v 0 st = (err (Record (InvalidTimestamp 0)), st)"
proof -
  have ri: "rings_inv (st_path st) (st_schemas st) (st_rings st)" using inv(1) by (simp add: store_inv_def)
  have b: "sh_schema_index h < length (st_schemas st)" using registered_bounds [OF inv] by simp
  have "sh_schema_index h < length (st_rings st)" "0 < length (st_rings st ! sh_schema_index h)"
    using rings_inv_at(1-3) [OF ri b] by simp_all
  then show "is_infinite v \<Longrightarrow>
      store_record_run h v t st = (err (Record (InvalidValue v ''infinite values are not allowed'')), st)"
    "\<not> is_infinite v \<Longrightarrow> store_record_run h v 0 st = (err (Record (InvalidTimestamp 0)), st)"
    by (simp_all add: store_record_run_def run_tier_def ring_write_run_def)
qed

lemma record_run_keeps:
  assumes "store_inv st" and "registered st h"
  shows "store_inv (snd (store_record_run h v t st)) \<and>
    st_schemas (snd (store_record_run h v t st)) = st_schemas st \<and>
    st_registry (snd (store_record_run h v t st)) = st_registry st \<and>
    st_path (snd (store_record_run h v t st)) = st_path st"
proof (cases "is_infinite v \<or> t = 0")
  case True
  then show ?thesis using record_run_refused [OF assms, of v] assms(1) by (cases "is_infinite v") auto
next
  case False
  then obtain r' where r: "store_record_run h v t st = (Inr (), st\<lparr>st_rings := (st_rings st)[sh_schema_index h :=
      (st_rings st ! sh_schema_index h)[0 := r']]\<rparr>)"
    using record_run_accepted [OF assms, of v t] by blast
  then have "store_record h v t st = Inr (snd (store_record_run h v t st))" by (simp add: store_record_def)
  then show ?thesis using store_record_inv [OF assms] r by simp
qed

text \<open>
  C33. Recording under a registered handle has exactly three outcomes: an infinite value is
  refused, then a zero timestamp, both leaving the store exactly as it was; everything else is
  accepted, keeps the invariant and the handle, writes the sample to its slot of the first tier of
  the schema and leaves every other ring alone.
\<close>

theorem record_outcomes:
  assumes "store_inv st" and "registered st h"
  shows "if is_infinite v then
      store_record_run h v t st = (err (Record (InvalidValue v ''infinite values are not allowed'')), st)
    else if t = 0 then store_record_run h v t st = (err (Record (InvalidTimestamp 0)), st)
    else \<exists>st'. store_record_run h v t st = (Inr (), st') \<and> store_inv st' \<and> registered st' h \<and>
      tier_table st' h 0 = tb_write [(sh_column h, v)] t (tier_table st h 0) \<and>
      st_path st' = st_path st \<and> st_schemas st' = st_schemas st \<and> st_registry st' = st_registry st \<and>
      (\<forall>i j. (i, j) \<noteq> (sh_schema_index h, 0) \<longrightarrow> st_rings st' ! i ! j = st_rings st ! i ! j)"
proof (cases "is_infinite v \<or> t = 0")
  case True
  then show ?thesis using record_run_refused [OF assms, of v] by (cases "is_infinite v") auto
next
  case False
  then obtain r' where r: "store_record_run h v t st = (Inr (), st\<lparr>st_rings := (st_rings st)[sh_schema_index h :=
      (st_rings st ! sh_schema_index h)[0 := r']]\<rparr>)" (is "_ = (_, ?st')")
      "rb_table r' = tb_write [(sh_column h, v)] t (tier_table st h 0)"
    using record_run_accepted [OF assms, of v t] by blast
  have ri: "rings_inv (st_path st) (st_schemas st) (st_rings st)" using assms(1) by (simp add: store_inv_def)
  have b: "sh_schema_index h < length (st_schemas st)" using registered_bounds [OF assms] by simp
  have "sh_schema_index h < length (st_rings st)" "0 < length (st_rings st ! sh_schema_index h)"
    using rings_inv_at(1-3) [OF ri b] by simp_all
  moreover have "store_inv ?st'" using record_run_keeps [OF assms, of v t] r(1) by simp
  ultimately show ?thesis
    using False r assms(2) by (auto simp: registered_def nth_list_update)
qed

lemma recorded_sample:
  assumes "store_inv st" and "registered st h" and "store_record h v t st = Inr st'"
    and "\<not> is_nan v" and "s \<le> t" and "t < e"
  shows "store_inv st' \<and> registered st' h \<and> 0 < length (tiers_of st' h) \<and> s < e \<and> (t, v) \<in> set (samples st' h 0 s e)"
proof -
  have v: "\<not> is_infinite v" "t \<noteq> 0"
    using assms(3) store_record_err [OF assms(1,2), of v] by (cases "is_infinite v"; cases "t = 0"; auto)+
  obtain r' where st': "st' = st\<lparr>st_rings := (st_rings st)[sh_schema_index h :=
      (st_rings st ! sh_schema_index h)[0 := r']]\<rparr>"
    and r': "rb_table r' = tb_write [(sh_column h, v)] t (tier_table st h 0)"
    using store_record_ok [OF assms(1,2) v] assms(3) by auto
  have inv': "store_inv st'" "registered st' h"
    using store_record_inv [OF assms(1-3)] assms(2) by (auto simp: registered_def st')
  have ri: "rings_inv (st_path st) (st_schemas st) (st_rings st)" using assms(1) by (simp add: store_inv_def)
  have b: "sh_schema_index h < length (st_schemas st)" using registered_bounds [OF assms(1,2)] by simp
  have j: "0 < length (tiers_of st h)" using rings_inv_at(2) [OF ri b] by simp
  note t = store_tier [OF assms(1,2) j]
  have table: "tier_table st' h 0 = tb_write [(sh_column h, v)] t (tier_table st h 0)"
    using t(2,3) r' by (simp add: st')
  have pos: "0 < tb_slots (tier_table st h 0)"
    using t(4) by (simp add: ring_inv_def ring_wf_def)
  have "(t, v) \<in> set (ring_contents (tier_table st' h 0) (sh_column h))"
    using write_contents [OF pos, of "[(sh_column h, v)]" t "sh_column h"] assms(4) table by simp
  then show ?thesis
    using inv' j assms(5,6) by (auto simp: samples_def in_range_def st')
qed

text \<open>Further records, of each of which only the store that it leaves behind is kept.\<close>

definition record_more :: "(series_handle \<times> f64 \<times> u64) list \<Rightarrow> store \<Rightarrow> store" where
  "record_more later st = fold (\<lambda>(h, v, t) st. snd (store_record_run h v t st)) later st"

definition holds :: "store \<Rightarrow> series_handle \<Rightarrow> u64 \<Rightarrow> f64 \<Rightarrow> bool" where
  "holds st h t v \<longleftrightarrow> (let tb = tier_table st h 0; i = slot_of tb t in tb_ts tb i = t \<and> tb_val tb i (sh_column h) = v)"

text \<open>
  A record that does not touch a sample: it is refused, or of another schema, in another slot, or
  of another series at the same time.
\<close>

definition spares :: "store \<Rightarrow> series_handle \<Rightarrow> u64 \<Rightarrow> series_handle \<times> f64 \<times> u64 \<Rightarrow> bool" where
  "spares st h t rec' \<longleftrightarrow> (case rec' of (h', v', t') \<Rightarrow>
     is_infinite v' \<or> t' = 0 \<or> sh_schema_index h' \<noteq> sh_schema_index h \<or>
     slot_of (tier_table st h 0) t' \<noteq> slot_of (tier_table st h 0) t \<or> t' = t \<and> sh_column h' \<noteq> sh_column h)"

lemma record_spares:
  assumes inv: "store_inv st" "registered st h" "registered st h'" and "holds st h t v" and "spares st h t (h', v', t')"
  shows "holds (snd (store_record_run h' v' t' st)) h t v \<and>
    slot_of (tier_table (snd (store_record_run h' v' t' st)) h 0) = slot_of (tier_table st h 0)"
proof (cases "is_infinite v' \<or> t' = 0")
  case True
  then show ?thesis using record_run_refused [OF inv(1,3), of v'] assms(4) by (cases "is_infinite v'") auto
next
  case valid: False
  then obtain r' where r: "store_record_run h' v' t' st = (Inr (), st\<lparr>st_rings := (st_rings st)[sh_schema_index h' :=
      (st_rings st ! sh_schema_index h')[0 := r']]\<rparr>)" (is "_ = (_, ?st')")
      "rb_table r' = tb_write [(sh_column h', v')] t' (tier_table st h' 0)"
    using record_run_accepted [OF inv(1,3), of v' t'] by blast
  have ri: "rings_inv (st_path st) (st_schemas st) (st_rings st)" using inv(1) by (simp add: store_inv_def)
  have b: "sh_schema_index h' < length (st_schemas st)" using registered_bounds [OF inv(1,3)] by simp
  have len: "sh_schema_index h' < length (st_rings st)" "0 < length (st_rings st ! sh_schema_index h')"
    using rings_inv_at(1-3) [OF ri b] by simp_all
  show ?thesis
  proof (cases "sh_schema_index h' = sh_schema_index h")
    case True
    then have "tier_table ?st' h 0 = tb_write [(sh_column h', v')] t' (tier_table st h 0)"
      using r(2) len by simp
    then show ?thesis
      using assms(4,5) True r(1) valid
      by (auto simp: holds_def spares_def Let_def tb_write_config tb_write_ts tb_write_val row_update_def fun_eq_iff)
  next
    case False
    then have "tier_table ?st' h 0 = tier_table st h 0" by simp
    then show ?thesis using assms(4) r(1) by (simp add: holds_def)
  qed
qed

lemma record_more_holds:
  assumes "store_inv st" and "registered st h" and "holds st h t v"
    and "list_all (\<lambda>x. registered st (fst x) \<and> spares st h t x) later"
  shows "store_inv (record_more later st) \<and> registered (record_more later st) h \<and> holds (record_more later st) h t v \<and>
    st_schemas (record_more later st) = st_schemas st"
  using assms
proof (induction later arbitrary: st)
  case Nil
  then show ?case by (simp add: record_more_def)
next
  case (Cons x later)
  obtain h' v' t' where x: "x = (h', v', t')" by (cases x)
  let ?st = "snd (store_record_run h' v' t' st)"
  have h': "registered st h'" "spares st h t (h', v', t')" using Cons.prems(4) by (simp_all add: x)
  note keeps = record_run_keeps [OF Cons.prems(1) h'(1), of v' t']
  note spared = record_spares [OF Cons.prems(1,2) h'(1) Cons.prems(3) h'(2)]
  have "registered ?st k \<longleftrightarrow> registered st k" for k using keeps by (simp add: registered_def)
  moreover have "spares ?st h t y \<longleftrightarrow> spares st h t y" for y using spared by (simp add: spares_def)
  ultimately have "list_all (\<lambda>x. registered ?st (fst x) \<and> spares ?st h t x) later" "registered ?st h"
    using Cons.prems by simp_all
  then have "store_inv (record_more later ?st) \<and> registered (record_more later ?st) h \<and>
      holds (record_more later ?st) h t v \<and> st_schemas (record_more later ?st) = st_schemas ?st"
    using keeps spared by (intro Cons.IH) simp_all
  moreover have "record_more (x # later) st = record_more later ?st" by (simp add: record_more_def x)
  ultimately show ?case using keeps by simp
qed

lemma held_sample:
  assumes "store_inv st" and "registered st h" and "holds st h t v" and "\<not> is_nan v" and "s \<le> t" and "t < e"
  shows "0 < length (tiers_of st h) \<and> s < e \<and> (t, v) \<in> set (samples st h 0 s e)"
proof -
  have ri: "rings_inv (st_path st) (st_schemas st) (st_rings st)" using assms(1) by (simp add: store_inv_def)
  have b: "sh_schema_index h < length (st_schemas st)" using registered_bounds [OF assms(1,2)] by simp
  have j: "0 < length (tiers_of st h)" using rings_inv_at(2) [OF ri b] by simp
  note t = store_tier [OF assms(1,2) j]
  let ?tb = "tier_table st h 0"
  have pos: "0 < tb_slots ?tb" "tb_cursor ?tb < tb_slots ?tb"
    using t(4) by (auto simp: ring_inv_def ring_wf_def table_inv_def)
  have "(tb_ts ?tb (slot_of ?tb t), tb_val ?tb (slot_of ?tb t) (sh_column h)) \<in> set (ring_contents ?tb (sh_column h))"
    using assms(3,4) by (intro contents_member [OF pos(2) slot_of_less [OF pos(1)]]) (simp add: holds_def Let_def)
  then show ?thesis
    using assms(3,5,6) j by (auto simp: samples_def in_range_def holds_def Let_def)
qed

text \<open>
  C3. What is recorded is found, then and later: after an accepted record of a value that is not
  a NaN, and any number of further records under registered handles, accepted or refused, no
  accepted one of which (in the same schema) falls on the slot of the sample except for other series
  at the same timestamp, every query of tier 0 of the series whose range covers the timestamp succeeds and
  yields the sample.
\<close>

theorem record_then_query:
  assumes "store_inv st" and "registered st h" and "store_record_run h v t st = (Inr (), st')"
    and "\<not> is_nan v" and "list_all (\<lambda>x. registered st (fst x) \<and> spares st h t x) later"
    and "s \<le> t" and "t < e"
  shows "\<exists>q ps. store_query (record_more later st') h 0 s e = Inr q \<and> collect_all q = Inr ps \<and> (t, v) \<in> set ps"
proof -
  have ok: "store_record h v t st = Inr st'" using assms(3) by (simp add: store_record_def)
  have v: "\<not> is_infinite v" "t \<noteq> 0"
    using assms(3) record_run_refused [OF assms(1,2), of v] by (cases "is_infinite v"; cases "t = 0"; auto)+
  obtain r' where st': "st' = st\<lparr>st_rings := (st_rings st)[sh_schema_index h :=
      (st_rings st ! sh_schema_index h)[0 := r']]\<rparr>"
    and r': "rb_table r' = tb_write [(sh_column h, v)] t (tier_table st h 0)"
    using record_run_accepted [OF assms(1,2) v] assms(3) by auto
  have ri: "rings_inv (st_path st) (st_schemas st) (st_rings st)" using assms(1) by (simp add: store_inv_def)
  have b: "sh_schema_index h < length (st_schemas st)" using registered_bounds [OF assms(1,2)] by simp
  have "sh_schema_index h < length (st_rings st)" "0 < length (st_rings st ! sh_schema_index h)"
    using rings_inv_at(1-3) [OF ri b] by simp_all
  then have table: "tier_table st' h 0 = tb_write [(sh_column h, v)] t (tier_table st h 0)"
    using r' by (simp add: st')
  have "holds st' h t v" "slot_of (tier_table st' h 0) = slot_of (tier_table st h 0)"
    by (simp_all add: holds_def table Let_def tb_write_config tb_write_ts tb_write_val row_update_def fun_eq_iff)
  moreover have "registered st' k \<longleftrightarrow> registered st k" for k by (simp add: registered_def st')
  ultimately have "store_inv (record_more later st') \<and> registered (record_more later st') h \<and>
      holds (record_more later st') h t v"
    using record_more_holds [of st' h t v later] store_record_inv [OF assms(1,2) ok] assms(2,5) by (simp add: spares_def)
  then show ?thesis
    using held_sample [of "record_more later st'" h t v s e] store_query_ok assms(4,6,7) by blast
qed

section \<open>Batches\<close>

definition entries_of :: "usize \<Rightarrow> (series_handle \<times> f64) list \<Rightarrow> (u32 \<times> f64) list" where
  "entries_of i entries = map (\<lambda>(h, v). (sh_column h, v)) (filter (\<lambda>(h, v). sh_schema_index h = i) entries)"

lemma group_entries_wf: "hm_wf (group_entries entries)"
proof -
  have "hm_wf (fold (\<lambda>(handle, v) groups. hm_insert (sh_schema_index handle)
      ((case hm_get groups (sh_schema_index handle) of None \<Rightarrow> [] | Some es \<Rightarrow> es) @ [(sh_column handle, v)])
      groups) entries groups)" if "hm_wf groups" for groups
    using that by (induction entries arbitrary: groups) (auto simp: hm.inv_put)
  then show ?thesis using hm.inv_empty by (simp add: group_entries_def)
qed

lemma group_entries_get:
  "hm_get (group_entries entries) i = (if entries_of i entries = [] then None else Some (entries_of i entries))"
proof (induction entries rule: rev_induct)
  case Nil
  then show ?case by (simp add: group_entries_def entries_of_def hm.get_empty)
next
  case (snoc e entries)
  obtain h v where e: "e = (h, v)" by force
  show ?case
    using snoc by (auto simp: group_entries_def e hm.get_put entries_of_def split: option.splits if_splits)
qed

lemma group_entries_keys: "set (hm_keys (group_entries entries)) = {i. entries_of i entries \<noteq> []}"
  using group_entries_get [of entries]
  by (auto simp: hm_keys_def hm_get_def map_of_eq_None_iff image_image split: if_splits)
     (metis fst_conv imageI map_of_eq_None_iff not_Some_eq)+

lemma keys_order:
  assumes "iteration_order ord"
  shows "distinct (ord (hm_keys (group_entries entries)))"
    and "set (ord (hm_keys (group_entries entries))) = {i. entries_of i entries \<noteq> []}"
  using assms group_entries_wf [of entries] group_entries_keys [of entries]
  by (auto simp: iteration_order_def hm_wf_def hm_keys_def)

definition batch_step :: "(series_handle \<times> f64) list \<Rightarrow> u64 \<Rightarrow> usize \<Rightarrow> store \<Rightarrow> store res" where
  "batch_step entries t i = update_tier i 0 (\<lambda>ring. ring_write_batch ring (entries_of i entries) t)"

lemma batch_step_runs:
  assumes "no_crash (fst (fold_st (batch_step entries t) is st))"
  shows "run_all (\<lambda>i. run_tier i 0 (\<lambda>ring. ring_write_batch_run ring (entries_of i entries) t)) is st
    = fold_st (batch_step entries t) is st"
  using assms
proof (induction "is" arbitrary: st)
  case (Cons i js)
  note agrees = run_tier_agrees [where g = "\<lambda>ring. ring_write_batch ring (entries_of i entries) t" and
      f = "\<lambda>ring. ring_write_batch_run ring (entries_of i entries) t" and i = i and j = 0 and st = st,
      OF ring_write_run_agrees(2) ring_write_run_refused(2)]
  show ?case
  proof (cases "batch_step entries t i st")
    case (Inl e)
    then obtain e' where "e = Error e'" using Cons.prems by (cases e) auto
    then show ?thesis using Inl agrees(2) by (simp add: batch_step_def)
  next
    case (Inr st')
    then show ?thesis using Cons agrees(1) by (simp add: batch_step_def)
  qed
qed simp

lemma store_record_batch_steps:
  assumes "no_crash (fst (fold_st (batch_step entries t) (pf_groups pf (hm_keys (group_entries entries))) st))"
  shows "store_record_batch pf entries t st = fold_st (batch_step entries t) (pf_groups pf (hm_keys (group_entries entries))) st"
proof -
  have "(case hm_get (group_entries entries) i of None \<Rightarrow> [] | Some es \<Rightarrow> es) = entries_of i entries" for i
    by (simp add: group_entries_get)
  then show ?thesis by (simp add: store_record_batch_def batch_step_runs [OF assms])
qed

lemma entries_columns:
  assumes "store_inv st" and "list_all (\<lambda>(h, v). registered st h) entries" and "entries_of i entries \<noteq> []"
  shows "i < length (st_schemas st)"
    and "list_all (\<lambda>(c, v). c < sc_max_series (st_schemas st ! i)) (entries_of i entries)"
proof -
  have each: "i < length (st_schemas st) \<and> sh_column h < sc_max_series (st_schemas st ! i)"
    if "(h, v) \<in> set entries" "sh_schema_index h = i" for h v
    using registered_bounds [OF assms(1), of h] assms(2) that by (auto simp: list_all_iff)
  show "i < length (st_schemas st)"
    using assms(3) each by (auto simp: entries_of_def filter_empty_conv)
  show "list_all (\<lambda>(c, v). c < sc_max_series (st_schemas st ! i)) (entries_of i entries)"
    using each by (auto simp: entries_of_def list_all_iff)
qed

lemma batch_step_ok:
  assumes ri: "rings_inv (st_path st) (st_schemas st) (st_rings st)" and i: "i < length (st_schemas st)"
    and cols: "list_all (\<lambda>(c, v). c < sc_max_series (st_schemas st ! i)) (entries_of i entries)"
    and vals: "list_all (\<lambda>(c, v). \<not> is_infinite v) (entries_of i entries)" and t: "t \<noteq> 0"
  shows "\<exists>r'. batch_step entries t i st = Inr (st\<lparr>st_rings := (st_rings st)[i := (st_rings st ! i)[0 := r']]\<rparr>) \<and>
    rings_inv (st_path st) (st_schemas st) ((st_rings st)[i := (st_rings st ! i)[0 := r']]) \<and>
    rb_table r' = tb_write (entries_of i entries) t (rb_table (st_rings st ! i ! 0))"
proof -
  have j: "0 < length (sc_tiers (st_schemas st ! i))" using rings_inv_at(2) [OF ri i] by simp
  have "\<not> (\<exists>v. v \<in> snd ` set (entries_of i entries) \<and> is_infinite v)"
    using vals by (auto simp: list_all_iff)
  then obtain r' where r': "ring_write_batch (st_rings st ! i ! 0) (entries_of i entries) t = Inr r'"
      "tier_ring (st_schemas st ! i) (sc_tiers (st_schemas st ! i) ! 0) (slab_path (st_path st) i 0) r'"
      "rb_table r' = tb_write (entries_of i entries) t (rb_table (st_rings st ! i ! 0))"
    using tier_batch [OF rings_inv_at(4) [OF ri i j] cols, of t] t by blast
  then show ?thesis
    using rings_inv_update [OF ri i j r'(2)] by (auto simp: batch_step_def update_tier_at [OF ri i j])
qed

lemma batch_steps:
  assumes "rings_inv (st_path st) (st_schemas st) (st_rings st)" and "distinct is" and "t \<noteq> 0"
    and "\<forall>i \<in> set is. i < length (st_schemas st) \<and>
      list_all (\<lambda>(c, v). c < sc_max_series (st_schemas st ! i)) (entries_of i entries) \<and>
      list_all (\<lambda>(c, v). \<not> is_infinite v) (entries_of i entries)"
  shows "\<exists>rings'. fold_st (batch_step entries t) is st = (Inr (), st\<lparr>st_rings := rings'\<rparr>) \<and>
    rings_inv (st_path st) (st_schemas st) rings' \<and>
    (\<forall>i. if i \<in> set is
       then \<exists>r'. rings' ! i = (st_rings st ! i)[0 := r'] \<and>
         rb_table r' = tb_write (entries_of i entries) t (rb_table (st_rings st ! i ! 0))
       else rings' ! i = st_rings st ! i)"
  using assms
proof (induction "is" arbitrary: st)
  case Nil
  then show ?case by (intro exI [of _ "st_rings st"]) simp
next
  case (Cons i js)
  obtain r1 where r1: "batch_step entries t i st = Inr (st\<lparr>st_rings := (st_rings st)[i := (st_rings st ! i)[0 := r1]]\<rparr>)"
      "rings_inv (st_path st) (st_schemas st) ((st_rings st)[i := (st_rings st ! i)[0 := r1]])"
      "rb_table r1 = tb_write (entries_of i entries) t (rb_table (st_rings st ! i ! 0))"
    using batch_step_ok [OF Cons.prems(1) _ _ _ Cons.prems(3)] Cons.prems(4) by fastforce
  let ?st = "st\<lparr>st_rings := (st_rings st)[i := (st_rings st ! i)[0 := r1]]\<rparr>"
  obtain rings' where rs: "fold_st (batch_step entries t) js ?st = (Inr (), ?st\<lparr>st_rings := rings'\<rparr>)"
      "rings_inv (st_path st) (st_schemas st) rings'"
      "\<forall>k. if k \<in> set js
       then \<exists>r'. rings' ! k = (st_rings ?st ! k)[0 := r'] \<and>
         rb_table r' = tb_write (entries_of k entries) t (rb_table (st_rings ?st ! k ! 0))
       else rings' ! k = st_rings ?st ! k"
    using Cons.IH [of ?st] Cons.prems r1(2) by auto
  have i: "i < length (st_rings st)" "i \<notin> set js"
    using Cons.prems rings_inv_at(1) [OF Cons.prems(1)] by auto
  have "if k \<in> set (i # js)
       then \<exists>r'. rings' ! k = (st_rings st ! k)[0 := r'] \<and>
         rb_table r' = tb_write (entries_of k entries) t (rb_table (st_rings st ! k ! 0))
       else rings' ! k = st_rings st ! k" for k
  proof (cases "k = i")
    case True
    then have "rings' ! k = (st_rings st ! i)[0 := r1]" using rs(3) i by (auto dest: spec [of _ i])
    then show ?thesis using True r1(3) by auto
  next
    case False
    then have same: "st_rings ?st ! k = st_rings st ! k" by simp
    show ?thesis
      using spec [OF rs(3), of k] False unfolding same by (cases "k \<in> set js") auto
  qed
  then show ?case
    using r1(1) rs(1,2) by (intro exI [of _ rings']) simp
qed

text \<open>
  C34. A batch at a non-zero timestamp without infinite values is accepted whatever the
  iteration order of the schemas: the first tier of every schema in the batch gets one slot
  written with the entries of that schema, in their order, and nothing else changes.
\<close>

theorem record_batch_writes:
  assumes "store_inv st" and "list_all (\<lambda>(h, v). registered st h \<and> \<not> is_infinite v) entries"
    and "t \<noteq> 0" and "iteration_order (pf_groups pf)"
  shows "\<exists>rings'. store_record_batch pf entries t st = (Inr (), st\<lparr>st_rings := rings'\<rparr>) \<and>
    store_inv (st\<lparr>st_rings := rings'\<rparr>) \<and>
    (\<forall>i. if entries_of i entries = [] then rings' ! i = st_rings st ! i
       else tl (rings' ! i) = tl (st_rings st ! i) \<and>
         rb_table (rings' ! i ! 0) = tb_write (entries_of i entries) t (rb_table (st_rings st ! i ! 0)))"
proof -
  have ri: "rings_inv (st_path st) (st_schemas st) (st_rings st)" using assms(1) by (simp add: store_inv_def)
  note ks = keys_order [OF assms(4), of entries]
  have reg: "list_all (\<lambda>(h, v). registered st h) entries"
    using assms(2) by (auto simp: list_all_iff)
  have "list_all (\<lambda>(c, v). \<not> is_infinite v) (entries_of i entries)" for i
    using assms(2) by (auto simp: list_all_iff entries_of_def)
  then obtain rings' where rs: "store_record_batch pf entries t st = (Inr (), st\<lparr>st_rings := rings'\<rparr>)"
      "rings_inv (st_path st) (st_schemas st) rings'"
      "\<forall>i. if entries_of i entries \<noteq> []
       then \<exists>r'. rings' ! i = (st_rings st ! i)[0 := r'] \<and>
         rb_table r' = tb_write (entries_of i entries) t (rb_table (st_rings st ! i ! 0))
       else rings' ! i = st_rings st ! i"
    using batch_steps [OF ri ks(1) assms(3), of entries] entries_columns [OF assms(1) reg] ks(2)
    by (auto simp: store_record_batch_steps)
  have "if entries_of i entries = [] then rings' ! i = st_rings st ! i
       else tl (rings' ! i) = tl (st_rings st ! i) \<and>
         rb_table (rings' ! i ! 0) = tb_write (entries_of i entries) t (rb_table (st_rings st ! i ! 0))" for i
  proof (cases "entries_of i entries = []")
    case False
    then obtain r' where r': "rings' ! i = (st_rings st ! i)[0 := r']"
        "rb_table r' = tb_write (entries_of i entries) t (rb_table (st_rings st ! i ! 0))"
      using rs(3) by meson
    have "st_rings st ! i \<noteq> []"
      using rings_inv_at(2,3) [OF ri] entries_columns(1) [OF assms(1) reg False] by fastforce
    then show ?thesis using r' False by (cases "st_rings st ! i") auto
  qed (use rs(3) in \<open>auto dest: spec [of _ i]\<close>)
  then show ?thesis
    using rs(1,2) assms(1) by (auto simp: store_inv_def)
qed


section \<open>Batches that fail\<close>

lemma batch_step_refused:
  assumes ri: "rings_inv (st_path st) (st_schemas st) (st_rings st)" and i: "i < length (st_schemas st)"
    and "t \<noteq> 0" and "entries_of i entries = [(c, w)]" and "is_infinite w"
  shows "batch_step entries t i st = err (Record (InvalidValue w ''infinite values are not allowed''))"
proof -
  have j: "0 < length (sc_tiers (st_schemas st ! i))" using rings_inv_at(2) [OF ri i] by simp
  show ?thesis
    using assms(3-5) by (simp add: batch_step_def update_tier_at [OF ri i j] ring_write_batch_def)
qed

text \<open>
  A refused batch is not all or nothing: with one value refused, the sample of another
  schema is written or not depending on the iteration order of a hash map, and the error
  returned is the same.
\<close>

theorem record_batch_partial:
  assumes "store_inv st" and "registered st h" and "registered st h'"
    and "sh_schema_index h \<noteq> sh_schema_index h'" and "is_finite v" and "is_infinite w" and "t \<noteq> 0"
    and "s \<le> t" and "t < e"
  defines "refused \<equiv> err (Record (InvalidValue w ''infinite values are not allowed''))"
  shows "store_record_batch (pf\<lparr>pf_groups := rev\<rparr>) [(h, v), (h', w)] t st = (refused, st) \<and>
    (\<exists>st1. store_record_batch (pf\<lparr>pf_groups := \<lambda>ks. ks\<rparr>) [(h, v), (h', w)] t st = (refused, st1) \<and>
       (t, v) \<in> set (samples st1 h 0 s e))"
proof -
  let ?i = "sh_schema_index h" and ?i' = "sh_schema_index h'" and ?es = "[(h, v), (h', w)]"
  have ri: "rings_inv (st_path st) (st_schemas st) (st_rings st)" using assms(1) by (simp add: store_inv_def)
  have b: "?i < length (st_schemas st)" "?i' < length (st_schemas st)"
      "sh_column h < sc_max_series (st_schemas st ! ?i)"
    using registered_bounds [OF assms(1)] assms(2,3) by auto
  have keys: "hm_keys (group_entries ?es) = [?i, ?i']"
    using assms(4) by (simp add: group_entries_def hm_keys_def hm_insert_def hm_get_def)
  have es: "entries_of ?i ?es = [(sh_column h, v)]" "entries_of ?i' ?es = [(sh_column h', w)]"
    using assms(4) by (simp_all add: entries_of_def)
  have second: "store_record_batch (pf\<lparr>pf_groups := rev\<rparr>) ?es t st = (refused, st)"
    using batch_step_refused [OF ri b(2) assms(7) es(2) assms(6)]
    by (simp add: store_record_batch_steps keys refused_def)
  obtain r' where r': "batch_step ?es t ?i st = Inr (st\<lparr>st_rings := (st_rings st)[?i := (st_rings st ! ?i)[0 := r']]\<rparr>)"
      "rings_inv (st_path st) (st_schemas st) ((st_rings st)[?i := (st_rings st ! ?i)[0 := r']])"
      "rb_table r' = tb_write [(sh_column h, v)] t (tier_table st h 0)"
    using batch_step_ok [OF ri b(1), of ?es t] assms(5,7) b(3) finite_not_infinite es(1) by auto
  let ?st = "st\<lparr>st_rings := (st_rings st)[?i := (st_rings st ! ?i)[0 := r']]\<rparr>"
  have first: "store_record_batch (pf\<lparr>pf_groups := \<lambda>ks. ks\<rparr>) ?es t st = (refused, ?st)"
    using r'(1) batch_step_refused [of ?st ?i' t ?es "sh_column h'" w] r'(2) b(2) assms(6,7) es(2)
    by (simp add: store_record_batch_steps keys refused_def)
  have j: "0 < length (tiers_of st h)" using rings_inv_at(2) [OF ri b(1)] by simp
  note tr = store_tier [OF assms(1,2) j]
  have table: "tier_table ?st h 0 = tb_write [(sh_column h, v)] t (tier_table st h 0)"
    using tr(2,3) r'(3) by simp
  have "0 < tb_slots (tier_table st h 0)" using tr(4) by (simp add: ring_inv_def ring_wf_def)
  then have "(t, v) \<in> set (ring_contents (tier_table ?st h 0) (sh_column h))"
    using write_contents [of "tier_table st h 0" "[(sh_column h, v)]" t "sh_column h"] assms(5) table finite_not_nan
    by simp
  then have "(t, v) \<in> set (samples ?st h 0 s e)"
    using assms(8,9) by (simp add: samples_def in_range_def)
  then show ?thesis using first second by blast
qed

end
