(* ===== verification/Store_Lifecycle.thy ===== *)
theory Store_Lifecycle
  imports Store_Inv
begin

text \<open>
  Creating a store, closing it and opening it again: creation gives empty rings that satisfy
  the invariant, and reopening the files of a store gives the same tables and registry.
\<close>

section \<open>Creation\<close>

text \<open>The durations fit in 64-bit nanosecond counts and the slab sizes in a \<open>usize\<close>.\<close>

definition schema_fits :: "schema_config \<Rightarrow> bool" where
  "schema_fits c \<longleftrightarrow> list_all (\<lambda>tier. tier_representable tier \<and>
     slab_size (unat (tier_slot_count tier)) (unat (sc_max_series c)) < 2 ^ 64) (sc_tiers c)"

definition schemas_ok :: "schema_config list \<Rightarrow> bool" where
  "schemas_ok schemas \<longleftrightarrow> list_all (\<lambda>c. schema_validate c = Inr () \<and> schema_fits c) schemas"

definition fresh_table :: "platform \<Rightarrow> schema_config \<Rightarrow> tier_config \<Rightarrow> table" where
  "fresh_table pf schema tier = empty_table (stable_hash (pf_hasher pf) schema) (ucast (tier_slot_count tier))
     (sc_max_series schema) (word_of_nat (as_nanos (tc_interval tier)))"

lemma slab_create_some:
  assumes "slab_create os path h sc ms iv = Inr s" and "slab_size (unat sc) (unat ms) < 2 ^ 64"
  shows "slab_wf s \<and> slab_table s = empty_table h sc ms iv \<and> sl_path s = path"
proof -
  have "os_create os path = None" "os_set_len os path (slab_size (unat sc) (unat ms)) = None" "os_map os path = None"
    using assms by (auto simp: slab_create_def Let_def layout_new_exact split: option.splits)
  then have "s = \<lparr> sl_mmap = initial_bytes h sc ms iv, sl_layout = layout_new sc ms, sl_path = path \<rparr>"
    using slab_create_bytes [OF assms(2)] assms(1) by simp
  then show ?thesis
    using initial_wf [OF assms(2)] initial_table by simp
qed

lemma tier_geometry:
  assumes "tier_validate tier = Inr ()" and "tier_representable tier"
  shows "unat (ucast (tier_slot_count tier) :: u32) = unat (tier_slot_count tier)"
    and "0 < (ucast (tier_slot_count tier) :: u32)" and "unat (tier_slot_count tier) \<le> 10 ^ 9"
    and "0 < (word_of_nat (as_nanos (tc_interval tier)) :: u64)"
proof -
  have s: "1 \<le> unat (tier_slot_count tier)" "unat (tier_slot_count tier) \<le> 10 ^ 9"
    using tier_slots_ok [OF assms] by auto
  then show u: "unat (ucast (tier_slot_count tier) :: u32) = unat (tier_slot_count tier)"
    by (simp add: unat_u64_to_u32)
  show "0 < (ucast (tier_slot_count tier) :: u32)"
    using s(1) u by (simp add: word_less_nat_alt)
  show "unat (tier_slot_count tier) \<le> 10 ^ 9" by (rule s(2))
  have "0 < as_nanos (tc_interval tier)" "as_nanos (tc_interval tier) < 2 ^ 64"
    using assms as_nanos_zero [of "tc_interval tier"]
    by (auto simp: tier_validate_ok tier_representable_def)
  then show "0 < (word_of_nat (as_nanos (tc_interval tier)) :: u64)"
    by (simp add: word_less_nat_alt u64_of_nat)
qed

lemma create_tier_some:
  assumes "create_tier pf path i schema j tier d = (Inr r, d')" and "tier_validate tier = Inr ()"
    and "tier_representable tier" and "slab_size (unat (tier_slot_count tier)) (unat (sc_max_series schema)) < 2 ^ 64"
  shows "tier_ring schema tier (slab_path path i j) r \<and> rb_table r = fresh_table pf schema tier \<and> \<not> rb_has_wrapped r"
proof -
  note geo = tier_geometry [OF assms(2,3)]
  obtain s where s: "slab_create (pf_os pf) (slab_path path i j) (stable_hash (pf_hasher pf) schema)
      (ucast (tier_slot_count tier)) (sc_max_series schema) (word_of_nat (as_nanos (tc_interval tier))) = Inr s"
      "ring_new s = Inr r"
    using assms(1) by (auto simp: create_tier_def Let_def split: sum.splits)
  have sl: "slab_wf s" "slab_table s = fresh_table pf schema tier" "sl_path s = slab_path path i j"
    using slab_create_some [OF s(1)] assms(4) geo(1) by (auto simp: fresh_table_def)
  have "r = \<lparr> rb_slab = s, rb_has_wrapped = False \<rparr>" "ring_inv r"
    using ring_new_fresh [OF sl(1) sl(2) [unfolded fresh_table_def] geo(2,4)] s(2) by auto
  moreover have "tb_cols (fresh_table pf schema tier) = sc_max_series schema"
      "tb_slots (fresh_table pf schema tier) = ucast (tier_slot_count tier)"
      "tb_interval (fresh_table pf schema tier) = word_of_nat (as_nanos (tc_interval tier))"
    by (simp_all add: fresh_table_def empty_table_def)
  ultimately show ?thesis
    using sl geo(1,3) by (simp add: tier_ring_def)
qed

lemma validated_tiers:
  assumes "schema_validate c = Inr ()" and "schema_fits c" and "j < length (sc_tiers c)"
  shows "tier_validate (sc_tiers c ! j) = Inr ()" and "tier_representable (sc_tiers c ! j)"
    and "slab_size (unat (tier_slot_count (sc_tiers c ! j))) (unat (sc_max_series c)) < 2 ^ 64"
  using assms by (auto simp: schema_validate_ok schema_fits_def list_all_length)

definition fresh_rings :: "platform \<Rightarrow> schema_config list \<Rightarrow> ring list list \<Rightarrow> bool" where
  "fresh_rings pf schemas rings \<longleftrightarrow> (\<forall>i < length schemas. \<forall>j < length (sc_tiers (schemas ! i)).
     rb_table (rings ! i ! j) = fresh_table pf (schemas ! i) (sc_tiers (schemas ! i) ! j) \<and>
     \<not> rb_has_wrapped (rings ! i ! j))"

lemma create_rings_some:
  assumes "create_rings pf path schemas d = (Inr rings, d')" and "schemas_ok schemas"
  shows "rings_inv path schemas rings \<and> fresh_rings pf schemas rings"
proof -
  have outer: "length rings = length schemas"
    using mapi_st_nth [OF assms(1) [unfolded create_rings_def]] by simp
  have inner: "\<exists>s1 s2. mapi_st (create_tier pf path i (schemas ! i)) 0 (sc_tiers (schemas ! i)) s1 = (Inr (rings ! i), s2)"
      if "i < length schemas" for i
    using mapi_st_nth [OF assms(1) [unfolded create_rings_def]] that by auto
  have ok: "schema_validate (schemas ! i) = Inr ()" "schema_fits (schemas ! i)" if "i < length schemas" for i
    using assms(2) that by (auto simp: schemas_ok_def list_all_length)
  have "sc_tiers (schemas ! i) \<noteq> [] \<and> length (rings ! i) = length (sc_tiers (schemas ! i)) \<and>
      (\<forall>j < length (sc_tiers (schemas ! i)).
        tier_ring (schemas ! i) (sc_tiers (schemas ! i) ! j) (slab_path path i j) (rings ! i ! j) \<and>
        rb_table (rings ! i ! j) = fresh_table pf (schemas ! i) (sc_tiers (schemas ! i) ! j) \<and>
        \<not> rb_has_wrapped (rings ! i ! j))"
    if i: "i < length schemas" for i
  proof -
    obtain s1 s2 where m: "mapi_st (create_tier pf path i (schemas ! i)) 0 (sc_tiers (schemas ! i)) s1 = (Inr (rings ! i), s2)"
      using inner [OF i] by blast
    have "sc_tiers (schemas ! i) \<noteq> []" using ok(1) [OF i] by (simp add: schema_validate_ok)
    moreover have "tier_ring (schemas ! i) (sc_tiers (schemas ! i) ! j) (slab_path path i j) (rings ! i ! j) \<and>
        rb_table (rings ! i ! j) = fresh_table pf (schemas ! i) (sc_tiers (schemas ! i) ! j) \<and>
        \<not> rb_has_wrapped (rings ! i ! j)"
      if j: "j < length (sc_tiers (schemas ! i))" for j
      using mapi_st_nth [OF m] j validated_tiers [OF ok [OF i] j]
        create_tier_some [of pf path i "schemas ! i" j "sc_tiers (schemas ! i) ! j"] by fastforce
    ultimately show ?thesis using mapi_st_nth [OF m] by blast
  qed
  then show ?thesis using outer by (auto simp: rings_inv_def fresh_rings_def)
qed

lemma create_rings_disk:
  assumes "create_rings pf path schemas d = (r, d')"
  shows "dk_text d' = dk_text d \<and> dk_dir d' = dk_dir d"
proof -
  have tier: "(dk_text d', dk_dir d') = (dk_text d, dk_dir d)"
    if "create_tier pf path i schema j tier d = (r, d')" for i schema j tier d r d'
    using that by (auto simp: create_tier_def put_slab_def abandoned_file_def Let_def split: sum.splits if_splits)
  have "(dk_text d', dk_dir d') = (dk_text d, dk_dir d)"
    using assms unfolding create_rings_def
    by (rule mapi_st_state [where g = "\<lambda>d. (dk_text d, dk_dir d)"])
      (rule mapi_st_state [where g = "\<lambda>d. (dk_text d, dk_dir d)"], assumption, rule tier)
  then show ?thesis by simp
qed

lemma create_new_some:
  assumes "create_new pf path schemas d = (Inr st, d')" and "schemas_ok schemas"
  shows "store_inv st \<and> st_path st = path \<and> st_schemas st = schemas \<and>
    st_registry st = registry_new schemas \<and> fresh_rings pf schemas (st_rings st) \<and>
    (\<exists>json d2. to_json (pf_metadata_json pf) (metadata_of pf schemas) = Inr json \<and>
      dk_text d2 (path_join path METADATA_FILE) = Some json \<and>
      registry_save (pf_os pf) (pf_index_json pf) (pf_keys pf) (registry_new schemas)
        (path_join path SERIES_INDEX_FILE) d2 = Inr d')"
proof -
  obtain d1 d2 d3 d4 json rings where c: "create_dir_all (pf_os pf) d path = Inr d1"
      "create_schema_dirs pf path (length schemas) d1 = (Inr (), d2)"
      "to_json (pf_metadata_json pf) (metadata_of pf schemas) = Inr json"
      "write_text (pf_os pf) d2 (path_join path METADATA_FILE) json = Inr d3"
      "create_rings pf path schemas d3 = (Inr rings, d4)"
      "registry_save (pf_os pf) (pf_index_json pf) (pf_keys pf) (registry_new schemas)
        (path_join path SERIES_INDEX_FILE) d4 = Inr d'"
      "st = \<lparr> st_path = path, st_schemas = schemas, st_registry = registry_new schemas, st_rings = rings \<rparr>"
    using assms(1) by (auto simp: create_new_def Let_def split: sum.splits prod.splits)
  have "dk_text d3 (path_join path METADATA_FILE) = Some json"
    using c(4) by (auto simp: write_text_def split: option.splits)
  then have "dk_text d4 (path_join path METADATA_FILE) = Some json"
    using create_rings_disk [OF c(5)] by simp
  then show ?thesis
    using c create_rings_some [OF c(5) assms(2)] reg_inv_new [of schemas]
    by (auto simp: store_inv_def registry_new_def)
qed


section \<open>A new store\<close>

lemma create_dir_ok:
  assumes "os_mkdir os path = None" and "dk_text d path = None" and "dk_slab d path = None"
  shows "create_dir_all os d path = Inr (d\<lparr>dk_dir := \<lambda>p. dk_dir d p \<or> ancestor p path\<rparr>)"
  using assms by (simp add: create_dir_all_def)

lemma create_schema_dirs_ok:
  assumes "\<forall>i < n. os_mkdir (pf_os pf) (schema_dir path i) = None \<and>
      dk_text d (schema_dir path i) = None \<and> dk_slab d (schema_dir path i) = None"
  shows "\<exists>dirs. create_schema_dirs pf path n d = (Inr (), d\<lparr>dk_dir := dirs\<rparr>)"
proof -
  have "\<exists>dirs. fold_st (\<lambda>i d. map_err (\<lambda>e. Error (Store (DirectoryAccess (schema_dir path i) e)))
      (create_dir_all (pf_os pf) d (schema_dir path i))) is d = (Inr (), d\<lparr>dk_dir := dirs\<rparr>)"
    if "\<forall>i \<in> set is. os_mkdir (pf_os pf) (schema_dir path i) = None \<and>
      dk_text d (schema_dir path i) = None \<and> dk_slab d (schema_dir path i) = None" for "is" and d :: disk
    using that
  proof (induction "is" arbitrary: d)
    case Nil
    then show ?case by (intro exI [of _ "dk_dir d"]) simp
  next
    case (Cons i js)
    let ?d = "d\<lparr>dk_dir := \<lambda>p. dk_dir d p \<or> ancestor p (schema_dir path i)\<rparr>"
    have "create_dir_all (pf_os pf) d (schema_dir path i) = Inr ?d"
      using Cons.prems by (intro create_dir_ok) simp_all
    moreover obtain dirs where "fold_st (\<lambda>i d. map_err (\<lambda>e. Error (Store (DirectoryAccess (schema_dir path i) e)))
      (create_dir_all (pf_os pf) d (schema_dir path i))) js ?d = (Inr (), ?d\<lparr>dk_dir := dirs\<rparr>)"
      using Cons.IH [of ?d] Cons.prems by auto
    ultimately show ?case by auto
  qed
  then show ?thesis using assms by (simp add: create_schema_dirs_def)
qed

text \<open>The system calls for a store all succeed.\<close>

definition os_calm :: "os \<Rightarrow> bool" where
  "os_calm os \<longleftrightarrow> (\<forall>p n. os_create os p = None \<and> os_set_len os p n = None \<and> os_open os p = None \<and> os_stat os p = None \<and>
     os_map os p = None \<and> os_read os p = None \<and> os_write os p = None \<and> os_mkdir os p = None)"

lemma os_ok_calm: "os_calm os_ok"
  by (simp add: os_calm_def os_ok_def)

lemma create_tier_total:
  assumes "os_calm (pf_os pf)" and "tier_validate tier = Inr ()" and "tier_representable tier"
    and "slab_size (unat (tier_slot_count tier)) (unat (sc_max_series schema)) < 2 ^ 64"
  shows "\<exists>r d'. create_tier pf path i schema j tier d = (Inr r, d')"
proof -
  note geo = tier_geometry [OF assms(2,3)]
  let ?sc = "ucast (tier_slot_count tier) :: u32" and ?iv = "word_of_nat (as_nanos (tc_interval tier)) :: u64"
  let ?h = "stable_hash (pf_hasher pf) schema"
  let ?s = "\<lparr> sl_mmap = initial_bytes ?h ?sc (sc_max_series schema) ?iv,
    sl_layout = layout_new ?sc (sc_max_series schema), sl_path = slab_path path i j \<rparr>"
  have size: "slab_size (unat ?sc) (unat (sc_max_series schema)) < 2 ^ 64" using assms(4) geo(1) by simp
  have "slab_create (pf_os pf) (slab_path path i j) ?h ?sc (sc_max_series schema) ?iv = Inr ?s"
    using assms(1) by (intro slab_create_bytes [OF size]) (simp_all add: os_calm_def)
  moreover have "\<exists>r. ring_new ?s = Inr r"
    using ring_new_fresh [OF initial_wf [OF size] initial_table geo(2,4)] by blast
  ultimately show ?thesis by (auto simp: create_tier_def Let_def)
qed

lemma create_rings_total:
  assumes "os_calm (pf_os pf)" and "schemas_ok schemas"
  shows "\<exists>rings d'. create_rings pf path schemas d = (Inr rings, d')"
  unfolding create_rings_def
proof (rule mapi_st_total)
  fix i s assume i: "i < length schemas"
  then have ok: "schema_validate (schemas ! i) = Inr ()" "schema_fits (schemas ! i)"
    using assms(2) by (auto simp: schemas_ok_def list_all_length)
  show "\<exists>y s'. mapi_st (create_tier pf path (0 + i) (schemas ! i)) 0 (sc_tiers (schemas ! i)) s = (Inr y, s')"
  proof (rule mapi_st_total)
    fix j d assume "j < length (sc_tiers (schemas ! i))"
    then show "\<exists>r d'. create_tier pf path (0 + i) (schemas ! i) (0 + j) (sc_tiers (schemas ! i) ! j) d = (Inr r, d')"
      using create_tier_total [OF assms(1) validated_tiers [OF ok]] by blast
  qed
qed

lemma create_new_total:
  assumes "os_calm (pf_os pf)" and "schemas_ok schemas"
    and "to_json (pf_metadata_json pf) (metadata_of pf schemas) = Inr meta"
    and "to_json (pf_index_json pf) (registry_index (pf_keys pf) (registry_new schemas)) = Inr idx"
    and "dk_text d path = None" "dk_slab d path = None"
    and "\<forall>i < length schemas. dk_text d (schema_dir path i) = None \<and> dk_slab d (schema_dir path i) = None"
  shows "\<exists>st d'. create_new pf path schemas d = (Inr st, d')"
proof -
  let ?d1 = "d\<lparr>dk_dir := \<lambda>p. dk_dir d p \<or> ancestor p path\<rparr>"
  have 1: "create_dir_all (pf_os pf) d path = Inr ?d1"
    using assms(1,5,6) by (intro create_dir_ok) (simp_all add: os_calm_def)
  obtain dirs where 2: "create_schema_dirs pf path (length schemas) ?d1 = (Inr (), ?d1\<lparr>dk_dir := dirs\<rparr>)"
    using create_schema_dirs_ok [of "length schemas" pf path ?d1] assms(1,7) by (auto simp: os_calm_def)
  let ?d3 = "(?d1\<lparr>dk_dir := dirs\<rparr>)\<lparr>dk_text := (dk_text d)(path_join path METADATA_FILE := Some meta)\<rparr>"
  have 3: "write_text (pf_os pf) (?d1\<lparr>dk_dir := dirs\<rparr>) (path_join path METADATA_FILE) meta = Inr ?d3"
    using assms(1) by (simp add: write_text_def os_calm_def)
  obtain rings d4 where 4: "create_rings pf path schemas ?d3 = (Inr rings, d4)"
    using create_rings_total [OF assms(1,2)] by blast
  obtain d5 where 5: "registry_save (pf_os pf) (pf_index_json pf) (pf_keys pf) (registry_new schemas)
      (path_join path SERIES_INDEX_FILE) d4 = Inr d5"
    using assms(1,4) by (simp add: registry_save_def write_text_def os_calm_def)
  show ?thesis
    using 1 2 3 4 5 assms(3) by (simp add: create_new_def)
qed

lemma validate_all: "fold_res (\<lambda>schema _. schema_validate schema) schemas () = Inr () \<longleftrightarrow>
    list_all (\<lambda>c. schema_validate c = Inr ()) schemas"
  by (induction schemas) (auto simp: rbind_eq_Inr)

text \<open>
  Opening a store where nothing exists creates it: with valid schemas and system calls
  that succeed, \<open>open\<close> returns a store with the given schemas and no series, whose rings
  satisfy the invariant with the geometry of their tiers and are all empty.
\<close>

theorem store_open_creates:
  assumes "os_calm (pf_os pf)" and "schemas_ok schemas"
    and "to_json (pf_metadata_json pf) (metadata_of pf schemas) = Inr meta"
    and "to_json (pf_index_json pf) (registry_index (pf_keys pf) (registry_new schemas)) = Inr idx"
    and "\<not> path_exists d path" and "\<forall>i < length schemas. \<not> path_exists d (schema_dir path i)"
  shows "\<exists>st d'. store_open pf path schemas d = (Inr st, d') \<and> store_inv st \<and>
    st_schemas st = schemas \<and> store_series_count st = 0 \<and> fresh_rings pf schemas (st_rings st)"
proof -
  have "fold_res (\<lambda>schema _. schema_validate schema) schemas () = Inr ()"
    unfolding validate_all using assms(2) by (simp add: schemas_ok_def list_all_iff)
  then have open': "store_open pf path schemas d = create_new pf path schemas d"
    using assms(5) by (simp add: store_open_def)
  obtain st d' where c: "create_new pf path schemas d = (Inr st, d')"
    using create_new_total [OF assms(1-4), of d path] assms(5,6) unfolding path_exists_def by blast
  then show ?thesis
    using create_new_some [OF c assms(2)] open'
    by (auto simp: store_series_count_def total_series_count_def registry_new_def)
qed


section \<open>Closing and reopening\<close>

lemma fold_put_slab:
  "dk_text (fold (\<lambda>r. put_slab (rb_slab r)) rs d) = dk_text d"
  "dk_dir (fold (\<lambda>r. put_slab (rb_slab r)) rs d) = dk_dir d"
  by (induction rs arbitrary: d) (simp_all add: put_slab_def)

lemma fold_put_slab_at:
  assumes "r \<in> set rs" and "\<And>r'. r' \<in> set rs \<Longrightarrow> sl_path (rb_slab r') = sl_path (rb_slab r) \<Longrightarrow> r' = r"
  shows "dk_slab (fold (\<lambda>r. put_slab (rb_slab r)) rs d) (sl_path (rb_slab r)) = Some (sl_mmap (rb_slab r))"
  using assms
proof (induction rs rule: rev_induct)
  case (snoc r' rs)
  show ?case
  proof (cases "sl_path (rb_slab r') = sl_path (rb_slab r)")
    case True
    then have "r' = r" using snoc.prems(2) by simp
    then show ?thesis by (simp add: put_slab_def)
  next
    case False
    then have "r \<in> set rs" using snoc.prems(1) by auto
    then show ?thesis
      using snoc False by (simp add: put_slab_def)
  qed
qed simp

lemma store_files_slab:
  assumes ri: "rings_inv path schemas rings" and i: "i < length schemas" and j: "j < length (sc_tiers (schemas ! i))"
  shows "dk_slab (fold (\<lambda>r. put_slab (rb_slab r)) (concat rings) d) (slab_path path i j)
    = Some (sl_mmap (rb_slab (rings ! i ! j)))"
proof -
  note at = rings_inv_at [OF ri]
  have p: "sl_path (rb_slab (rings ! i ! j)) = slab_path path i j"
    using at(4) [OF i j] by (simp add: tier_ring_def)
  have mem: "rings ! i ! j \<in> set (concat rings)"
    using at(1,3) [OF i] j by (auto intro!: bexI [of _ "rings ! i"])
  have uniq: "r' = rings ! i ! j" if r': "r' \<in> set (concat rings)" "sl_path (rb_slab r') = slab_path path i j" for r'
  proof -
    obtain i' j' where ij: "i' < length rings" "j' < length (rings ! i')" "r' = rings ! i' ! j'"
      using r'(1) by (auto simp: in_set_conv_nth)
    then have "i' < length schemas" "j' < length (sc_tiers (schemas ! i'))"
      using ri by (auto simp: rings_inv_def)
    then have "sl_path (rb_slab r') = slab_path path i' j'"
      using at(4) ij(3) by (simp add: tier_ring_def)
    then show ?thesis using r'(2) ij(3) slab_path_inject by auto
  qed
  show ?thesis
    using fold_put_slab_at [OF mem, of d] uniq unfolding p by blast
qed

lemma open_rings_back:
  assumes ri: "rings_inv path schemas rings" and "os_calm (pf_os pf)"
  shows "open_rings pf path schemas (fold (\<lambda>r. put_slab (rb_slab r)) (concat rings) d)
    = Inr (map (map reopened) rings)"
proof -
  let ?d = "fold (\<lambda>r. put_slab (rb_slab r)) (concat rings) d"
  have tier: "open_tier pf path i ?d j = Inr (reopened (rings ! i ! j))"
    if "i < length schemas" "j < length (sc_tiers (schemas ! i))" for i j
  proof -
    have tr: "ring_wf (rings ! i ! j)" "sl_path (rb_slab (rings ! i ! j)) = slab_path path i j"
      using rings_inv_at(4) [OF ri that] by (auto simp: tier_ring_def ring_inv_def)
    have "slab_wf (rb_slab (rings ! i ! j))" using tr(1) by (simp add: ring_wf_def)
    then have "slab_open (pf_os pf) (sl_mmap (rb_slab (rings ! i ! j))) (slab_path path i j)
        = Inr ((rb_slab (rings ! i ! j))\<lparr>sl_path := slab_path path i j\<rparr>)"
      using assms(2) by (intro slab_open_wf) (simp_all add: os_calm_def)
    moreover have "(rb_slab (rings ! i ! j))\<lparr>sl_path := slab_path path i j\<rparr> = rb_slab (rings ! i ! j)"
      using tr(2) by simp
    ultimately show ?thesis
      using store_files_slab [OF ri that, of d] ring_new_reopened [OF tr(1)]
      by (simp add: open_tier_def)
  qed
  have schema: "map_res (open_tier pf path i ?d) [0..<length (sc_tiers (schemas ! i))] = Inr (map reopened (rings ! i))"
    if i: "i < length schemas" for i
  proof -
    have "map_res (open_tier pf path i ?d) [0..<length (sc_tiers (schemas ! i))]
        = Inr (map (\<lambda>j. reopened (rings ! i ! j)) [0..<length (sc_tiers (schemas ! i))])"
      by (rule map_res_total) (use tier [OF i] in simp)
    moreover have "map (\<lambda>j. reopened (rings ! i ! j)) [0..<length (rings ! i)] = map reopened (rings ! i)"
      by (rule nth_equalityI) simp_all
    ultimately show ?thesis
      using rings_inv_at(3) [OF ri i] by simp
  qed
  have "open_rings pf path schemas ?d =
      Inr (map (\<lambda>(i, schema). map reopened (rings ! i)) (enumerate 0 schemas))"
    unfolding open_rings_def
  proof (rule map_res_total)
    fix x assume "x \<in> set (enumerate 0 schemas)"
    then obtain i where "i < length schemas" "x = (i, schemas ! i)"
      by (auto simp: in_set_enumerate_eq)
    then show "(case x of (i, schema) \<Rightarrow> map_res (open_tier pf path i ?d) [0..<length (sc_tiers schema)])
        = Inr (case x of (i, schema) \<Rightarrow> map reopened (rings ! i))"
      using schema by simp
  qed
  moreover have "map (\<lambda>(i, schema). map reopened (rings ! i)) (enumerate 0 schemas) = map (map reopened) rings"
    using ri by (intro nth_equalityI) (auto simp: rings_inv_def nth_enumerate_eq)
  ultimately show ?thesis by simp
qed

text \<open>
  What a configuration keeps when it goes through the metadata: everything but the durations of
  its tiers, which \<open>duration_serde\<close> stores as floating-point seconds and which may come back
  rounded (\<open>nanosecond_lost\<close> in \<open>Duration_Serde\<close>).
\<close>

definition config_alike :: "schema_config \<Rightarrow> schema_config \<Rightarrow> bool" where
  "config_alike c c' \<longleftrightarrow> sc_name c' = sc_name c \<and> sc_label_matcher c' = sc_label_matcher c \<and>
     sc_max_series c' = sc_max_series c \<and>
     list_all2 (\<lambda>t t'. tc_consolidation_fn t' = tc_consolidation_fn t) (sc_tiers c) (sc_tiers c')"

definition metadata_alike :: "store_metadata \<Rightarrow> store_metadata \<Rightarrow> bool" where
  "metadata_alike x y \<longleftrightarrow> sm_version y = sm_version x \<and>
     list_all2 (\<lambda>s s'. sw_hash s' = sw_hash s \<and> config_alike (sw_config s) (sw_config s')) (sm_schemas x) (sm_schemas y)"

lemma check_schemas_alike:
  assumes "list_all2 (\<lambda>c s'. sw_hash s' = stable_hash (pf_hasher pf) c \<and> config_alike c (sw_config s')) schemas ss"
  shows "check_schemas pf i schemas ss = Inr ()"
  using assms
proof (induction arbitrary: i rule: list_all2_induct)
  case (Cons c cs s' ss)
  then have "length (sc_tiers (sw_config s')) = length (sc_tiers c)"
    using list_all2_lengthD by (fastforce simp: config_alike_def)
  then show ?case using Cons by simp
qed simp

text \<open>The metadata and the index of the store stand in its directory.\<close>

definition persisted :: "platform \<Rightarrow> store \<Rightarrow> disk \<Rightarrow> bool" where
  "persisted pf st d \<longleftrightarrow> path_exists d (st_path st) \<and>
     (\<exists>json. to_json (pf_metadata_json pf) (metadata_of pf (st_schemas st)) = Inr json \<and>
        dk_text d (path_join (st_path st) METADATA_FILE) = Some json) \<and>
     (\<exists>json. to_json (pf_index_json pf) (registry_index (pf_keys pf) (st_registry st)) = Inr json \<and>
        dk_text d (path_join (st_path st) SERIES_INDEX_FILE) = Some json)"

text \<open>
  What \<open>serde_json\<close> does for the two documents: the index, which holds strings and integers
  only, reads back as it was written, and metadata whose durations fit in 64-bit nanosecond
  counts reads back alike.
\<close>

definition index_json_ok :: "series_index json \<Rightarrow> bool" where
  "index_json_ok js \<longleftrightarrow> (\<forall>x s. to_json js x = Inr s \<longrightarrow> of_json js s = Inr x)"

definition json_ok :: "platform \<Rightarrow> bool" where
  "json_ok pf \<longleftrightarrow> index_json_ok (pf_index_json pf) \<and>
     (\<forall>x s. list_all (\<lambda>c. list_all tier_representable (sc_tiers (sw_config c))) (sm_schemas x) \<longrightarrow>
        to_json (pf_metadata_json pf) x = Inr s \<longrightarrow>
        (\<exists>y. of_json (pf_metadata_json pf) s = Inr y \<and> metadata_alike x y))"

lemma path_exists_files: "path_exists d p \<Longrightarrow> path_exists (store_files st d) p"
proof -
  have "dk_slab d p \<noteq> None \<Longrightarrow> dk_slab (fold (\<lambda>r. put_slab (rb_slab r)) rs d) p \<noteq> None" for rs
    by (induction rs arbitrary: d) (auto simp: put_slab_def)
  then show "path_exists d p \<Longrightarrow> path_exists (store_files st d) p"
    by (auto simp: path_exists_def store_files_def fold_put_slab)
qed

lemma rings_reopened:
  assumes ri: "rings_inv path schemas rings" and safe: "\<forall>tiers \<in> set rings. \<forall>r \<in> set tiers. reopens_safely r"
  shows "rings_inv path schemas (map (map reopened) rings)"
proof -
  have "tier_ring (schemas ! i) (sc_tiers (schemas ! i) ! j) (slab_path path i j) (reopened (rings ! i ! j))"
    if ij: "i < length schemas" "j < length (sc_tiers (schemas ! i))" for i j
  proof -
    note at = rings_inv_at [OF ri ij(1)]
    have "rings ! i \<in> set rings" "rings ! i ! j \<in> set (rings ! i)"
      using at(1,3) ij(2) by simp_all
    then have "reopens_safely (rings ! i ! j)" using safe by blast
    moreover have "rb_slab (reopened (rings ! i ! j)) = rb_slab (rings ! i ! j)"
      by (simp add: reopened_def)
    ultimately show ?thesis
      using at(4) [OF ij(2)] reopened_inv by (auto simp: tier_ring_def)
  qed
  then show ?thesis using ri by (auto simp: rings_inv_def)
qed

lemma store_reopen_ok:
  assumes "store_inv st" and "schemas_ok (st_schemas st)" and "persisted pf st d"
    and "os_calm (pf_os pf)" and "json_ok pf" and "iteration_order (pf_keys pf)"
  shows "\<exists>st'. store_open pf (st_path st) (st_schemas st) (store_files st d) = (Inr st', store_files st d) \<and>
    st_schemas st' = st_schemas st \<and> st_path st' = st_path st \<and>
    map (map rb_table) (st_rings st') = map (map rb_table) (st_rings st) \<and>
    (\<forall>name labels. get_handle (st_registry st') name labels = get_handle (st_registry st) name labels) \<and>
    rg_next_series_id (st_registry st') = rg_next_series_id (st_registry st) \<and>
    rg_next_column (st_registry st') = rg_next_column (st_registry st) \<and>
    ((\<forall>tiers \<in> set (st_rings st). \<forall>r \<in> set tiers. reopens_safely r) \<longrightarrow> store_inv st')"
proof -
  let ?d = "store_files st d" and ?path = "st_path st" and ?schemas = "st_schemas st"
  have inv: "reg_inv (st_registry st)" "rg_schemas (st_registry st) = ?schemas"
    and ri: "rings_inv ?path ?schemas (st_rings st)"
    using assms(1) by (auto simp: store_inv_def)
  obtain mj ij where m: "to_json (pf_metadata_json pf) (metadata_of pf ?schemas) = Inr mj"
      "dk_text d (path_join ?path METADATA_FILE) = Some mj"
    and x: "to_json (pf_index_json pf) (registry_index (pf_keys pf) (st_registry st)) = Inr ij"
      "dk_text d (path_join ?path SERIES_INDEX_FILE) = Some ij"
    using assms(3) by (auto simp: persisted_def)
  have reads: "read_text (pf_os pf) ?d (path_join ?path METADATA_FILE) = Inr mj"
      "read_text (pf_os pf) ?d (path_join ?path SERIES_INDEX_FILE) = Inr ij"
    using m(2) x(2) assms(4) by (simp_all add: read_text_def store_files_def fold_put_slab os_calm_def)
  have "list_all (\<lambda>c. list_all tier_representable (sc_tiers (sw_config c))) (sm_schemas (metadata_of pf ?schemas))"
    using assms(2) by (auto simp: metadata_of_def schemas_ok_def schema_fits_def list_all_iff)
  then obtain y where y: "of_json (pf_metadata_json pf) mj = Inr y" "metadata_alike (metadata_of pf ?schemas) y"
    using assms(5) m(1) unfolding json_ok_def by blast
  have parsed: "of_json (pf_index_json pf) ij = Inr (registry_index (pf_keys pf) (st_registry st))"
    using assms(5) x(1) by (auto simp: json_ok_def index_json_ok_def)
  have alike: "sm_version y = METADATA_VERSION" "list_all2 (\<lambda>c s'. sw_hash s' = stable_hash (pf_hasher pf) c \<and>
      config_alike c (sw_config s')) ?schemas (sm_schemas y)"
    using y(2) by (simp_all add: metadata_alike_def metadata_of_def list_all2_map1)
  obtain rg where rg: "registry_load (pf_os pf) (pf_index_json pf) ?d (path_join ?path SERIES_INDEX_FILE) ?schemas = Inr rg"
      "reg_inv rg" "rg_schemas rg = ?schemas"
      "\<forall>name labels. get_handle rg name labels = get_handle (st_registry st) name labels"
      "rg_next_series_id rg = rg_next_series_id (st_registry st)"
      "rg_next_column rg = rg_next_column (st_registry st)"
    using registry_reload [OF inv assms(6) x(1) parsed reads(2)] by blast
  have rings: "open_rings pf ?path ?schemas ?d = Inr (map (map reopened) (st_rings st))"
    using open_rings_back [OF ri assms(4)] by (simp add: store_files_def)
  have idx: "path_exists ?d (path_join ?path SERIES_INDEX_FILE)"
    using x(2) by (simp add: path_exists_def store_files_def fold_put_slab)
  let ?st' = "\<lparr> st_path = ?path, st_schemas = ?schemas, st_registry = rg, st_rings = map (map reopened) (st_rings st) \<rparr>"
  have "open_existing pf ?path ?schemas ?d = Inr ?st'"
    using reads(1) y(1) rings rg(1) idx alike(1) check_schemas_alike [OF alike(2)] list_all2_lengthD [OF alike(2)]
    by (simp add: open_existing_def)
  moreover have "fold_res (\<lambda>schema _. schema_validate schema) ?schemas () = Inr ()"
    unfolding validate_all using assms(2) by (simp add: schemas_ok_def list_all_iff)
  moreover have "path_exists ?d ?path"
    using assms(3) path_exists_files by (simp add: persisted_def)
  ultimately have op: "store_open pf ?path ?schemas ?d = (Inr ?st', ?d)"
    by (simp add: store_open_def)
  have "(\<forall>tiers \<in> set (st_rings st). \<forall>r \<in> set tiers. reopens_safely r) \<longrightarrow> store_inv ?st'"
    using rg(2,3) rings_reopened [OF ri] by (simp add: store_inv_def)
  moreover have "map (map rb_table) (st_rings ?st') = map (map rb_table) (st_rings st)"
    by (simp add: reopened_def)
  ultimately show ?thesis
    using op rg(4,5,6) by auto
qed

text \<open>
  C16. A well-formed store with valid schemas survives being closed and opened again. When its
  metadata and index stand in the directory (\<open>persisted\<close>), the system calls succeed, hash maps
  iterate over each entry once and the JSON library reads the documents back, the metadata up to
  rounded durations, opening the directory with the same schemas succeeds: the rings have the same tables, and every lookup, every next identifier and every next column of the
  registry is the same. If no ring had wrapped, or the slot after its cursor was used, the
  reopened store satisfies the invariant.
\<close>

theorem store_reopen:
  assumes "store_inv st" and "schemas_ok (st_schemas st)" and "persisted pf st d"
    and "os_calm (pf_os pf)" and "json_ok pf" and "iteration_order (pf_keys pf)"
  shows "\<exists>st'. store_open pf (st_path st) (st_schemas st) (store_files st d) = (Inr st', store_files st d) \<and>
    map (map rb_table) (st_rings st') = map (map rb_table) (st_rings st) \<and>
    (\<forall>name labels. get_handle (st_registry st') name labels = get_handle (st_registry st) name labels) \<and>
    rg_next_series_id (st_registry st') = rg_next_series_id (st_registry st) \<and>
    rg_next_column (st_registry st') = rg_next_column (st_registry st) \<and>
    ((\<forall>tiers \<in> set (st_rings st). \<forall>r \<in> set tiers. reopens_safely r) \<longrightarrow> store_inv st')"
  using store_reopen_ok [OF assms] by blast


section \<open>Reopening after anything\<close>

text \<open>
  The directory of a store holds the index of some consistent registry over its schemas: the
  last one that could be saved.
\<close>

definition index_stands :: "series_index json \<Rightarrow> string \<Rightarrow> schema_config list \<Rightarrow> disk \<Rightarrow> bool" where
  "index_stands js path schemas d \<longleftrightarrow> path_exists d path \<and>
     (\<exists>rg ord json. iteration_order ord \<and> reg_inv rg \<and> rg_schemas rg = schemas \<and>
        to_json js (registry_index ord rg) = Inr json \<and>
        dk_text d (path_join path SERIES_INDEX_FILE) = Some json)"

lemma index_stands_text:
  assumes "index_stands js path schemas d" and "p \<noteq> path_join path SERIES_INDEX_FILE"
  shows "index_stands js path schemas (d\<lparr>dk_text := (dk_text d)(p := Some text)\<rparr>)"
  using assms by (auto simp: index_stands_def path_exists_def)

lemma index_stands_saved:
  assumes "path_exists d path" and "iteration_order ord" and "reg_inv rg" and "rg_schemas rg = schemas"
    and "to_json js (registry_index ord rg) = Inr json"
  shows "index_stands js path schemas (d\<lparr>dk_text := (dk_text d)(path_join path SERIES_INDEX_FILE := Some json)\<rparr>)"
  using assms by (auto simp: index_stands_def path_exists_def)

lemma index_stands_files: "index_stands js path schemas d \<Longrightarrow> index_stands js path schemas (store_files st d)"
  using path_exists_files [of d path st] by (auto simp: index_stands_def store_files_def fold_put_slab)

lemma open_tier_back:
  assumes "tier_ring schema tier p r" and "p = slab_path path i j" and "dk_slab d p = Some (sl_mmap (rb_slab r))"
    and "open_tier pf path i d j = Inr r'"
  shows "r' = reopened r"
proof -
  have wf: "ring_wf r" "slab_wf (rb_slab r)" "sl_path (rb_slab r) = p"
    using assms(1) by (auto simp: tier_ring_def ring_inv_def ring_wf_def)
  obtain s where s: "slab_open (pf_os pf) (sl_mmap (rb_slab r)) p = Inr s" "ring_new s = Inr r'"
    using assms(2-4) by (auto simp: open_tier_def Let_def rbind_eq_Inr)
  have "os_open (pf_os pf) p = None" "os_map (pf_os pf) p = None"
    using s(1) by (auto simp: slab_open_def split: option.splits)
  then have "s = (rb_slab r)\<lparr>sl_path := p\<rparr>"
    using slab_open_wf [OF wf(2)] s(1) by simp
  then have "s = rb_slab r" using wf(3) by simp
  then show ?thesis using ring_new_reopened [OF wf(1)] s(2) by simp
qed

lemma map_res_nth: "map_res f xs = Inr ys \<Longrightarrow> length ys = length xs \<and> (\<forall>k < length xs. f (xs ! k) = Inr (ys ! k))"
proof (induction xs arbitrary: ys)
  case (Cons x xs)
  then show ?case by (auto simp: rbind_eq_Inr nth_Cons split: nat.splits)
qed simp

lemma open_rings_reopened:
  assumes ri: "rings_inv path schemas rings"
    and "open_rings pf path schemas (fold (\<lambda>r. put_slab (rb_slab r)) (concat rings) d) = Inr rings'"
  shows "rings' = map (map reopened) rings"
proof -
  let ?d = "fold (\<lambda>r. put_slab (rb_slab r)) (concat rings) d"
  have outer: "length rings' = length schemas"
      "\<forall>i < length schemas. map_res (open_tier pf path i ?d) [0..<length (sc_tiers (schemas ! i))] = Inr (rings' ! i)"
    using map_res_nth [OF assms(2) [unfolded open_rings_def]] by (auto simp: nth_enumerate_eq)
  have "rings' ! i = map reopened (rings ! i)" if i: "i < length schemas" for i
  proof -
    note inner = map_res_nth [OF spec [OF outer(2), of i, rule_format, OF i]]
    show ?thesis
    proof (rule nth_equalityI)
      show "length (rings' ! i) = length (map reopened (rings ! i))"
        using inner rings_inv_at(3) [OF ri i] by simp
      fix j assume "j < length (rings' ! i)"
      then have j: "j < length (sc_tiers (schemas ! i))" using inner by simp
      then have "open_tier pf path i ?d j = Inr (rings' ! i ! j)" using inner by simp
      then have "rings' ! i ! j = reopened (rings ! i ! j)"
        by (rule open_tier_back [OF rings_inv_at(4) [OF ri i j] refl store_files_slab [OF ri i j]])
      then show "rings' ! i ! j = map reopened (rings ! i) ! j"
        using j rings_inv_at(3) [OF ri i] by simp
    qed
  qed
  then show ?thesis
    using outer(1) rings_inv_at(1) [OF ri] ri by (intro nth_equalityI) (auto simp: rings_inv_def)
qed

lemma store_open_again:
  assumes inv: "store_inv st" and idx: "index_stands (pf_index_json pf) (st_path st) (st_schemas st) d"
    and js: "index_json_ok (pf_index_json pf)"
    and safe: "\<forall>tiers \<in> set (st_rings st). \<forall>r \<in> set tiers. reopens_safely r"
    and opens: "store_open pf (st_path st) (st_schemas st) (store_files st d) = (Inr st', d')"
  shows "store_inv st' \<and> st_path st' = st_path st \<and> st_schemas st' = st_schemas st \<and> d' = store_files st d"
proof -
  let ?d = "store_files st d" and ?path = "st_path st" and ?schemas = "st_schemas st"
  let ?ip = "path_join ?path SERIES_INDEX_FILE"
  have ri: "rings_inv ?path ?schemas (st_rings st)" using inv by (simp add: store_inv_def)
  have idx': "index_stands (pf_index_json pf) ?path ?schemas ?d" by (rule index_stands_files [OF idx])
  then obtain rg0 ord json where rg0: "iteration_order ord" "reg_inv rg0" "rg_schemas rg0 = ?schemas"
      "to_json (pf_index_json pf) (registry_index ord rg0) = Inr json" "dk_text ?d ?ip = Some json"
    by (auto simp: index_stands_def)
  have parsed: "of_json (pf_index_json pf) json = Inr (registry_index ord rg0)"
    using js rg0(4) by (simp add: index_json_ok_def)
  have "path_exists ?d ?path" "path_exists ?d ?ip" using idx' rg0(5) by (auto simp: index_stands_def path_exists_def)
  then have "open_existing pf ?path ?schemas ?d = Inr st'" and d': "d' = ?d"
    using opens by (auto simp: store_open_def split: sum.splits)
  then obtain rings rg where r: "open_rings pf ?path ?schemas ?d = Inr rings"
      "registry_load (pf_os pf) (pf_index_json pf) ?d ?ip ?schemas = Inr rg"
      "st' = \<lparr> st_path = ?path, st_schemas = ?schemas, st_registry = rg, st_rings = rings \<rparr>"
    using \<open>path_exists ?d ?ip\<close>
    by (auto simp: open_existing_def Let_def rbind_eq_Inr split: if_splits)
  have "read_text (pf_os pf) ?d ?ip = Inr json"
    using r(2) rg0(5) by (auto simp: registry_load_def read_text_def rbind_eq_Inr map_err_def split: option.splits sum.splits)
  then have "reg_inv rg \<and> rg_schemas rg = ?schemas"
    using registry_reload [OF rg0(2,3,1,4) parsed] r(2) by force
  moreover have "rings = map (map reopened) (st_rings st)"
    using open_rings_reopened [OF ri, of pf d rings] r(1) by (simp add: store_files_def)
  ultimately show ?thesis
    using rings_reopened [OF ri safe] r(3) d' by (simp add: store_inv_def)
qed

lemma create_schema_dirs_mono:
  assumes "create_schema_dirs pf path n d = (r, d')" and "dk_dir d p"
  shows "dk_dir d' p"
proof -
  have "fold_st (\<lambda>i d. map_err (\<lambda>e. Error (Store (DirectoryAccess (schema_dir path i) e)))
      (create_dir_all (pf_os pf) d (schema_dir path i))) is d = (r, d') \<Longrightarrow> dk_dir d p \<Longrightarrow> dk_dir d' p" for "is" d
  proof (induction "is" arbitrary: d)
    case (Cons i js)
    then show ?case
      by (cases "create_dir_all (pf_os pf) d (schema_dir path i)")
        (auto simp: create_dir_all_def split: option.splits if_splits)
  qed simp
  then show ?thesis using assms by (simp add: create_schema_dirs_def)
qed

lemma create_new_dir:
  assumes "create_new pf path schemas d = (Inr st, d')"
  shows "dk_dir d' path"
proof -
  obtain d1 d2 d3 d4 json rings where c: "create_dir_all (pf_os pf) d path = Inr d1"
      "create_schema_dirs pf path (length schemas) d1 = (Inr (), d2)"
      "write_text (pf_os pf) d2 (path_join path METADATA_FILE) json = Inr d3"
      "create_rings pf path schemas d3 = (Inr rings, d4)"
      "registry_save (pf_os pf) (pf_index_json pf) (pf_keys pf) (registry_new schemas)
        (path_join path SERIES_INDEX_FILE) d4 = Inr d'"
    using assms(1) by (auto simp: create_new_def Let_def split: sum.splits prod.splits)
  have "dk_dir d1 path"
    using c(1) by (auto simp: create_dir_all_def ancestor_def split: option.splits if_splits)
  then have "dk_dir d2 path" using create_schema_dirs_mono [OF c(2)] by simp
  then have "dk_dir d4 path"
    using c(3) create_rings_disk [OF c(4)] by (auto simp: write_text_def split: option.splits)
  then show ?thesis
    using c(5) by (auto simp: registry_save_def Let_def write_text_def map_err_def rbind_eq_Inr
        split: sum.splits option.splits)
qed

text \<open>A created store is persisted.\<close>

lemma created_persisted:
  assumes "create_new pf path schemas d = (Inr st, d')" and "schemas_ok schemas" and "os_calm (pf_os pf)"
  shows "persisted pf st d'"
proof -
  obtain d1 where d1: "create_dir_all (pf_os pf) d path = Inr d1"
    using assms(1) by (auto simp: create_new_def split: sum.splits)
  obtain json d2 where c: "to_json (pf_metadata_json pf) (metadata_of pf schemas) = Inr json"
      "dk_text d2 (path_join path METADATA_FILE) = Some json"
      "registry_save (pf_os pf) (pf_index_json pf) (pf_keys pf) (registry_new schemas)
        (path_join path SERIES_INDEX_FILE) d2 = Inr d'"
      "st_path st = path" "st_schemas st = schemas" "st_registry st = registry_new schemas"
    using create_new_some [OF assms(1,2)] by blast
  have "path_join path SERIES_INDEX_FILE \<noteq> path_join path METADATA_FILE"
    by (simp add: path_join_inject SERIES_INDEX_FILE_def METADATA_FILE_def)
  moreover obtain ij where "to_json (pf_index_json pf) (registry_index (pf_keys pf) (registry_new schemas)) = Inr ij"
      "d' = d2\<lparr>dk_text := (dk_text d2)(path_join path SERIES_INDEX_FILE := Some ij)\<rparr>"
    using c(3) by (auto simp: registry_save_def Let_def write_text_def map_err_def rbind_eq_Inr
        split: sum.splits option.splits)
  moreover have "path_exists d' path"
    using create_new_dir [OF assms(1)] by (simp add: path_exists_def)
  ultimately show ?thesis
    using c by (auto simp: persisted_def)
qed

text \<open>A created store has its index in its directory.\<close>

lemma created_index:
  assumes "create_new pf path schemas d = (Inr st, d')" and "schemas_ok schemas" and "iteration_order (pf_keys pf)"
  shows "index_stands (pf_index_json pf) path schemas d'"
proof -
  obtain d2 where "registry_save (pf_os pf) (pf_index_json pf) (pf_keys pf) (registry_new schemas)
        (path_join path SERIES_INDEX_FILE) d2 = Inr d'"
    using create_new_some [OF assms(1,2)] by blast
  then obtain ij where ij: "to_json (pf_index_json pf) (registry_index (pf_keys pf) (registry_new schemas)) = Inr ij"
      "d' = d2\<lparr>dk_text := (dk_text d2)(path_join path SERIES_INDEX_FILE := Some ij)\<rparr>"
    by (auto simp: registry_save_def Let_def write_text_def map_err_def rbind_eq_Inr split: sum.splits option.splits)
  have "path_exists d' path" using create_new_dir [OF assms(1)] by (simp add: path_exists_def)
  moreover have "reg_inv (registry_new schemas)" "rg_schemas (registry_new schemas) = schemas"
    using reg_inv_new [of schemas] by (simp_all add: registry_new_def)
  ultimately show ?thesis
    using ij assms(3) by (auto simp: index_stands_def)
qed

text \<open>
  A creation that fails half way cannot be repeated: when the directory of the first schema
  cannot be made, \<open>open\<close> reports that, but the directory of the store stays behind, and every
  later \<open>open\<close>, on a system where all calls succeed, takes it for a store and fails because
  the metadata file is missing.
\<close>

theorem failed_create_blocks_open:
  assumes "list_all (\<lambda>c. schema_validate c = Inr ()) schemas" and "schemas \<noteq> []"
    and "\<not> path_exists d path" and "dk_text d (path_join path METADATA_FILE) = None"
    and "os_mkdir (pf_os pf) path = None" and "os_mkdir (pf_os pf) (schema_dir path 0) = Some e"
    and "os_calm (pf_os pf')"
  shows "\<exists>d'. store_open pf path schemas d = (err (Store (DirectoryAccess (schema_dir path 0) e)), d') \<and>
    store_open pf' path schemas d' = (err (Store (DirectoryAccess (path_join path METADATA_FILE) NOT_FOUND)), d')"
proof -
  have valid: "fold_res (\<lambda>schema _. schema_validate schema) schemas () = Inr ()"
    unfolding validate_all using assms(1) .
  let ?d = "d\<lparr>dk_dir := \<lambda>p. dk_dir d p \<or> ancestor p path\<rparr>"
  have made: "create_dir_all (pf_os pf) d path = Inr ?d"
    using assms(3,5) by (intro create_dir_ok) (simp_all add: path_exists_def)
  have n: "[0..<length schemas] = 0 # [Suc 0..<length schemas]"
    using assms(2) by (simp add: upt_conv_Cons)
  have "create_schema_dirs pf path (length schemas) ?d
      = (err (Store (DirectoryAccess (schema_dir path 0) e)), ?d)"
    unfolding create_schema_dirs_def n using assms(6) by (simp add: create_dir_all_def)
  then have first: "store_open pf path schemas d = (err (Store (DirectoryAccess (schema_dir path 0) e)), ?d)"
    using valid assms(3) made by (simp add: store_open_def create_new_def)
  have "path_exists ?d path" by (simp add: path_exists_def ancestor_def)
  then have "store_open pf' path schemas ?d = (err (Store (DirectoryAccess (path_join path METADATA_FILE) NOT_FOUND)), ?d)"
    using valid assms(4,7) by (simp add: store_open_def open_existing_def read_text_def os_calm_def)
  then show ?thesis using first by blast
qed

end
