(* ===== verification/Store_Consolidate.thy ===== *)
theory Store_Consolidate
  imports Store_Queries
begin

text \<open>
  Consolidation and draining at the level of the store: both keep the invariant and neither
  panics, whatever the cursors, the samples and the iteration orders.
\<close>

section \<open>One pair of tiers\<close>

lemma tier_write_steps:
  assumes "tier_ring schema tier path r" and "list_all (\<lambda>(c, v, t). c < sc_max_series schema) ws"
    and "fold_st write_step ws (r, n) = (res, (r', n'))"
  shows "tier_ring schema tier path r' \<and> no_crash res"
  using assms
proof (induction ws arbitrary: r n)
  case (Cons x ws)
  obtain c v t where x: "x = (c, v, t)" by (cases x) auto
  have c: "c < sc_max_series schema" using Cons.prems(2) x by simp
  show ?case
  proof (cases "is_infinite v \<or> t = 0")
    case True
    then have "ring_write r c v t = err (Record (InvalidValue v ''infinite values are not allowed'')) \<or>
        ring_write r c v t = err (Record (InvalidTimestamp t))"
      by (auto simp: ring_write_def)
    then have "r' = r \<and> no_crash res"
      using Cons.prems(3) by (auto simp: x write_step_def)
    then show ?thesis using Cons.prems(1) by simp
  next
    case False
    then obtain r1 where r1: "ring_write r c v t = Inr r1" "tier_ring schema tier path r1"
      using tier_write(2) [OF Cons.prems(1) c] by blast
    then show ?thesis
      using Cons.IH [OF r1(2), of "uadd n 1"] Cons.prems(2,3) by (simp add: x write_step_def)
  qed
qed auto

lemma tier_process_windows:
  assumes src: "tier_ring schema st ps src" and dst: "tier_ring schema dt pd dst" and "orders_ok o'"
    and "start < end'" and run: "process_windows o' src dst dt fn start end' (sc_max_series schema) = (res, dst')"
  shows "tier_ring schema dt pd dst' \<and> no_crash res"
proof -
  let ?d = "word_of_nat (as_nanos (tc_interval dt)) :: u64" and ?n = "sc_max_series schema"
  have d: "?d \<noteq> 0"
    using dst by (auto simp: tier_ring_def ring_inv_def ring_wf_def)
  have inv: "ring_inv src" "?n \<le> tb_cols (rb_table src)" using src by (auto simp: tier_ring_def)
  obtain W where W: "collect_windows src ?d start end' ?n = Inr W" "windows_ok W"
      "\<And>w c. win_vals W w c = (if c < ?n then in_window ?d w (source_points (rb_table src) start end' c) else [])"
    using collect_windows_ok [OF inv(1) assms(4) d inv(2)] by blast
  have "list_all (\<lambda>(c, v, t). c < ?n) (window_writes o' fn W)"
    unfolding list_all_iff window_writes_set [OF W(2) assms(3)] W(3) by (auto split: if_splits)
  moreover obtain r n' where f: "fold_st write_step (window_writes o' fn W) (dst, 0) = (r, (dst', n'))"
      "no_crash r \<longrightarrow> no_crash res"
    using run W(1) by (auto simp: process_windows_def Let_def no_crash_def split: prod.splits sum.splits)
  ultimately show ?thesis
    using tier_write_steps [OF dst _ f(1)] by blast
qed

lemma scans_total:
  assumes "tier_ring schema tier path r"
  obtains a b where "ring_oldest_timestamp r = Inr a" "ring_newest_timestamp r = Inr b"
proof -
  have "ring_inv r" "unat (tb_slots (rb_table r)) \<le> 2 ^ 31"
    using assms by (auto simp: tier_ring_def)
  then show thesis using that ring_oldest_newest_scans by blast
qed

lemma tier_pair_keeps:
  assumes ri: "rings_inv path schemas rings" and i: "i < length schemas" and "orders_ok o'"
    and s: "Suc s < length (sc_tiers (schemas ! i))"
    and run: "consolidate_tier_pair o' (schemas ! i) i s (Suc s) (cs, rings) = (res, (cs', rings'))"
  shows "rings_inv path schemas rings' \<and> no_crash res"
proof -
  let ?c = "schemas ! i" and ?src = "rings ! i ! s" and ?dst = "rings ! i ! Suc s"
  note at = rings_inv_at [OF ri i]
  have src: "tier_ring ?c (sc_tiers ?c ! s) (slab_path path i s) ?src"
    and dst: "tier_ring ?c (sc_tiers ?c ! Suc s) (slab_path path i (Suc s)) ?dst"
    using at(4) s by simp_all
  show ?thesis
  proof (cases "tc_consolidation_fn (sc_tiers ?c ! Suc s)")
    case None
    then have "pair_inputs ?c rings i s (Suc s) = err (Consolidation (NoConsolidationFunction i (Suc s)))"
      using s by (simp add: pair_inputs_def)
    then show ?thesis using run ri by (auto simp: consolidate_tier_pair_def)
  next
    case (Some fn)
    then have inp: "pair_inputs ?c rings i s (Suc s) = Inr (sc_tiers ?c ! s, sc_tiers ?c ! Suc s, fn, ?src, ?dst)"
      using s at(1,3) by (simp add: pair_inputs_ok)
    obtain oldest newest where scans: "ring_oldest_timestamp ?src = Inr oldest" "ring_newest_timestamp ?src = Inr newest"
      by (rule scans_total [OF src])
    obtain last cs1 where cur: "get_or_initialize_cursor cs ?src i s (Suc s) = Inr (last, cs1)"
      using scans(1) by (cases "get_last_processed cs i s (Suc s)") (auto simp: get_or_initialize_cursor_def)
    obtain start end' where range: "new_range ?src (sc_tiers ?c ! s) last = Inr (newest, start, end')"
      using scans by (cases "last = 0") (auto simp: new_range_def)
    show ?thesis
    proof (cases "start < end'")
      case False
      then show ?thesis
        using run inp cur range ri by (auto simp: consolidate_tier_pair_def not_less)
    next
      case True
      obtain r dst' where w: "process_windows o' ?src ?dst (sc_tiers ?c ! Suc s) fn start end' (sc_max_series ?c) = (r, dst')"
        by force
      have keep: "tier_ring ?c (sc_tiers ?c ! Suc s) (slab_path path i (Suc s)) dst'" "no_crash r"
        using tier_process_windows [OF src dst assms(3) True w] by simp_all
      have nle: "(end' \<le> start) = False" using True by simp
      have eq: "consolidate_tier_pair o' ?c i s (Suc s) (cs, rings) =
        (case r of Inl e \<Rightarrow> (Inl e, (cs1, rings[i := (rings ! i)[Suc s := dst']]))
         | Inr operations \<Rightarrow> (Inr operations,
             (if operations > 0
              then update_last_processed i s (Suc s) (case newest of None \<Rightarrow> 0 | Some t \<Rightarrow> t) cs1
              else cs1, rings[i := (rings ! i)[Suc s := dst']])))"
        by (simp only: consolidate_tier_pair_def prod.case inp cur range sum.case nle if_False w Let_def)
      have "rings' = rings[i := (rings ! i)[Suc s := dst']]" "no_crash r \<longrightarrow> no_crash res"
        using run unfolding eq by (cases r; auto simp: no_crash_Inl)+
      then show ?thesis
        using rings_inv_update [OF ri i s keep(1)] keep(2) by simp
    qed
  qed
qed

section \<open>All pairs\<close>

lemma pairs_loop_keeps:
  assumes "rings_inv path schemas rings" and "i < length schemas" and "orders_ok o'"
    and "\<forall>s \<in> set ss. Suc s < length (sc_tiers (schemas ! i))"
    and "pairs_loop o' (schemas ! i) i ss acc (cs, rings) = (res, (cs', rings'))"
  shows "rings_inv path schemas rings' \<and> no_crash res"
  using assms
proof (induction ss arbitrary: acc cs rings)
  case (Cons s ss)
  obtain r cs1 rings1 where p: "consolidate_tier_pair o' (schemas ! i) i s (Suc s) (cs, rings) = (r, (cs1, rings1))"
    by (metis surj_pair)
  have keep: "rings_inv path schemas rings1" "no_crash r"
    using tier_pair_keeps [OF Cons.prems(1-3) _ p] Cons.prems(4) by simp_all
  then show ?case
    using Cons.IH [OF keep(1) Cons.prems(2,3)] Cons.prems(4,5) p by (cases r) auto
qed auto

lemma schemas_loop_keeps:
  assumes "rings_inv path schemas rings" and "orders_ok o'" and "schemas = pre @ ss" and "i = length pre"
    and "schemas_loop o' i ss acc (cs, rings) = (res, (cs', rings'))"
  shows "rings_inv path schemas rings' \<and> no_crash res"
  using assms
proof (induction ss arbitrary: i pre acc cs rings)
  case (Cons c ss)
  have nxt: "schemas = (pre @ [c]) @ ss" "Suc i = length (pre @ [c])" using Cons.prems(3,4) by simp_all
  have c: "schemas ! i = c" "i < length schemas" using Cons.prems(3,4) by simp_all
  show ?case
  proof (cases "length (sc_tiers c) < 2")
    case True
    then show ?thesis using Cons.IH [OF Cons.prems(1,2) nxt] Cons.prems(5) by simp
  next
    case False
    let ?ss = "[0..<length (sc_tiers (schemas ! i)) - 1]"
    obtain r cs1 rings1 where p: "pairs_loop o' (schemas ! i) i ?ss acc (cs, rings) = (r, (cs1, rings1))"
      by (metis surj_pair)
    have "\<forall>s \<in> set ?ss. Suc s < length (sc_tiers (schemas ! i))" by auto
    then have keep: "rings_inv path schemas rings1" "no_crash r"
      using pairs_loop_keeps [OF Cons.prems(1) c(2) Cons.prems(2) _ p] by simp_all
    note p = p [unfolded c(1)]
    show ?thesis
      using Cons.IH [OF keep(1) Cons.prems(2) nxt] keep Cons.prems(5) p False by (cases r) auto
  qed
qed auto

lemma store_consolidate_keeps:
  assumes inv: "store_inv st" and "orders_ok (pf_orders pf)" and run: "store_consolidate pf st d = (res, st', d')"
  shows "store_inv st' \<and> st_registry st' = st_registry st \<and> st_path st' = st_path st \<and>
    st_schemas st' = st_schemas st \<and> no_crash res"
proof -
  have ri: "rings_inv (st_path st) (st_schemas st) (st_rings st)" using inv by (simp add: store_inv_def)
  show ?thesis
  proof (cases "engine_new (pf_os pf) (pf_cursors_json pf) d (st_path st) (st_schemas st)")
    case (Inl e)
    have "no_crash (engine_new (pf_os pf) (pf_cursors_json pf) d (st_path st) (st_schemas st))"
      by (auto simp: engine_new_def cursors_load_def no_crash_def map_err_def rbind_def split: sum.splits if_splits)
    then have "no_crash res" "st' = st"
      using run Inl by (auto simp: store_consolidate_def no_crash_def)
    then show ?thesis using inv by simp
  next
    case (Inr e)
    then have e: "ce_schemas e = st_schemas st" by (auto simp: engine_new_def rbind_eq_Inr)
    obtain r cs rings where l: "schemas_loop (pf_orders pf) 0 (st_schemas st) 0 (ce_cursors e, st_rings st) = (r, (cs, rings))"
      by (metis surj_pair)
    have keep: "rings_inv (st_path st) (st_schemas st) rings" "no_crash r"
      using schemas_loop_keeps [OF ri assms(2) _ _ l, of "[]"] by simp_all
    have save: "no_crash (save_cursors os js e' d)" for os js e' d
      by (auto simp: save_cursors_def cursors_save_def no_crash_def map_err_def rbind_def split: sum.splits)
    have "st' = st\<lparr>st_rings := rings\<rparr>" "no_crash res"
      using run Inr l e keep(2) save [of "pf_os pf" "pf_cursors_json pf" "e\<lparr>ce_cursors := cs\<rparr>" d]
      by (auto simp: store_consolidate_def engine_consolidate_def Let_def no_crash_def split: sum.splits fault.splits)
    then show ?thesis using inv keep(1) by (simp add: store_inv_def)
  qed
qed

section \<open>Draining\<close>

lemma drain_series_safe:
  assumes tr: "tier_ring schema tier path r" and "c < sc_max_series schema"
  shows "no_crash (drain_series r i j c cursor)"
proof -
  have inv: "ring_inv r" "c < tb_cols (rb_table r)" using assms by (auto simp: tier_ring_def)
  obtain oldest newest where scans: "ring_oldest_timestamp r = Inr oldest" "ring_newest_timestamp r = Inr newest"
    by (rule scans_total [OF tr])
  have read: "no_crash (ring_read_all r c a b)" for a b
    using ring_read_all_contents [OF inv, of a b]
    by (cases "a < b") (auto simp: ring_read_all_def ring_read_def not_less)
  show ?thesis
    unfolding drain_series_def Let_def scans rbind_Inr
    by (auto intro: no_crash_rbind read split: option.splits)
qed

lemma drain_handles_safe:
  assumes "tier_ring schema tier path r" and "\<forall>h \<in> set hs. sh_schema_index h = i \<longrightarrow> sh_column h < sc_max_series schema"
  shows "no_crash (fst (drain_handles r i j hs cursor))"
  using assms(2)
proof (induction hs arbitrary: cursor)
  case (Cons h hs)
  have IH: "no_crash (fst (drain_handles r i j hs cursor))" for cursor using Cons by simp
  show ?case
  proof (cases "sh_schema_index h = i")
    case True
    then have safe: "no_crash (drain_series r i j (sh_column h) cursor)"
      using drain_series_safe [OF assms(1)] Cons.prems by simp
    show ?thesis
    proof (cases "drain_series r i j (sh_column h) cursor")
      case (Inl e)
      then show ?thesis using safe True by (simp add: no_crash_Inl)
    next
      case (Inr x)
      obtain pts cursor1 where x: "x = (pts, cursor1)" by force
      obtain res cursor2 where d: "drain_handles r i j hs cursor1 = (res, cursor2)" by force
      then have "no_crash res" using IH [of cursor1] by simp
      then show ?thesis using True Inr x d by (cases res) (auto simp: no_crash_Inl)
    qed
  qed (use IH in simp)
qed simp

lemma store_drain_safe:
  assumes inv: "store_inv st" and "\<forall>h \<in> set hs. registered st h" and "\<forall>i \<in> set is. i < length (st_schemas st)"
  shows "no_crash (fst (drain_schemas (st_rings st) tier hs is cursor))"
  using assms(3)
proof (induction "is" arbitrary: cursor)
  case (Cons i js)
  have ri: "rings_inv (st_path st) (st_schemas st) (st_rings st)" using inv by (simp add: store_inv_def)
  have i: "i < length (st_schemas st)" using Cons.prems by simp
  note at = rings_inv_at [OF ri i]
  have IH: "no_crash (fst (drain_schemas (st_rings st) tier hs js cursor))" for cursor
    using Cons by simp
  show ?case
  proof (cases "tier < length (st_rings st ! i)")
    case True
    let ?hs = "filter (\<lambda>h. sh_schema_index h = i) hs"
    have "\<forall>h \<in> set ?hs. sh_schema_index h = i \<longrightarrow> sh_column h < sc_max_series (st_schemas st ! i)"
      using registered_bounds [OF inv] assms(2) by auto
    then have safe: "no_crash (fst (drain_tier (st_rings st) i tier ?hs cursor))"
      using drain_handles_safe [OF at(4)] True at(1,3) by (simp add: drain_tier_def)
    obtain r cursor1 where d: "drain_tier (st_rings st) i tier ?hs cursor = (r, cursor1)" by force
    show ?thesis
    proof (cases r)
      case (Inl e)
      then show ?thesis using safe d IH True at(1) by (auto simp: no_crash_Inl Let_def)
    next
      case (Inr xs)
      obtain res cursor2 where e: "drain_schemas (st_rings st) tier hs js cursor1 = (res, cursor2)" by force
      then have "no_crash res" using IH [of cursor1] by simp
      then show ?thesis using d e Inr IH True at(1) by (cases res) (auto simp: no_crash_Inl Let_def)
    qed
  qed (use IH at(1) in \<open>simp add: Let_def\<close>)
qed simp

end
