(* ===== verification/Store_Register.thy ===== *)
theory Store_Register
  imports Store_Consolidate Store_Records Store_Lifecycle
begin

text \<open>
  Registration at the level of the store. \<open>register\<close> hands the slabs of the tiers of one
  schema to \<open>sync_to_slabs\<close>, which takes a position for a schema index; as long as no schema
  gives out more identifiers than the slabs it meets have room for, the rings keep their
  invariant, and otherwise the timestamps of a slab are overwritten.
\<close>

section \<open>Synchronising the tiers of a schema\<close>

lemma sync_slab_path: "sync_slab infos rg i s = (r, s') \<Longrightarrow> sl_path s' = sl_path s"
proof -
  have "fold_st (\<lambda>info s. if si_schema_index info = i
      then set_series_column s (si_series_id info) (si_column info) else Inr s) infos s = (r, s') \<Longrightarrow>
    sl_path s' = sl_path s" for s
    by (induction infos arbitrary: s) (auto dest: put_path(3) split: sum.splits if_splits)
  then show "sync_slab infos rg i s = (r, s') \<Longrightarrow> sl_path s' = sl_path s"
    by (fastforce simp: sync_slab_def put_path(5))
qed

lemma sync_from_path: "sync_from infos rg i slabs = (r, slabs') \<Longrightarrow> map sl_path slabs' = map sl_path slabs"
proof (induction slabs arbitrary: i r slabs')
  case (Cons s slabs)
  obtain r1 s1 where s1: "sync_slab infos rg i s = (r1, s1)" by force
  have p: "sl_path s1 = sl_path s" by (rule sync_slab_path [OF s1])
  show ?case
  proof (cases r1)
    case (Inl e)
    then show ?thesis using Cons.prems s1 p by auto
  next
    case (Inr u)
    obtain r2 ss where "sync_from infos rg (Suc i) slabs = (r2, ss)" by force
    then show ?thesis using Cons.IH Cons.prems s1 p Inr by auto
  qed
qed simp

lemma ring_inv_directory:
  assumes "ring_inv r" and "slab_wf s" and "slab_table s = (rb_table r)\<lparr>tb_count := n, tb_dir := f\<rparr>"
  shows "ring_inv (r\<lparr>rb_slab := s\<rparr>)"
proof -
  have slot: "slot_of (slab_table s) t = slot_of (rb_table r) t" for t
    by (rule slot_of_config) (simp_all add: assms(3))
  show ?thesis
    using assms(1,2) slot
    by (simp add: ring_inv_def ring_wf_def table_inv_def unwrapped_inv_def) (simp add: assms(3))
qed

text \<open>No schema at the position of a tier gives out more identifiers than the tier has columns.\<close>

definition aligned_at :: "schema_config list \<Rightarrow> usize \<Rightarrow> bool" where
  "aligned_at schemas i \<longleftrightarrow> (\<forall>j < length (sc_tiers (schemas ! i)).
     j < length schemas \<longrightarrow> sc_max_series (schemas ! j) \<le> sc_max_series (schemas ! i))"

definition aligned :: "schema_config list \<Rightarrow> bool" where
  "aligned schemas \<longleftrightarrow> (\<forall>i < length schemas. aligned_at schemas i)"

lemma aligned_single: "aligned [c]" "aligned_at [c] 0"
  by (simp_all add: aligned_def aligned_at_def)

lemma registry_ids:
  assumes "reg_inv rg" and "iteration_order ord" and "info \<in> set (hm_values ord (rg_series_map rg))"
  shows "si_schema_index info < length (rg_schemas rg) \<and>
    si_series_id info < sc_max_series (rg_schemas rg ! si_schema_index info)"
proof -
  have "set (hm_values ord (rg_series_map rg)) = ran (hm_get (rg_series_map rg))"
    using assms(1,2) by (simp add: hm_values_set reg_inv_def)
  then obtain k where "hm_get (rg_series_map rg) k = Some info"
    using assms(3) by (auto simp: ran_def)
  then have "si_schema_index info < length (rg_schemas rg)"
      "si_series_id info < rg_next_series_id rg ! si_schema_index info"
      "rg_next_series_id rg ! si_schema_index info \<le> sc_max_series (rg_schemas rg ! si_schema_index info)"
    using assms(1) unfolding reg_inv_def by blast+
  then show ?thesis by simp
qed

lemma sync_tiers:
  assumes reg: "reg_inv rg" "rg_schemas rg = schemas" and ri: "rings_inv path schemas rings"
    and i: "i < length schemas" and "aligned_at schemas i" and ord: "iteration_order ord"
  shows "\<exists>slabs. sync_to_slabs ord rg (map rb_slab (rings ! i)) = (Inr (), slabs) \<and>
    rings_inv path schemas (rings[i := put_slabs (rings ! i) slabs]) \<and>
    (\<forall>j < length (sc_tiers (schemas ! i)). rb_table (put_slabs (rings ! i) slabs ! j) =
       (rb_table (rings ! i ! j))\<lparr>tb_count := registry_series_count rg j,
         tb_dir := dir_of (hm_values ord (rg_series_map rg)) j (tb_dir (rb_table (rings ! i ! j)))\<rparr>)"
proof -
  let ?infos = "hm_values ord (rg_series_map rg)" and ?tiers = "rings ! i" and ?n = "length (sc_tiers (schemas ! i))"
  note at = rings_inv_at [OF ri i]
  have tier: "tier_ring (schemas ! i) (sc_tiers (schemas ! i) ! j) (slab_path path i j) (?tiers ! j)" if "j < ?n" for j
    using at(4) that .
  have slab: "slab_wf (rb_slab (?tiers ! j))" "tb_cols (rb_table (?tiers ! j)) = sc_max_series (schemas ! i)"
    if "j < ?n" for j
    using tier [OF that] by (auto simp: tier_ring_def ring_inv_def ring_wf_def)
  have room: "si_series_id info < tb_cols (rb_table (?tiers ! j))"
    if "j < ?n" "info \<in> set ?infos" "si_schema_index info = j" for j info
    using registry_ids [OF reg(1) ord that(2)] assms(5) i that(1,3) slab(2) [OF that(1)]
    by (simp add: aligned_at_def reg(2)) (meson order_less_le_trans)
  obtain slabs where sl: "sync_from ?infos rg 0 (map rb_slab ?tiers) = (Inr (), slabs)" "length slabs = ?n"
      "\<forall>j < ?n. slab_wf (slabs ! j) \<and> slab_table (slabs ! j) = (rb_table (?tiers ! j))\<lparr>
         tb_count := registry_series_count rg j, tb_dir := dir_of ?infos j (tb_dir (rb_table (?tiers ! j)))\<rparr>"
    using sync_from_ok [of "map rb_slab ?tiers" ?infos 0 rg] slab room at(3) by auto
  have paths: "sl_path (slabs ! j) = sl_path (rb_slab (?tiers ! j))" if "j < ?n" for j
    using arg_cong [OF sync_from_path [OF sl(1)], of "\<lambda>ps. ps ! j"] that sl(2) at(3) by simp
  have put: "put_slabs ?tiers slabs ! j = (?tiers ! j)\<lparr>rb_slab := slabs ! j\<rparr>" if "j < ?n" for j
    using that sl(2) at(3) by (simp add: put_slabs_def)
  have "tier_ring (schemas ! i) (sc_tiers (schemas ! i) ! j) (slab_path path i j) (put_slabs ?tiers slabs ! j)"
    if j: "j < ?n" for j
  proof -
    have "ring_inv ((?tiers ! j)\<lparr>rb_slab := slabs ! j\<rparr>)"
      using tier [OF j] sl(3) j by (intro ring_inv_directory) (auto simp: tier_ring_def)
    then show ?thesis
      using tier [OF j] sl(3) j paths [OF j] by (auto simp: put tier_ring_def)
  qed
  then have "rings_inv path schemas (rings[i := put_slabs ?tiers slabs])"
    using ri i sl(2) at(3) by (auto simp: rings_inv_def nth_list_update put_slabs_def)
  moreover have "\<forall>j < ?n. rb_table (put_slabs ?tiers slabs ! j) = (rb_table (?tiers ! j))\<lparr>
      tb_count := registry_series_count rg j, tb_dir := dir_of ?infos j (tb_dir (rb_table (?tiers ! j)))\<rparr>"
    using sl(3) put by simp
  ultimately show ?thesis
    using sl(1) by (auto simp: sync_to_slabs_def)
qed

lemma store_register_keeps:
  assumes inv: "store_inv st" and al: "aligned (st_schemas st)" and ord: "iteration_order (pf_keys pf)"
    and run: "store_register pf name labels st d = (res, st', d')"
  shows "store_inv st' \<and> st_schemas st' = st_schemas st \<and> no_crash res"
proof (cases "register (st_registry st) name labels")
  case (Inl e)
  have "no_crash (register (st_registry st) name labels)"
    using register_no_crash inv by (simp add: store_inv_def)
  then have "no_crash res" "st' = st" using run Inl by (auto simp: store_register_def no_crash_Inl)
  then show ?thesis using inv by simp
next
  case (Inr x)
  then obtain h rg where x: "register (st_registry st) name labels = Inr (h, rg)" by (cases x) simp
  have reg0: "reg_inv (st_registry st)" "rg_schemas (st_registry st) = st_schemas st"
    and ri: "rings_inv (st_path st) (st_schemas st) (st_rings st)"
    using inv by (auto simp: store_inv_def)
  have reg: "reg_inv rg" "rg_schemas rg = st_schemas st"
    using register_inv [OF reg0(1) x] register_schemas [OF x] reg0(2) by simp_all
  have i: "sh_schema_index h < length (st_schemas st)"
    using register_bound [OF reg0(1) x] reg0(2) by simp
  obtain slabs where sl: "sync_to_slabs (pf_keys pf) rg (map rb_slab (st_rings st ! sh_schema_index h)) = (Inr (), slabs)"
      "rings_inv (st_path st) (st_schemas st)
        ((st_rings st)[sh_schema_index h := put_slabs (st_rings st ! sh_schema_index h) slabs])"
    using sync_tiers [OF reg ri i _ ord] al i by (auto simp: aligned_def)
  let ?st = "st\<lparr>st_registry := rg, st_rings := (st_rings st)[sh_schema_index h :=
      put_slabs (st_rings st ! sh_schema_index h) slabs]\<rparr>"
  have "no_crash (registry_save os js ord rg p d1)" for os js ord p d1
    by (auto simp: registry_save_def Let_def intro!: no_crash_rbind no_crash_map_err)
  then have save: "\<exists>e. f = Error e" if "registry_save os js ord rg p d1 = Inl f" for os js ord p d1 f
    using that by (metis no_crash_Inl)
  have "st' = ?st \<and> no_crash res"
    using run x rings_inv_at(1) [OF ri i] sl(1)
    by (auto simp: store_register_def Let_def no_crash_Inl split: sum.splits dest: save)
  then show ?thesis
    using reg sl(2) by (simp add: store_inv_def)
qed


section \<open>What a registration stores\<close>

lemma registry_save_some:
  assumes "registry_save os js ord rg path d = Inr d'"
  shows "\<exists>json. to_json js (registry_index ord rg) = Inr json \<and> d' = d\<lparr>dk_text := (dk_text d)(path := Some json)\<rparr>"
  using assms by (auto simp: registry_save_def Let_def write_text_def map_err_def rbind_eq_Inr split: sum.splits option.splits)

lemma index_not_metadata: "path_join path SERIES_INDEX_FILE \<noteq> path_join path METADATA_FILE"
  by (simp add: path_join_inject SERIES_INDEX_FILE_def METADATA_FILE_def)

lemma store_register_stores:
  assumes inv: "store_inv st" and al: "aligned_at (st_schemas st) (sh_schema_index h)"
    and ord: "iteration_order (pf_keys pf)" and reg: "register (st_registry st) name labels = Inr (h, rg)"
    and json: "to_json (pf_index_json pf) (registry_index (pf_keys pf) rg) = Inr json"
    and os: "os_write (pf_os pf) (path_join (st_path st) SERIES_INDEX_FILE) = None"
  shows "\<exists>st' d'. store_register pf name labels st d = (Inr h, st', d') \<and> store_inv st' \<and>
    st_registry st' = rg \<and> st_schemas st' = st_schemas st \<and> st_path st' = st_path st \<and>
    (persisted pf st d \<longrightarrow> persisted pf st' d') \<and>
    (\<forall>i. i \<noteq> sh_schema_index h \<longrightarrow> st_rings st' ! i = st_rings st ! i) \<and>
    (\<forall>j < length (tiers_of st h). tier_table st' h j = (tier_table st h j)\<lparr>
       tb_count := registry_series_count rg j,
       tb_dir := dir_of (hm_values (pf_keys pf) (rg_series_map rg)) j (tb_dir (tier_table st h j))\<rparr>)"
proof -
  let ?i = "sh_schema_index h"
  have reg0: "reg_inv (st_registry st)" "rg_schemas (st_registry st) = st_schemas st"
    and ri: "rings_inv (st_path st) (st_schemas st) (st_rings st)"
    using inv by (auto simp: store_inv_def)
  have reg1: "reg_inv rg" "rg_schemas rg = st_schemas st"
    using register_inv [OF reg0(1) reg] register_schemas [OF reg] reg0(2) by simp_all
  have i: "?i < length (st_schemas st)" using register_bound [OF reg0(1) reg] reg0(2) by simp
  obtain slabs where sl: "sync_to_slabs (pf_keys pf) rg (map rb_slab (st_rings st ! ?i)) = (Inr (), slabs)"
      "rings_inv (st_path st) (st_schemas st) ((st_rings st)[?i := put_slabs (st_rings st ! ?i) slabs])"
      "\<forall>j < length (tiers_of st h). rb_table (put_slabs (st_rings st ! ?i) slabs ! j) = (tier_table st h j)\<lparr>
         tb_count := registry_series_count rg j,
         tb_dir := dir_of (hm_values (pf_keys pf) (rg_series_map rg)) j (tb_dir (tier_table st h j))\<rparr>"
    using sync_tiers [OF reg1 ri i al ord] by blast
  let ?st = "st\<lparr>st_registry := rg, st_rings := (st_rings st)[?i := put_slabs (st_rings st ! ?i) slabs]\<rparr>"
  let ?d = "d\<lparr>dk_text := (dk_text d)(path_join (st_path st) SERIES_INDEX_FILE := Some json)\<rparr>"
  have save: "registry_save (pf_os pf) (pf_index_json pf) (pf_keys pf) rg (path_join (st_path st) SERIES_INDEX_FILE) d = Inr ?d"
    using json os by (simp add: registry_save_def write_text_def)
  have run: "store_register pf name labels st d = (Inr h, ?st, ?d)"
    using reg rings_inv_at(1) [OF ri i] sl(1) save by (simp add: store_register_def Let_def)
  have "persisted pf st d \<longrightarrow> persisted pf ?st ?d"
    using json index_not_metadata [of "st_path st"] by (auto simp: persisted_def path_exists_def)
  moreover have "store_inv ?st" using reg1 sl(2) by (simp add: store_inv_def)
  ultimately show ?thesis
    using run sl(3) rings_inv_at(1) [OF ri i] by (intro exI [of _ ?st] exI [of _ ?d]) simp
qed

text \<open>
  Registering through the store: when the registry accepts the series and the index can
  be written, and no schema at the position of a tier gives out more identifiers than the
  tier has columns, the handle is returned, the registry and its file hold the series, and the
  slabs of the tiers of its schema are synchronised by position: tier \<open>j\<close> gets the count
  and the directory entries of schema \<open>j\<close>, not those of the schema it belongs to.
\<close>

theorem register_syncs_by_position:
  assumes "store_inv st" and "aligned_at (st_schemas st) (sh_schema_index h)" and "iteration_order (pf_keys pf)"
    and "register (st_registry st) name labels = Inr (h, rg)"
    and "to_json (pf_index_json pf) (registry_index (pf_keys pf) rg) = Inr json"
    and "os_write (pf_os pf) (path_join (st_path st) SERIES_INDEX_FILE) = None"
    and "j < length (tiers_of st h)"
  shows "\<exists>st' d'. store_register pf name labels st d = (Inr h, st', d') \<and> store_inv st' \<and>
    st_registry st' = rg \<and> (persisted pf st d \<longrightarrow> persisted pf st' d') \<and>
    tb_count (tier_table st' h j) = registry_series_count rg j"
proof -
  obtain st' d' where r: "store_register pf name labels st d = (Inr h, st', d')" "store_inv st'"
      "st_registry st' = rg" "persisted pf st d \<longrightarrow> persisted pf st' d'"
      "\<forall>j < length (tiers_of st h). tier_table st' h j = (tier_table st h j)\<lparr>
       tb_count := registry_series_count rg j,
       tb_dir := dir_of (hm_values (pf_keys pf) (rg_series_map rg)) j (tb_dir (tier_table st h j))\<rparr>"
    using store_register_stores [OF assms(1-6)] by blast
  then have "tb_count (tier_table st' h j) = registry_series_count rg j"
    using assms(7) by simp
  then show ?thesis using r(1-4) by blast
qed

end
