(* ===== verification/Store_Safety.thy ===== *)
theory Store_Safety
  imports Store_Register
begin

text \<open>
  The stores that a program can reach, and what no operation on them does: panic or leave
  the mapping of a slab.
\<close>

section \<open>Reachable stores\<close>

text \<open>What the platform promises of the iteration orders of its hash maps.\<close>

definition orders_fair :: "platform \<Rightarrow> bool" where
  "orders_fair pf \<longleftrightarrow> iteration_order (pf_keys pf) \<and> iteration_order (pf_groups pf) \<and> orders_ok (pf_orders pf)"

text \<open>
  A store is opened where nothing exists; then series are registered, samples and batches
  recorded under handles it has given out, tiers consolidated, and the store closed and opened
  again with its schemas. Every outcome of an operation counts, errors included, and each
  step may find other outcomes of the system calls and other iteration orders of the hash
  maps; only the JSON library \<open>js\<close> of the index stays. A store is opened again only if no ring
  would lose its wrap flag in a way that matters (\<open>reopens_safely\<close>): what happens otherwise is
  \<open>ring_reopen_loses_sample\<close>.
\<close>

definition runs_on :: "series_index json \<Rightarrow> platform \<Rightarrow> bool" where
  "runs_on js pf \<longleftrightarrow> pf_index_json pf = js \<and> orders_fair pf"

inductive store_reachable :: "series_index json \<Rightarrow> schema_config list \<Rightarrow> store \<Rightarrow> disk \<Rightarrow> bool" for js schemas where
  creates: "runs_on js pf \<Longrightarrow> \<not> path_exists d path \<Longrightarrow> store_open pf path schemas d = (Inr st, d') \<Longrightarrow>
     store_reachable js schemas st d'"
| registers: "store_reachable js schemas st d \<Longrightarrow> runs_on js pf \<Longrightarrow>
     store_register pf name labels st d = (res, st', d') \<Longrightarrow> store_reachable js schemas st' d'"
| records: "store_reachable js schemas st d \<Longrightarrow> registered st h \<Longrightarrow> store_record_run h v t st = (res', st') \<Longrightarrow>
     store_reachable js schemas st' d"
| batches: "store_reachable js schemas st d \<Longrightarrow> runs_on js pf \<Longrightarrow> list_all (\<lambda>(h, v). registered st h) entries \<Longrightarrow>
     store_record_batch pf entries t st = (res', st') \<Longrightarrow> store_reachable js schemas st' d"
| consolidates: "store_reachable js schemas st d \<Longrightarrow> runs_on js pf \<Longrightarrow>
     store_consolidate pf st d = (res'', st', d') \<Longrightarrow> store_reachable js schemas st' d'"
| reopens: "store_reachable js schemas st d \<Longrightarrow> runs_on js pf \<Longrightarrow>
     \<forall>tiers \<in> set (st_rings st). \<forall>r \<in> set tiers. reopens_safely r \<Longrightarrow>
     store_open pf (st_path st) schemas (store_files st d) = (Inr st', d') \<Longrightarrow> store_reachable js schemas st' d'"

lemma batch_fold_keeps:
  assumes "store_inv st" and "\<forall>i \<in> set is. i < length (st_schemas st) \<and>
      list_all (\<lambda>(c, v). c < sc_max_series (st_schemas st ! i)) (entries_of i entries)"
    and "fold_st (batch_step entries t) is st = (res, st')"
  shows "store_inv st' \<and> st_schemas st' = st_schemas st \<and> st_registry st' = st_registry st \<and>
    st_path st' = st_path st \<and> no_crash res"
  using assms
proof (induction "is" arbitrary: st)
  case (Cons i js)
  have ri: "rings_inv (st_path st) (st_schemas st) (st_rings st)"
    using Cons.prems(1) by (simp add: store_inv_def)
  have i: "i < length (st_schemas st)" using Cons.prems(2) by simp
  have cols: "list_all (\<lambda>(c, v). c < sc_max_series (st_schemas st ! i)) (entries_of i entries)"
    using Cons.prems(2) by simp
  have j: "0 < length (sc_tiers (st_schemas st ! i))" using rings_inv_at(2) [OF ri i] by simp
  consider (refused) e where "batch_step entries t i st = err e"
    | (written) r' where "tier_ring (st_schemas st ! i) (sc_tiers (st_schemas st ! i) ! 0) (slab_path (st_path st) i 0) r'"
        "batch_step entries t i st = Inr (st\<lparr>st_rings := (st_rings st)[i := (st_rings st ! i)[0 := r']]\<rparr>)"
    using tier_batch [OF rings_inv_at(4) [OF ri i j] cols, of t]
    by (auto simp: batch_step_def update_tier_at [OF ri i j])
  then show ?case
  proof cases
    case refused
    then show ?thesis using Cons.prems(1,3) by auto
  next
    case written
    let ?st = "st\<lparr>st_rings := (st_rings st)[i := (st_rings st ! i)[0 := r']]\<rparr>"
    have "store_inv ?st"
      using Cons.prems(1) rings_inv_update [OF ri i j written(1)] by (simp add: store_inv_def)
    then show ?thesis
      using Cons.IH [of ?st] Cons.prems(2,3) written(2) by simp
  qed
qed auto

lemma store_batch_keeps:
  assumes "store_inv st" and "list_all (\<lambda>(h, v). registered st h) entries" and "iteration_order (pf_groups pf)"
    and "store_record_batch pf entries t st = (res, st')"
  shows "store_inv st' \<and> st_schemas st' = st_schemas st \<and> st_registry st' = st_registry st \<and>
    st_path st' = st_path st \<and> no_crash res"
proof -
  let ?is = "pf_groups pf (hm_keys (group_entries entries))"
  have "\<forall>i \<in> set ?is. i < length (st_schemas st) \<and>
      list_all (\<lambda>(c, v). c < sc_max_series (st_schemas st ! i)) (entries_of i entries)"
    unfolding keys_order(2) [OF assms(3)] using entries_columns [OF assms(1,2)] by simp
  note keeps = batch_fold_keeps [OF assms(1) this, of t]
  moreover from this have "no_crash (fst (fold_st (batch_step entries t) ?is st))"
    by (cases "fold_st (batch_step entries t) ?is st") simp
  ultimately show ?thesis using assms(4) by (simp add: store_record_batch_steps)
qed

section \<open>What stays in the directory\<close>

lemma register_keeps_index:
  assumes "store_register pf name labels st d = (res, st', d')" and "store_inv st'"
    and "st_schemas st' = schemas" and "iteration_order (pf_keys pf)"
    and "index_stands (pf_index_json pf) (st_path st) schemas d"
  shows "st_path st' = st_path st \<and> index_stands (pf_index_json pf) (st_path st) schemas d'"
proof -
  let ?ip = "path_join (st_path st) SERIES_INDEX_FILE"
  have "st_path st' = st_path st \<and> (d' = d \<or>
      registry_save (pf_os pf) (pf_index_json pf) (pf_keys pf) (st_registry st') ?ip d = Inr d')"
    using assms(1) by (auto simp: store_register_def Let_def split: sum.splits prod.splits)
  moreover have "index_stands (pf_index_json pf) (st_path st) schemas d'"
    if saved: "registry_save (pf_os pf) (pf_index_json pf) (pf_keys pf) (st_registry st') ?ip d = Inr d'"
  proof -
    obtain json where "to_json (pf_index_json pf) (registry_index (pf_keys pf) (st_registry st')) = Inr json"
        "d' = d\<lparr>dk_text := (dk_text d)(?ip := Some json)\<rparr>"
      using registry_save_some [OF saved] by blast
    then show ?thesis
      using index_stands_saved [of d "st_path st" "pf_keys pf" "st_registry st'" schemas "pf_index_json pf" json] assms(2-5)
      by (simp add: store_inv_def index_stands_def)
  qed
  ultimately show ?thesis using assms(5) by blast
qed

lemma consolidate_keeps_index:
  assumes "store_consolidate pf st d = (res, st', d')" and "index_stands js (st_path st) schemas d"
  shows "index_stands js (st_path st) schemas d'"
proof -
  let ?cp = "path_join (st_path st) CURSORS_FILE"
  have other: "?cp \<noteq> path_join (st_path st) SERIES_INDEX_FILE"
    by (simp add: path_join_inject SERIES_INDEX_FILE_def CURSORS_FILE_def)
  have "d' = d \<or> (\<exists>text. d' = d\<lparr>dk_text := (dk_text d)(?cp := Some text)\<rparr>)"
    using assms(1)
    by (auto simp: store_consolidate_def engine_consolidate_def engine_new_def save_cursors_def cursors_save_def write_text_def
        Let_def rbind_eq_Inr map_err_def split: sum.splits prod.splits option.splits)
  then show ?thesis using assms(2) index_stands_text [OF assms(2) other] by blast
qed

lemma reachable_store:
  assumes "store_reachable js schemas st d" and "schemas_ok schemas" and "aligned schemas" and "index_json_ok js"
  shows "store_inv st \<and> st_schemas st = schemas \<and> index_stands js (st_path st) schemas d"
  using assms(1)
proof (induction rule: store_reachable.induct)
  case (creates pf d path st d')
  then have c: "create_new pf path schemas d = (Inr st, d')"
    by (auto simp: store_open_def split: sum.splits)
  show ?case
    using create_new_some [OF c assms(2)] created_index [OF c assms(2)] creates.hyps(1)
    by (simp add: runs_on_def orders_fair_def)
next
  case (registers st d pf name labels res st' d')
  then have "store_inv st' \<and> st_schemas st' = schemas"
    using store_register_keeps [of st pf name labels d res st' d'] assms(3) by (auto simp: runs_on_def orders_fair_def)
  then show ?case
    using register_keeps_index [OF registers.hyps(3), of schemas] registers by (simp add: runs_on_def orders_fair_def)
next
  case (records st d h v t res' st')
  then show ?case using record_run_keeps [of st h v t] by simp
next
  case (batches st d pf entries t res' st')
  then show ?case
    using store_batch_keeps [of st entries pf t res' st'] by (simp add: runs_on_def orders_fair_def)
next
  case (consolidates st d pf res'' st' d')
  then show ?case
    using store_consolidate_keeps [of st pf d res'' st' d'] consolidate_keeps_index [OF consolidates.hyps(3)]
    by (simp add: runs_on_def orders_fair_def)
next
  case (reopens st d pf st' d')
  then have "store_inv st' \<and> st_path st' = st_path st \<and> st_schemas st' = st_schemas st \<and> d' = store_files st d"
    using assms(4) by (intro store_open_again [of st pf d st' d']) (simp_all add: runs_on_def)
  then show ?case using reopens.IH index_stands_files by simp
qed

section \<open>Safety\<close>

text \<open>
  C1. Every store reachable through the public operations from one opened where nothing exists is
  well formed, for valid and aligned schemas, an index that JSON reads back, and hash maps that
  iterate over each entry once: the registry invariant holds over the schemas the store was
  created with, every schema has one ring per tier with the geometry the tier asks for, and
  every ring satisfies the ring invariant, after any sequence of registrations, records, batches,
  consolidations, failed ones included, and of closing and opening again when every ring
  reopens safely.
\<close>

theorem reachable_well_formed:
  assumes "store_reachable js schemas st d" and "schemas_ok schemas" and "aligned schemas" and "index_json_ok js"
  shows "store_inv st \<and> st_schemas st = schemas"
  using reachable_store [OF assms] by blast

lemma record_no_crash:
  assumes "store_inv st" and "registered st h"
  shows "no_crash (fst (store_record_run h v t st))"
proof (cases "is_infinite v \<or> t = 0")
  case True
  then show ?thesis
    using record_run_refused [OF assms, of v] by (cases "is_infinite v") auto
next
  case False
  then obtain r' where "store_record_run h v t st = (Inr (), st\<lparr>st_rings := (st_rings st)[sh_schema_index h :=
      (st_rings st ! sh_schema_index h)[0 := r']]\<rparr>)"
    using record_run_accepted [OF assms, of v t] by blast
  then show ?thesis by simp
qed

lemma query_no_crash:
  assumes "store_inv st" and "registered st h"
  shows "no_crash (store_query st h tier s e)"
proof (cases "tier < length (tiers_of st h) \<and> s < e")
  case True
  then show ?thesis using store_query_ok [OF assms, of tier s e] by auto
next
  case False
  have "sh_schema_index h < length (st_schemas st)" using registered_bounds [OF assms] by simp
  then show ?thesis using False by (auto simp: store_query_def not_less)
qed

lemma registered_handles:
  assumes "store_inv st" and "iteration_order (pf_keys pf)" and "h \<in> set (store_handles pf st)"
  shows "registered st h"
proof -
  have inv: "reg_inv (st_registry st)" using assms(1) by (simp add: store_inv_def)
  then have "set (hm_values (pf_keys pf) (rg_series_map (st_registry st))) = ran (hm_get (rg_series_map (st_registry st)))"
    using assms(2) by (simp add: hm_values_set reg_inv_def)
  then obtain k info where k: "hm_get (rg_series_map (st_registry st)) k = Some info" "h = info_handle info"
    using assms(3) by (auto simp: store_handles_def handles_def ran_def)
  moreover have "k = key_new (si_name info) (si_labels info)"
    using inv k(1) unfolding reg_inv_def by blast
  ultimately have "get_handle (st_registry st) (si_name info) (si_labels info) = Some h"
    by (simp add: get_handle_def)
  then show ?thesis by (auto simp: registered_def)
qed

text \<open>
  C2. On a reachable store no operation goes wrong: with valid and aligned schemas, an index that
  JSON reads back and fair iteration orders, registering, recording one sample or a batch of any
  entries, querying with and without a tier, consolidating and draining return a value or an error
  of the library, never a panic and never an access outside a mapping, for all arguments under
  registered handles and whatever the cursor files hold.
\<close>

theorem store_never_crashes:
  assumes "store_reachable js schemas st d" and "schemas_ok schemas" and "aligned schemas" and "index_json_ok js"
    and "orders_fair pf" and "registered st h" and "list_all (\<lambda>(h, v). registered st h) entries"
  shows "no_crash (fst (store_register pf name labels st d)) \<and> no_crash (fst (store_record_run h v t st)) \<and>
    no_crash (fst (store_record_batch pf entries t st)) \<and> no_crash (store_query st h tier s e) \<and>
    no_crash (store_query_auto st h s e) \<and> no_crash (fst (store_consolidate pf st d)) \<and>
    no_crash (fst (store_drain pf st tier cursor))"
proof -
  have inv: "store_inv st" and sch: "st_schemas st = schemas"
    using reachable_store [OF assms(1-4)] by simp_all
  have ord: "iteration_order (pf_keys pf)" "iteration_order (pf_groups pf)" "orders_ok (pf_orders pf)"
    using assms(5) by (simp_all add: orders_fair_def)
  have "no_crash (fst (store_register pf name labels st d))"
    using store_register_keeps [OF inv _ ord(1)] assms(3) sch by (metis prod.collapse)
  moreover have "no_crash (fst (store_record_batch pf entries t st))"
    using store_batch_keeps [OF inv assms(7) ord(2), of t] by (cases "store_record_batch pf entries t st") simp
  moreover have "no_crash (store_query_auto st h s e)"
  proof (cases "s < e")
    case True
    have b: "sh_schema_index h < length (st_schemas st)" using registered_bounds [OF inv assms(6)] by simp
    obtain k sel where "select_tier (st_rings st) (sh_schema_index h) s e [0..<length (tiers_of st h)] 0 = Inr (k, sel)"
      using select_tier_ok [OF inv assms(6), of "[0..<length (tiers_of st h)]" s e 0] by auto
    then show ?thesis
      using True b query_no_crash [OF inv assms(6), of k s e] by (simp add: store_query_auto_def)
  qed (simp add: store_query_auto_def not_less)
  moreover have "no_crash (fst (store_consolidate pf st d))"
    using store_consolidate_keeps [OF inv ord(3)] by (metis prod.collapse)
  moreover have "no_crash (fst (store_drain pf st tier cursor))"
    unfolding store_drain_def
    using registered_handles [OF inv ord(1)] by (intro store_drain_safe [OF inv]) auto
  ultimately show ?thesis
    using record_no_crash [OF inv assms(6)] query_no_crash [OF inv assms(6)] by blast
qed

end
