(* ===== verification/Slab_Overrun.thy ===== *)
theory Slab_Overrun
  imports Slab
begin

text \<open>
  Writing a directory entry past the directory. \<open>set_series_column\<close> leaves it to its caller to keep
  the identifier in bounds and checks nothing; the directory is followed by the column of timestamps, so
  the first entry past the end is the low half of the first timestamp.
\<close>

lemma le_val_append: "le_val (xs @ ys) = le_val xs + 256 ^ length xs * le_val ys"
  by (induction xs) (simp_all add: algebra_simps)

definition low_half :: "u32 \<Rightarrow> u64 \<Rightarrow> u64" where
  "low_half c t = word_of_nat (unat c + 2 ^ 32 * (unat t div 2 ^ 32))"

lemma dec64_half: "dec64 (enc32 c @ ys) = word_of_nat (unat c + 2 ^ 32 * le_val ys)"
  by (simp add: dec64_def le_val_append enc32_def le_val_le_bytes u32_bound [simplified])

lemma dec64_high:
  assumes "length xs = 4" and "length ys = 4"
  shows "unat (dec64 (xs @ ys)) div 2 ^ 32 = le_val ys"
proof -
  have x: "le_val xs < 2 ^ 32" and y: "le_val ys < 2 ^ 32"
    using le_val_bound [of xs] le_val_bound [of ys] assms by simp_all
  then have "le_val xs + 2 ^ 32 * le_val ys < 2 ^ 64" by simp
  then have "unat (dec64 (xs @ ys)) = le_val xs + 2 ^ 32 * le_val ys"
    using assms(1) by (simp add: dec64_def le_val_append u64_of_nat del: of_nat_add of_nat_mult)
  then show ?thesis using x by simp
qed

lemma set_series_column_overrun:
  assumes wf: "slab_wf s" and sc: "0 < slab_slot_count s"
  shows "\<exists>s'. set_series_column s (slab_max_series s) c = Inr s' \<and> slab_wf s' \<and>
    slab_table s' = tb_put_ts 0 (low_half c (tb_ts (slab_table s) 0)) (slab_table s)"
proof -
  let ?sc = "unat (slab_slot_count s)" and ?ms = "unat (slab_max_series s)"
  let ?off = "ts_cell ?ms 0"
  let ?s' = "s\<lparr>sl_mmap := poke (sl_mmap s) ?off (enc32 c)\<rparr>"
  have room8: "?off + 8 \<le> length (sl_mmap s)"
    using sc ts_cell_room_size [of 0 ?sc ?ms] by (simp add: wf_layout(2) [OF wf] word_less_nat_alt)
  then have room: "?off + 4 \<le> length (sl_mmap s)" by simp
  have "?off + 8 < 2 ^ 64"
    using room8 wf_layout(2,3) [OF wf] by simp
  then have off: "uadd (series_dir_offset (sl_layout s)) (umul ?ms SERIES_DIR_ENTRY_SIZE) = ?off"
    by (simp add: wf_layout(1) [OF wf] uadd_def umul_def SERIES_DIR_ENTRY_SIZE_def ts_cell_def)
  have eq: "set_series_column s (slab_max_series s) c = Inr ?s'"
    using room by (simp add: set_series_column_def off c32.store_ok)
  have hd: "header_read (sl_mmap ?s') = header_read (sl_mmap s)"
    using room cells_above_header(2) [of ?ms 0] by (simp add: header_read_poke c32.enc_width)
  have wf': "slab_wf ?s'"
    using poke_wf [OF wf cells_above_header(2)] room by (simp add: c32.enc_width)
  have dir: "peek (sl_mmap ?s') (dir_cell j) 4 = peek (sl_mmap s) (dir_cell j) 4" if "j < ?ms" for j
    using room dir_cell_room [OF that, of 0] by (simp add: c32.load_store_other)
  have val: "peek (sl_mmap ?s') (val_cell ?sc ?ms d j) 8 = peek (sl_mmap s) (val_cell ?sc ?ms d j) 8" for d j
    using room ts_cell_room [of 0 ?sc ?ms d j] sc
    by (simp add: c32.load_store_other word_less_nat_alt)
  let ?high = "peek (sl_mmap s) (?off + 4) 4"
  have old: "peek (sl_mmap s) ?off 8 = peek (sl_mmap s) ?off 4 @ ?high"
    using peek_split [of "sl_mmap s" ?off 4 4] by simp
  have same: "peek (sl_mmap ?s') ?off 4 = enc32 c"
    using room by (simp add: peek_poke_same c32.enc_width)
  have above: "peek (sl_mmap ?s') (?off + 4) 4 = ?high"
    using room by (simp add: peek_poke_above c32.enc_width)
  have "peek (sl_mmap ?s') ?off (4 + 4) = enc32 c @ ?high"
    unfolding peek_split same above ..
  then have new: "peek (sl_mmap ?s') ?off 8 = enc32 c @ ?high" by simp
  have len: "length (peek (sl_mmap s) ?off 4) = 4" "length ?high = 4"
    using room8 by (simp_all add: length_peek)
  have here: "dec64 (peek (sl_mmap ?s') ?off 8) = low_half c (dec64 (peek (sl_mmap s) ?off 8))"
    unfolding new old low_half_def dec64_half dec64_high [OF len] ..
  have there: "peek (sl_mmap ?s') (ts_cell ?ms j) 8 = peek (sl_mmap s) (ts_cell ?ms j) 8" if "0 < j" for j
    using room that c32.load_store_other [of ?off "sl_mmap s" "ts_cell ?ms j" 8 c] by (simp add: ts_cell_def)
  define X where "X = low_half c (tb_ts (slab_table s) 0)"
  have "tb_ts (slab_table s) 0 = dec64 (peek (sl_mmap s) ?off 8)"
    using sc by (simp add: slab_table_def Let_def slab_fields)
  then have ts: "dec64 (peek (sl_mmap ?s') (ts_cell ?ms (unat j)) 8)
      = (if j = 0 then X else dec64 (peek (sl_mmap s) (ts_cell ?ms (unat j)) 8))" for j :: u32
    using here there [of "unat j"] by (cases "j = 0") (simp_all add: X_def unat_gt_0)
  have "slab_table ?s' = tb_put_ts 0 X (slab_table s)"
    unfolding slab_table_def Let_def hd tb_put_ts_def
    using sc dir val ts ts [of 0]
    by (auto simp: fun_eq_iff slab_fields word_less_nat_alt)
  with eq wf' show ?thesis unfolding X_def by blast
qed

text \<open>
  Writing the directory entry just past the directory is not refused: the slab stays
  readable, and the timestamp of slot 0 has its low half replaced by the column, every
  other timestamp and every value being as before.
\<close>

theorem directory_overrun:
  assumes "slab_wf s" and "0 < slab_slot_count s" and "i < slab_slot_count s"
  shows "\<exists>s'. set_series_column s (slab_max_series s) c = Inr s' \<and>
    read_timestamp s i = Inr (tb_ts (slab_table s) i) \<and>
    read_timestamp s' i = Inr (if i = 0 then low_half c (tb_ts (slab_table s) 0) else tb_ts (slab_table s) i)"
proof -
  obtain s' where s': "set_series_column s (slab_max_series s) c = Inr s'" "slab_wf s'"
      "slab_table s' = tb_put_ts 0 (low_half c (tb_ts (slab_table s) 0)) (slab_table s)"
    using set_series_column_overrun [OF assms(1,2)] by blast
  have "slab_slot_count s' = slab_slot_count s"
    by (simp flip: table_fields add: s'(3)) (simp add: tb_put_ts_def)
  then show ?thesis
    using read_timestamp_law [OF assms(1,3)] read_timestamp_law [OF s'(2), of i] assms(3) s'(1,3)
    by (auto simp: tb_put_ts_def)
qed

theorem directory_overrun_witness:
  "\<exists>s s'. slab_create os_ok ''a'' 7 2 1 5 = Inr s \<and> set_series_column s 1 1 = Inr s' \<and>
     read_timestamp s 0 = Inr 0 \<and> read_timestamp s' 0 = Inr 1"
proof -
  obtain s where s: "slab_create os_ok ''a'' 7 2 1 5 = Inr s" "slab_wf s"
      "slab_table s = empty_table 7 2 1 5"
    using slab_create_bytes [of 2 1 os_ok "''a''" 7 5] initial_wf [of 2 1 7 5 "''a''"]
      initial_table [of 7 2 1 5 "''a''"]
    by (auto simp: slab_size_def os_ok_def)
  moreover have "slab_slot_count s = 2" "slab_max_series s = 1"
    by (simp_all flip: table_fields add: s(3)) (simp_all add: empty_table_def)
  ultimately show ?thesis
    using directory_overrun [of s 0 1] by (auto simp: empty_table_def low_half_def)
qed

end
