(* ===== verification/Store_Examples.thy ===== *)
theory Store_Examples
  imports Store_Safety
begin

text \<open>
  Concrete stores: the properties of the store applied to them, and the runs in which the
  store does not do what its documentation says.
\<close>

section \<open>A platform\<close>

definition one_json :: "'a \<Rightarrow> 'a json" where
  "one_json x = \<lparr> to_json = (\<lambda>y. if y = x then Inr ''{}'' else Inl ''unsupported''),
     of_json = (\<lambda>s. if s = ''{}'' then Inr x else Inl ''unsupported'') \<rparr>"

definition any_json :: "'a \<Rightarrow> 'a json" where
  "any_json x = \<lparr> to_json = (\<lambda>_. Inr ''{}''), of_json = (\<lambda>_. Inr x) \<rparr>"

definition demo_platform :: "store_metadata json \<Rightarrow> series_index json \<Rightarrow> platform" where
  "demo_platform mj ij = \<lparr> pf_os = os_ok, pf_hasher = (\<lambda>_ _ _. 7), pf_metadata_json = mj, pf_index_json = ij,
     pf_cursors_json = any_json [], pf_keys = (\<lambda>ks. ks), pf_orders = any_order, pf_groups = (\<lambda>ks. ks) \<rparr>"

abbreviation no_metadata :: store_metadata where
  "no_metadata \<equiv> \<lparr> sm_version = 1, sm_schemas = [] \<rparr>"

abbreviation no_index :: series_index where
  "no_index \<equiv> \<lparr> ix_series = [], ix_next_series_id = [], ix_next_column = [] \<rparr>"

definition loose :: platform where
  "loose = demo_platform (any_json no_metadata) (any_json no_index)"

lemma loose_fields:
  "pf_os loose = os_ok" "to_json (pf_metadata_json loose) x = Inr ''{}''"
  "to_json (pf_index_json loose) y = Inr ''{}''" "pf_keys loose = (\<lambda>ks. ks)" "pf_groups loose = (\<lambda>ks. ks)"
  "pf_orders loose = any_order"
  by (simp_all add: loose_def demo_platform_def any_json_def)

lemma loose_fair: "orders_fair loose" "iteration_order (\<lambda>ks. ks)"
  by (simp_all add: orders_fair_def loose_fields any_order_ok iteration_order_def)

section \<open>A store with one schema\<close>

lemma hour_schema_ok: "schemas_ok [any_schema]"
  by (simp add: schemas_ok_def schema_validate_ok any_schema_def schema_fits_def tier_eval slab_size_def)

lemma nothing_exists: "\<not> path_exists empty_disk p"
  by (simp add: path_exists_def empty_disk_def)

text \<open>A JSON library that knows the documents of this store, and reads back what it writes.\<close>

definition demo_index :: "series_index json" where
  "demo_index = (let none = registry_index (\<lambda>ks. ks) (registry_new [any_schema]); one = registry_index (\<lambda>ks. ks) cpu_registry in
     \<lparr> to_json = (\<lambda>x. if x = none then Inr ''{}'' else if x = one then Inr ''[]'' else Inl ''unsupported''),
       of_json = (\<lambda>s. if s = ''{}'' then Inr none else if s = ''[]'' then Inr one else Inl ''unsupported'') \<rparr>)"

definition demo :: platform where
  "demo = demo_platform (one_json (metadata_of loose [any_schema])) demo_index"

lemma demo_fields:
  "pf_os demo = os_ok" "pf_keys demo = (\<lambda>ks. ks)" "metadata_of demo = metadata_of loose"
  "pf_metadata_json demo = one_json (metadata_of loose [any_schema])" "pf_index_json demo = demo_index"
  "fresh_rings demo = fresh_rings loose"
  by (simp_all add: demo_def demo_platform_def loose_def metadata_of_def fresh_rings_def fresh_table_def fun_eq_iff)

lemma demo_index_ok: "index_json_ok demo_index"
  by (auto simp: index_json_ok_def demo_index_def Let_def split: if_splits)

lemma demo_index_writes:
  "\<exists>json. to_json demo_index (registry_index (\<lambda>ks. ks) (registry_new [any_schema])) = Inr json"
  "\<exists>json. to_json demo_index (registry_index (\<lambda>ks. ks) cpu_registry) = Inr json"
  by (simp_all add: demo_index_def Let_def)

lemma metadata_alike_refl: "metadata_alike x x"
  by (simp add: metadata_alike_def config_alike_def list_all2_refl)

lemma demo_json: "json_ok demo"
  using demo_index_ok metadata_alike_refl by (auto simp: json_ok_def demo_fields one_json_def)

lemma demo_runs: "runs_on demo_index demo"
  using loose_fair by (simp add: runs_on_def orders_fair_def demo_fields loose_fields) (simp add: demo_def demo_platform_def any_order_ok)

lemma demo_created:
  obtains st d where "store_open demo ''s'' [any_schema] empty_disk = (Inr st, d)" "store_inv st"
    "st_path st = ''s''" "st_schemas st = [any_schema]" "st_registry st = registry_new [any_schema]"
    "fresh_rings loose [any_schema] (st_rings st)" "store_reachable demo_index [any_schema] st d" "persisted demo st d"
    "\<forall>tiers \<in> set (st_rings st). \<forall>r \<in> set tiers. reopens_safely r"
proof -
  obtain json where json: "to_json demo_index (registry_index (\<lambda>ks. ks) (registry_new [any_schema])) = Inr json"
    using demo_index_writes(1) by blast
  obtain st d where c: "create_new demo ''s'' [any_schema] empty_disk = (Inr st, d)"
    using create_new_total [of demo "[any_schema]" "''{}''" json empty_disk "''s''"] hour_schema_ok json
    by (auto simp: demo_fields os_ok_calm empty_disk_def one_json_def)
  then have opened: "store_open demo ''s'' [any_schema] empty_disk = (Inr st, d)"
    using hour_schema_ok nothing_exists by (simp add: store_open_def schemas_ok_def)
  have st: "store_inv st" "st_path st = ''s''" "st_schemas st = [any_schema]"
      "fresh_rings loose [any_schema] (st_rings st)"
    using create_new_some [OF c hour_schema_ok] by (simp_all add: demo_fields)
  have ri: "rings_inv ''s'' [any_schema] (st_rings st)" using st(1-3) by (simp add: store_inv_def)
  have "reopens_safely r" if tiers: "tiers \<in> set (st_rings st)" and r: "r \<in> set tiers" for tiers r
  proof -
    obtain i j where ij: "i < length (st_rings st)" "j < length (st_rings st ! i)" "r = st_rings st ! i ! j"
      using tiers r by (auto simp: in_set_conv_nth)
    then have "i = 0" "j < 1" using ri by (auto simp: rings_inv_def any_schema_def)
    then show ?thesis
      using st(4) ij(3) by (simp add: fresh_rings_def any_schema_def reopens_safely_def)
  qed
  moreover have "store_reachable demo_index [any_schema] st d"
    using store_reachable.creates [OF demo_runs nothing_exists opened] .
  moreover have "persisted demo st d"
    by (rule created_persisted [OF c hour_schema_ok]) (simp add: demo_fields os_ok_calm)
  ultimately show thesis
    using that [OF opened st(1-3) _ st(4)] create_new_some [OF c hour_schema_ok] by blast
qed

text \<open>The store with one series registered.\<close>

lemma demo_registered:
  obtains st d where "store_reachable demo_index [any_schema] st d" "store_inv st" "st_schemas st = [any_schema]"
    "registered st cpu_handle" "st_registry st = cpu_registry" "tier_table st cpu_handle 0 =
      (fresh_table loose any_schema hour_tier)\<lparr>tb_count := 1, tb_dir := tb_dir (tier_table st cpu_handle 0)\<rparr>"
proof -
  obtain st d where st: "store_inv st" "st_path st = ''s''" "st_schemas st = [any_schema]"
      "st_registry st = registry_new [any_schema]"
      "fresh_rings loose [any_schema] (st_rings st)" "store_reachable demo_index [any_schema] st d"
    by (rule demo_created)
  have reg: "register (st_registry st) ''cpu'' cpu_labels = Inr (cpu_handle, cpu_registry)"
    by (simp add: st(4) cpu_register)
  have t: "tiers_of st cpu_handle = [hour_tier]" by (simp add: st(3) cpu_handle_def any_schema_def)
  have fresh: "tier_table st cpu_handle 0 = fresh_table loose any_schema hour_tier"
    using st(5) by (simp add: fresh_rings_def cpu_handle_def any_schema_def)
  obtain json where json: "to_json demo_index (registry_index (\<lambda>ks. ks) cpu_registry) = Inr json"
    using demo_index_writes(2) by blast
  obtain st' d' where r: "store_register demo ''cpu'' cpu_labels st d = (Inr cpu_handle, st', d')" "store_inv st'"
      "st_registry st' = cpu_registry" "st_schemas st' = [any_schema]"
      "tier_table st' cpu_handle 0 = (tier_table st cpu_handle 0)\<lparr>tb_count := registry_series_count cpu_registry 0,
         tb_dir := dir_of (hm_values (pf_keys demo) (rg_series_map cpu_registry)) 0 (tb_dir (tier_table st cpu_handle 0))\<rparr>"
    using store_register_stores [OF st(1) _ _ reg, of demo json d] aligned_single loose_fair(2) t st(3) json
    by (auto simp: demo_fields os_ok_def cpu_handle_def)
  have "get_handle (st_registry st') ''cpu'' cpu_labels = Some cpu_handle"
    by (simp add: r(3) cpu_get_handle)
  then have "registered st' cpu_handle" by (auto simp: registered_def)
  moreover have "store_reachable demo_index [any_schema] st' d'"
    by (rule store_reachable.registers [OF st(6) demo_runs r(1)])
  moreover have "registry_series_count cpu_registry 0 = 1"
    by (simp add: registry_series_count_def cpu_registry_def)
  ultimately show thesis
    using that r(2-5) fresh by simp
qed

theorem store_open_creates_witness:
  "\<exists>st d'. store_open loose ''s'' [any_schema] empty_disk = (Inr st, d') \<and> store_inv st \<and> store_series_count st = 0"
  using store_open_creates [of loose "[any_schema]" "''{}''" "''{}''" empty_disk "''s''"] hour_schema_ok nothing_exists
  by (auto simp: loose_fields os_ok_calm)

text \<open>The store is closed and opened again.\<close>

theorem reachable_well_formed_witness:
  "\<exists>st d st' d'. store_open demo ''s'' [any_schema] empty_disk = (Inr st, d) \<and>
     store_open demo ''s'' [any_schema] (store_files st d) = (Inr st', d') \<and>
     store_reachable demo_index [any_schema] st' d' \<and> store_inv st'"
proof -
  obtain st d where st: "store_open demo ''s'' [any_schema] empty_disk = (Inr st, d)" "store_inv st" "st_path st = ''s''"
      "st_schemas st = [any_schema]" "store_reachable demo_index [any_schema] st d" "persisted demo st d"
      "\<forall>tiers \<in> set (st_rings st). \<forall>r \<in> set tiers. reopens_safely r"
    by (rule demo_created)
  obtain st' where st': "store_open demo ''s'' [any_schema] (store_files st d) = (Inr st', store_files st d)"
    using store_reopen_ok [OF st(2) _ st(6) _ demo_json] hour_schema_ok loose_fair(2) st(3,4)
    by (auto simp: demo_fields os_ok_calm)
  have "store_reachable demo_index [any_schema] st' (store_files st d)"
    by (rule store_reachable.reopens [OF st(5) demo_runs st(7)]) (simp add: st(3) st')
  then show ?thesis
    using reachable_well_formed [OF _ hour_schema_ok aligned_single(1) demo_index_ok] st(1) st' by blast
qed

theorem store_never_crashes_witness:
  "\<exists>st d. store_reachable demo_index [any_schema] st d \<and> no_crash (fst (store_record_run cpu_handle f_huge 5 st)) \<and>
     no_crash (fst (store_record_batch loose [(cpu_handle, f_one), (cpu_handle, f_huge)] 0 st)) \<and>
     no_crash (store_query st cpu_handle 3 9 2) \<and> no_crash (fst (store_consolidate loose st d))"
proof -
  obtain st d where st: "store_reachable demo_index [any_schema] st d" "registered st cpu_handle"
    by (rule demo_registered)
  then have "list_all (\<lambda>(h, v). registered st h) [(cpu_handle, f_one), (cpu_handle, f_huge)]" by simp
  then show ?thesis
    using store_never_crashes [OF st(1) hour_schema_ok aligned_single(1) demo_index_ok loose_fair(1) st(2)] st(1) by blast
qed

theorem query_result_spec_witness:
  "\<exists>st d q. store_reachable demo_index [any_schema] st d \<and> store_query st cpu_handle 0 5 50 = Inr q \<and>
     collect_all q = Inr [] \<and> may_be_incomplete q \<and>
     store_query st cpu_handle 1 5 50 = err (Query (InvalidTier 1 1)) \<and>
     store_query st cpu_handle 0 5 5 = err (Query (InvalidTimeRange 5 5))"
proof -
  obtain st d where st: "store_reachable demo_index [any_schema] st d" "store_inv st" "st_schemas st = [any_schema]"
    "registered st cpu_handle" "tier_table st cpu_handle 0 =
      (fresh_table loose any_schema hour_tier)\<lparr>tb_count := 1, tb_dir := tb_dir (tier_table st cpu_handle 0)\<rparr>"
    by (rule demo_registered)
  have t: "tiers_of st cpu_handle = [hour_tier]" by (simp add: st(3) cpu_handle_def any_schema_def)
  have ts: "tb_ts (tier_table st cpu_handle 0) i = 0" "is_nan (tb_val (tier_table st cpu_handle 0) i c)" for i c
    by (subst st(5), simp add: fresh_table_def empty_table_def)+
  then have "used_timestamps (tier_table st cpu_handle 0) = []" "samples st cpu_handle 0 5 50 = []"
    by (simp_all add: used_timestamps_def samples_def ring_contents_def slot_sample_def filter_empty_conv)
  then show ?thesis
    using query_result_spec [OF st(2,4), of 0 5 50] query_result_spec [OF st(2,4), of 1 5 50]
      query_result_spec [OF st(2,4), of 0 5 5] st(1) by (auto simp: t)
qed

theorem record_outcomes_witness:
  "\<exists>st d st'. store_reachable demo_index [any_schema] st d \<and> store_record_run cpu_handle f_one 5 st = (Inr (), st') \<and>
     store_inv st' \<and> store_record_run cpu_handle f_one 0 st = (err (Record (InvalidTimestamp 0)), st)"
proof -
  obtain st d where st: "store_reachable demo_index [any_schema] st d" "store_inv st" "registered st cpu_handle"
    by (rule demo_registered)
  then show ?thesis
    using record_outcomes [OF st(2,3), of f_one 5] record_outcomes [OF st(2,3), of f_one 0]
    by (auto simp: finite_not_infinite)
qed

text \<open>A sample at 5 ns stays when another one is recorded a minute later, and a zero timestamp refused.\<close>

theorem record_then_query_witness:
  "\<exists>st d st' q ps. store_reachable demo_index [any_schema] st d \<and> store_record_run cpu_handle f_one 5 st = (Inr (), st') \<and>
     store_query (record_more [(cpu_handle, f_zero, 0), (cpu_handle, f_zero, 60000000000)] st') cpu_handle 0 1 9 = Inr q \<and>
     collect_all q = Inr ps \<and> (5, f_one) \<in> set ps"
proof -
  obtain st d where st: "store_reachable demo_index [any_schema] st d" "store_inv st" "registered st cpu_handle"
      "tier_table st cpu_handle 0 =
        (fresh_table loose any_schema hour_tier)\<lparr>tb_count := 1, tb_dir := tb_dir (tier_table st cpu_handle 0)\<rparr>"
    by (rule demo_registered)
  obtain st' where r: "store_record_run cpu_handle f_one 5 st = (Inr (), st')"
    using record_run_accepted [OF st(2,3), of f_one 5] by (auto simp: finite_not_infinite)
  have "slot_of (tier_table st cpu_handle 0) = slot_of (fresh_table loose any_schema hour_tier)"
    by (subst st(4)) (simp add: slot_of_def fun_eq_iff)
  moreover have "slot_of (fresh_table loose any_schema hour_tier) 60000000000 \<noteq> slot_of (fresh_table loose any_schema hour_tier) 5"
    by (simp add: slot_of_def fresh_table_def empty_table_def tier_slot_count_def hour_tier_def from_secs_def as_nanos_def)
  ultimately have "list_all (\<lambda>x. registered st (fst x) \<and> spares st cpu_handle 5 x)
      [(cpu_handle, f_zero, 0), (cpu_handle, f_zero, 60000000000)]"
    using st(3) by (simp add: spares_def)
  then show ?thesis
    using record_then_query [OF st(2,3) r, of _ 1 9] st(1) r by (fastforce simp: finite_not_nan)
qed

theorem query_terminates_witness:
  "\<exists>st q ps. store_inv st \<and> store_query st cpu_handle 0 1 9 = Inr q \<and> collect_all q = Inr ps \<and>
     query_count q = Inr (length ps)"
proof -
  obtain st where st: "store_inv st" "registered st cpu_handle" "st_schemas st = [any_schema]"
    by (rule demo_registered)
  have "tiers_of st cpu_handle = [hour_tier]" by (simp add: st(3) cpu_handle_def any_schema_def)
  then obtain q where q: "store_query st cpu_handle 0 1 9 = Inr q"
    using store_query_ok [OF st(1,2), of 0 1 9] by auto
  then show ?thesis
    using query_terminates [OF st(1,2) q] st(1) by blast
qed

theorem query_auto_selects_witness:
  "\<exists>st q. store_inv st \<and> store_query_auto st cpu_handle 1 9 = Inr q \<and> tier_used q = best_tier st cpu_handle 1 9"
proof -
  obtain st where st: "store_inv st" "registered st cpu_handle" by (rule demo_registered)
  then show ?thesis using query_auto_selects [OF st, of 1 9] by auto
qed

theorem record_batch_writes_witness:
  "\<exists>st st'. store_inv st \<and> store_record_batch loose [(cpu_handle, f_one), (cpu_handle, f_zero)] 5 st = (Inr (), st') \<and>
     store_inv st' \<and> rb_table (st_rings st' ! 0 ! 0) = tb_write [(0, f_one), (0, f_zero)] 5 (rb_table (st_rings st ! 0 ! 0))"
proof -
  obtain st where st: "store_inv st" "registered st cpu_handle" by (rule demo_registered)
  let ?es = "[(cpu_handle, f_one), (cpu_handle, f_zero)]"
  have es: "entries_of 0 ?es = [(0, f_one), (0, f_zero)]"
    by (simp add: entries_of_def cpu_handle_def)
  obtain rings' where "store_record_batch loose ?es 5 st = (Inr (), st\<lparr>st_rings := rings'\<rparr>)"
      "store_inv (st\<lparr>st_rings := rings'\<rparr>)"
      "rb_table (rings' ! 0 ! 0) = tb_write (entries_of 0 ?es) 5 (rb_table (st_rings st ! 0 ! 0))"
    using record_batch_writes [OF st(1), of ?es 5 loose] st(2) loose_fair(2) es
    by (fastforce simp: loose_fields finite_not_infinite f_zero_finite)
  then show ?thesis using st(1) es by (intro exI [of _ st] exI [of _ "st\<lparr>st_rings := rings'\<rparr>"]) simp
qed

theorem register_syncs_by_position_witness:
  "\<exists>st d st' d'. store_reachable demo_index [any_schema] st d \<and>
     store_register loose ''cpu'' cpu_labels st d = (Inr cpu_handle, st', d') \<and>
     tb_count (tier_table st' cpu_handle 0) = 1"
proof -
  obtain st d where st: "store_inv st" "st_schemas st = [any_schema]"
      "st_registry st = registry_new [any_schema]" "store_reachable demo_index [any_schema] st d"
    by (rule demo_created)
  have reg: "register (st_registry st) ''cpu'' cpu_labels = Inr (cpu_handle, cpu_registry)"
    by (simp add: st(3) cpu_register)
  have "0 < length (tiers_of st cpu_handle)" by (simp add: st(2) cpu_handle_def any_schema_def)
  then show ?thesis
    using register_syncs_by_position [OF st(1) _ _ reg, of loose "''{}''" 0 d] aligned_single loose_fair(2) st(2,4)
    by (fastforce simp: loose_fields os_ok_def registry_series_count_def cpu_registry_def cpu_handle_def)
qed


section \<open>Closing and reopening the store with one schema\<close>

theorem store_reopen_witness:
  "\<exists>st d st'. store_open demo ''s'' [any_schema] empty_disk = (Inr st, d) \<and>
     store_open demo ''s'' [any_schema] (store_files st d) = (Inr st', store_files st d) \<and>
     map (map rb_table) (st_rings st') = map (map rb_table) (st_rings st) \<and>
     rg_next_column (st_registry st') = [0] \<and> store_inv st'"
proof -
  obtain st d where st: "store_open demo ''s'' [any_schema] empty_disk = (Inr st, d)" "store_inv st" "st_path st = ''s''"
      "st_schemas st = [any_schema]" "st_registry st = registry_new [any_schema]" "persisted demo st d"
      "\<forall>tiers \<in> set (st_rings st). \<forall>r \<in> set tiers. reopens_safely r"
    by (rule demo_created)
  have "rg_next_column (st_registry st) = [0]" by (simp add: st(5) registry_new_def)
  then obtain st' where "store_open demo ''s'' [any_schema] (store_files st d) = (Inr st', store_files st d)"
      "map (map rb_table) (st_rings st') = map (map rb_table) (st_rings st)"
      "rg_next_column (st_registry st') = [0]" "store_inv st'"
    using store_reopen [OF st(2) _ st(6) _ demo_json] st(3,4,7) hour_schema_ok loose_fair(2)
    by (auto simp: demo_fields os_ok_calm)
  then show ?thesis using st(1) by blast
qed

section \<open>A creation that fails half way\<close>

definition full_disk :: platform where
  "full_disk = loose\<lparr>pf_os := os_ok\<lparr>os_mkdir := \<lambda>p. if p = schema_dir ''s'' 0 then Some ''No space left'' else None\<rparr>\<rparr>"

theorem failed_create_blocks_open_witness:
  "\<exists>d'. store_open full_disk ''s'' [any_schema] empty_disk
      = (err (Store (DirectoryAccess (schema_dir ''s'' 0) ''No space left'')), d') \<and>
    store_open loose ''s'' [any_schema] d'
      = (err (Store (DirectoryAccess (path_join ''s'' METADATA_FILE) NOT_FOUND)), d')"
proof -
  have "schema_dir ''s'' 0 \<noteq> ''s''"
    by (simp add: schema_dir_def path_join_def)
  then show ?thesis
    using hour_schema_ok nothing_exists
    by (intro failed_create_blocks_open) (simp_all add: full_disk_def schemas_ok_def loose_fields os_ok_calm empty_disk_def)
qed

end
