(* ===== verification/Store_Pairs.thy ===== *)
theory Store_Pairs
  imports Store_Examples Slab_Overrun
begin

text \<open>
  Stores with two schemas. The first takes two series, the second \<open>n\<close>: with \<open>n = 2\<close> the
  registration keeps every ring intact; with \<open>n = 1\<close>, as the slabs are synchronised by
  position, it overwrites a timestamp of the second schema.
\<close>

section \<open>Two schemas and three series\<close>

definition routed_schema :: schema_config where
  "routed_schema = any_schema\<lparr>sc_label_matcher := matcher_new [(''k'', ''a'')]\<rparr>"

definition pair_schemas :: "u32 \<Rightarrow> schema_config list" where
  "pair_schemas n = [routed_schema, any_schema\<lparr>sc_max_series := n\<rparr>]"

abbreviation series_at :: "nat \<Rightarrow> u32 \<Rightarrow> series_handle" where
  "series_at i c \<equiv> \<lparr> sh_schema_index = i, sh_series_id = c, sh_column = c \<rparr>"

abbreviation a_labels :: labels where "a_labels \<equiv> [(''k'', ''a'')]"
abbreviation b_labels :: labels where "b_labels \<equiv> [(''k'', ''b'')]"

definition pair_registry :: "u32 \<Rightarrow> series_registry" where
  "pair_registry n = \<lparr> rg_schemas = pair_schemas n,
     rg_series_map = [(key_new ''x'' a_labels, new_info ''x'' a_labels 0 0),
       (key_new ''y'' a_labels, new_info ''y'' a_labels 0 1)],
     rg_next_series_id = [2, 0], rg_next_column = [2, 0] \<rparr>"

definition full_registry :: "u32 \<Rightarrow> series_registry" where
  "full_registry n = \<lparr> rg_schemas = pair_schemas n,
     rg_series_map = [(key_new ''x'' a_labels, new_info ''x'' a_labels 0 0),
       (key_new ''y'' a_labels, new_info ''y'' a_labels 0 1),
       (key_new ''z'' b_labels, new_info ''z'' b_labels 1 0)],
     rg_next_series_id = [2, 1], rg_next_column = [2, 1] \<rparr>"

lemmas pair_eval = register_def registry_new_def validate_name_def hm_get_def key_new_def hm_insert_def
  find_matching_schema_def pair_schemas_def routed_schema_def any_schema_def matches_labels_def matches_iff
  matcher_any_def matcher_new_def new_info_def info_handle_def

lemma pair_register:
  "\<exists>rg. register (registry_new (pair_schemas n)) ''x'' a_labels = Inr (series_at 0 0, rg) \<and>
     register rg ''y'' a_labels = Inr (series_at 0 1, pair_registry n)"
  by (simp add: pair_eval pair_registry_def word_le_nat_alt)

lemma full_register:
  "0 < n \<Longrightarrow> register (pair_registry n) ''z'' b_labels = Inr (series_at 1 0, full_registry n)"
  by (simp add: pair_eval pair_registry_def full_registry_def)

lemma pair_schemas_ok: "0 < n \<Longrightarrow> n \<le> 2 \<Longrightarrow> schemas_ok (pair_schemas n)"
proof -
  assume "0 < n" "n \<le> 2"
  then have "0 < unat n" "unat n \<le> 2" by (simp_all add: word_less_nat_alt word_le_nat_alt)
  moreover have "n \<noteq> 0" using \<open>0 < n\<close> by auto
  ultimately show ?thesis
    by (simp add: schemas_ok_def schema_validate_ok pair_schemas_def routed_schema_def any_schema_def
        schema_fits_def tier_eval slab_size_def word_less_nat_alt)
qed

section \<open>The store with the two series of the first schema\<close>

lemma pair_indexed:
  "pair_schemas n ! 0 = routed_schema" "pair_schemas n ! Suc 0 = any_schema\<lparr>sc_max_series := n\<rparr>"
  "length (pair_schemas n) = 2"
  by (simp_all add: pair_schemas_def)

lemma pair_aligned_first: "aligned_at (pair_schemas n) 0"
  by (simp add: aligned_at_def pair_indexed routed_schema_def any_schema_def)

lemma register_loose:
  assumes "store_inv st" and "aligned_at (st_schemas st) (sh_schema_index h)"
    and "register (st_registry st) name labels = Inr (h, rg)"
  obtains st' d' where "store_register loose name labels st d = (Inr h, st', d')" "store_inv st'"
    "st_registry st' = rg" "st_schemas st' = st_schemas st"
    "\<forall>i. i \<noteq> sh_schema_index h \<longrightarrow> st_rings st' ! i = st_rings st ! i"
  using store_register_stores [OF assms(1,2) _ assms(3), of loose "''{}''" d] loose_fair(2) that
  by (auto simp: loose_fields os_ok_def)

lemma pair_store_open:
  assumes "0 < n" and "n \<le> 2"
  shows "\<exists>st d. store_open loose ''s'' (pair_schemas n) empty_disk = (Inr st, d) \<and>
    create_new loose ''s'' (pair_schemas n) empty_disk = (Inr st, d) \<and>
    store_inv st \<and> st_schemas st = pair_schemas n \<and> fresh_rings loose (pair_schemas n) (st_rings st)"
proof -
  note ok = pair_schemas_ok [OF assms]
  obtain st d where c: "create_new loose ''s'' (pair_schemas n) empty_disk = (Inr st, d)"
    using create_new_total [of loose "pair_schemas n" "''{}''" "''{}''" empty_disk "''s''"] ok
    by (auto simp: loose_fields os_ok_calm empty_disk_def)
  have "fold_res (\<lambda>schema _. schema_validate schema) (pair_schemas n) () = Inr ()"
    unfolding validate_all using ok by (simp add: schemas_ok_def list_all_iff)
  then show ?thesis
    using c create_new_some [OF c ok] nothing_exists by (simp add: store_open_def)
qed

lemma pair_created:
  assumes "0 < n" and "n \<le> 2"
  obtains st0 d0 st1 d1 st2 d2 where "store_open loose ''s'' (pair_schemas n) empty_disk = (Inr st0, d0)"
    "store_register loose ''x'' a_labels st0 d0 = (Inr (series_at 0 0), st1, d1)"
    "store_register loose ''y'' a_labels st1 d1 = (Inr (series_at 0 1), st2, d2)"
    "store_inv st2" "st_schemas st2 = pair_schemas n" "st_registry st2 = pair_registry n"
    "rb_table (st_rings st2 ! 1 ! 0) = fresh_table loose (any_schema\<lparr>sc_max_series := n\<rparr>) hour_tier"
proof -
  obtain st0 d0 where open': "store_open loose ''s'' (pair_schemas n) empty_disk = (Inr st0, d0)"
      and st0: "store_inv st0" "st_schemas st0 = pair_schemas n" "fresh_rings loose (pair_schemas n) (st_rings st0)"
      and new: "create_new loose ''s'' (pair_schemas n) empty_disk = (Inr st0, d0)"
    using pair_store_open [OF assms] by blast
  have reg0: "st_registry st0 = registry_new (pair_schemas n)"
    using create_new_some [OF new pair_schemas_ok [OF assms]] by simp
  obtain rg where rg: "register (registry_new (pair_schemas n)) ''x'' a_labels = Inr (series_at 0 0, rg)"
      "register rg ''y'' a_labels = Inr (series_at 0 1, pair_registry n)"
    using pair_register by blast
  have al: "aligned_at (pair_schemas n) (sh_schema_index (series_at 0 c))" for c
    using pair_aligned_first by simp
  have p0: "aligned_at (st_schemas st0) (sh_schema_index (series_at 0 0))"
      "register (st_registry st0) ''x'' a_labels = Inr (series_at 0 0, rg)"
    using st0(2) al rg(1) reg0 by simp_all
  obtain st1 d1 where st1: "store_register loose ''x'' a_labels st0 d0 = (Inr (series_at 0 0), st1, d1)"
      "store_inv st1" "st_registry st1 = rg" "st_schemas st1 = st_schemas st0"
      "\<forall>i. i \<noteq> sh_schema_index (series_at 0 0) \<longrightarrow> st_rings st1 ! i = st_rings st0 ! i"
    by (rule register_loose [OF st0(1) p0, of d0])
  have p1: "aligned_at (st_schemas st1) (sh_schema_index (series_at 0 1))"
      "register (st_registry st1) ''y'' a_labels = Inr (series_at 0 1, pair_registry n)"
    using st0(2) st1(3,4) al rg(2) by simp_all
  obtain st2 d2 where st2: "store_register loose ''y'' a_labels st1 d1 = (Inr (series_at 0 1), st2, d2)"
      "store_inv st2" "st_registry st2 = pair_registry n" "st_schemas st2 = st_schemas st1"
      "\<forall>i. i \<noteq> sh_schema_index (series_at 0 1) \<longrightarrow> st_rings st2 ! i = st_rings st1 ! i"
    by (rule register_loose [OF st1(2) p1, of d1])
  have "st_rings st2 ! Suc 0 = st_rings st0 ! Suc 0" "st_schemas st2 = pair_schemas n"
    using st1(4,5) st2(4,5) st0(2) by simp_all
  moreover have "rb_table (st_rings st0 ! 1 ! 0) = fresh_table loose (any_schema\<lparr>sc_max_series := n\<rparr>) hour_tier"
    using st0(3) by (simp add: fresh_rings_def pair_indexed any_schema_def)
  ultimately have "rb_table (st_rings st2 ! 1 ! 0) = fresh_table loose (any_schema\<lparr>sc_max_series := n\<rparr>) hour_tier" by simp
  then show thesis using that open' st1(1) st2 \<open>st_schemas st2 = pair_schemas n\<close> by blast
qed

section \<open>A batch over two schemas\<close>

lemma full_handles:
  "get_handle (full_registry n) ''x'' a_labels = Some (series_at 0 0)"
  "get_handle (full_registry n) ''z'' b_labels = Some (series_at 1 0)"
  by (simp_all add: get_handle_def full_registry_def hm_get_def key_new_def new_info_def info_handle_def)

theorem record_batch_partial_witness:
  "\<exists>st w. is_infinite w \<and> store_inv st \<and>
     snd (store_record_batch (loose\<lparr>pf_groups := rev\<rparr>) [(series_at 0 0, f_one), (series_at 1 0, w)] 5 st) = st \<and>
     (\<exists>st1. snd (store_record_batch (loose\<lparr>pf_groups := \<lambda>ks. ks\<rparr>)
        [(series_at 0 0, f_one), (series_at 1 0, w)] 5 st) = st1 \<and> (5, f_one) \<in> set (samples st1 (series_at 0 0) 0 1 9))"
proof -
  obtain st2 d2 where st2: "store_inv st2" "st_schemas st2 = pair_schemas 2" "st_registry st2 = pair_registry 2"
    by (rule pair_created [of 2]) simp_all
  have "aligned_at (st_schemas st2) (sh_schema_index (series_at 1 0))"
      "register (st_registry st2) ''z'' b_labels = Inr (series_at 1 0, full_registry 2)"
    using full_register [of 2] by (simp_all add: st2 aligned_at_def pair_indexed routed_schema_def any_schema_def)
  then obtain st where st: "store_inv st" "st_registry st = full_registry 2"
    by (rule register_loose [OF st2(1)])
  have "registered st (series_at 0 0)" "registered st (series_at 1 0)"
    using full_handles st(2) by (auto simp: registered_def)
  then show ?thesis
    using record_batch_partial [OF st(1), of "series_at 0 0" "series_at 1 0" f_one f_inf 5 1 9 loose] st(1)
    by (intro exI [of _ st] exI [of _ f_inf]) auto
qed

lemma full_values: "hm_values (\<lambda>ks. ks) (rg_series_map (full_registry n)) =
    [new_info ''x'' a_labels 0 0, new_info ''y'' a_labels 0 1, new_info ''z'' b_labels 1 0]"
  by (simp add: hm_values_def hm_keys_def full_registry_def hm_get_def map_filter_simps key_new_def)

section \<open>A registration that corrupts a timestamp\<close>

lemma sync_overrun:
  assumes inv: "ring_inv r" and r: "rb_table r = fresh_table loose (any_schema\<lparr>sc_max_series := 1\<rparr>) hour_tier"
  shows "\<exists>s3. sync_slab (hm_values (\<lambda>ks. ks) (rg_series_map (full_registry 1))) (full_registry 1) 0 (rb_slab r)
      = (Inr (), s3) \<and> ring_newest_timestamp (r\<lparr>rb_slab := s3\<rparr>) = Inr (Some 1)"
proof -
  let ?fresh = "fresh_table loose (any_schema\<lparr>sc_max_series := 1\<rparr>) hour_tier"
  have wf: "slab_wf (rb_slab r)" and slots: "0 < tb_slots ?fresh"
    using inv r by (simp_all add: ring_inv_def ring_wf_def)
  let ?s1 = "set_series_count (rb_slab r) (registry_series_count (full_registry 1) 0)"
  have s1: "slab_wf ?s1" "slab_table ?s1 = ?fresh\<lparr>tb_count := registry_series_count (full_registry 1) 0\<rparr>"
    using set_series_count_law [OF wf] r by simp_all
  obtain s2 where s2: "set_series_column ?s1 0 0 = Inr s2" "slab_wf s2" "slab_table s2 = tb_put_dir 0 0 (slab_table ?s1)"
    using set_series_column_law [OF s1(1), of 0 0] s1(2) by (auto simp flip: table_fields simp: fresh_table_def empty_table_def)
  obtain s3 where s3: "set_series_column s2 1 1 = Inr s3" "slab_wf s3"
      "slab_table s3 = tb_put_ts 0 (low_half 1 0) (slab_table s2)"
    using set_series_column_overrun [OF s2(2), of 1] s2(3) s1(2) slots
    by (auto simp flip: table_fields simp: fresh_table_def empty_table_def tb_put_dir_def)
  have "sync_slab (hm_values (\<lambda>ks. ks) (rg_series_map (full_registry 1))) (full_registry 1) 0 (rb_slab r) = (Inr (), s3)"
    using s2(1) s3(1) unfolding sync_slab_def full_values by (simp add: new_info_def)
  moreover have "ring_wf (r\<lparr>rb_slab := s3\<rparr>)"
    using inv s1(2) s2(3) s3(2,3) r by (simp add: ring_inv_def ring_wf_def tb_put_ts_def tb_put_dir_def)
  then have "ring_newest_timestamp (r\<lparr>rb_slab := s3\<rparr>) = Inr (Some 1)"
    using s1(2) s2(3) s3(3)
    by (simp add: ring_newest_timestamp_def ring_is_empty_ok ring_wf_def read_timestamp_law table_fields [symmetric])
      (simp add: tb_put_ts_def tb_put_dir_def fresh_table_def empty_table_def low_half_def)
  ultimately show ?thesis by blast
qed

text \<open>
  The synchronisation by position destroys data. With two schemas of two series and of
  one series, opening a store and registering two series of the first schema and one of the
  second succeeds, and the tier of the second schema then reports a newest timestamp,
  although nothing was ever recorded.
\<close>

theorem register_corrupts_timestamps:
  "\<exists>st0 d0 st1 d1 st2 d2 st3 d3. store_open loose ''s'' (pair_schemas 1) empty_disk = (Inr st0, d0) \<and>
     store_register loose ''x'' a_labels st0 d0 = (Inr (series_at 0 0), st1, d1) \<and>
     store_register loose ''y'' a_labels st1 d1 = (Inr (series_at 0 1), st2, d2) \<and>
     store_register loose ''z'' b_labels st2 d2 = (Inr (series_at 1 0), st3, d3) \<and>
     ring_newest_timestamp (st_rings st2 ! 1 ! 0) = Inr None \<and>
     ring_newest_timestamp (st_rings st3 ! 1 ! 0) = Inr (Some 1)"
proof -
  obtain st0 d0 st1 d1 st2 d2 where run: "store_open loose ''s'' (pair_schemas 1) empty_disk = (Inr st0, d0)"
      "store_register loose ''x'' a_labels st0 d0 = (Inr (series_at 0 0), st1, d1)"
      "store_register loose ''y'' a_labels st1 d1 = (Inr (series_at 0 1), st2, d2)"
    and st2: "store_inv st2" "st_schemas st2 = pair_schemas 1" "st_registry st2 = pair_registry 1"
      "rb_table (st_rings st2 ! 1 ! 0) = fresh_table loose (any_schema\<lparr>sc_max_series := 1\<rparr>) hour_tier"
    by (rule pair_created [of 1]) simp_all
  have ri: "rings_inv (st_path st2) (pair_schemas 1) (st_rings st2)" using st2 by (simp add: store_inv_def)
  note at = rings_inv_at [OF ri, of 1]
  obtain r where tiers: "st_rings st2 ! 1 = [r]" "1 < length (st_rings st2)"
    using at(1,3) by (auto simp: pair_indexed any_schema_def length_Suc_conv)
  have inv: "ring_inv r" using at(4) tiers(1) by (simp add: pair_indexed any_schema_def tier_ring_def)
  have r: "rb_table r = fresh_table loose (any_schema\<lparr>sc_max_series := 1\<rparr>) hour_tier"
    using st2(4) tiers(1) by simp
  obtain s3 where s3: "sync_slab (hm_values (\<lambda>ks. ks) (rg_series_map (full_registry 1))) (full_registry 1) 0 (rb_slab r)
      = (Inr (), s3)" "ring_newest_timestamp (r\<lparr>rb_slab := s3\<rparr>) = Inr (Some 1)"
    using sync_overrun [OF inv r] by blast
  then have sync: "sync_to_slabs (\<lambda>ks. ks) (full_registry 1) (map rb_slab (st_rings st2 ! 1)) = (Inr (), [s3])"
    unfolding tiers(1) by (simp add: sync_to_slabs_def)
  let ?st3 = "st2\<lparr>st_registry := full_registry 1, st_rings := (st_rings st2)[1 := [r\<lparr>rb_slab := s3\<rparr>]]\<rparr>"
  obtain d3 where save: "registry_save os_ok (pf_index_json loose) (\<lambda>ks. ks) (full_registry 1)
      (path_join (st_path st2) SERIES_INDEX_FILE) d2 = Inr d3"
    by (simp add: registry_save_def write_text_def os_ok_def loose_fields)
  have "put_slabs (st_rings st2 ! 1) [s3] = [r\<lparr>rb_slab := s3\<rparr>]"
    unfolding tiers(1) by (simp add: put_slabs_def)
  then have reg: "store_register loose ''z'' b_labels st2 d2 = (Inr (series_at 1 0), ?st3, d3)"
    using full_register [of 1] st2(3) tiers(2) sync save
    by (simp add: store_register_def Let_def loose_fields nth_res_def del: One_nat_def)
  have "ring_newest_timestamp r = Inr None"
    using inv r by (simp add: ring_newest_timestamp_def ring_is_empty_ok ring_inv_def)
      (simp add: fresh_table_def empty_table_def)
  moreover have "st_rings st2 ! 1 ! 0 = r" "st_rings ?st3 ! 1 ! 0 = r\<lparr>rb_slab := s3\<rparr>" using tiers by simp_all
  ultimately show ?thesis using run reg s3(2) by (metis (no_types, lifting))
qed

end
