(* ===== verification/Remote_Write.thy ===== *)
theory Remote_Write
  imports Store_Safety
begin

text \<open>
  \<open>rondo/src/remote_write.rs\<close>: the exports of a drain as a Prometheus write request, and the
  push of a request to an endpoint with retries. The protobuf and snappy encoders and the
  HTTP client are third-party code: they are parameters, and the events of a push are the
  requests it sends and the pauses between them.
\<close>

section \<open>Requests\<close>

record proto_label =
  lb_name :: string
  lb_value :: string

record proto_sample =
  sm_value :: f64
  sm_timestamp :: "64 word"

record time_series =
  ts_labels :: "proto_label list"
  ts_samples :: "proto_sample list"

record write_request =
  wr_timeseries :: "time_series list"

definition label_pair :: "string \<times> string \<Rightarrow> proto_label" where
  "label_pair l = \<lparr> lb_name = fst l, lb_value = snd l \<rparr>"

definition build_labels :: "string \<Rightarrow> labels \<Rightarrow> labels \<Rightarrow> proto_label list" where
  "build_labels name labels external_labels =
     sort_key lb_name
       (\<lparr> lb_name = ''__name__'', lb_value = name \<rparr> # map label_pair labels @ map label_pair external_labels)"

definition build_samples :: "(u64 \<times> f64) list \<Rightarrow> proto_sample list" where
  "build_samples points =
     map (\<lambda>(timestamp_ns, v). \<lparr> sm_value = v, sm_timestamp = timestamp_ns div 1000000 \<rparr>) points"

definition build_write_request ::
    "platform \<Rightarrow> series_export list \<Rightarrow> store \<Rightarrow> labels \<Rightarrow> write_request res" where
  "build_write_request pf exports st external_labels =
     rbind (map_res (\<lambda>export.
         case store_series_info pf st (se_handle export) of
           None \<Rightarrow> err (RemoteWrite (SeriesNotFound (sh_schema_index (se_handle export)) (sh_column (se_handle export))))
         | Some (name, labels) \<Rightarrow>
             Inr \<lparr> ts_labels = build_labels name labels external_labels, ts_samples = build_samples (se_points export) \<rparr>)
       exports)
     (\<lambda>timeseries. Inr \<lparr> wr_timeseries = timeseries \<rparr>)"

section \<open>Configuration\<close>

record remote_write_config =
  rw_endpoint :: string
  rw_timeout :: duration
  rw_max_retries :: u32
  rw_retry_backoff :: duration
  rw_headers :: "(string \<times> string) list"

definition from_millis :: "u64 \<Rightarrow> duration" where
  "from_millis ms = Duration (ms div 1000) (ucast (ms mod 1000) * 1000000)"

definition config_new :: "string \<Rightarrow> remote_write_config" where
  "config_new endpoint = \<lparr> rw_endpoint = endpoint, rw_timeout = from_secs 30, rw_max_retries = 3,
     rw_retry_backoff = from_millis 100, rw_headers = [] \<rparr>"

definition with_header :: "string \<Rightarrow> string \<Rightarrow> remote_write_config \<Rightarrow> remote_write_config" where
  "with_header name v config = config\<lparr>rw_headers := rw_headers config @ [(name, v)]\<rparr>"

definition with_timeout :: "duration \<Rightarrow> remote_write_config \<Rightarrow> remote_write_config" where
  "with_timeout timeout config = config\<lparr>rw_timeout := timeout\<rparr>"

definition with_max_retries :: "u32 \<Rightarrow> remote_write_config \<Rightarrow> remote_write_config" where
  "with_max_retries max_retries config = config\<lparr>rw_max_retries := max_retries\<rparr>"

section \<open>Sending\<close>

text \<open>The HTTP client: whether it can be built, and what the attempt with a number yields.\<close>

record http_request =
  hr_url :: string
  hr_headers :: "(string \<times> string) list"
  hr_body :: "u8 list"

datatype http_result = Response u16 string | NoResponse string

record net =
  net_client :: "duration \<Rightarrow> string option"
  net_post :: "nat \<Rightarrow> http_request \<Rightarrow> http_result"
  net_encode :: "write_request \<Rightarrow> string + u8 list"
  net_compress :: "u8 list \<Rightarrow> string + u8 list"

datatype push_event = Sent http_request | Slept duration

text \<open>\<open>backoff *= 2\<close>, which panics when the product is no \<open>Duration\<close>.\<close>

definition dur_double :: "duration \<Rightarrow> duration option" where
  "dur_double d =
     (let total_nanos = 2 * unat (dur_nanos d);
          secs = 2 * unat (dur_secs d) + total_nanos div 10 ^ 9
      in if secs < 2 ^ 64 then Some (Duration (word_of_nat secs) (word_of_nat (total_nanos mod 10 ^ 9))) else None)"

definition post_request :: "remote_write_config \<Rightarrow> u8 list \<Rightarrow> http_request" where
  "post_request config body = \<lparr> hr_url = rw_endpoint config,
     hr_headers = [(''Content-Encoding'', ''snappy''), (''Content-Type'', ''application/x-protobuf''),
       (''X-Prometheus-Remote-Write-Version'', ''0.1.0'')] @ rw_headers config,
     hr_body = body \<rparr>"

definition is_success :: "u16 \<Rightarrow> bool" where
  "is_success status \<longleftrightarrow> 200 \<le> status \<and> status < 300"

text \<open>The outcome of one attempt: the error it leaves in \<open>last_error\<close>, if it failed.\<close>

definition attempt_error :: "http_result \<Rightarrow> remote_write_error option" where
  "attempt_error r =
     (case r of Response status body \<Rightarrow> if is_success status then None else Some (HttpStatus status body)
      | NoResponse e \<Rightarrow> Some (RequestFailed e))"

text \<open>The attempts from a number on, of which \<open>remaining\<close> may still follow the first.\<close>

fun send_attempts ::
    "net \<Rightarrow> http_request \<Rightarrow> nat \<Rightarrow> nat \<Rightarrow> duration \<Rightarrow> unit res \<times> push_event list" where
  "send_attempts net rq remaining attempt backoff =
     (case attempt_error (net_post net attempt rq) of
        None \<Rightarrow> (Inr (), [Sent rq])
      | Some e \<Rightarrow>
          (case remaining of
             0 \<Rightarrow> (err (RemoteWrite e), [Sent rq])
           | Suc rest \<Rightarrow>
               (case dur_double backoff of
                  None \<Rightarrow> (Inl Panic, [Sent rq, Slept backoff])
                | Some backoff' \<Rightarrow>
                    (case send_attempts net rq rest (Suc attempt) backoff' of
                       (r, es) \<Rightarrow> (r, Sent rq # Slept backoff # es)))))"

declare send_attempts.simps [simp del]

definition send_with_retry :: "net \<Rightarrow> remote_write_config \<Rightarrow> u8 list \<Rightarrow> unit res \<times> push_event list" where
  "send_with_retry net config body =
     (case net_client net (rw_timeout config) of
        Some e \<Rightarrow> (err (RemoteWrite (ClientCreate e)), [])
      | None \<Rightarrow> send_attempts net (post_request config body) (unat (rw_max_retries config)) 0 (rw_retry_backoff config))"

definition encode_exports ::
    "platform \<Rightarrow> net \<Rightarrow> series_export list \<Rightarrow> store \<Rightarrow> labels \<Rightarrow> u8 list res" where
  "encode_exports pf net exports st external_labels =
     rbind (build_write_request pf exports st external_labels) (\<lambda>request.
     rbind (map_err (\<lambda>e. Error (RemoteWrite (Serialization e))) (net_encode net request)) (\<lambda>proto_bytes.
     map_err (\<lambda>e. Error (RemoteWrite (Compression e))) (net_compress net proto_bytes)))"

definition push ::
    "platform \<Rightarrow> net \<Rightarrow> remote_write_config \<Rightarrow> series_export list \<Rightarrow> store \<Rightarrow> labels \<Rightarrow>
       usize res \<times> push_event list" where
  "push pf net config exports st external_labels =
     (if exports = [] then (Inr 0, [])
      else case encode_exports pf net exports st external_labels of
        Inl e \<Rightarrow> (Inl e, [])
      | Inr compressed \<Rightarrow>
          (case send_with_retry net config compressed of
             (Inl e, es) \<Rightarrow> (Inl e, es)
           | (Inr _, es) \<Rightarrow> (Inr (length exports), es)))"

section \<open>What a request holds\<close>

lemma build_labels_sorted: "sorted (map lb_name (build_labels name labels external_labels))"
  unfolding build_labels_def by (rule sorted_sort_key)

lemma build_labels_mset: "mset (build_labels name labels external_labels) =
    mset (\<lparr> lb_name = ''__name__'', lb_value = name \<rparr> # map label_pair (labels @ external_labels))"
  by (simp add: build_labels_def)

lemma sint_small:
  assumes "unat (w :: u64) < 2 ^ 63"
  shows "sint w = int (unat w)"
proof -
  have u: "uint w = int (unat w)" by simp
  have "int (unat w) < int (2 ^ 63)" using assms by (simp only: of_nat_less_iff)
  then have "uint w < 2 ^ 63" by simp
  moreover have "- (2 ^ 63) \<le> uint w" by (rule order_trans [OF _ uint_ge_0]) simp
  ultimately have "signed_take_bit 63 (uint w) = uint w" by (intro signed_take_bit_int_eq_self) simp_all
  then show ?thesis by (simp add: sint_uint)
qed

lemma sample_timestamp: "sint ((t :: u64) div 1000000) = int (unat t div 1000000)"
proof -
  have d: "unat (t div 1000000) = unat t div 1000000" by (simp add: unat_div_distrib)
  have "unat t div 1000000 < 2 ^ 63" using u64_bound [of t] by simp
  then have "sint (t div 1000000) = int (unat (t div 1000000))" by (intro sint_small) (simp add: d)
  then show ?thesis by (simp only: d)
qed

lemma series_info_registered:
  assumes "store_inv st" and "iteration_order (pf_keys pf)"
  shows "store_series_info pf st h = None \<longleftrightarrow> h \<notin> set (store_handles pf st)"
    and "store_series_info pf st h = Some (name, labels) \<Longrightarrow> get_handle (st_registry st) name labels = Some h"
proof -
  let ?infos = "hm_values (pf_keys pf) (rg_series_map (st_registry st))"
  have inv: "reg_inv (st_registry st)" using assms(1) by (simp add: store_inv_def)
  then have all: "set ?infos = ran (hm_get (rg_series_map (st_registry st)))"
    using assms(2) by (simp add: hm_values_set reg_inv_def)
  show "store_series_info pf st h = None \<longleftrightarrow> h \<notin> set (store_handles pf st)"
    by (auto simp: store_series_info_def get_series_info_def store_handles_def handles_def find_None_iff)
  assume "store_series_info pf st h = Some (name, labels)"
  then obtain info where i: "info \<in> set ?infos" "info_handle info = h" "si_name info = name" "si_labels info = labels"
    by (auto simp: store_series_info_def get_series_info_def find_Some_iff intro: nth_mem)
  then obtain k where k: "hm_get (rg_series_map (st_registry st)) k = Some info"
    using all by (auto simp: ran_def)
  then have "k = key_new (si_name info) (si_labels info)"
    using inv unfolding reg_inv_def by blast
  then show "get_handle (st_registry st) name labels = Some h"
    using k i by (simp add: get_handle_def)
qed

lemma series_info_of_handle:
  assumes "store_inv st" and "iteration_order (pf_keys pf)" and "get_handle (st_registry st) name labels = Some h"
  shows "\<exists>labels'. store_series_info pf st h = Some (name, labels') \<and> sort_key fst labels' = sort_key fst labels \<and>
    h \<in> set (store_handles pf st)"
proof -
  have inv: "reg_inv (st_registry st)" using assms(1) by (simp add: store_inv_def)
  obtain info where info: "hm_get (rg_series_map (st_registry st)) (key_new name labels) = Some info" "info_handle info = h"
    using assms(3) by (auto simp: get_handle_def)
  then have "info \<in> set (hm_values (pf_keys pf) (rg_series_map (st_registry st)))"
    using inv assms(2) by (auto simp: hm_values_set reg_inv_def ran_def)
  then have mem: "h \<in> set (store_handles pf st)"
    using info(2) by (auto simp: store_handles_def handles_def)
  then obtain name' labels' where i: "store_series_info pf st h = Some (name', labels')"
    using series_info_registered(1) [OF assms(1,2)] by (metis option.exhaust surj_pair)
  then have "get_handle (st_registry st) name' labels' = Some h"
    by (rule series_info_registered(2) [OF assms(1,2)])
  then obtain info' where info': "hm_get (rg_series_map (st_registry st)) (key_new name' labels') = Some info'" "info_handle info' = h"
    by (auto simp: get_handle_def)
  then have "si_schema_index info' = si_schema_index info" "si_series_id info' = si_series_id info"
    using info(2) by (auto simp: info_handle_def)
  then have "key_new name' labels' = key_new name labels"
    using inv info(1) info'(1) unfolding reg_inv_def by blast
  then show ?thesis using mem i by (simp add: key_new_def)
qed

text \<open>
  What a request says of one export.
\<close>

definition series_of :: "store \<Rightarrow> labels \<Rightarrow> series_export \<Rightarrow> time_series \<Rightarrow> bool" where
  "series_of st external_labels export ts \<longleftrightarrow>
     (\<exists>name labels. get_handle (st_registry st) name labels = Some (se_handle export) \<and>
        mset (ts_labels ts) = mset (\<lparr> lb_name = ''__name__'', lb_value = name \<rparr> #
          map label_pair (labels @ external_labels))) \<and>
     sorted (map lb_name (ts_labels ts)) \<and>
     map (\<lambda>s. (sint (sm_timestamp s), sm_value s)) (ts_samples ts) =
       map (\<lambda>(t, v). (int (unat t div 1000000), v)) (se_points export)"

lemma build_samples_points: "map (\<lambda>s. (sint (sm_timestamp s), sm_value s)) (build_samples points) =
    map (\<lambda>(t, v). (int (unat t div 1000000), v)) points"
  by (simp add: build_samples_def sample_timestamp split_beta)

lemma write_request_series:
  assumes "store_inv st" and "iteration_order (pf_keys pf)"
    and "\<forall>export \<in> set exports. se_handle export \<in> set (store_handles pf st)"
  shows "\<exists>rq. build_write_request pf exports st external_labels = Inr rq \<and>
    list_all2 (series_of st external_labels) exports (wr_timeseries rq)"
proof -
  note info = series_info_registered [OF assms(1,2)]
  let ?series = "\<lambda>export. case the (store_series_info pf st (se_handle export)) of (name, labels) \<Rightarrow>
    \<lparr> ts_labels = build_labels name labels external_labels, ts_samples = build_samples (se_points export) \<rparr>"
  have known: "\<exists>name labels. store_series_info pf st (se_handle export) = Some (name, labels) \<and>
      get_handle (st_registry st) name labels = Some (se_handle export)" if "export \<in> set exports" for export
    using info(1) [of "se_handle export"] info(2) [of "se_handle export"] assms(3) that by fastforce
  have "build_write_request pf exports st external_labels = Inr \<lparr> wr_timeseries = map ?series exports \<rparr>"
    unfolding build_write_request_def
    by (subst map_res_total [where g = ?series]) (use known in force)+
  moreover have "series_of st external_labels export (?series export)" if "export \<in> set exports" for export
  proof -
    obtain name labels where "store_series_info pf st (se_handle export) = Some (name, labels)"
        "get_handle (st_registry st) name labels = Some (se_handle export)"
      using known [OF \<open>export \<in> set exports\<close>] by blast
    then show ?thesis
      unfolding series_of_def
      using build_labels_mset [of name labels external_labels] build_labels_sorted build_samples_points
      by auto
  qed
  ultimately show ?thesis by (auto simp: list_all2_map2 intro!: list.rel_refl_strong)
qed

lemma write_request_unknown:
  assumes "store_inv st" and "iteration_order (pf_keys pf)"
    and "\<not> (\<forall>export \<in> set exports. se_handle export \<in> set (store_handles pf st))"
  shows "\<exists>h \<in> se_handle ` set exports. h \<notin> set (store_handles pf st) \<and>
    build_write_request pf exports st external_labels =
      err (RemoteWrite (SeriesNotFound (sh_schema_index h) (sh_column h)))"
  using assms(3)
proof (induction exports)
  case (Cons x xs)
  note info = series_info_registered(1) [OF assms(1,2)]
  show ?case
  proof (cases "se_handle x \<in> set (store_handles pf st)")
    case True
    then obtain name labels where "store_series_info pf st (se_handle x) = Some (name, labels)"
      using info [of "se_handle x"] by auto
    moreover obtain h where "h \<in> se_handle ` set xs" "h \<notin> set (store_handles pf st)"
        "build_write_request pf xs st external_labels
          = err (RemoteWrite (SeriesNotFound (sh_schema_index h) (sh_column h)))"
      using Cons True by auto
    ultimately show ?thesis
      by (intro bexI [of _ h]) (auto simp: build_write_request_def rbind_eq_Inl)
  next
    case False
    then have "store_series_info pf st (se_handle x) = None" using info by simp
    then show ?thesis using False by (simp add: build_write_request_def)
  qed
qed simp

text \<open>
  C17. A write request holds one time series per export, in their order: its labels are the name,
  the labels of the registered series and the external labels, sorted by name, and its samples
  are the points with their timestamps in milliseconds, none of them negative.
\<close>

theorem write_request_spec:
  assumes "store_inv st" and "iteration_order (pf_keys pf)"
  shows "if \<forall>export \<in> set exports. se_handle export \<in> set (store_handles pf st)
    then \<exists>rq. build_write_request pf exports st external_labels = Inr rq \<and>
      list_all2 (series_of st external_labels) exports (wr_timeseries rq)
    else \<exists>h \<in> se_handle ` set exports. h \<notin> set (store_handles pf st) \<and>
      build_write_request pf exports st external_labels =
        err (RemoteWrite (SeriesNotFound (sh_schema_index h) (sh_column h)))"
proof (cases "\<forall>export \<in> set exports. se_handle export \<in> set (store_handles pf st)")
  case True
  then show ?thesis using write_request_series [OF assms] by simp
next
  case False
  then show ?thesis using write_request_unknown [OF assms False] by auto
qed

section \<open>The attempts of a push\<close>

lemma dur_double_ok:
  assumes "dur_wf d" and "2 * as_nanos d < 2 ^ 64 * 10 ^ 9"
  obtains d' where "dur_double d = Some d'" "dur_wf d'" "as_nanos d' = 2 * as_nanos d"
proof -
  let ?n = "2 * unat (dur_nanos d)"
  let ?s = "2 * unat (dur_secs d) + ?n div 10 ^ 9"
  have eq: "2 * as_nanos d = ?s * 10 ^ 9 + ?n mod 10 ^ 9"
    using div_mult_mod_eq [of ?n "10 ^ 9"] unfolding as_nanos_def by algebra
  have s: "?s < 2 ^ 64"
  proof (rule ccontr)
    assume "\<not> ?s < 2 ^ 64"
    then have "2 ^ 64 * 10 ^ 9 \<le> ?s * (10 ^ 9 :: nat)" by (intro mult_le_mono1) simp
    then show False using eq assms(2) by linarith
  qed
  have m: "?n mod 10 ^ 9 < 2 ^ 32"
    by (rule less_trans [of _ "10 ^ 9"]) simp_all
  let ?d = "Duration (word_of_nat ?s) (word_of_nat (?n mod 10 ^ 9))"
  have "dur_double d = Some ?d" using s by (simp add: dur_double_def)
  moreover have f: "unat (dur_secs ?d) = ?s" "unat (dur_nanos ?d) = ?n mod 10 ^ 9"
    unfolding duration.sel by (rule u64_of_nat [OF s], rule u32_of_nat [OF m])
  have "dur_wf ?d" unfolding dur_wf_def f by simp
  moreover have "as_nanos ?d = 2 * as_nanos d" unfolding as_nanos_def f using eq by (simp add: as_nanos_def)
  ultimately show thesis by (rule that)
qed

text \<open>The events of a push that pauses for the given durations between its attempts.\<close>

definition push_events :: "http_request \<Rightarrow> duration list \<Rightarrow> push_event list" where
  "push_events rq pauses = concat (map (\<lambda>d. [Sent rq, Slept d]) pauses) @ [Sent rq]"

lemma send_attempts_spec:
  assumes "dur_wf backoff" and "as_nanos backoff * 2 ^ remaining < 2 ^ 64 * 10 ^ 9"
  shows "\<exists>r pauses. send_attempts net rq remaining attempt backoff = (r, push_events rq pauses) \<and>
    length pauses \<le> remaining \<and>
    map as_nanos pauses = map (\<lambda>k. as_nanos backoff * 2 ^ k) [0..<length pauses] \<and>
    (\<forall>k < length pauses. attempt_error (net_post net (attempt + k) rq) \<noteq> None) \<and>
    (case attempt_error (net_post net (attempt + length pauses) rq) of
       None \<Rightarrow> r = Inr () | Some e \<Rightarrow> length pauses = remaining \<and> r = err (RemoteWrite e))"
  using assms
proof (induction remaining arbitrary: attempt backoff)
  case 0
  then show ?case
    by (intro exI [of _ "fst (send_attempts net rq 0 attempt backoff)"] exI [of _ "[]"])
      (auto simp: send_attempts.simps push_events_def split: option.splits)
next
  case (Suc n)
  show ?case
  proof (cases "attempt_error (net_post net attempt rq)")
    case None
    then show ?thesis
      by (intro exI [of _ "Inr ()"] exI [of _ "[]"]) (simp add: send_attempts.simps push_events_def)
  next
    case (Some e)
    have "2 * as_nanos backoff \<le> as_nanos backoff * 2 ^ Suc n" by simp
    then have "2 * as_nanos backoff < 2 ^ 64 * 10 ^ 9" using Suc.prems(2) by linarith
    then obtain d where d: "dur_double backoff = Some d" "dur_wf d" "as_nanos d = 2 * as_nanos backoff"
      by (rule dur_double_ok [OF Suc.prems(1)])
    have "as_nanos d * 2 ^ n < 2 ^ 64 * 10 ^ 9" using Suc.prems(2) d(3) by (simp add: ac_simps)
    then obtain r pauses where IH: "send_attempts net rq n (Suc attempt) d = (r, push_events rq pauses)"
        "length pauses \<le> n" "map as_nanos pauses = map (\<lambda>k. as_nanos d * 2 ^ k) [0..<length pauses]"
        "\<forall>k < length pauses. attempt_error (net_post net (Suc attempt + k) rq) \<noteq> None"
        "case attempt_error (net_post net (Suc attempt + length pauses) rq) of
           None \<Rightarrow> r = Inr () | Some e \<Rightarrow> length pauses = n \<and> r = err (RemoteWrite e)"
      using Suc.IH [OF d(2), of "Suc attempt"] by blast
    have "send_attempts net rq (Suc n) attempt backoff = (r, push_events rq (backoff # pauses))"
      using Some d(1) IH(1) by (subst send_attempts.simps) (simp add: push_events_def)
    moreover have "map as_nanos (backoff # pauses)
        = map (\<lambda>k. as_nanos backoff * 2 ^ k) [0..<length (backoff # pauses)]"
      using IH(3) d(3) by (simp add: upt_conv_Cons ac_simps flip: map_Suc_upt del: upt_Suc)
    moreover have "attempt_error (net_post net (attempt + k) rq) \<noteq> None" if "k < length (backoff # pauses)" for k
      using that IH(4) Some by (cases k) auto
    ultimately show ?thesis
      using IH(2,5) by (intro exI [of _ r] exI [of _ "backoff # pauses"]) (simp split: option.splits)
  qed
qed

text \<open>
  C18. A push sends at most one request more than \<open>max_retries\<close>, stops at the first that the
  server accepts, and pauses between them for the configured time, doubled after every
  attempt; it fails with the error of the last attempt exactly when all of them fail.
\<close>

theorem push_retries:
  assumes "net_client net (rw_timeout config) = None" and "dur_wf (rw_retry_backoff config)"
    and "as_nanos (rw_retry_backoff config) * 2 ^ unat (rw_max_retries config) < 2 ^ 64 * 10 ^ 9"
  shows "\<exists>r pauses. send_with_retry net config body = (r, push_events (post_request config body) pauses) \<and>
    length pauses \<le> unat (rw_max_retries config) \<and>
    map as_nanos pauses = map (\<lambda>k. as_nanos (rw_retry_backoff config) * 2 ^ k) [0..<length pauses] \<and>
    (\<forall>k < length pauses. attempt_error (net_post net k (post_request config body)) \<noteq> None) \<and>
    (case attempt_error (net_post net (length pauses) (post_request config body)) of
       None \<Rightarrow> r = Inr ()
     | Some e \<Rightarrow> length pauses = unat (rw_max_retries config) \<and> r = err (RemoteWrite e))"
  using send_attempts_spec [OF assms(2,3), of net "post_request config body" 0] assms(1)
  by (simp add: send_with_retry_def)

definition flaky_net :: net where
  "flaky_net = \<lparr> net_client = (\<lambda>_. None),
     net_post = (\<lambda>k _. if k = 0 then NoResponse ''timeout'' else if k = 1 then Response 503 ''busy'' else Response 204 []),
     net_encode = (\<lambda>_. Inr [1]), net_compress = (\<lambda>bs. Inr bs) \<rparr>"

theorem push_retries_witness:
  "\<exists>pauses. send_with_retry flaky_net (config_new ''u'') [1] = (Inr (), push_events (post_request (config_new ''u'') [1]) pauses) \<and>
     map as_nanos pauses = [100000000, 200000000]"
proof -
  let ?rq = "post_request (config_new ''u'') [1]"
  have ok: "net_client flaky_net (rw_timeout (config_new ''u'')) = None"
      "dur_wf (rw_retry_backoff (config_new ''u''))" "as_nanos (rw_retry_backoff (config_new ''u'')) = 100000000"
      "unat (rw_max_retries (config_new ''u'')) = 3"
    by (simp_all add: flaky_net_def config_new_def from_millis_def dur_wf_def as_nanos_def)
  have e: "attempt_error (net_post flaky_net k ?rq) = (if k = 0 then Some (RequestFailed ''timeout'')
      else if k = 1 then Some (HttpStatus 503 ''busy'') else None)" for k
    by (simp add: flaky_net_def attempt_error_def is_success_def)
  obtain r pauses where p: "send_with_retry flaky_net (config_new ''u'') [1] = (r, push_events ?rq pauses)"
      "length pauses \<le> 3" "map as_nanos pauses = map (\<lambda>k. 100000000 * 2 ^ k) [0..<length pauses]"
      "\<forall>k < length pauses. attempt_error (net_post flaky_net k ?rq) \<noteq> None"
      "case attempt_error (net_post flaky_net (length pauses) ?rq) of None \<Rightarrow> r = Inr ()
         | Some e \<Rightarrow> length pauses = 3 \<and> r = err (RemoteWrite e)"
    using push_retries [of flaky_net "config_new ''u''" "[1]"] unfolding ok(3,4) using ok(1,2) by auto
  have "\<not> 2 < length pauses" using spec [OF p(4), of 2] by (auto simp: e)
  moreover have "length pauses \<noteq> 0" "length pauses \<noteq> 1" using p(5) by (auto simp: e split: if_splits)
  ultimately have "length pauses = 2" by linarith
  then show ?thesis using p(1,3,5) by (auto simp: e upt_rec)
qed

end
