(* ===== verification/Export_Loop.thy ===== *)
theory Export_Loop
  imports Remote_Write Store_Consolidate
begin

text \<open>
  The export thread of the demo VMM (\<open>export_loop\<close> of \<open>rondo-demo-vmm/src/vcpu.rs\<close>): every
  ten seconds tier 0 is drained under the lock of the store, and what it gives is pushed.
\<close>

section \<open>One round of the loop\<close>

text \<open>Errors are logged and the loop goes on; only a panic ends the thread.\<close>

definition logged :: "rondo_error fault \<Rightarrow> unit res" where
  "logged f = (case f of Error _ \<Rightarrow> Inr () | _ \<Rightarrow> Inl f)"

definition export_tick ::
    "platform \<Rightarrow> export_cursor json \<Rightarrow> net \<Rightarrow> remote_write_config \<Rightarrow> labels \<Rightarrow> bool \<Rightarrow> store \<Rightarrow>
       export_cursor \<Rightarrow> disk \<Rightarrow> unit res \<times> push_event list \<times> export_cursor \<times> disk" where
  "export_tick pf js net config external_labels lock st cursor d =
     (if \<not> lock then (Inr (), [], cursor, d)
      else case store_drain pf st 0 cursor of
        (Inl e, cursor) \<Rightarrow> (logged e, [], cursor, d)
      | (Inr exports, cursor) \<Rightarrow>
          if exports = [] then (Inr (), [], cursor, d)
          else (case push pf net config exports st external_labels of
            (Inl e, es) \<Rightarrow> (logged e, es, cursor, d)
          | (Inr _, es) \<Rightarrow>
              (case export_save (pf_os pf) js cursor d of
                 Inl e \<Rightarrow> (logged e, es, cursor, d)
               | Inr d \<Rightarrow> (Inr (), es, cursor, d))))"

section \<open>Draining twice\<close>

text \<open>A series from which nothing is left to export.\<close>

definition settled :: "ring \<Rightarrow> usize \<Rightarrow> usize \<Rightarrow> u32 \<Rightarrow> export_cursor \<Rightarrow> bool" where
  "settled r i j c cursor \<longleftrightarrow> drain_series r i j c cursor = Inr ([], cursor)"

lemma settled_cong:
  assumes "settled r i j c cursor" and "export_get cursor' i j c = export_get cursor i j c"
  shows "settled r i j c cursor'"
proof (cases "ring_oldest_timestamp r"; cases "ring_newest_timestamp r")
  fix oldest newest assume o: "ring_oldest_timestamp r = Inr oldest" "ring_newest_timestamp r = Inr newest"
  show ?thesis
    using assms unfolding settled_def drain_series_def Let_def o rbind_Inr
    by (cases oldest; cases newest; cases "export_get cursor i j c") (auto simp: rbind_eq_Inr split: if_splits)
qed (use assms in \<open>simp_all add: settled_def drain_series_def\<close>)

definition drainable :: "ring \<Rightarrow> u32 \<Rightarrow> bool" where
  "drainable r c \<longleftrightarrow> ring_inv r \<and> chronological (rb_table r) \<and> c < tb_cols (rb_table r) \<and>
     unat (tb_slots (rb_table r)) \<le> 2 ^ 31 \<and> - 1 \<notin> set (used_timestamps (rb_table r))"

lemma drain_settles:
  assumes "drainable r c" and "\<forall>i j c. export_get cursor i j c \<noteq> Some (- 1)"
  obtains ps cursor' where "drain_series r i j c cursor = Inr (ps, cursor')" "settled r i j c cursor'"
    "\<forall>i j c. export_get cursor' i j c \<noteq> Some (- 1)"
    "\<forall>i' j' c'. (i', j', c') \<noteq> (i, j, c) \<longrightarrow> export_get cursor' i' j' c' = export_get cursor i' j' c'"
proof -
  note d = assms(1) [unfolded drainable_def]
  obtain ps cursor' where "drain_series r i j c cursor = Inr (ps, cursor')"
      "drain_series r i j c cursor' = Inr ([], cursor')" "export_get cursor' i j c \<noteq> Some (- 1)"
    using drain_series_settles [of r c cursor i j] d assms(2) by blast
  moreover have "export_get cursor' i' j' c' = export_get cursor i' j' c'"
    if "(i', j', c') \<noteq> (i, j, c)" for i' j' c'
    using drain_series_settles [of r c cursor i j i' j' c'] d assms(2) calculation(1) that by auto
  moreover have "export_get cursor' i' j' c' \<noteq> Some (- 1)" for i' j' c'
    using calculation(3) calculation(4) [of i' j' c'] assms(2) by (cases "(i', j', c') = (i, j, c)") auto
  ultimately show thesis using that [of ps cursor'] by (auto simp: settled_def)
qed

lemma drain_handles_settles:
  assumes "\<forall>h \<in> set hs. sh_schema_index h = i \<longrightarrow> drainable r (sh_column h)"
    and "\<forall>i j c. export_get cursor i j c \<noteq> Some (- 1)"
  shows "\<exists>xs cursor'. drain_handles r i j hs cursor = (Inr xs, cursor') \<and>
    (\<forall>h \<in> set hs. sh_schema_index h = i \<longrightarrow> settled r i j (sh_column h) cursor') \<and>
    (\<forall>i j c. export_get cursor' i j c \<noteq> Some (- 1)) \<and>
    (\<forall>i' j' c'. i' \<noteq> i \<longrightarrow> export_get cursor' i' j' c' = export_get cursor i' j' c') \<and>
    (\<forall>r' i' j' c'. settled r' i' j' c' cursor \<longrightarrow> r' = r \<or> i' \<noteq> i \<longrightarrow> settled r' i' j' c' cursor')"
  using assms
proof (induction hs arbitrary: cursor)
  case (Cons h hs)
  show ?case
  proof (cases "sh_schema_index h = i")
    case False
    then show ?thesis using Cons.IH [of cursor] Cons.prems by simp
  next
    case True
    then have "drainable r (sh_column h)" using Cons.prems(1) by simp
    then obtain ps cursor1 where d: "drain_series r i j (sh_column h) cursor = Inr (ps, cursor1)"
        "settled r i j (sh_column h) cursor1" "\<forall>i j c. export_get cursor1 i j c \<noteq> Some (- 1)"
        "\<forall>i' j' c'. (i', j', c') \<noteq> (i, j, sh_column h) \<longrightarrow> export_get cursor1 i' j' c' = export_get cursor i' j' c'"
      using drain_settles [OF _ Cons.prems(2), of r "sh_column h" i j] by blast
    obtain xs cursor' where IH: "drain_handles r i j hs cursor1 = (Inr xs, cursor')"
        "\<forall>h \<in> set hs. sh_schema_index h = i \<longrightarrow> settled r i j (sh_column h) cursor'"
        "\<forall>i j c. export_get cursor' i j c \<noteq> Some (- 1)"
        "\<forall>i' j' c'. i' \<noteq> i \<longrightarrow> export_get cursor' i' j' c' = export_get cursor1 i' j' c'"
        "\<forall>r' i' j' c'. settled r' i' j' c' cursor1 \<longrightarrow> r' = r \<or> i' \<noteq> i \<longrightarrow> settled r' i' j' c' cursor'"
      using Cons.IH [OF _ d(3)] Cons.prems(1) by auto
    have keep: "settled r' i' j' c' cursor1" if "settled r' i' j' c' cursor" "r' = r \<or> i' \<noteq> i" for r' i' j' c'
    proof (cases "(i', j', c') = (i, j, sh_column h)")
      case True
      then show ?thesis using that(2) d(2) by auto
    next
      case False
      then have "export_get cursor1 i' j' c' = export_get cursor i' j' c'" using d(4) by blast
      then show ?thesis using settled_cong that(1) by blast
    qed
    have "settled r i j (sh_column h) cursor'" using IH(5) d(2) by blast
    then have "\<forall>h' \<in> set (h # hs). sh_schema_index h' = i \<longrightarrow> settled r i j (sh_column h') cursor'"
      using IH(2) by auto
    moreover have "\<exists>ys. drain_handles r i j (h # hs) cursor = (Inr ys, cursor')"
      using True d(1) IH(1) by simp
    moreover have "\<forall>i' j' c'. i' \<noteq> i \<longrightarrow> export_get cursor' i' j' c' = export_get cursor i' j' c'"
      using IH(4) d(4) by auto
    ultimately show ?thesis using IH(3,5) keep by blast
  qed
qed auto

lemma drain_handles_settled:
  "\<forall>h \<in> set hs. sh_schema_index h = i \<longrightarrow> settled r i j (sh_column h) cursor \<Longrightarrow>
     drain_handles r i j hs cursor = (Inr [], cursor)"
  by (induction hs) (auto simp: settled_def)

text \<open>The rings of a tier from which the series of some handles are drained.\<close>

definition tier_drainable :: "ring list list \<Rightarrow> usize \<Rightarrow> series_handle list \<Rightarrow> bool" where
  "tier_drainable rings tier hs \<longleftrightarrow> (\<forall>h \<in> set hs. sh_schema_index h < length rings \<and>
     (tier < length (rings ! sh_schema_index h) \<longrightarrow> drainable (rings ! sh_schema_index h ! tier) (sh_column h)))"

definition tier_settled :: "ring list list \<Rightarrow> usize \<Rightarrow> series_handle \<Rightarrow> export_cursor \<Rightarrow> bool" where
  "tier_settled rings tier h cursor \<longleftrightarrow> (tier < length (rings ! sh_schema_index h) \<longrightarrow>
     settled (rings ! sh_schema_index h ! tier) (sh_schema_index h) tier (sh_column h) cursor)"

lemma drain_schemas_settles:
  assumes "tier_drainable rings tier hs" and "\<forall>i j c. export_get cursor i j c \<noteq> Some (- 1)"
  shows "\<exists>xs cursor'. drain_schemas rings tier hs is cursor = (Inr xs, cursor') \<and>
    (\<forall>h \<in> set hs. sh_schema_index h \<in> set is \<or> tier_settled rings tier h cursor \<longrightarrow>
       tier_settled rings tier h cursor')"
  using assms(2)
proof (induction "is" arbitrary: cursor)
  case (Cons i js)
  let ?hs = "filter (\<lambda>h. sh_schema_index h = i) hs"
  show ?case
  proof (cases "?hs = [] \<or> length (rings ! i) \<le> tier")
    case True
    have "drain_schemas rings tier hs (i # js) cursor = drain_schemas rings tier hs js cursor"
    proof (cases "?hs = []")
      case False
      then obtain h where "h \<in> set hs" "sh_schema_index h = i" by (auto simp: filter_empty_conv)
      then have "i < length rings" using assms(1) by (auto simp: tier_drainable_def)
      then show ?thesis using True False by (simp add: Let_def)
    qed (simp add: Let_def)
    moreover have "tier_settled rings tier h cursor" if "h \<in> set hs" "sh_schema_index h = i" for h
      using True that by (auto simp: filter_empty_conv tier_settled_def)
    ultimately show ?thesis using Cons.IH [OF Cons.prems] by auto
  next
    case False
    then obtain h0 where "h0 \<in> set hs" "sh_schema_index h0 = i" by (auto simp: filter_empty_conv)
    then have i: "i < length rings" "tier < length (rings ! i)"
      using assms(1) False by (auto simp: tier_drainable_def)
    let ?r = "rings ! i ! tier"
    have "\<forall>h \<in> set ?hs. sh_schema_index h = i \<longrightarrow> drainable ?r (sh_column h)"
      using assms(1) i(2) by (auto simp: tier_drainable_def)
    then obtain ys cursor1 where d: "drain_handles ?r i tier ?hs cursor = (Inr ys, cursor1)"
        "\<forall>h \<in> set ?hs. sh_schema_index h = i \<longrightarrow> settled ?r i tier (sh_column h) cursor1"
        "\<forall>i j c. export_get cursor1 i j c \<noteq> Some (- 1)"
        "\<forall>r' i' j' c'. settled r' i' j' c' cursor \<longrightarrow> r' = ?r \<or> i' \<noteq> i \<longrightarrow> settled r' i' j' c' cursor1"
      using drain_handles_settles [of ?hs i ?r cursor tier] Cons.prems by blast
    obtain xs cursor' where IH: "drain_schemas rings tier hs js cursor1 = (Inr xs, cursor')"
        "\<forall>h \<in> set hs. sh_schema_index h \<in> set js \<or> tier_settled rings tier h cursor1 \<longrightarrow> tier_settled rings tier h cursor'"
      using Cons.IH [OF d(3)] by blast
    have "drain_schemas rings tier hs (i # js) cursor = (Inr (ys @ xs), cursor')"
      using False i d(1) IH(1) by (simp add: Let_def drain_tier_def)
    moreover have "tier_settled rings tier h cursor1"
      if "h \<in> set hs" "sh_schema_index h = i \<or> tier_settled rings tier h cursor" for h
      using that d(2,4) by (cases "sh_schema_index h = i") (auto simp: tier_settled_def)
    ultimately show ?thesis using IH(2) by auto
  qed
qed simp

lemma drain_schemas_settled:
  assumes "\<forall>h \<in> set hs. sh_schema_index h < length rings \<and> tier_settled rings tier h cursor"
  shows "drain_schemas rings tier hs is cursor = (Inr [], cursor)"
proof (induction "is")
  case (Cons i js)
  let ?hs = "filter (\<lambda>h. sh_schema_index h = i) hs"
  show ?case
  proof (cases "?hs = []")
    case False
    then obtain h where "h \<in> set hs" "sh_schema_index h = i" by (auto simp: filter_empty_conv)
    then have i: "i < length rings" using assms by auto
    show ?thesis
    proof (cases "tier < length (rings ! i)")
      case True
      then have "drain_handles (rings ! i ! tier) i tier ?hs cursor = (Inr [], cursor)"
        using assms by (intro drain_handles_settled) (auto simp: tier_settled_def)
      then show ?thesis using Cons False i True by (simp add: Let_def drain_tier_def)
    qed (use Cons i False in \<open>simp add: Let_def\<close>)
  qed (use Cons in \<open>simp add: Let_def\<close>)
qed simp

lemma store_drain_settles:
  assumes "store_inv st" and "iteration_order (pf_keys pf)" and "tier_drainable (st_rings st) tier (store_handles pf st)"
    and "\<forall>i j c. export_get cursor i j c \<noteq> Some (- 1)"
  shows "\<exists>xs cursor'. store_drain pf st tier cursor = (Inr xs, cursor') \<and>
    store_drain pf st tier cursor' = (Inr [], cursor')"
proof -
  obtain xs cursor' where d: "store_drain pf st tier cursor = (Inr xs, cursor')"
      "\<forall>h \<in> set (store_handles pf st). sh_schema_index h \<in> set [0..<length (st_schemas st)] \<longrightarrow>
         tier_settled (st_rings st) tier h cursor'"
    using drain_schemas_settles [OF assms(3,4)] unfolding store_drain_def by blast
  have "sh_schema_index h < length (st_schemas st)" if "h \<in> set (store_handles pf st)" for h
    using registered_bounds [OF assms(1) registered_handles [OF assms(1,2) that]] by simp
  then have "store_drain pf st tier cursor' = (Inr [], cursor')"
    unfolding store_drain_def using d(2) assms(3)
    by (intro drain_schemas_settled) (auto simp: tier_drainable_def)
  then show ?thesis using d(1) by blast
qed

text \<open>
  C19. A push that fails loses the points it was to send: the cursor in memory has already moved
  past them, so that the next round, over the same store and with an endpoint that accepts
  everything, finds nothing to export and sends no request.
\<close>

theorem failed_push_loses_points:
  assumes "store_inv st" and "iteration_order (pf_keys pf)" and "tier_drainable (st_rings st) 0 (store_handles pf st)"
    and "\<forall>i j c. export_get cursor i j c \<noteq> Some (- 1)"
    and "store_drain pf st 0 cursor = (Inr exports, cursor')" and "exports \<noteq> []"
    and "push pf net config exports st external_labels = (err e, es)"
  shows "export_tick pf js net config external_labels True st cursor d = (Inr (), es, cursor', d) \<and>
    export_tick pf js net' config external_labels True st cursor' d = (Inr (), [], cursor', d)"
  using store_drain_settles [OF assms(1-4)] assms(5-7) by (auto simp: export_tick_def logged_def)

section \<open>Restarting\<close>

text \<open>
  The thread: it loads the cursor, or logs why it cannot and ends; then the rounds, each with
  the lock, the store and the endpoint as they are by then.
\<close>

fun export_rounds ::
    "platform \<Rightarrow> export_cursor json \<Rightarrow> remote_write_config \<Rightarrow> labels \<Rightarrow> (bool \<times> store \<times> net) list \<Rightarrow>
       export_cursor \<Rightarrow> disk \<Rightarrow> unit res \<times> push_event list list \<times> disk" where
  "export_rounds pf js config external_labels [] cursor d = (Inr (), [], d)"
| "export_rounds pf js config external_labels ((lock, st, net) # rounds) cursor d =
     (case export_tick pf js net config external_labels lock st cursor d of
        (Inl e, es, cursor, d) \<Rightarrow> (Inl e, [es], d)
      | (Inr _, es, cursor, d) \<Rightarrow>
          (case export_rounds pf js config external_labels rounds cursor d of (r, ess, d) \<Rightarrow> (r, es # ess, d)))"

definition export_loop ::
    "platform \<Rightarrow> export_cursor json \<Rightarrow> string \<Rightarrow> string \<Rightarrow> labels \<Rightarrow> (bool \<times> store \<times> net) list \<Rightarrow> disk \<Rightarrow>
       unit res \<times> push_event list list \<times> disk" where
  "export_loop pf js endpoint cursor_path external_labels rounds d =
     (let config = config_new endpoint in
      case export_load_or_new (pf_os pf) js d cursor_path of
        Inl e \<Rightarrow> (logged e, [], d)
      | Inr cursor \<Rightarrow> export_rounds pf js config external_labels rounds cursor d)"

lemma drain_series_path:
  assumes "drain_series r i j c cursor = Inr (ps, cursor')"
  shows "ec_path cursor' = ec_path cursor"
proof -
  obtain oldest newest where o: "ring_oldest_timestamp r = Inr oldest" "ring_newest_timestamp r = Inr newest"
    using assms by (auto simp: drain_series_def rbind_eq_Inr)
  show ?thesis
    using assms unfolding drain_series_def Let_def o rbind_Inr
    by (cases oldest; cases newest; cases "export_get cursor i j c")
      (auto simp: rbind_eq_Inr export_update_def split: if_splits)
qed

lemma drain_handles_path: "drain_handles r i j hs cursor = (x, cursor') \<Longrightarrow> ec_path cursor' = ec_path cursor"
  by (induction hs arbitrary: x cursor cursor')
    (fastforce split: if_splits sum.splits prod.splits dest: drain_series_path)+

lemma drain_schemas_path: "drain_schemas rings tier hs is cursor = (x, cursor') \<Longrightarrow> ec_path cursor' = ec_path cursor"
  by (induction "is" arbitrary: x cursor cursor')
    (fastforce simp: Let_def drain_tier_def split: if_splits sum.splits prod.splits dest: drain_handles_path)+

lemma store_drain_path: "store_drain pf st tier cursor = (x, cursor') \<Longrightarrow> ec_path cursor' = ec_path cursor"
  unfolding store_drain_def by (rule drain_schemas_path)

text \<open>The JSON library reads back what it wrote; the path is not part of the text.\<close>

definition reads_back :: "export_cursor json \<Rightarrow> export_cursor \<Rightarrow> bool" where
  "reads_back js cursor \<longleftrightarrow>
     (\<exists>s y. to_json js cursor = Inr s \<and> of_json js s = Inr y \<and> ec_cursors y = ec_cursors cursor)"

lemma saved_cursor_loads:
  assumes "os_calm os" and "reads_back js cursor" and "ec_path cursor \<noteq> []"
  shows "\<exists>d'. export_save os js cursor d = Inr d' \<and> export_load_or_new os js d' (ec_path cursor) = Inr cursor"
proof -
  obtain s y where s: "to_json js cursor = Inr s" "of_json js s = Inr y" "ec_cursors y = ec_cursors cursor"
    using assms(2) unfolding reads_back_def by blast
  then have "y\<lparr>ec_path := ec_path cursor\<rparr> = cursor" by (cases y; cases cursor) simp
  then show ?thesis
    using s assms(1,3) by (simp add: export_save_def export_load_or_new_def write_text_def read_text_def path_exists_def os_calm_def)
qed

lemma loaded_path: "export_load_or_new os js d path = Inr cursor \<Longrightarrow> ec_path cursor = path"
  by (auto simp: export_load_or_new_def rbind_eq_Inr split: if_splits)

text \<open>
  C28. A restart after a successful round neither repeats nor skips anything. When a round of the export
  thread has drained something, pushed it and saved its cursor, on a system where the calls
  succeed and with a JSON library that reads the cursor back, a new thread on the same path does
  in all later rounds, whatever is recorded in the meantime and whatever the lock and the endpoints
  do, exactly what the old one would have done. In particular, over the same well-formed store, with fair
  iteration orders, series that are drained in chronological order and no cursor at the last
  timestamp, it sends no request and leaves the files alone.
\<close>

theorem export_resumes:
  assumes "os_calm (pf_os pf)" and "reads_back js cursor'" and "path \<noteq> []"
    and "export_load_or_new (pf_os pf) js d path = Inr cursor"
    and "store_drain pf st 0 cursor = (Inr exports, cursor')" and "exports \<noteq> []"
    and "push pf net (config_new endpoint) exports st external_labels = (Inr n, es)"
  shows "\<exists>d'. export_loop pf js endpoint path external_labels [(True, st, net)] d = (Inr (), [es], d') \<and>
    (\<forall>rounds. export_loop pf js endpoint path external_labels ((True, st, net) # rounds) d =
       (case export_loop pf js endpoint path external_labels rounds d' of (r, ess, d2) \<Rightarrow> (r, es # ess, d2))) \<and>
    (store_inv st \<and> iteration_order (pf_keys pf) \<and> tier_drainable (st_rings st) 0 (store_handles pf st) \<and>
       (\<forall>i j c. export_get cursor i j c \<noteq> Some (- 1)) \<longrightarrow>
     (\<forall>net'. export_loop pf js endpoint path external_labels [(True, st, net')] d' = (Inr (), [[]], d')))"
proof -
  have path: "ec_path cursor' = path"
    using store_drain_path [OF assms(5)] loaded_path [OF assms(4)] by simp
  obtain d' where d': "export_save (pf_os pf) js cursor' d = Inr d'" "export_load_or_new (pf_os pf) js d' path = Inr cursor'"
    using saved_cursor_loads [OF assms(1,2), of d] path assms(3) by auto
  have "store_drain pf st 0 cursor' = (Inr [], cursor')"
    if "store_inv st" "iteration_order (pf_keys pf)" "tier_drainable (st_rings st) 0 (store_handles pf st)"
      "\<forall>i j c. export_get cursor i j c \<noteq> Some (- 1)"
    using store_drain_settles [OF that] assms(5) by auto
  then show ?thesis
    using assms(4-7) d' by (intro exI [of _ d']) (simp add: export_loop_def export_tick_def)
qed

end
