(* ===== verification/Cli.thy ===== *)
theory Cli
  imports Store_Safety Text
begin

text \<open>
  \<open>rondo-cli/src/main.rs\<close>: durations, series selectors and the query command; and the
  external labels of \<open>rondo-demo-vmm/src/main.rs\<close>. Arguments are parsed by the \<open>clap\<close> crate
  and results printed by the standard library: the model starts after the one and ends before
  the other. Numbers wrap as in a release build.
\<close>

section \<open>Errors\<close>

text \<open>What ends up in a \<open>Box<dyn Error>\<close>.\<close>

datatype cli_error = Message string | ParseInt string | ClockError | CliIo io_error | CliJson json_error
  | Library rondo_error

definition library :: "rondo_error fault + 'a \<Rightarrow> cli_error fault + 'a" where
  "library r = map_err (\<lambda>f. case f of Error e \<Rightarrow> Error (Library e) | Panic \<Rightarrow> Panic | UB \<Rightarrow> UB) r"

abbreviation cli_err :: "cli_error \<Rightarrow> cli_error fault + 'a" where
  "cli_err e \<equiv> Inl (Error e)"

definition quoted :: "string \<Rightarrow> string" where
  "quoted s = [CHR 0x27] @ s @ [CHR 0x27]"

section \<open>Durations\<close>

text \<open>\<open>split_at\<close> panics inside a character; the last byte of a string starts one only if it is ASCII.\<close>

definition ascii :: "char \<Rightarrow> bool" where
  "ascii c \<longleftrightarrow> (of_char c :: nat) < 128"

definition parse_duration :: "string \<Rightarrow> cli_error fault + u64" where
  "parse_duration s0 =
     (let s = trim s0 in
      if s = [] then cli_err (Message ''Empty duration string'')
      else if s = ''all'' then Inr (- 1)
      else if \<not> ascii (last s) then Inl Panic
      else let num_str = butlast s; unit = [last s] in
        (case parse_uint (2 ^ 64) num_str of
           None \<Rightarrow> cli_err (ParseInt num_str)
         | Some n \<Rightarrow>
           let num = word_of_nat n in
           rbind (if unit = ''s'' then Inr num
                  else if unit = ''m'' then Inr (num * 60)
                  else if unit = ''h'' then Inr (num * 3600)
                  else if unit = ''d'' then Inr (num * 86400)
                  else cli_err (Message (''Unknown duration unit: '' @ quoted unit @ ''. Use s, m, h, or d.'')))
             (\<lambda>secs. Inr (secs * 1000000000))))"

definition format_duration_secs :: "u64 \<Rightarrow> string" where
  "format_duration_secs secs =
     (if 86400 \<le> secs \<and> secs mod 86400 = 0 then fmt_nat (unat (secs div 86400)) @ ''d''
      else if 3600 \<le> secs \<and> secs mod 3600 = 0 then fmt_nat (unat (secs div 3600)) @ ''h''
      else if 60 \<le> secs \<and> secs mod 60 = 0 then fmt_nat (unat (secs div 60)) @ ''m''
      else fmt_nat (unat secs) @ ''s'')"

section \<open>Selectors\<close>

definition selector_pair :: "string \<Rightarrow> (string \<times> string) option" where
  "selector_pair pair =
     (case split_once (CHR ''='') pair of
        None \<Rightarrow> None
      | Some (k, v) \<Rightarrow> if trim k = [] then None else Some (trim k, trim v))"

definition parse_series_selector :: "string \<Rightarrow> string \<times> (string \<times> string) list" where
  "parse_series_selector selector =
     (case split_once (CHR ''{'') selector of
        None \<Rightarrow> (selector, [])
      | Some (name, rest) \<Rightarrow>
          (name, List.map_filter selector_pair (split_on (CHR '','') (trim_end_matches (CHR ''}'') rest))))"

definition cli_matches_labels :: "labels \<Rightarrow> (string \<times> string) list \<Rightarrow> bool" where
  "cli_matches_labels series_labels fltr =
     (if fltr = [] then True
      else list_all (\<lambda>(fk, fv). list_ex (\<lambda>(sk, sv). sk = fk \<and> sv = fv) series_labels) fltr)"

definition parse_external_labels :: "string \<Rightarrow> labels" where
  "parse_external_labels s =
     List.map_filter (split_once (CHR ''='')) (filter (\<lambda>part. part \<noteq> []) (split_on (CHR '','') s))"

section \<open>The query command\<close>

text \<open>
  The JSON values of the \<open>serde_json\<close> crate: reading a document, the accessors of a value,
  and a schema from a value.
\<close>

record 'v cli_json =
  cj_parse :: "string \<Rightarrow> json_error + 'v"
  cj_get :: "'v \<Rightarrow> string \<Rightarrow> 'v option"
  cj_array :: "'v \<Rightarrow> 'v list option"
  cj_str :: "'v \<Rightarrow> string option"
  cj_u64 :: "'v \<Rightarrow> u64 option"
  cj_f64 :: "'v \<Rightarrow> f64 option"
  cj_null :: "'v \<Rightarrow> bool"
  cj_config :: "'v \<Rightarrow> schema_config option"

definition reconstruct_schemas :: "'v cli_json \<Rightarrow> 'v \<Rightarrow> schema_config list" where
  "reconstruct_schemas js meta =
     (case Option.bind (cj_get js meta ''schemas'') (cj_array js) of
        None \<Rightarrow> [] | Some schemas \<Rightarrow> List.map_filter (cj_config js) schemas)"

definition find_selected :: "platform \<Rightarrow> store \<Rightarrow> string \<Rightarrow> series_handle option" where
  "find_selected pf st series_name =
     (case parse_series_selector series_name of (metric_name, label_filter) \<Rightarrow>
        List.find (\<lambda>h. case store_series_info pf st h of
            Some (name, labels) \<Rightarrow> name = metric_name \<and> cli_matches_labels labels label_filter | None \<Rightarrow> False)
          (store_handles pf st))"

definition saturating_sub :: "u64 \<Rightarrow> u64 \<Rightarrow> u64" where
  "saturating_sub a b = (if b \<le> a then a - b else 0)"

text \<open>The wall clock in nanoseconds since the epoch, \<open>None\<close> before it.\<close>

definition query_window :: "nat option \<Rightarrow> u64 \<Rightarrow> cli_error fault + u64 \<times> u64" where
  "query_window now range_ns =
     (if range_ns = - 1 then Inr (0, - 1)
      else case now of
        None \<Rightarrow> cli_err ClockError
      | Some ns \<Rightarrow> let now_ns = word_of_nat ns in Inr (saturating_sub now_ns range_ns, now_ns))"

text \<open>The tier used and the points that the command then prints; the store stays as it is.\<close>

definition cmd_query :: "platform \<Rightarrow> 'v cli_json \<Rightarrow> string \<Rightarrow> string \<Rightarrow> string \<Rightarrow> string \<Rightarrow> nat option \<Rightarrow> disk \<Rightarrow>
    (cli_error fault + usize \<times> (u64 \<times> f64) list) \<times> disk" where
  "cmd_query pf js store_path series_name range_str tier_str now d =
     (let meta_path = path_join store_path ''meta.json'' in
      if \<not> path_exists d meta_path then (cli_err (Message (''No store found at '' @ quoted store_path)), d)
      else case read_text (pf_os pf) d meta_path of
        Inl e \<Rightarrow> (cli_err (CliIo e), d)
      | Inr meta_data \<Rightarrow>
      case cj_parse js meta_data of
        Inl e \<Rightarrow> (cli_err (CliJson e), d)
      | Inr meta \<Rightarrow>
      case store_open pf store_path (reconstruct_schemas js meta) d of
        (Inl e, d) \<Rightarrow> (library (Inl e), d)
      | (Inr st, d) \<Rightarrow>
      (case find_selected pf st series_name of
         None \<Rightarrow> cli_err (Message (''Series '' @ quoted series_name @ '' not found''))
       | Some handle \<Rightarrow>
         rbind (parse_duration range_str) (\<lambda>range_ns.
         rbind (query_window now range_ns) (\<lambda>(start_ns, end_ns).
         rbind (if tier_str = ''auto'' then library (store_query_auto st handle start_ns end_ns)
                else case parse_uint (2 ^ 64) tier_str of
                  None \<Rightarrow> cli_err (ParseInt tier_str)
                | Some tier \<Rightarrow> library (store_query st handle tier start_ns end_ns)) (\<lambda>result.
         rbind (library (collect_all result)) (\<lambda>points.
         Inr (tier_used result, points))))),
       d))"

section \<open>Durations, round trip\<close>

lemma graphic_ascii: "graphic c \<Longrightarrow> ascii c"
  by (simp add: graphic_def ascii_def)

lemma unit_graphic: "graphic (CHR ''s'')" "graphic (CHR ''m'')" "graphic (CHR ''h'')" "graphic (CHR ''d'')"
  by (simp_all add: graphic_def)

lemma parse_number_unit:
  assumes "n < 2 ^ 64" and "c \<in> {CHR ''s'', CHR ''m'', CHR ''h'', CHR ''d''}"
  shows "parse_duration (fmt_nat n @ [c]) =
    Inr (word_of_nat n * (if c = CHR ''s'' then 1 else if c = CHR ''m'' then 60 else if c = CHR ''h'' then 3600 else 86400)
      * 1000000000)"
proof -
  obtain x xs where x: "fmt_nat n = x # xs" using fmt_nat_nonempty by (cases "fmt_nat n") auto
  then have "is_digit x" using fmt_nat_digits [of n] by simp
  moreover have c: "graphic c" using assms(2) unit_graphic by auto
  ultimately have t: "trim (fmt_nat n @ [c]) = fmt_nat n @ [c]"
    by (intro trim_graphic) (simp add: x digit_graphic)
  have "fmt_nat n @ [c] \<noteq> ''all''"
    using assms(2) by (auto simp: append_eq_Cons_conv)
  then show ?thesis
    using t assms parse_fmt [OF assms(1)] graphic_ascii [OF c] by (auto simp: parse_duration_def Let_def)
qed

text \<open>
  A formatted duration reads back: for every number of seconds, \<open>parse_duration\<close> of what
  \<open>format_duration_secs\<close> prints is that number of seconds in nanoseconds, modulo 2 ^ 64.
\<close>

theorem duration_roundtrip: "parse_duration (format_duration_secs secs) = Inr (secs * 1000000000)"
proof -
  have exact: "word_of_nat (unat (secs div k)) * k = secs" if "secs mod k = 0" for k
    using that div_mult_mod_eq [of secs k] by simp
  have small: "unat w < 2 ^ 64" for w :: u64 by (rule u64_bound)
  show ?thesis
    unfolding format_duration_secs_def
    using parse_number_unit [OF small] exact [of 86400] exact [of 3600] exact [of 60]
    by (auto simp: mult.assoc [symmetric])
qed

text \<open>A number of days beyond 584 years wraps around: here the query covers 25 minutes instead.\<close>

lemma duration_wraps: "parse_duration (fmt_nat 213504 @ ''d'') = Inr 1526290448384"
  using parse_number_unit [of 213504 "CHR ''d''"] by simp

text \<open>A range whose last character is not ASCII, such as a Greek mu, ends the command with a panic.\<close>

lemma duration_panics: "parse_duration (''10'' @ [byte 0xCE, byte 0xBC]) = Inl Panic"
proof -
  let ?s = "''10'' @ [byte 0xCE, byte 0xBC]"
  have "strip whitespace ?s = ?s"
    by (rule strip_graphic) (auto simp: graphic_def dest: whitespace_not_graphic)
  moreover have "leading (map rev whitespace) (rev ?s) = None"
    by (simp add: leading_def whitespace_def byte_eq)
  then have "strip (map rev whitespace) (rev ?s) = rev ?s"
    by (simp add: strip.simps)
  ultimately have "trim ?s = ?s"
    by (simp add: trim_def trim_start_def trim_end_def)
  moreover have "\<not> ascii (last ?s)" "?s \<noteq> ''all''"
    by (simp_all add: ascii_def byte_def)
  ultimately show ?thesis by (simp add: parse_duration_def)
qed

section \<open>Selectors, round trip\<close>

text \<open>A selector for a name and labels.\<close>

definition render_selector :: "string \<Rightarrow> (string \<times> string) list \<Rightarrow> string" where
  "render_selector name pairs =
     name @ (if pairs = [] then [] else ''{'' @ join '','' (map (\<lambda>(k, v). k @ ''='' @ v) pairs) @ ''}'')"

text \<open>Printable text without the characters that structure a selector.\<close>

definition plain :: "string \<Rightarrow> bool" where
  "plain s \<longleftrightarrow> s \<noteq> [] \<and> list_all (\<lambda>c. graphic c \<and> c \<notin> set ''{},='') s"

lemma plain_trim: "plain s \<Longrightarrow> trim s = s"
proof -
  assume "plain s"
  then have "s \<noteq> []" and "\<forall>c \<in> set s. graphic c" by (auto simp: plain_def list_all_iff)
  then show ?thesis by (intro trim_graphic) simp
qed

lemma plain_free: "plain s \<Longrightarrow> c \<in> set ''{},='' \<Longrightarrow> c \<notin> set s"
  by (auto simp: plain_def list_all_iff)

lemma selector_pair_plain: "plain k \<Longrightarrow> plain v \<Longrightarrow> selector_pair (k @ CHR ''='' # v) = Some (k, v)"
  using split_once_append [of "CHR ''=''" k v] plain_free [of k "CHR ''=''"]
  by (simp add: selector_pair_def plain_trim) (auto simp: plain_def)

lemma split_join:
  assumes "ps \<noteq> []" and "\<forall>p \<in> set ps. c \<notin> set p"
  shows "split_on c (join [c] ps) = ps"
  using assms
proof (induction "[c]" ps rule: join.induct)
  case (3 p q ps)
  then show ?case by (simp add: split_on_append)
qed (simp_all add: split_on_simple)

lemma join_last:
  assumes "ps \<noteq> []" and "\<forall>p \<in> set ps. p \<noteq> []"
  shows "join sep ps \<noteq> [] \<and> last (join sep ps) = last (last ps)"
  using assms by (induction sep ps rule: join.induct) auto

lemma selector_parses:
  assumes "plain name" and "list_all (\<lambda>(k, v). plain k \<and> plain v) pairs"
  shows "parse_series_selector (render_selector name pairs) = (name, pairs)"
proof (cases "pairs = []")
  case True
  then show ?thesis
    using plain_free [OF assms(1), of "CHR ''{''"] split_once_none [THEN iffD2, of "CHR ''{''" name]
    by (simp add: parse_series_selector_def render_selector_def)
next
  case False
  let ?ps = "map (\<lambda>(k, v). k @ ''='' @ v) pairs"
  have ne: "?ps \<noteq> []" using False by simp
  have free: "\<forall>p \<in> set ?ps. c \<notin> set p" if "c \<in> set ''{},''" for c
    using assms(2) that plain_free by (fastforce simp: list_all_iff)
  have last_char: "join '','' ?ps \<noteq> [] \<and> last (join '','' ?ps) \<noteq> CHR ''}''"
  proof -
    obtain k v where kv: "last pairs = (k, v)" by force
    then have "(k, v) \<in> set pairs" using last_in_set [OF False] by simp
    then have v: "plain v" using assms(2) by (auto simp: list_all_iff)
    then have ne_v: "v \<noteq> []" by (simp add: plain_def)
    have "CHR ''}'' \<notin> set v" using plain_free [OF v, of "CHR ''}''"] by simp
    then have "last v \<noteq> CHR ''}''" by (rule contrapos_nn) (erule subst, rule last_in_set [OF ne_v])
    moreover note ne_v
    moreover have "last ?ps = k @ ''='' @ v" using False kv by (simp add: last_map)
    moreover have "\<forall>p \<in> set ?ps. p \<noteq> []" by auto
    ultimately show ?thesis
      using join_last [OF ne, of "'',''"] by simp
  qed
  have "split_once (CHR ''{'') (render_selector name pairs) = Some (name, join '','' ?ps @ ''}'')"
    using False plain_free [OF assms(1), of "CHR ''{''"] split_once_append [of "CHR ''{''" name]
    by (simp add: render_selector_def)
  moreover have "trim_end_matches (CHR ''}'') (join '','' ?ps @ ''}'') = join '','' ?ps"
    using last_char by (cases "join '','' ?ps" rule: rev_cases) (simp_all add: trim_end_matches_def)
  moreover have "split_on (CHR '','') (join '','' ?ps) = ?ps"
    by (rule split_join [OF ne free]) simp
  moreover have "List.map_filter selector_pair ?ps = pairs"
    using assms(2) by (induction pairs) (auto simp: map_filter_simps selector_pair_plain split: prod.splits)
  ultimately show ?thesis
    by (simp add: parse_series_selector_def)
qed

text \<open>
  A selector written for a name and some labels selects what was meant: with printable
  text that has none of the four structuring characters, parsing it gives the name and the
  labels in order.
\<close>

theorem selector_roundtrip:
  assumes "plain name" and "list_all (\<lambda>(k, v). plain k \<and> plain v) pairs"
  shows "parse_series_selector (render_selector name pairs) = (name, pairs)"
  by (rule selector_parses [OF assms])

theorem selector_roundtrip_witness:
  "parse_series_selector ''cpu{host=a,core=0}'' = (''cpu'', [(''host'', ''a''), (''core'', ''0'')])"
  using selector_roundtrip [of "''cpu''" "[(''host'', ''a''), (''core'', ''0'')]"]
  by (simp add: plain_def graphic_def render_selector_def)

end
