(* ===== verification/Guest_Memory.thy ===== *)
theory Guest_Memory
  imports Errors Bytes
begin

text \<open>
  The memory of the guest. \<open>GuestMemoryMmap\<close> belongs to the \<open>vm-memory\<close> crate: the operations
  the VMM calls are parameters of the model, and \<open>guest_region\<close> states what the documentation
  of the crate promises of them for the memory that \<open>Vmm::new\<close> creates, one region from
  address 0.
\<close>

section \<open>Operations\<close>

text \<open>
  \<open>read_obj\<close> and \<open>write_obj\<close> move a whole object or fail; \<open>read\<close> and \<open>write\<close> move as much of
  the buffer as the memory holds and fail only if that is nothing.
\<close>

record 'm guest_ops =
  gm_read_obj :: "'m \<Rightarrow> u64 \<Rightarrow> nat \<Rightarrow> string + u8 list"
  gm_write_obj :: "'m \<Rightarrow> u64 \<Rightarrow> u8 list \<Rightarrow> (string + unit) \<times> 'm"
  gm_read :: "'m \<Rightarrow> u64 \<Rightarrow> u8 list \<Rightarrow> string + u8 list"
  gm_write :: "'m \<Rightarrow> u64 \<Rightarrow> u8 list \<Rightarrow> (string + unit) \<times> 'm"

lemma u16_bound: "unat (w :: u16) < 2 ^ 16"
  using unsigned_less [of w, where ?'a = nat] by simp

lemma unat_u16_to_u64: "unat (ucast (w :: u16) :: u64) = unat w"
  using u16_bound [of w] by (simp add: unsigned_ucast_eq take_bit_nat_eq_self)

definition enc16 :: "u16 \<Rightarrow> u8 list" where
  "enc16 w = le_bytes 2 (unat w)"

definition dec16 :: "u8 list \<Rightarrow> u16" where
  "dec16 bs = word_of_nat (le_val bs)"

interpretation c16: fixed_codec enc16 dec16 2
proof
  fix x :: u16 and bs :: "u8 list"
  show "length (enc16 x) = 2" by (simp add: enc16_def)
  have "unat x < 2 ^ 16" using unsigned_less [of x, where ?'a = nat] by simp
  then show "dec16 (enc16 x) = x"
    by (simp add: dec16_def enc16_def le_val_le_bytes)
  assume "length bs = 2"
  then show "enc16 (dec16 bs) = bs"
    using le_val_bound [of bs]
    by (simp add: dec16_def enc16_def unat_of_nat le_bytes_le_val)
qed

section \<open>One region from address 0\<close>

locale guest_region =
  fixes gm :: "'m guest_ops" and img :: "'m \<Rightarrow> u8 list"
  assumes read_obj_in: "unat a + n \<le> length (img m) \<Longrightarrow> gm_read_obj gm m a n = Inr (peek (img m) (unat a) n)"
    and read_obj_out: "length (img m) < unat a + n \<Longrightarrow> \<exists>e. gm_read_obj gm m a n = Inl e"
    and write_obj_in: "unat a + length bs \<le> length (img m) \<Longrightarrow>
      \<exists>m'. gm_write_obj gm m a bs = (Inr (), m') \<and> img m' = poke (img m) (unat a) bs"
    and read_in: "unat a + length buf \<le> length (img m) \<Longrightarrow>
      gm_read gm m a buf = Inr (peek (img m) (unat a) (length buf))"
    and read_part: "unat a < length (img m) \<Longrightarrow> length (img m) < unat a + length buf \<Longrightarrow>
      gm_read gm m a buf = Inr (drop (unat a) (img m) @ drop (length (img m) - unat a) buf)"
    and write_in: "unat a + length bs \<le> length (img m) \<Longrightarrow>
      \<exists>m'. gm_write gm m a bs = (Inr (), m') \<and> img m' = poke (img m) (unat a) bs"
    and write_part: "unat a < length (img m) \<Longrightarrow> length (img m) < unat a + length bs \<Longrightarrow>
      \<exists>m'. gm_write gm m a bs = (Inr (), m') \<and> img m' = take (unat a) (img m) @ take (length (img m) - unat a) bs"
begin

text \<open>The memory after a write that stays inside it.\<close>

definition stored :: "'m \<Rightarrow> u64 \<Rightarrow> u8 list \<Rightarrow> 'm" where
  "stored m a bs = snd (gm_write_obj gm m a bs)"

lemma write_obj_stored:
  assumes "unat a + length bs \<le> length (img m)"
  shows "gm_write_obj gm m a bs = (Inr (), stored m a bs)" and "img (stored m a bs) = poke (img m) (unat a) bs"
  using write_obj_in [OF assms] by (auto simp: stored_def)

lemma length_stored: "unat a + length bs \<le> length (img m) \<Longrightarrow> length (img (stored m a bs)) = length (img m)"
  by (simp add: write_obj_stored(2) length_poke)

lemma read_back:
  "unat a + length bs \<le> length (img m) \<Longrightarrow> n = length bs \<Longrightarrow> gm_read_obj gm (stored m a bs) a n = Inr bs"
  by (simp add: read_obj_in write_obj_stored(2) length_poke peek_poke_same)

lemma read_other:
  assumes "unat a + length bs \<le> length (img m)" and "unat b + n \<le> length (img m)"
    and "unat b + n \<le> unat a \<or> unat a + length bs \<le> unat b"
  shows "gm_read_obj gm (stored m a bs) b n = gm_read_obj gm m b n"
  using assms by (simp add: read_obj_in write_obj_stored(2) length_poke peek_poke_disjoint)

end

text \<open>A list of bytes with these operations is such a memory.\<close>

definition flat_ops :: "u8 list guest_ops" where
  "flat_ops = \<lparr>
     gm_read_obj = (\<lambda>m a n. if unat a + n \<le> length m then Inr (peek m (unat a) n) else Inl ''invalid address''),
     gm_write_obj = (\<lambda>m a bs. if unat a + length bs \<le> length m then (Inr (), poke m (unat a) bs)
        else (Inl ''invalid address'', m)),
     gm_read = (\<lambda>m a buf. if unat a + length buf \<le> length m then Inr (peek m (unat a) (length buf))
        else if unat a < length m then Inr (drop (unat a) m @ drop (length m - unat a) buf)
        else Inl ''invalid address''),
     gm_write = (\<lambda>m a bs. if unat a + length bs \<le> length m then (Inr (), poke m (unat a) bs)
        else if unat a < length m then (Inr (), take (unat a) m @ take (length m - unat a) bs)
        else (Inl ''invalid address'', m)) \<rparr>"

interpretation flat: guest_region flat_ops "\<lambda>m. m"
  by unfold_locales (simp_all add: flat_ops_def)

end
