(* ===== verification/Virtio_Block.thy ===== *)
theory Virtio_Block
  imports Guest_Memory Slab
begin

text \<open>
  \<open>rondo-demo-vmm/src/devices/block.rs\<close>: a virtio block device over the virtio-mmio transport.
  The guest drives it through registers and a queue of descriptor chains in its memory; the
  device answers from a backing file on the host, here a list of bytes. How long a request
  takes is a parameter, as are the faults of the file.
\<close>

unbundle bit_operations_syntax

section \<open>Constants\<close>

definition MMIO_BASE :: u64 where "MMIO_BASE = 0xd0000000"
definition MMIO_SIZE :: u64 where "MMIO_SIZE = 0x200"
definition IRQ :: u32 where "IRQ = 5"
definition MAGIC :: u32 where "MAGIC = 0x74726976"
definition MMIO_VERSION :: u32 where "MMIO_VERSION = 2"
definition DEVICE_ID_BLK :: u32 where "DEVICE_ID_BLK = 2"
definition VIRTIO_VENDOR_ID :: u32 where "VIRTIO_VENDOR_ID = 0x554D4551"
definition VIRTIO_BLK_F_FLUSH :: u64 where "VIRTIO_BLK_F_FLUSH = push_bit 9 1"
definition VIRTIO_F_VERSION_1 :: u64 where "VIRTIO_F_VERSION_1 = push_bit 32 1"
definition DEVICE_FEATURES :: u64 where "DEVICE_FEATURES = VIRTIO_BLK_F_FLUSH OR VIRTIO_F_VERSION_1"
definition VIRTIO_BLK_T_IN :: u32 where "VIRTIO_BLK_T_IN = 0"
definition VIRTIO_BLK_T_OUT :: u32 where "VIRTIO_BLK_T_OUT = 1"
definition VIRTIO_BLK_T_FLUSH :: u32 where "VIRTIO_BLK_T_FLUSH = 4"
definition VIRTIO_BLK_S_OK :: u8 where "VIRTIO_BLK_S_OK = 0"
definition VIRTIO_BLK_S_IOERR :: u8 where "VIRTIO_BLK_S_IOERR = 1"
definition VIRTIO_BLK_S_UNSUPP :: u8 where "VIRTIO_BLK_S_UNSUPP = 2"
definition VIRTQ_DESC_F_NEXT :: u16 where "VIRTQ_DESC_F_NEXT = 1"
definition VIRTQ_DESC_F_WRITE :: u16 where "VIRTQ_DESC_F_WRITE = 2"
definition QUEUE_MAX_SIZE :: u16 where "QUEUE_MAX_SIZE = 128"
definition SECTOR_SIZE :: u64 where "SECTOR_SIZE = 512"
definition DEFAULT_DISK_BYTES :: usize where "DEFAULT_DISK_BYTES = 64 * 1024 * 1024"

definition REG_MAGIC :: u64 where "REG_MAGIC = 0x000"
definition REG_VERSION :: u64 where "REG_VERSION = 0x004"
definition REG_DEVICE_ID :: u64 where "REG_DEVICE_ID = 0x008"
definition REG_VENDOR_ID :: u64 where "REG_VENDOR_ID = 0x00C"
definition REG_DEVICE_FEATURES :: u64 where "REG_DEVICE_FEATURES = 0x010"
definition REG_DEVICE_FEATURES_SEL :: u64 where "REG_DEVICE_FEATURES_SEL = 0x014"
definition REG_DRIVER_FEATURES :: u64 where "REG_DRIVER_FEATURES = 0x020"
definition REG_DRIVER_FEATURES_SEL :: u64 where "REG_DRIVER_FEATURES_SEL = 0x024"
definition REG_QUEUE_SEL :: u64 where "REG_QUEUE_SEL = 0x030"
definition REG_QUEUE_NUM_MAX :: u64 where "REG_QUEUE_NUM_MAX = 0x034"
definition REG_QUEUE_NUM :: u64 where "REG_QUEUE_NUM = 0x038"
definition REG_QUEUE_READY :: u64 where "REG_QUEUE_READY = 0x044"
definition REG_QUEUE_NOTIFY :: u64 where "REG_QUEUE_NOTIFY = 0x050"
definition REG_INTERRUPT_STATUS :: u64 where "REG_INTERRUPT_STATUS = 0x060"
definition REG_INTERRUPT_ACK :: u64 where "REG_INTERRUPT_ACK = 0x064"
definition REG_STATUS :: u64 where "REG_STATUS = 0x070"
definition REG_QUEUE_DESC_LOW :: u64 where "REG_QUEUE_DESC_LOW = 0x080"
definition REG_QUEUE_DESC_HIGH :: u64 where "REG_QUEUE_DESC_HIGH = 0x084"
definition REG_QUEUE_DRIVER_LOW :: u64 where "REG_QUEUE_DRIVER_LOW = 0x090"
definition REG_QUEUE_DRIVER_HIGH :: u64 where "REG_QUEUE_DRIVER_HIGH = 0x094"
definition REG_QUEUE_DEVICE_LOW :: u64 where "REG_QUEUE_DEVICE_LOW = 0x0A0"
definition REG_QUEUE_DEVICE_HIGH :: u64 where "REG_QUEUE_DEVICE_HIGH = 0x0A4"
definition REG_CONFIG_GEN :: u64 where "REG_CONFIG_GEN = 0x0FC"
definition REG_CONFIG_START :: u64 where "REG_CONFIG_START = 0x100"

lemmas reg_defs = REG_MAGIC_def REG_VERSION_def REG_DEVICE_ID_def REG_VENDOR_ID_def
  REG_DEVICE_FEATURES_def REG_DEVICE_FEATURES_SEL_def REG_DRIVER_FEATURES_def
  REG_DRIVER_FEATURES_SEL_def REG_QUEUE_SEL_def REG_QUEUE_NUM_MAX_def REG_QUEUE_NUM_def
  REG_QUEUE_READY_def REG_QUEUE_NOTIFY_def REG_INTERRUPT_STATUS_def REG_INTERRUPT_ACK_def
  REG_STATUS_def REG_QUEUE_DESC_LOW_def REG_QUEUE_DESC_HIGH_def REG_QUEUE_DRIVER_LOW_def
  REG_QUEUE_DRIVER_HIGH_def REG_QUEUE_DEVICE_LOW_def REG_QUEUE_DEVICE_HIGH_def
  REG_CONFIG_GEN_def REG_CONFIG_START_def

section \<open>Data\<close>

datatype io_op = IoRead | IoWrite | IoFlush

record completed_io =
  ci_op :: io_op
  ci_bytes :: u64
  ci_duration_ns :: u64

record write_result =
  wr_needs_interrupt :: bool
  wr_completed :: "completed_io list"

record virtq_desc =
  vd_addr :: u64
  vd_len :: u32
  vd_flags :: u16
  vd_next :: u16

record blk_req_hdr =
  rh_type :: u32
  rh_sector :: u64

record virt_queue =
  vq_num :: u16
  vq_ready :: bool
  vq_desc_table :: u64
  vq_avail_ring :: u64
  vq_used_ring :: u64
  vq_last_avail_idx :: u16

record virtio_block =
  vb_backing :: "u8 list"
  vb_capacity_sectors :: u64
  vb_status :: u32
  vb_device_features_sel :: u32
  vb_driver_features :: u64
  vb_driver_features_sel :: u32
  vb_interrupt_status :: u32
  vb_config_generation :: u32
  vb_queue :: virt_queue

text \<open>The 16 bytes of a descriptor and of a request header in guest memory.\<close>

definition desc_bytes :: "virtq_desc \<Rightarrow> u8 list" where
  "desc_bytes d = enc64 (vd_addr d) @ enc32 (vd_len d) @ enc16 (vd_flags d) @ enc16 (vd_next d)"

definition desc_of :: "u8 list \<Rightarrow> virtq_desc" where
  "desc_of bs = \<lparr> vd_addr = dec64 (peek bs 0 8), vd_len = dec32 (peek bs 8 4),
     vd_flags = dec16 (peek bs 12 2), vd_next = dec16 (peek bs 14 2) \<rparr>"

definition hdr_bytes :: "u32 \<Rightarrow> u64 \<Rightarrow> u8 list" where
  "hdr_bytes type sector = enc32 type @ enc32 0 @ enc64 sector"

definition hdr_of :: "u8 list \<Rightarrow> blk_req_hdr" where
  "hdr_of bs = \<lparr> rh_type = dec32 (peek bs 0 4), rh_sector = dec64 (peek bs 8 8) \<rparr>"

definition queue_new :: virt_queue where
  "queue_new = \<lparr> vq_num = 0, vq_ready = False, vq_desc_table = 0, vq_avail_ring = 0, vq_used_ring = 0,
     vq_last_avail_idx = 0 \<rparr>"

section \<open>The backing file\<close>

text \<open>
  The faults of the host's file: a seek may be refused, a read or a write may fail, the write
  after some of its bytes.
\<close>

record file_io =
  fi_seek :: "u64 \<Rightarrow> io_error option"
  fi_read :: "u64 \<Rightarrow> nat \<Rightarrow> io_error option"
  fi_write :: "u64 \<Rightarrow> u8 list \<Rightarrow> (nat \<times> io_error) option"
  fi_sync :: "io_error option"

definition UNEXPECTED_EOF :: io_error where
  "UNEXPECTED_EOF = ''failed to fill whole buffer''"

text \<open>\<open>read_exact\<close> and \<open>write_all\<close> at a position; a write past the end fills the gap with zeros.\<close>

definition file_read :: "file_io \<Rightarrow> u8 list \<Rightarrow> u64 \<Rightarrow> nat \<Rightarrow> io_error + u8 list" where
  "file_read fi content offset len =
     (if len = 0 then Inr []
      else case fi_read fi offset len of Some e \<Rightarrow> Inl e
      | None \<Rightarrow> if unat offset + len \<le> length content then Inr (peek content (unat offset) len)
          else Inl UNEXPECTED_EOF)"

definition file_put :: "u8 list \<Rightarrow> nat \<Rightarrow> u8 list \<Rightarrow> u8 list" where
  "file_put content offset bs =
     (if bs = [] then content
      else take offset (content @ replicate (offset - length content) 0) @ bs @ drop (offset + length bs) content)"

definition file_write :: "file_io \<Rightarrow> u8 list \<Rightarrow> u64 \<Rightarrow> u8 list \<Rightarrow> (io_error + unit) \<times> u8 list" where
  "file_write fi content offset bs =
     (if bs = [] then (Inr (), content)
      else case fi_write fi offset bs of
        None \<Rightarrow> (Inr (), file_put content (unat offset) bs)
      | Some (n, e) \<Rightarrow> (Inl e, file_put content (unat offset) (take n bs)))"

definition block_on :: "u8 list \<Rightarrow> virtio_block" where
  "block_on backing =
     \<lparr> vb_backing = backing, vb_capacity_sectors = word_of_nat (length backing) div SECTOR_SIZE,
       vb_status = 0, vb_device_features_sel = 0, vb_driver_features = 0,
       vb_driver_features_sel = 0, vb_interrupt_status = 0, vb_config_generation = 0,
       vb_queue = queue_new \<rparr>"

text \<open>
  The file is opened, and created when there is none; an empty one is extended with zeros. What was
  done to it stays on the disk when a later call fails.
\<close>

definition block_new :: "os \<Rightarrow> disk \<Rightarrow> string \<Rightarrow> (io_error + virtio_block) \<times> disk" where
  "block_new os d path =
     (case os_open os path of Some e \<Rightarrow> (Inl e, d)
      | None \<Rightarrow>
      let content = (case dk_slab d path of None \<Rightarrow> [] | Some m \<Rightarrow> m);
          d = d\<lparr>dk_slab := (dk_slab d)(path := Some content)\<rparr> in
      case os_stat os path of Some e \<Rightarrow> (Inl e, d)
      | None \<Rightarrow>
      if content = [] then
        (case os_set_len os path DEFAULT_DISK_BYTES of Some e \<Rightarrow> (Inl e, d)
         | None \<Rightarrow> let backing = replicate DEFAULT_DISK_BYTES 0 in
             (Inr (block_on backing), d\<lparr>dk_slab := (dk_slab d)(path := Some backing)\<rparr>))
      else (Inr (block_on content), d))"

section \<open>Registers\<close>

text \<open>A read answers with as many bytes as the guest asks for.\<close>

definition read_config :: "virtio_block \<Rightarrow> u64 \<Rightarrow> nat \<Rightarrow> u8 list" where
  "read_config b config_offset n =
     (let config_bytes = enc64 (vb_capacity_sectors b); start = unat config_offset in
      if start < length config_bytes then
        let stop = min (start + n) (length config_bytes); len = stop - start in
        peek config_bytes start len @ replicate (n - len) 0
      else replicate n 0)"

definition register_value :: "virtio_block \<Rightarrow> u64 \<Rightarrow> u32" where
  "register_value b offset =
     (if offset = REG_MAGIC then MAGIC
      else if offset = REG_VERSION then MMIO_VERSION
      else if offset = REG_DEVICE_ID then DEVICE_ID_BLK
      else if offset = REG_VENDOR_ID then VIRTIO_VENDOR_ID
      else if offset = REG_DEVICE_FEATURES then
        (if vb_device_features_sel b = 0 then ucast DEVICE_FEATURES
         else if vb_device_features_sel b = 1 then ucast (drop_bit 32 DEVICE_FEATURES) else 0)
      else if offset = REG_QUEUE_NUM_MAX then ucast QUEUE_MAX_SIZE
      else if offset = REG_QUEUE_READY then (if vq_ready (vb_queue b) then 1 else 0)
      else if offset = REG_INTERRUPT_STATUS then vb_interrupt_status b
      else if offset = REG_STATUS then vb_status b
      else if offset = REG_CONFIG_GEN then vb_config_generation b
      else 0)"

definition mmio_read :: "virtio_block \<Rightarrow> u64 \<Rightarrow> nat \<Rightarrow> u8 list" where
  "mmio_read b offset n =
     (if REG_CONFIG_START \<le> offset then read_config b (offset - REG_CONFIG_START) n
      else if n \<noteq> 4 then replicate n 0
      else enc32 (register_value b offset))"

text \<open>The device after a reset keeps the disk, its capacity and the configuration generation.\<close>

definition reset :: "virtio_block \<Rightarrow> virtio_block" where
  "reset b = b\<lparr> vb_status := 0, vb_driver_features := 0, vb_driver_features_sel := 0,
     vb_device_features_sel := 0, vb_interrupt_status := 0, vb_queue := queue_new \<rparr>"

text \<open>A 32-bit write into one half of a 64-bit register.\<close>

definition set_low :: "u64 \<Rightarrow> u32 \<Rightarrow> u64" where
  "set_low w val = (w AND 0xFFFFFFFF00000000) OR ucast val"

definition set_high :: "u64 \<Rightarrow> u32 \<Rightarrow> u64" where
  "set_high w val = (w AND 0x00000000FFFFFFFF) OR push_bit 32 (ucast val)"

text \<open>The registers whose write only changes the device.\<close>

definition write_register :: "virtio_block \<Rightarrow> u64 \<Rightarrow> u32 \<Rightarrow> virtio_block" where
  "write_register b offset val =
     (let q = vb_queue b; mask = 0xFFFFFFFF00000000 in
      if offset = REG_DEVICE_FEATURES_SEL then b\<lparr> vb_device_features_sel := val \<rparr>
      else if offset = REG_DRIVER_FEATURES then
        (if vb_driver_features_sel b = 0
         then b\<lparr> vb_driver_features := (vb_driver_features b AND mask) OR ucast val \<rparr>
         else if vb_driver_features_sel b = 1
         then b\<lparr> vb_driver_features := (vb_driver_features b AND NOT mask) OR push_bit 32 (ucast val) \<rparr>
         else b)
      else if offset = REG_DRIVER_FEATURES_SEL then b\<lparr> vb_driver_features_sel := val \<rparr>
      else if offset = REG_QUEUE_NUM then
        b\<lparr> vb_queue := q\<lparr> vq_num := ucast (min val (ucast QUEUE_MAX_SIZE)) \<rparr> \<rparr>
      else if offset = REG_QUEUE_READY then b\<lparr> vb_queue := q\<lparr> vq_ready := (val \<noteq> 0) \<rparr> \<rparr>
      else if offset = REG_INTERRUPT_ACK then b\<lparr> vb_interrupt_status := vb_interrupt_status b AND NOT val \<rparr>
      else if offset = REG_STATUS then (if val = 0 then reset b else b\<lparr> vb_status := val \<rparr>)
      else if offset = REG_QUEUE_DESC_LOW then
        b\<lparr> vb_queue := q\<lparr> vq_desc_table := set_low (vq_desc_table q) val \<rparr> \<rparr>
      else if offset = REG_QUEUE_DESC_HIGH then
        b\<lparr> vb_queue := q\<lparr> vq_desc_table := set_high (vq_desc_table q) val \<rparr> \<rparr>
      else if offset = REG_QUEUE_DRIVER_LOW then
        b\<lparr> vb_queue := q\<lparr> vq_avail_ring := set_low (vq_avail_ring q) val \<rparr> \<rparr>
      else if offset = REG_QUEUE_DRIVER_HIGH then
        b\<lparr> vb_queue := q\<lparr> vq_avail_ring := set_high (vq_avail_ring q) val \<rparr> \<rparr>
      else if offset = REG_QUEUE_DEVICE_LOW then
        b\<lparr> vb_queue := q\<lparr> vq_used_ring := set_low (vq_used_ring q) val \<rparr> \<rparr>
      else if offset = REG_QUEUE_DEVICE_HIGH then
        b\<lparr> vb_queue := q\<lparr> vq_used_ring := set_high (vq_used_ring q) val \<rparr> \<rparr>
      else b)"

end
