(* ===== verification/Virtio_Queue.thy ===== *)
theory Virtio_Queue
  imports Virtio_Block
begin

text \<open>
  The queue of \<open>rondo-demo-vmm/src/devices/block.rs\<close>: descriptor chains, the requests they
  describe and the loop over the available ring. The guest's memory is behind the interface
  of \<open>Guest_Memory\<close>; a descriptor chain that closes on itself makes the walk run forever,
  which is the value \<open>None\<close>.
\<close>

unbundle bit_operations_syntax

section \<open>Descriptor chains\<close>

definition read_desc :: "'m guest_ops \<Rightarrow> virt_queue \<Rightarrow> 'm \<Rightarrow> u16 \<Rightarrow> virtq_desc option" where
  "read_desc gm q m idx =
     (if vq_num q \<le> idx then None
      else case gm_read_obj gm m (vq_desc_table q + ucast idx * 16) 16 of
        Inr bs \<Rightarrow> Some (desc_of bs)
      | Inl e \<Rightarrow> None)"

partial_function (option) walk_chain :: "'m guest_ops \<Rightarrow> virt_queue \<Rightarrow> 'm \<Rightarrow> virtq_desc \<Rightarrow>
    virtq_desc list \<Rightarrow> virtq_desc list option" where
  "walk_chain gm q m current data_descs =
     (if vd_flags current AND VIRTQ_DESC_F_NEXT \<noteq> 0 then
        (case read_desc gm q m (vd_next current) of
           None \<Rightarrow> Some data_descs
         | Some next \<Rightarrow> walk_chain gm q m next (data_descs @ [next]))
      else Some data_descs)"

text \<open>The last descriptor is the status byte if it is one writable byte.\<close>

definition split_status :: "virtq_desc list \<Rightarrow> virtq_desc list \<times> virtq_desc option" where
  "split_status ds =
     (if ds \<noteq> [] \<and> vd_len (last ds) = 1 \<and> vd_flags (last ds) AND VIRTQ_DESC_F_WRITE \<noteq> 0
      then (butlast ds, Some (last ds)) else (ds, None))"

section \<open>Requests\<close>

fun read_descs :: "'m guest_ops \<Rightarrow> file_io \<Rightarrow> u8 list \<Rightarrow> u64 \<Rightarrow> u64 \<Rightarrow> virtq_desc list \<Rightarrow> 'm \<Rightarrow>
    (u8 \<times> u64) \<times> 'm" where
  "read_descs gm fi backing offset total_bytes [] m = ((VIRTIO_BLK_S_OK, total_bytes), m)"
| "read_descs gm fi backing offset total_bytes (d # ds) m =
     (if vd_flags d AND VIRTQ_DESC_F_WRITE = 0 then read_descs gm fi backing offset total_bytes ds m
      else case fi_seek fi offset of
        Some e \<Rightarrow> ((VIRTIO_BLK_S_IOERR, total_bytes), m)
      | None \<Rightarrow>
        (case file_read fi backing offset (unat (vd_len d)) of
           Inl e \<Rightarrow> ((VIRTIO_BLK_S_IOERR, total_bytes), m)
         | Inr buf \<Rightarrow>
           (case gm_write gm m (vd_addr d) buf of
              (Inl e, m') \<Rightarrow> ((VIRTIO_BLK_S_IOERR, total_bytes), m')
            | (Inr u, m') \<Rightarrow> read_descs gm fi backing (offset + ucast (vd_len d)) (total_bytes + ucast (vd_len d)) ds m')))"

definition handle_read :: "'m guest_ops \<Rightarrow> file_io \<Rightarrow> u8 list \<Rightarrow> u64 \<Rightarrow> virtq_desc list \<Rightarrow> 'm \<Rightarrow>
    (u8 \<times> u64 \<times> io_op) \<times> 'm" where
  "handle_read gm fi backing sector ds m =
     (case read_descs gm fi backing (sector * SECTOR_SIZE) 0 ds m of
        ((status, total_bytes), m') \<Rightarrow> ((status, total_bytes, IoRead), m'))"

fun write_descs :: "'m guest_ops \<Rightarrow> file_io \<Rightarrow> u64 \<Rightarrow> u64 \<Rightarrow> virtq_desc list \<Rightarrow> 'm \<Rightarrow> u8 list \<Rightarrow>
    (u8 \<times> u64) \<times> u8 list" where
  "write_descs gm fi offset total_bytes [] m backing = ((VIRTIO_BLK_S_OK, total_bytes), backing)"
| "write_descs gm fi offset total_bytes (d # ds) m backing =
     (if vd_flags d AND VIRTQ_DESC_F_WRITE \<noteq> 0 then write_descs gm fi offset total_bytes ds m backing
      else case gm_read gm m (vd_addr d) (replicate (unat (vd_len d)) 0) of
        Inl e \<Rightarrow> ((VIRTIO_BLK_S_IOERR, total_bytes), backing)
      | Inr buf \<Rightarrow>
        (case fi_seek fi offset of
           Some e \<Rightarrow> ((VIRTIO_BLK_S_IOERR, total_bytes), backing)
         | None \<Rightarrow>
           (case file_write fi backing offset buf of
              (Inl e, backing') \<Rightarrow> ((VIRTIO_BLK_S_IOERR, total_bytes), backing')
            | (Inr u, backing') \<Rightarrow>
                write_descs gm fi (offset + ucast (vd_len d)) (total_bytes + ucast (vd_len d)) ds m backing')))"

definition handle_write :: "'m guest_ops \<Rightarrow> file_io \<Rightarrow> u64 \<Rightarrow> virtq_desc list \<Rightarrow> 'm \<Rightarrow> u8 list \<Rightarrow>
    (u8 \<times> u64 \<times> io_op) \<times> u8 list" where
  "handle_write gm fi sector ds m backing =
     (case write_descs gm fi (sector * SECTOR_SIZE) 0 ds m backing of
        ((status, total_bytes), backing') \<Rightarrow> ((status, total_bytes, IoWrite), backing'))"

definition handle_flush :: "file_io \<Rightarrow> u8 \<times> u64 \<times> io_op" where
  "handle_flush fi =
     (case fi_sync fi of None \<Rightarrow> (VIRTIO_BLK_S_OK, 0, IoFlush) | Some e \<Rightarrow> (VIRTIO_BLK_S_IOERR, 0, IoFlush))"

definition dispatch :: "'m guest_ops \<Rightarrow> file_io \<Rightarrow> blk_req_hdr \<Rightarrow> virtq_desc list \<Rightarrow> u8 list \<Rightarrow> 'm \<Rightarrow>
    (u8 \<times> u64 \<times> io_op) \<times> u8 list \<times> 'm" where
  "dispatch gm fi hdr ds backing m =
     (if rh_type hdr = VIRTIO_BLK_T_IN then
        (case handle_read gm fi backing (rh_sector hdr) ds m of (r, m') \<Rightarrow> (r, backing, m'))
      else if rh_type hdr = VIRTIO_BLK_T_OUT then
        (case handle_write gm fi (rh_sector hdr) ds m backing of (r, backing') \<Rightarrow> (r, backing', m))
      else if rh_type hdr = VIRTIO_BLK_T_FLUSH then (handle_flush fi, backing, m)
      else ((VIRTIO_BLK_S_UNSUPP, 0, IoRead), backing, m))"

definition saturating_add32 :: "u32 \<Rightarrow> u32 \<Rightarrow> u32" where
  "saturating_add32 a b = (if unat a + unat b < 2 ^ 32 then a + b else - 1)"

text \<open>
  One request: the length for the used ring, the operation for the metrics if there was one,
  the disk and the memory. \<open>elapsed\<close> is what the clock says the request took.
\<close>

definition process_request :: "'m guest_ops \<Rightarrow> file_io \<Rightarrow> u64 \<Rightarrow> virt_queue \<Rightarrow> u16 \<Rightarrow> u8 list \<Rightarrow> 'm \<Rightarrow>
    ((u32 \<times> completed_io option) \<times> u8 list \<times> 'm) option" where
  "process_request gm fi elapsed q head backing m =
     (case read_desc gm q m head of
        None \<Rightarrow> Some ((0, None), backing, m)
      | Some header_desc \<Rightarrow>
        if vd_len header_desc < 16 then Some ((0, None), backing, m)
        else case gm_read_obj gm m (vd_addr header_desc) 16 of
          Inl e \<Rightarrow> Some ((0, None), backing, m)
        | Inr bs \<Rightarrow>
          (case walk_chain gm q m header_desc [] of
             None \<Rightarrow> None
           | Some descs \<Rightarrow>
             (case split_status descs of (data_descs, status_desc) \<Rightarrow>
              case dispatch gm fi (hdr_of bs) data_descs backing m of
                ((status, bytes, op), backing', m') \<Rightarrow>
                let m'' = (case status_desc of None \<Rightarrow> m'
                     | Some sd \<Rightarrow> snd (gm_write_obj gm m' (vd_addr sd) [status]));
                    used_len = (if status_desc = None then 0 else 1);
                    used_len' = (if op = IoRead then saturating_add32 used_len (ucast bytes) else used_len)
                in Some ((used_len', Some \<lparr> ci_op = op, ci_bytes = bytes, ci_duration_ns = elapsed \<rparr>),
                      backing', m''))))"

section \<open>The queue\<close>

text \<open>The three writes that hand a chain back to the driver; their errors are ignored.\<close>

definition push_used :: "'m guest_ops \<Rightarrow> virt_queue \<Rightarrow> u16 \<Rightarrow> u32 \<Rightarrow> 'm \<Rightarrow> 'm" where
  "push_used gm q desc_head used_len m =
     (let used_idx = (case gm_read_obj gm m (vq_used_ring q + 2) 2 of Inr bs \<Rightarrow> dec16 bs | Inl e \<Rightarrow> 0);
          used_entry_offset = 4 + ucast (used_idx mod vq_num q) * 8;
          m1 = snd (gm_write_obj gm m (vq_used_ring q + used_entry_offset) (enc32 (ucast desc_head)));
          m2 = snd (gm_write_obj gm m1 (vq_used_ring q + used_entry_offset + 4) (enc32 used_len))
      in snd (gm_write_obj gm m2 (vq_used_ring q + 2) (enc16 (used_idx + 1))))"

text \<open>
  The loop over the available entries; the durations are indexed by the position in the ring.
  It ends because \<open>last_avail_idx\<close> runs, wrapping, towards the index read before it.
\<close>

function queue_loop :: "'m guest_ops \<Rightarrow> file_io \<Rightarrow> (u16 \<Rightarrow> u64) \<Rightarrow> u16 \<Rightarrow> virtio_block \<Rightarrow> 'm \<Rightarrow>
    completed_io list \<Rightarrow> (completed_io list \<times> virtio_block \<times> 'm) option" where
  "queue_loop gm fi elapsed avail_idx b m completed =
     (let q = vb_queue b; last = vq_last_avail_idx q in
      if last = avail_idx then Some (completed, b, m)
      else case gm_read_obj gm m (vq_avail_ring q + (4 + ucast (last mod vq_num q) * 2)) 2 of
        Inl e \<Rightarrow> Some (completed, b, m)
      | Inr bs \<Rightarrow>
        (case process_request gm fi (elapsed last) q (dec16 bs) (vb_backing b) m of
           None \<Rightarrow> None
         | Some ((used_len, io), backing, m') \<Rightarrow>
           queue_loop gm fi elapsed avail_idx
             (b\<lparr> vb_backing := backing, vb_queue := q\<lparr> vq_last_avail_idx := last + 1 \<rparr> \<rparr>)
             (push_used gm q (dec16 bs) used_len m')
             (completed @ (case io of None \<Rightarrow> [] | Some c \<Rightarrow> [c]))))"
  by pat_completeness auto

lemma wrap_step: "(i :: u16) \<noteq> j \<Longrightarrow> unat (j - (i + 1)) < unat (j - i)"
proof -
  assume "i \<noteq> j"
  then have "j - i \<noteq> 0" by simp
  then have "unat (j - i - 1) < unat (j - i)"
    using unat_minus_one [of "j - i"] by (simp add: unat_gt_0)
  then show ?thesis by (simp add: diff_diff_eq)
qed

termination queue_loop
  by (relation "measure (\<lambda>(gm, fi, elapsed, avail_idx, b, m, c). unat (avail_idx - vq_last_avail_idx (vb_queue b)))")
    (auto simp: wrap_step)

declare queue_loop.simps [simp del]

definition process_queue :: "'m guest_ops \<Rightarrow> file_io \<Rightarrow> (u16 \<Rightarrow> u64) \<Rightarrow> virtio_block \<Rightarrow> 'm \<Rightarrow>
    (write_result \<times> virtio_block \<times> 'm) option" where
  "process_queue gm fi elapsed b m =
     (let result = \<lparr> wr_needs_interrupt = False, wr_completed = [] \<rparr>; q = vb_queue b in
      if \<not> vq_ready q \<or> vq_num q = 0 then Some (result, b, m)
      else case gm_read_obj gm m (vq_avail_ring q + 2) 2 of
        Inl e \<Rightarrow> Some (result, b, m)
      | Inr bs \<Rightarrow>
        (case queue_loop gm fi elapsed (dec16 bs) b m [] of
           None \<Rightarrow> None
         | Some (completed, b', m') \<Rightarrow>
           if completed \<noteq> [] then
             Some (\<lparr> wr_needs_interrupt = True, wr_completed = completed \<rparr>,
                   b'\<lparr> vb_interrupt_status := vb_interrupt_status b' OR 1 \<rparr>, m')
           else Some (\<lparr> wr_needs_interrupt = False, wr_completed = completed \<rparr>, b', m')))"

text \<open>A write to a register; only a notification of queue 0 touches the memory and the disk.\<close>

definition mmio_write :: "'m guest_ops \<Rightarrow> file_io \<Rightarrow> (u16 \<Rightarrow> u64) \<Rightarrow> virtio_block \<Rightarrow> u64 \<Rightarrow> u8 list \<Rightarrow> 'm \<Rightarrow>
    (write_result \<times> virtio_block \<times> 'm) option" where
  "mmio_write gm fi elapsed b offset data m =
     (let no_op = \<lparr> wr_needs_interrupt = False, wr_completed = [] \<rparr> in
      if length data \<noteq> 4 then Some (no_op, b, m)
      else let val = dec32 data in
        if offset = REG_QUEUE_NOTIFY then
          (if val = 0 \<and> vq_ready (vb_queue b) then process_queue gm fi elapsed b m else Some (no_op, b, m))
        else Some (no_op, write_register b offset val, m))"

end
