(* ===== verification/Virtio_Requests.thy ===== *)
theory Virtio_Requests
  imports Virtio_Queue
begin

text \<open>
  What the requests of the block device do. The walk over a descriptor chain is compared with
  a walk that has fuel for as many descriptors as the queue holds; reads and writes are
  compared with scattering the disk's bytes into the guest's buffers and gathering them from
  there; a notification is followed to the used ring.
\<close>

unbundle bit_operations_syntax

section \<open>The walk over a chain\<close>

fun walk_fuel :: "nat \<Rightarrow> 'm guest_ops \<Rightarrow> virt_queue \<Rightarrow> 'm \<Rightarrow> virtq_desc \<Rightarrow> virtq_desc list \<Rightarrow>
    virtq_desc list option" where
  "walk_fuel 0 gm q m current ds = None"
| "walk_fuel (Suc n) gm q m current ds =
     (if vd_flags current AND VIRTQ_DESC_F_NEXT \<noteq> 0 then
        (case read_desc gm q m (vd_next current) of
           None \<Rightarrow> Some ds
         | Some next \<Rightarrow> walk_fuel n gm q m next (ds @ [next]))
      else Some ds)"

lemma walk_fuel_sound: "walk_fuel n gm q m d ds = Some r \<Longrightarrow> walk_chain gm q m d ds = Some r"
proof (induction n arbitrary: d ds)
  case (Suc n)
  then show ?case
    by (subst walk_chain.simps) (auto split: if_splits option.splits)
qed simp

text \<open>Indices from which every descriptor leads back among them are never left.\<close>

definition closed_links :: "'m guest_ops \<Rightarrow> virt_queue \<Rightarrow> 'm \<Rightarrow> u16 set \<Rightarrow> bool" where
  "closed_links gm q m I \<longleftrightarrow> (\<forall>i \<in> I. \<exists>d. read_desc gm q m i = Some d \<and>
     vd_flags d AND VIRTQ_DESC_F_NEXT \<noteq> 0 \<and> vd_next d \<in> I)"

lemma walk_closed:
  assumes "walk_chain gm q m d ds = Some r" and "closed_links gm q m I"
    and "vd_flags d AND VIRTQ_DESC_F_NEXT \<noteq> 0"
  shows "vd_next d \<notin> I"
proof -
  have "closed_links gm q m I \<longrightarrow> vd_flags d AND VIRTQ_DESC_F_NEXT \<noteq> 0 \<longrightarrow> vd_next d \<notin> I"
    by (rule walk_chain.raw_induct [OF _ assms(1)])
      (auto simp: closed_links_def split: if_splits option.splits, metis option.inject)
  then show ?thesis using assms(2,3) by blast
qed

text \<open>The index visited after \<open>k\<close> links.\<close>

primrec visited :: "'m guest_ops \<Rightarrow> virt_queue \<Rightarrow> 'm \<Rightarrow> virtq_desc \<Rightarrow> nat \<Rightarrow> u16" where
  "visited gm q m d 0 = vd_next d"
| "visited gm q m d (Suc k) = vd_next (the (read_desc gm q m (visited gm q m d k)))"

lemma visited_Suc: "read_desc gm q m (vd_next d) = Some e \<Longrightarrow> visited gm q m d (Suc k) = visited gm q m e k"
  by (induction k) auto

lemma walk_fuel_out:
  assumes "walk_fuel n gm q m d ds = None" and "k < n"
  shows "(\<exists>e. read_desc gm q m (visited gm q m d k) = Some e \<and>
           (Suc k < n \<longrightarrow> vd_flags e AND VIRTQ_DESC_F_NEXT \<noteq> 0)) \<and> vd_flags d AND VIRTQ_DESC_F_NEXT \<noteq> 0"
  using assms
proof (induction n arbitrary: d ds k)
  case (Suc n)
  then obtain e where flag: "vd_flags d AND VIRTQ_DESC_F_NEXT \<noteq> 0"
    and e: "read_desc gm q m (vd_next d) = Some e" and rest: "walk_fuel n gm q m e (ds @ [e]) = None"
    by (auto split: if_splits option.splits)
  show ?case
  proof (cases k)
    case 0
    then show ?thesis using flag e Suc.IH [OF rest, of 0] by auto
  next
    case (Suc j)
    then show ?thesis
      using Suc.IH [OF rest, of j] Suc.prems(2) flag visited_Suc [OF e, of j] by simp
  qed
qed simp

lemma read_desc_bound: "read_desc gm q m i = Some d \<Longrightarrow> unat i < unat (vq_num q)"
  by (auto simp: read_desc_def word_le_nat_alt split: if_splits)

lemma walk_out_never_returns:
  assumes out: "walk_fuel (unat (vq_num q) + 1) gm q m d ds = None"
  shows "walk_chain gm q m d ds = None"
proof -
  let ?n = "unat (vq_num q)" and ?v = "visited gm q m d"
  have all: "\<exists>e. read_desc gm q m (?v k) = Some e \<and> (k < ?n \<longrightarrow> vd_flags e AND VIRTQ_DESC_F_NEXT \<noteq> 0)"
    and flag: "vd_flags d AND VIRTQ_DESC_F_NEXT \<noteq> 0" if "k \<le> ?n" for k
    using walk_fuel_out [OF out, of k] that by auto
  have "(unat \<circ> ?v) ` {..?n} \<subseteq> {..<?n}"
    using all read_desc_bound by fastforce
  then have "card ((unat \<circ> ?v) ` {..?n}) \<le> ?n"
    using card_mono [of "{..<?n}"] by fastforce
  then have "\<not> inj_on (unat \<circ> ?v) {..?n}"
    using card_image [of "unat \<circ> ?v" "{..?n}"] by fastforce
  then obtain a b where ab: "a < b" "b \<le> ?n" "?v a = ?v b"
    by (auto simp: inj_on_def) (metis linorder_neqE_nat word_unat_eq_iff)
  have "closed_links gm q m (?v ` {..<b})"
    unfolding closed_links_def
  proof
    fix i assume "i \<in> ?v ` {..<b}"
    then obtain k where k: "k < b" "i = ?v k" by auto
    then obtain e where e: "read_desc gm q m i = Some e" "vd_flags e AND VIRTQ_DESC_F_NEXT \<noteq> 0"
      using all [of k] ab(2) by auto
    have "vd_next e = ?v (Suc k)" using e k(2) by simp
    moreover have "?v (Suc k) \<in> ?v ` {..<b}"
    proof (cases "Suc k = b")
      case True
      then show ?thesis using ab(1,3) by (intro image_eqI [where x = a]) auto
    next
      case False
      then show ?thesis using k(1) by (intro image_eqI [where x = "Suc k"]) auto
    qed
    ultimately show "\<exists>d. read_desc gm q m i = Some d \<and> vd_flags d AND VIRTQ_DESC_F_NEXT \<noteq> 0 \<and> vd_next d \<in> ?v ` {..<b}"
      using e by simp
  qed
  moreover have "vd_next d \<in> ?v ` {..<b}"
    using ab(1) by (auto intro: image_eqI [where x = 0])
  ultimately show ?thesis
    using walk_closed flag [of 0] by (metis le0 option.exhaust)
qed

text \<open>
  C9. The walk over a descriptor chain returns exactly when the chain ends within as many
  links as the queue has descriptors, and then it has collected what the bounded walk
  collects; on every other chain, which must then have a cycle, it never returns.
\<close>

theorem chain_walk_bounded:
  "walk_chain gm q m d ds = walk_fuel (unat (vq_num q) + 1) gm q m d ds"
  by (cases "walk_fuel (unat (vq_num q) + 1) gm q m d ds")
    (use walk_out_never_returns walk_fuel_sound in \<open>metis\<close>)+

section \<open>Scatter and gather\<close>

text \<open>
  The reference for data descriptors: bytes go to the buffers in the order of the chain, and
  come from them in that order.
\<close>

definition total_len :: "virtq_desc list \<Rightarrow> nat" where
  "total_len ds = sum_list (map (\<lambda>d. unat (vd_len d)) ds)"

fun scatter :: "virtq_desc list \<Rightarrow> u8 list \<Rightarrow> u8 list \<Rightarrow> u8 list" where
  "scatter [] bs mem = mem"
| "scatter (d # ds) bs mem =
     scatter ds (drop (unat (vd_len d)) bs) (poke mem (unat (vd_addr d)) (take (unat (vd_len d)) bs))"

definition gather :: "virtq_desc list \<Rightarrow> u8 list \<Rightarrow> u8 list" where
  "gather ds mem = concat (map (\<lambda>d. peek mem (unat (vd_addr d)) (unat (vd_len d))) ds)"

definition buffers_in :: "virtq_desc list \<Rightarrow> nat \<Rightarrow> bool" where
  "buffers_in ds n \<longleftrightarrow> (\<forall>d \<in> set ds. unat (vd_addr d) + unat (vd_len d) \<le> n)"

definition writable :: "virtq_desc \<Rightarrow> bool" where
  "writable d \<longleftrightarrow> vd_flags d AND VIRTQ_DESC_F_WRITE \<noteq> 0"

definition no_faults :: file_io where
  "no_faults = \<lparr> fi_seek = (\<lambda>pos. None), fi_read = (\<lambda>pos n. None), fi_write = (\<lambda>pos bs. None), fi_sync = None \<rparr>"

text \<open>A host file without faults, up to the largest position a seek accepts.\<close>

definition healthy :: "file_io \<Rightarrow> bool" where
  "healthy fi \<longleftrightarrow> (\<forall>pos. unat pos < 2 ^ 63 \<longrightarrow> fi_seek fi pos = None) \<and> (\<forall>pos n. fi_read fi pos n = None) \<and>
     (\<forall>pos bs. fi_write fi pos bs = None) \<and> fi_sync fi = None"

lemma healthy_no_faults: "healthy no_faults"
  by (simp add: healthy_def no_faults_def)

lemma total_len_simps [simp]:
  "total_len [] = 0" "total_len (d # ds) = unat (vd_len d) + total_len ds"
  by (simp_all add: total_len_def)

lemma buffers_in_Cons [simp]:
  "buffers_in [] n" "buffers_in (d # ds) n \<longleftrightarrow> unat (vd_addr d) + unat (vd_len d) \<le> n \<and> buffers_in ds n"
  by (auto simp: buffers_in_def)

lemma scatter_length:
  "buffers_in ds (length mem) \<Longrightarrow> total_len ds \<le> length bs \<Longrightarrow> length (scatter ds bs mem) = length mem"
  by (induction ds bs mem rule: scatter.induct) (auto simp: length_poke min_def)

lemma scatter_take: "total_len ds \<le> n \<Longrightarrow> scatter ds (take n bs) mem = scatter ds bs mem"
proof (induction ds bs mem arbitrary: n rule: scatter.induct)
  case (2 d ds bs mem)
  then show ?case
    using 2(1) [of "n - unat (vd_len d)"] by (simp add: drop_take min_def)
qed simp

lemma gather_length: "buffers_in ds (length mem) \<Longrightarrow> length (gather ds mem) = total_len ds"
  by (induction ds) (simp_all add: gather_def length_peek)

text \<open>Outside the buffers nothing moves; a single buffer holds the bytes it was given.\<close>

lemma scatter_elsewhere:
  assumes "buffers_in ds (length mem)" and "total_len ds \<le> length bs"
    and "\<forall>d \<in> set ds. a + n \<le> unat (vd_addr d) \<or> unat (vd_addr d) + unat (vd_len d) \<le> a"
  shows "peek (scatter ds bs mem) a n = peek mem a n"
  using assms
proof (induction ds bs mem rule: scatter.induct)
  case (2 d ds bs mem)
  have room: "unat (vd_addr d) + length (take (unat (vd_len d)) bs) \<le> length mem"
    using 2(2,3) by (simp add: min_def)
  have "peek (poke mem (unat (vd_addr d)) (take (unat (vd_len d)) bs)) a n = peek mem a n"
    using room 2(4) by (intro peek_poke_disjoint) (auto simp: min_def)
  then show ?case
    using 2 length_poke [OF room] by simp
qed simp

lemma unat_plus_small: "unat (w :: u64) + n < 2 ^ 64 \<Longrightarrow> unat (w + word_of_nat n) = unat w + n"
  by (simp add: unat_word_ariths unat_of_nat)

lemma len_as_nat: "(ucast (l :: u32) :: u64) = word_of_nat (unat l)"
  by (rule word_unat_eq_iff [THEN iffD2]) (use u32_bound [of l] in \<open>simp add: unat_of_nat unat_u32_to_u64\<close>)

lemma next_offset:
  assumes "unat (w :: u64) + unat (l :: u32) < 2 ^ 64"
  shows "unat (w + ucast l) = unat w + unat l"
  using unat_plus_small [OF assms] by (simp only: len_as_nat)

lemma len_sum: "word_of_nat (unat (l :: u32) + k) = (ucast l + word_of_nat k :: u64)"
  by (simp only: len_as_nat of_nat_add)

text \<open>Writing two pieces one after the other is writing them as one.\<close>

lemma file_put_append: "file_put (file_put c off xs) (off + length xs) ys = file_put c off (xs @ ys)"
proof (cases "xs = [] \<or> ys = []")
  case False
  let ?p = "take off (c @ replicate (off - length c) 0) @ xs" and ?r = "drop (off + length xs) c"
  have len: "length ?p = off + length xs" by simp
  then have "take (off + length xs) (?p @ ?r @ zs) = ?p" for zs
    by (simp only: take_append) simp
  moreover have "drop (off + length xs + length ys) (?p @ ?r) = drop (off + length xs + length ys) c"
    by (simp only: drop_append len) (simp add: add.commute)
  ultimately show ?thesis
    using False by (simp add: file_put_def add.assoc)
qed (auto simp: file_put_def)

lemma file_put_read: "bs \<noteq> [] \<Longrightarrow> take (length bs) (drop off (file_put c off bs)) = bs"
  by (simp add: file_put_def)

lemma file_put_length: "bs \<noteq> [] \<Longrightarrow> length (file_put c off bs) = max (length c) (off + length bs)"
  by (simp add: file_put_def)

section \<open>Data descriptors\<close>

context guest_region
begin

lemma read_descs_scatter:
  assumes "healthy fi" and "length backing < 2 ^ 63" and "unat offset + total_len ds \<le> length backing"
    and "\<forall>d \<in> set ds. writable d" and "buffers_in ds (length (img m))"
  shows "\<exists>m'. read_descs gm fi backing offset n ds m = ((VIRTIO_BLK_S_OK, n + word_of_nat (total_len ds)), m') \<and>
     img m' = scatter ds (drop (unat offset) backing) (img m)"
  using assms(3-)
proof (induction ds arbitrary: offset n m)
  case (Cons d ds)
  let ?buf = "peek backing (unat offset) (unat (vd_len d))"
  have len: "length ?buf = unat (vd_len d)"
    using Cons.prems(1) by (simp add: length_peek)
  have read: "file_read fi backing offset (unat (vd_len d)) = Inr ?buf"
    using Cons.prems(1) assms(1) by (auto simp: file_read_def healthy_def peek_def)
  have seek: "fi_seek fi offset = None"
    using Cons.prems(1) assms(1,2) by (simp add: healthy_def)
  obtain m' where m': "gm_write gm m (vd_addr d) ?buf = (Inr (), m')"
    "img m' = poke (img m) (unat (vd_addr d)) ?buf"
    using write_in [of "vd_addr d" ?buf m] Cons.prems(3) len by auto
  have next_off: "unat (offset + ucast (vd_len d)) = unat offset + unat (vd_len d)"
    using Cons.prems(1) assms(2) by (simp add: next_offset)
  have "length (img m') = length (img m)"
    using m'(2) Cons.prems(3) len by (simp add: length_poke)
  then obtain m'' where "read_descs gm fi backing (offset + ucast (vd_len d)) (n + ucast (vd_len d)) ds m'
      = ((VIRTIO_BLK_S_OK, n + ucast (vd_len d) + word_of_nat (total_len ds)), m'')"
    "img m'' = scatter ds (drop (unat offset + unat (vd_len d)) backing) (img m')"
    using Cons.IH [of "offset + ucast (vd_len d)" m' "n + ucast (vd_len d)"] Cons.prems next_off by auto
  then show ?case
    using Cons.prems(2) m' read seek
    by (auto simp: writable_def peek_def len_sum add.assoc add.commute [of "unat (vd_len d)"])
qed simp

lemma write_descs_gather:
  assumes "healthy fi" and "unat offset + total_len ds < 2 ^ 63"
    and "\<forall>d \<in> set ds. \<not> writable d" and "buffers_in ds (length (img m))"
  shows "write_descs gm fi offset n ds m backing
     = ((VIRTIO_BLK_S_OK, n + word_of_nat (total_len ds)), file_put backing (unat offset) (gather ds (img m)))"
  using assms(2-)
proof (induction ds arbitrary: offset n backing)
  case (Cons d ds)
  let ?buf = "peek (img m) (unat (vd_addr d)) (unat (vd_len d))"
  have len: "length ?buf = unat (vd_len d)"
    using Cons.prems(3) by (simp add: length_peek)
  have read: "gm_read gm m (vd_addr d) (replicate (unat (vd_len d)) 0) = Inr ?buf"
    using Cons.prems(3) read_in [of "vd_addr d" "replicate (unat (vd_len d)) 0" m] by simp
  have io: "fi_seek fi offset = None" "file_write fi backing offset ?buf = (Inr (), file_put backing (unat offset) ?buf)"
    using Cons.prems(1) assms(1) by (auto simp: healthy_def file_write_def file_put_def)
  have "unat (offset + ucast (vd_len d)) = unat offset + unat (vd_len d)"
    using Cons.prems(1) by (simp add: next_offset)
  then show ?case
    using Cons.IH [of "offset + ucast (vd_len d)" "n + ucast (vd_len d)" "file_put backing (unat offset) ?buf"]
      Cons.prems read io len file_put_append [of backing "unat offset" ?buf "gather ds (img m)"]
    by (simp add: writable_def gather_def len_sum add.assoc)
qed (simp add: gather_def file_put_def)

end

section \<open>Requests\<close>

text \<open>
  A chain in the queue of a device that a driver has laid out as the virtio standard asks: a
  header, data descriptors and one writable status byte.
\<close>

definition request_at :: "'m guest_ops \<Rightarrow> virt_queue \<Rightarrow> 'm \<Rightarrow> u16 \<Rightarrow> u32 \<Rightarrow> u64 \<Rightarrow> virtq_desc list \<Rightarrow>
    virtq_desc \<Rightarrow> bool" where
  "request_at gm q m head type sector ds sd \<longleftrightarrow>
     (\<exists>h. read_desc gm q m head = Some h \<and> 16 \<le> vd_len h \<and>
       gm_read_obj gm m (vd_addr h) 16 = Inr (hdr_bytes type sector) \<and>
       walk_chain gm q m h [] = Some (ds @ [sd]) \<and> vd_len sd = 1 \<and> writable sd)"

lemma hdr_of_bytes: "hdr_of (hdr_bytes type sector) = \<lparr> rh_type = type, rh_sector = sector \<rparr>"
  using c32.load_append [of "[]" 0 type "enc32 0 @ enc64 sector"]
    c64.load_append [of "enc32 type @ enc32 0" 8 sector "[]"]
  by (simp add: hdr_of_def hdr_bytes_def c32.enc_width)

lemma split_status_last: "vd_len sd = 1 \<Longrightarrow> writable sd \<Longrightarrow> split_status (ds @ [sd]) = (ds, Some sd)"
  by (simp add: split_status_def writable_def)

lemma process_request_at:
  assumes "request_at gm q m head type sector ds sd"
  shows "process_request gm fi elapsed q head backing m =
     (case dispatch gm fi \<lparr> rh_type = type, rh_sector = sector \<rparr> ds backing m of
        ((status, bytes, op), backing', m') \<Rightarrow>
        Some ((if op = IoRead then saturating_add32 1 (ucast bytes) else 1,
               Some \<lparr> ci_op = op, ci_bytes = bytes, ci_duration_ns = elapsed \<rparr>),
              backing', snd (gm_write_obj gm m' (vd_addr sd) [status])))"
proof -
  obtain h where h: "read_desc gm q m head = Some h" "16 \<le> vd_len h"
    "gm_read_obj gm m (vd_addr h) 16 = Inr (hdr_bytes type sector)"
    "walk_chain gm q m h [] = Some (ds @ [sd])" "vd_len sd = 1" "writable sd"
    using assms by (auto simp: request_at_def)
  have "\<not> vd_len h < 16" using h(2) by (simp add: not_less)
  then show ?thesis
    using h split_status_last [OF h(5,6), of ds]
    by (simp add: process_request_def hdr_of_bytes split: prod.splits)
qed

lemma sector_offset: "unat sector * 512 < 2 ^ 64 \<Longrightarrow> unat (sector * SECTOR_SIZE) = unat sector * 512"
  by (simp add: SECTOR_SIZE_def unat_word_ariths)

lemma used_len_read: "n + 1 < 2 ^ 32 \<Longrightarrow> saturating_add32 1 (ucast (word_of_nat n :: u64)) = word_of_nat (Suc n)"
proof -
  assume n: "n + 1 < 2 ^ 32"
  then have "unat (ucast (word_of_nat n :: u64) :: u32) = n"
    by (simp add: unat_u64_to_u32 unat_of_nat)
  then show ?thesis
    using n by (simp add: saturating_add32_def word_unat_eq_iff unat_of_nat unat_word_ariths)
qed

context guest_region
begin

lemma status_written:
  assumes "unat a < length (img m)"
  shows "img (snd (gm_write_obj gm m a [s])) = poke (img m) (unat a) [s]"
  using write_obj_in [of a "[s]" m] assms by auto

lemma read_request:
  assumes "healthy fi" and "request_at gm q m head VIRTIO_BLK_T_IN sector ds sd"
    and "\<forall>d \<in> set ds. writable d" and "buffers_in ds (length (img m))" and "unat (vd_addr sd) < length (img m)"
    and "unat sector * 512 + total_len ds \<le> length backing" and "length backing < 2 ^ 63"
    and "total_len ds + 1 < 2 ^ 32"
  shows "\<exists>m'. process_request gm fi elapsed q head backing m =
      Some ((word_of_nat (Suc (total_len ds)),
             Some \<lparr> ci_op = IoRead, ci_bytes = word_of_nat (total_len ds), ci_duration_ns = elapsed \<rparr>), backing, m') \<and>
    img m' = poke (scatter ds (drop (unat sector * 512) backing) (img m)) (unat (vd_addr sd)) [VIRTIO_BLK_S_OK]"
proof -
  have off: "unat (sector * SECTOR_SIZE) = unat sector * 512"
    using assms(6,7) by (intro sector_offset) simp
  obtain m' where m': "read_descs gm fi backing (sector * SECTOR_SIZE) 0 ds m
      = ((VIRTIO_BLK_S_OK, word_of_nat (total_len ds)), m')"
    "img m' = scatter ds (drop (unat sector * 512) backing) (img m)"
    using read_descs_scatter [of fi backing "sector * SECTOR_SIZE" ds m 0] assms off by auto
  have "length (img m') = length (img m)"
    using m'(2) assms(4,6) by (simp add: scatter_length)
  then show ?thesis
    using m' process_request_at [OF assms(2), of fi elapsed backing] status_written [of "vd_addr sd" m'] assms(5,8)
    by (simp add: dispatch_def handle_read_def used_len_read)
qed

lemma write_request:
  assumes "healthy fi" and "request_at gm q m head VIRTIO_BLK_T_OUT sector ds sd"
    and "\<forall>d \<in> set ds. \<not> writable d" and "buffers_in ds (length (img m))" and "unat (vd_addr sd) < length (img m)"
    and "unat sector * 512 + total_len ds < 2 ^ 63"
  shows "\<exists>m'. process_request gm fi elapsed q head backing m =
      Some ((1, Some \<lparr> ci_op = IoWrite, ci_bytes = word_of_nat (total_len ds), ci_duration_ns = elapsed \<rparr>),
            file_put backing (unat sector * 512) (gather ds (img m)), m') \<and>
    img m' = poke (img m) (unat (vd_addr sd)) [VIRTIO_BLK_S_OK]"
proof -
  have off: "unat (sector * SECTOR_SIZE) = unat sector * 512"
    using assms(6) by (intro sector_offset) simp
  have "write_descs gm fi (sector * SECTOR_SIZE) 0 ds m backing
      = ((VIRTIO_BLK_S_OK, word_of_nat (total_len ds)), file_put backing (unat sector * 512) (gather ds (img m)))"
    using write_descs_gather [of fi "sector * SECTOR_SIZE" ds m 0 backing] assms off by simp
  then show ?thesis
    using process_request_at [OF assms(2), of fi elapsed backing] status_written [of "vd_addr sd" m] assms(5)
    by (simp add: dispatch_def handle_write_def VIRTIO_BLK_T_IN_def VIRTIO_BLK_T_OUT_def)
qed

end

section \<open>A notification\<close>

text \<open>One chain waits in the available ring of an active queue.\<close>

definition one_pending :: "'m guest_ops \<Rightarrow> virt_queue \<Rightarrow> 'm \<Rightarrow> u16 \<Rightarrow> bool" where
  "one_pending gm q m head \<longleftrightarrow> vq_ready q \<and> vq_num q \<noteq> 0 \<and>
     gm_read_obj gm m (vq_avail_ring q + 2) 2 = Inr (enc16 (vq_last_avail_idx q + 1)) \<and>
     gm_read_obj gm m (vq_avail_ring q + (4 + ucast (vq_last_avail_idx q mod vq_num q) * 2)) 2 = Inr (enc16 head)"

text \<open>What the driver then finds in the used ring.\<close>

definition used_image :: "virt_queue \<Rightarrow> u16 \<Rightarrow> u32 \<Rightarrow> u8 list \<Rightarrow> u8 list" where
  "used_image q head used_len mem =
     (let used = unat (vq_used_ring q); idx = dec16 (peek mem (used + 2) 2);
          entry = used + 4 + unat (idx mod vq_num q) * 8
      in poke (poke (poke mem entry (enc32 (ucast head))) (entry + 4) (enc32 used_len)) (used + 2) (enc16 (idx + 1)))"

lemma loop_ends: "vq_last_avail_idx (vb_queue b) = j \<Longrightarrow> queue_loop gm fi elapsed j b m c = Some (c, b, m)"
  by (subst queue_loop.simps) simp

lemma notify_one:
  assumes "one_pending gm (vb_queue b) m head"
    and "process_request gm fi (elapsed (vq_last_avail_idx (vb_queue b))) (vb_queue b) head (vb_backing b) m
      = Some ((used_len, Some io), backing', m')"
  shows "mmio_write gm fi elapsed b REG_QUEUE_NOTIFY (enc32 0) m =
     Some (\<lparr> wr_needs_interrupt = True, wr_completed = [io] \<rparr>,
           b\<lparr> vb_backing := backing', vb_interrupt_status := vb_interrupt_status b OR 1,
              vb_queue := (vb_queue b)\<lparr> vq_last_avail_idx := vq_last_avail_idx (vb_queue b) + 1 \<rparr> \<rparr>,
           push_used gm (vb_queue b) head used_len m')"
proof -
  have step: "vq_last_avail_idx (vb_queue b) \<noteq> vq_last_avail_idx (vb_queue b) + 1" by simp
  have "queue_loop gm fi elapsed (vq_last_avail_idx (vb_queue b) + 1) b m [] =
     Some ([io], b\<lparr> vb_backing := backing',
       vb_queue := (vb_queue b)\<lparr> vq_last_avail_idx := vq_last_avail_idx (vb_queue b) + 1 \<rparr> \<rparr>,
       push_used gm (vb_queue b) head used_len m')"
    using assms step by (subst queue_loop.simps) (simp add: one_pending_def c16.dec_enc loop_ends Let_def)
  then show ?thesis
    using assms by (simp add: mmio_write_def process_queue_def one_pending_def c16.dec_enc c32.dec_enc c32.enc_width Let_def)
qed

context guest_region
begin

lemma push_used_image:
  assumes "vq_num q \<noteq> 0" and "unat (vq_used_ring q) + 4 + 8 * unat (vq_num q) \<le> length (img m)"
    and "length (img m) \<le> 2 ^ 63"
  shows "img (push_used gm q head used_len m) = used_image q head used_len (img m)"
proof -
  let ?u = "vq_used_ring q" and ?idx = "dec16 (peek (img m) (unat (vq_used_ring q) + 2) 2)"
  let ?e = "?u + (4 + ucast (?idx mod vq_num q) * 8)" and ?n = "unat (?idx mod vq_num q)"
  have n: "?n < unat (vq_num q)"
    using assms(1) by (simp add: unat_mod unat_gt_0)
  have num: "unat (vq_num q) < 65536"
    using unsigned_less [of "vq_num q", where ?'a = nat] by simp
  have u2: "unat (?u + 2) = unat ?u + 2"
    using unat_plus_small [of ?u 2] assms(2,3) by simp
  have "(ucast (?idx mod vq_num q) :: u64) = word_of_nat ?n"
    by (rule word_unat_eq_iff [THEN iffD2]) (use n num in \<open>simp add: unat_of_nat unat_u16_to_u64\<close>)
  then have ent: "?e = ?u + word_of_nat (4 + ?n * 8)" by simp
  have e: "unat ?e = unat ?u + 4 + ?n * 8"
    unfolding ent using unat_plus_small [of ?u "4 + ?n * 8"] n assms(2,3) by simp
  have e4: "unat (?e + 4) = unat ?u + 4 + ?n * 8 + 4"
    using unat_plus_small [of ?e 4] e n assms(2,3) by simp
  have idx: "gm_read_obj gm m (?u + 2) 2 = Inr (peek (img m) (unat ?u + 2) 2)"
    using read_obj_in [of "?u + 2" 2 m] u2 assms(1,2) n by simp
  define m1 where "m1 = stored m ?e (enc32 (ucast head))"
  define m2 where "m2 = stored m1 (?e + 4) (enc32 used_len)"
  have w1: "gm_write_obj gm m ?e (enc32 (ucast head)) = (Inr (), m1)"
    and i1: "img m1 = poke (img m) (unat ?e) (enc32 (ucast head))"
    unfolding m1_def using write_obj_stored [of ?e "enc32 (ucast head)" m] e n assms(2) by (auto simp: c32.enc_width)
  have l1: "length (img m1) = length (img m)"
    unfolding i1 using e n assms(2) by (intro length_poke) (simp add: c32.enc_width)
  have w2: "gm_write_obj gm m1 (?e + 4) (enc32 used_len) = (Inr (), m2)"
    and i2: "img m2 = poke (img m1) (unat (?e + 4)) (enc32 used_len)"
    unfolding m2_def using write_obj_stored [of "?e + 4" "enc32 used_len" m1] e4 l1 n assms(2)
    by (auto simp: c32.enc_width)
  have l2: "length (img m2) = length (img m)"
    unfolding i2 l1 [symmetric] using e4 l1 n assms(2) by (intro length_poke) (simp add: c32.enc_width)
  have "img (snd (gm_write_obj gm m2 (?u + 2) (enc16 (?idx + 1)))) = poke (img m2) (unat ?u + 2) (enc16 (?idx + 1))"
    using write_obj_stored [of "?u + 2" "enc16 (?idx + 1)" m2] u2 l2 n assms(2) by (auto simp: c16.enc_width)
  then show ?thesis
    using w1 w2 i1 i2 e e4 by (simp add: push_used_def used_image_def idx Let_def)
qed

end

text \<open>
  C7. A driver that has put one read request into the available ring and notifies the device
  gets the sectors: the bytes of the disk from the sector on are scattered over the data
  buffers in chain order, the status byte is OK, the used ring carries the head of the chain
  and the number of bytes written, its index has moved by one; the device raises its interrupt,
  moves its own index by one and reports one read of that many bytes; the disk is untouched.
\<close>

theorem read_request_served:
  assumes "guest_region gm img" and "healthy fi" and "one_pending gm (vb_queue b) m head"
    and "request_at gm (vb_queue b) m head VIRTIO_BLK_T_IN sector ds sd"
    and "\<forall>d \<in> set ds. writable d" and "buffers_in ds (length (img m))" and "unat (vd_addr sd) < length (img m)"
    and "unat sector * 512 + total_len ds \<le> length (vb_backing b)" and "length (vb_backing b) < 2 ^ 63"
    and "total_len ds + 1 < 2 ^ 32" and "length (img m) \<le> 2 ^ 63"
    and "unat (vq_used_ring (vb_queue b)) + 4 + 8 * unat (vq_num (vb_queue b)) \<le> length (img m)"
  shows "\<exists>m'. mmio_write gm fi elapsed b REG_QUEUE_NOTIFY (enc32 0) m =
      Some (\<lparr> wr_needs_interrupt = True,
               wr_completed = [\<lparr> ci_op = IoRead, ci_bytes = word_of_nat (total_len ds),
                                 ci_duration_ns = elapsed (vq_last_avail_idx (vb_queue b)) \<rparr>] \<rparr>,
            b\<lparr> vb_interrupt_status := vb_interrupt_status b OR 1,
               vb_queue := (vb_queue b)\<lparr> vq_last_avail_idx := vq_last_avail_idx (vb_queue b) + 1 \<rparr> \<rparr>, m') \<and>
    img m' = used_image (vb_queue b) head (word_of_nat (Suc (total_len ds)))
      (poke (scatter ds (drop (unat sector * 512) (vb_backing b)) (img m)) (unat (vd_addr sd)) [VIRTIO_BLK_S_OK])"
proof -
  let ?q = "vb_queue b" and ?bytes = "drop (unat sector * 512) (vb_backing b)"
  obtain m' where m': "process_request gm fi (elapsed (vq_last_avail_idx ?q)) ?q head (vb_backing b) m =
      Some ((word_of_nat (Suc (total_len ds)),
             Some \<lparr> ci_op = IoRead, ci_bytes = word_of_nat (total_len ds), ci_duration_ns = elapsed (vq_last_avail_idx ?q) \<rparr>),
            vb_backing b, m')"
    "img m' = poke (scatter ds ?bytes (img m)) (unat (vd_addr sd)) [VIRTIO_BLK_S_OK]"
    using guest_region.read_request [OF assms(1,2,4-10)] by blast
  have "length (scatter ds ?bytes (img m)) = length (img m)"
    using assms(6,8) by (intro scatter_length) auto
  then have "length (img m') = length (img m)"
    using m'(2) assms(7) by (simp add: length_poke)
  then have "img (push_used gm ?q head (word_of_nat (Suc (total_len ds))) m')
      = used_image ?q head (word_of_nat (Suc (total_len ds))) (img m')"
    using guest_region.push_used_image [OF assms(1), of ?q m'] assms(3,11,12) by (simp add: one_pending_def)
  then show ?thesis
    using notify_one [where elapsed = elapsed, OF assms(3) m'(1)] m'(2) by simp
qed

text \<open>
  C8. What a write request puts on the disk, a read request for the same sector brings back,
  from any memory, in any queue and split over other buffers, as long as the buffers are as
  long together. The disk grows when the write ends beyond it: nothing compares a request
  with the capacity that the device advertises.
\<close>

theorem written_sectors_read_back:
  assumes "guest_region gm img" and "healthy fi"
    and "request_at gm q m head VIRTIO_BLK_T_OUT sector ds sd" and "\<forall>d \<in> set ds. \<not> writable d"
    and "buffers_in ds (length (img m))" and "unat (vd_addr sd) < length (img m)"
    and "request_at gm q2 m2 head2 VIRTIO_BLK_T_IN sector ds2 sd2" and "\<forall>d \<in> set ds2. writable d"
    and "buffers_in ds2 (length (img m2))" and "unat (vd_addr sd2) < length (img m2)"
    and "total_len ds2 = total_len ds" and "0 < total_len ds" and "total_len ds + 1 < 2 ^ 32"
    and "unat sector * 512 + total_len ds < 2 ^ 63" and "length backing < 2 ^ 63"
  shows "\<exists>used io backing' m'. process_request gm fi elapsed q head backing m = Some ((used, io), backing', m') \<and>
    length backing' = max (length backing) (unat sector * 512 + total_len ds) \<and>
    (\<exists>used2 io2 m3. process_request gm fi elapsed2 q2 head2 backing' m2 = Some ((used2, io2), backing', m3) \<and>
       img m3 = poke (scatter ds2 (gather ds (img m)) (img m2)) (unat (vd_addr sd2)) [VIRTIO_BLK_S_OK])"
proof -
  let ?backing = "file_put backing (unat sector * 512) (gather ds (img m))"
  have len: "length (gather ds (img m)) = total_len ds"
    using assms(5) by (rule gather_length)
  then have bytes: "gather ds (img m) \<noteq> []" using assms(12) by auto
  have size: "length ?backing = max (length backing) (unat sector * 512 + total_len ds)"
    using file_put_length [OF bytes] len by simp
  have got: "take (total_len ds2) (drop (unat sector * 512) ?backing) = gather ds (img m)"
    using file_put_read [OF bytes, of "unat sector * 512" backing] len assms(11) by simp
  obtain m' where "process_request gm fi elapsed q head backing m =
      Some ((1, Some \<lparr> ci_op = IoWrite, ci_bytes = word_of_nat (total_len ds), ci_duration_ns = elapsed \<rparr>), ?backing, m')"
    using guest_region.write_request [OF assms(1-6,14), of elapsed backing] by blast
  moreover obtain m3 where "process_request gm fi elapsed2 q2 head2 ?backing m2 =
      Some ((word_of_nat (Suc (total_len ds2)),
             Some \<lparr> ci_op = IoRead, ci_bytes = word_of_nat (total_len ds2), ci_duration_ns = elapsed2 \<rparr>), ?backing, m3)"
    "img m3 = poke (scatter ds2 (drop (unat sector * 512) ?backing) (img m2)) (unat (vd_addr sd2)) [VIRTIO_BLK_S_OK]"
    using guest_region.read_request [OF assms(1,2,7-10), of ?backing elapsed2] size assms(11,13-15) by auto
  moreover have "scatter ds2 (drop (unat sector * 512) ?backing) (img m2) = scatter ds2 (gather ds (img m)) (img m2)"
    using scatter_take [of ds2 "total_len ds2" "drop (unat sector * 512) ?backing" "img m2"] got by simp
  ultimately show ?thesis using size by auto
qed

end
