(* ===== verification/Virtio_Driver.thy ===== *)
theory Virtio_Driver
  imports Virtio_Requests
begin

text \<open>
  The block device as a driver meets it: the registers a driver programs, a queue it lays out
  in a small memory, and the requests that go wrong.
\<close>

unbundle bit_operations_syntax

section \<open>Programming the queue\<close>

lemma low_mask: "(0x00000000FFFFFFFF :: u64) = mask 32" and high_mask: "(0xFFFFFFFF00000000 :: u64) = NOT (mask 32)"
  by (simp_all add: mask_eq_exp_minus_1)

lemma halves_of_address: "set_high (set_low w (ucast a)) (ucast (drop_bit 32 a)) = a"
  unfolding set_high_def set_low_def low_mask high_mask
proof (rule bit_word_eqI)
  fix n assume "n < LENGTH(64)"
  then show "bit ((((w AND NOT (mask 32)) OR ucast (ucast a :: u32)) AND mask 32)
      OR push_bit 32 (ucast (ucast (drop_bit 32 a) :: u32))) n = bit a n"
    by (cases "n < 32") (auto simp: bit_simps)
qed

text \<open>
  The register writes with which a driver brings up the device, in the order of the virtio
  specification: reset, ACKNOWLEDGE, DRIVER, the features it accepts, FEATURES_OK, the queue, and
  DRIVER_OK.
\<close>

definition driver_setup :: "u64 \<Rightarrow> u16 \<Rightarrow> u64 \<Rightarrow> u64 \<Rightarrow> u64 \<Rightarrow> (u64 \<times> u32) list" where
  "driver_setup features num desc avail used =
     [(REG_STATUS, 0), (REG_STATUS, 1), (REG_STATUS, 3),
      (REG_DEVICE_FEATURES_SEL, 1), (REG_DEVICE_FEATURES_SEL, 0),
      (REG_DRIVER_FEATURES_SEL, 0), (REG_DRIVER_FEATURES, ucast features),
      (REG_DRIVER_FEATURES_SEL, 1), (REG_DRIVER_FEATURES, ucast (drop_bit 32 features)),
      (REG_STATUS, 11),
      (REG_QUEUE_SEL, 0), (REG_QUEUE_NUM, ucast num),
      (REG_QUEUE_DESC_LOW, ucast desc), (REG_QUEUE_DESC_HIGH, ucast (drop_bit 32 desc)),
      (REG_QUEUE_DRIVER_LOW, ucast avail), (REG_QUEUE_DRIVER_HIGH, ucast (drop_bit 32 avail)),
      (REG_QUEUE_DEVICE_LOW, ucast used), (REG_QUEUE_DEVICE_HIGH, ucast (drop_bit 32 used)),
      (REG_QUEUE_READY, 1), (REG_STATUS, 15)]"

fun write_registers :: "'m guest_ops \<Rightarrow> file_io \<Rightarrow> (u16 \<Rightarrow> u64) \<Rightarrow> (u64 \<times> u32) list \<Rightarrow> virtio_block \<Rightarrow> 'm \<Rightarrow>
    (virtio_block \<times> 'm) option" where
  "write_registers gm fi elapsed [] b m = Some (b, m)"
| "write_registers gm fi elapsed ((offset, val) # ws) b m =
     (case mmio_write gm fi elapsed b offset (enc32 val) m of
        None \<Rightarrow> None
      | Some (r, b', m') \<Rightarrow> write_registers gm fi elapsed ws b' m')"

lemma mmio_write_register:
  "offset \<noteq> REG_QUEUE_NOTIFY \<Longrightarrow>
     mmio_write gm fi elapsed b offset (enc32 val) m =
       Some (\<lparr> wr_needs_interrupt = False, wr_completed = [] \<rparr>, write_register b offset val, m)"
  by (simp add: mmio_write_def c32.dec_enc c32.enc_width)

lemma write_registers_quiet:
  "REG_QUEUE_NOTIFY \<notin> fst ` set ws \<Longrightarrow>
     write_registers gm fi elapsed ws b m = Some (fold (\<lambda>(offset, val) b. write_register b offset val) ws b, m)"
  by (induction ws arbitrary: b) (auto simp: mmio_write_register)

lemma there_and_back: "ucast (ucast (num :: u16) :: u32) = num"
  by (rule bit_word_eqI) (auto simp: bit_simps)

lemma clamp_num: "(ucast (min (ucast num :: u32) (ucast QUEUE_MAX_SIZE)) :: u16) = min num QUEUE_MAX_SIZE"
proof -
  have "unat (ucast num :: u32) = unat num"
    using u16_bound [of num] by (simp add: unsigned_ucast_eq take_bit_nat_eq_self)
  then show ?thesis
    by (auto simp: QUEUE_MAX_SIZE_def min_def word_le_nat_alt there_and_back)
qed

lemma low_complement: "(- 18446744069414584321 :: u64) = 0xFFFFFFFF"
  by simp

lemma accepted_features:
  "(((w AND 0xFFFFFFFF00000000) OR ucast (ucast f :: u32)) AND NOT 0xFFFFFFFF00000000)
     OR push_bit 32 (ucast (ucast (drop_bit 32 f) :: u32)) = (f :: u64)"
  using halves_of_address [of w f]
  by (simp add: set_high_def set_low_def low_complement)

lemma driver_writes:
  "fold (\<lambda>(offset, val) b. write_register b offset val) (driver_setup features num desc avail used) b =
      b\<lparr> vb_status := 15, vb_device_features_sel := 0, vb_driver_features := features,
         vb_driver_features_sel := 1, vb_interrupt_status := 0,
         vb_queue := \<lparr> vq_num = min num 128, vq_ready = True, vq_desc_table = desc,
                       vq_avail_ring = avail, vq_used_ring = used, vq_last_avail_idx = 0 \<rparr> \<rparr>"
  using accepted_features [of 0] clamp_num [of num]
  by (simp add: driver_setup_def write_register_def reg_defs reset_def queue_new_def Let_def
      halves_of_address) (simp add: QUEUE_MAX_SIZE_def)

text \<open>
  C32. The register writes of a driver that follows the specification, reset and status writes
  included, leave the device with the queue at the addresses the driver chose, each put together
  from its two 32-bit halves, with at most 128 descriptors and nothing consumed, with the features it
  accepted, and with the disk and the memory untouched. A reset of a device in any state clears
  the status, the features and their selectors, the interrupt status and every field of the queue, so
  that a new device that was set up and then reset is again as it was when new.
\<close>

theorem driver_configures_queue:
  "write_registers gm fi elapsed (driver_setup features num desc avail used) b m =
     Some (b\<lparr> vb_status := 15, vb_device_features_sel := 0, vb_driver_features := features,
              vb_driver_features_sel := 1, vb_interrupt_status := 0,
              vb_queue := \<lparr> vq_num = min num 128, vq_ready = True, vq_desc_table = desc, vq_avail_ring = avail,
                            vq_used_ring = used, vq_last_avail_idx = 0 \<rparr> \<rparr>, m) \<and>
   write_registers gm fi elapsed [(REG_STATUS, 0)] b' m' =
     Some (b'\<lparr> vb_status := 0, vb_device_features_sel := 0, vb_driver_features := 0,
              vb_driver_features_sel := 0, vb_interrupt_status := 0,
              vb_queue := \<lparr> vq_num = 0, vq_ready = False, vq_desc_table = 0, vq_avail_ring = 0,
                            vq_used_ring = 0, vq_last_avail_idx = 0 \<rparr> \<rparr>, m') \<and>
   write_registers gm fi elapsed (driver_setup features num desc avail used @ [(REG_STATUS, 0)]) (block_on backing) m =
     Some (block_on backing, m)"
proof -
  let ?set = "driver_setup features num desc avail used"
  have quiet: "REG_QUEUE_NOTIFY \<notin> fst ` set ?set" "REG_QUEUE_NOTIFY \<notin> fst ` set (?set @ [(REG_STATUS, 0)])"
    by (simp_all add: driver_setup_def reg_defs)
  have again: "write_registers gm fi elapsed [(REG_STATUS, 0)] b m = Some (reset b, m)" for b m
    by (simp add: mmio_write_register reg_defs) (simp add: write_register_def reg_defs)
  have "write_registers gm fi elapsed (?set @ [(REG_STATUS, 0)]) (block_on backing) m =
      Some (reset (fold (\<lambda>(offset, val) b. write_register b offset val) ?set (block_on backing)), m)"
    using write_registers_quiet [OF quiet(2)] by (simp add: write_register_def reg_defs Let_def)
  moreover have "reset (fold (\<lambda>(offset, val) b. write_register b offset val) ?set (block_on backing)) = block_on backing"
    by (simp add: driver_writes reset_def block_on_def)
  ultimately show ?thesis
    using write_registers_quiet [OF quiet(1)] again driver_writes
    by (simp add: reset_def queue_new_def)
qed

section \<open>A small memory\<close>

text \<open>
  One request in 165 bytes: the descriptors from 0, the available ring at 64, the used ring at
  96, the header at 144, four bytes of data at 160 and the status byte at 164.
\<close>

definition demo_queue :: virt_queue where
  "demo_queue = \<lparr> vq_num = 4, vq_ready = True, vq_desc_table = 0, vq_avail_ring = 64, vq_used_ring = 96,
     vq_last_avail_idx = 0 \<rparr>"

definition demo_data :: "u16 \<Rightarrow> virtq_desc" where
  "demo_data flags = \<lparr> vd_addr = 160, vd_len = 4, vd_flags = flags, vd_next = 2 \<rparr>"

definition demo_status :: virtq_desc where
  "demo_status = \<lparr> vd_addr = 164, vd_len = 1, vd_flags = 2, vd_next = 0 \<rparr>"

definition demo_memory :: "u32 \<Rightarrow> u16 \<Rightarrow> u64 \<Rightarrow> u8 list" where
  "demo_memory type flags sector =
     desc_bytes \<lparr> vd_addr = 144, vd_len = 16, vd_flags = 1, vd_next = 1 \<rparr> @ desc_bytes (demo_data flags) @
     desc_bytes demo_status @ replicate 16 0 @ enc16 0 @ enc16 1 @ replicate 28 0 @ replicate 48 0 @
     hdr_bytes type sector @ [1, 2, 3, 4, 255]"

definition demo_disk :: virtio_block where
  "demo_disk = \<lparr> vb_backing = [10, 20, 30, 40, 50, 60], vb_capacity_sectors = 0, vb_status = 15,
     vb_device_features_sel = 0, vb_driver_features = DEVICE_FEATURES, vb_driver_features_sel = 1,
     vb_interrupt_status = 0, vb_config_generation = 0, vb_queue = demo_queue \<rparr>"

lemma desc_of_bytes: "desc_of (desc_bytes d) = d"
  using c64.load_append [of "[]" 0 "vd_addr d" "enc32 (vd_len d) @ enc16 (vd_flags d) @ enc16 (vd_next d)"]
    c32.load_append [of "enc64 (vd_addr d)" 8 "vd_len d" "enc16 (vd_flags d) @ enc16 (vd_next d)"]
    c16.load_append [of "enc64 (vd_addr d) @ enc32 (vd_len d)" 12 "vd_flags d" "enc16 (vd_next d)"]
    c16.load_append [of "enc64 (vd_addr d) @ enc32 (vd_len d) @ enc16 (vd_flags d)" 14 "vd_next d" "[]"]
  by (simp add: desc_of_def desc_bytes_def c64.enc_width c32.enc_width c16.enc_width)

lemma desc_bytes_length: "length (desc_bytes d) = 16"
  by (simp add: desc_bytes_def c64.enc_width c32.enc_width c16.enc_width)

lemma hdr_bytes_length: "length (hdr_bytes type sector) = 16"
  by (simp add: hdr_bytes_def c64.enc_width c32.enc_width)

lemma demo_memory_length: "length (demo_memory type flags sector) = 165"
  by (simp add: demo_memory_def desc_bytes_length hdr_bytes_length c16.enc_width)

lemma flat_read_obj: "unat a + n \<le> length m \<Longrightarrow> gm_read_obj flat_ops m a n = Inr (peek m (unat a) n)"
  by (simp add: flat_ops_def)

lemma demo_descriptors:
  "read_desc flat_ops demo_queue (demo_memory type flags sector) 0
     = Some \<lparr> vd_addr = 144, vd_len = 16, vd_flags = 1, vd_next = 1 \<rparr>"
  "read_desc flat_ops demo_queue (demo_memory type flags sector) 1 = Some (demo_data flags)"
  "read_desc flat_ops demo_queue (demo_memory type flags sector) 2 = Some demo_status"
  by (simp_all add: read_desc_def demo_queue_def flat_read_obj demo_memory_length word_le_nat_alt)
    (simp_all add: demo_memory_def peek_skip peek_append_left peek_all desc_bytes_length desc_of_bytes)

lemma demo_request_at:
  assumes "flags AND VIRTQ_DESC_F_NEXT \<noteq> 0"
  shows "request_at flat_ops demo_queue (demo_memory type flags sector) 0 type sector [demo_data flags] demo_status"
proof -
  have "walk_fuel 3 flat_ops demo_queue (demo_memory type flags sector)
      \<lparr> vd_addr = 144, vd_len = 16, vd_flags = 1, vd_next = 1 \<rparr> [] = Some [demo_data flags, demo_status]"
    using assms demo_descriptors
    by (simp add: numeral_3_eq_3 VIRTQ_DESC_F_NEXT_def demo_data_def demo_status_def)
  then have "walk_chain flat_ops demo_queue (demo_memory type flags sector)
      \<lparr> vd_addr = 144, vd_len = 16, vd_flags = 1, vd_next = 1 \<rparr> [] = Some [demo_data flags, demo_status]"
    by (rule walk_fuel_sound)
  moreover have "gm_read_obj flat_ops (demo_memory type flags sector) 144 16 = Inr (hdr_bytes type sector)"
    by (simp add: flat_read_obj demo_memory_length)
      (simp add: demo_memory_def peek_skip peek_append_left peek_all desc_bytes_length hdr_bytes_length c16.enc_width)
  ultimately show ?thesis
    using demo_descriptors(1)
    by (simp add: request_at_def demo_status_def writable_def VIRTQ_DESC_F_WRITE_def)
qed

lemma demo_pending: "one_pending flat_ops demo_queue (demo_memory type flags sector) 0"
  by (simp add: one_pending_def demo_queue_def flat_read_obj demo_memory_length)
    (simp add: demo_memory_def peek_skip peek_append_left peek_all desc_bytes_length c16.enc_width enc16_def
      peek_def numeral_2_eq_2)

theorem read_request_served_witness:
  "\<exists>m'. mmio_write flat_ops no_faults (\<lambda>i. 7) demo_disk REG_QUEUE_NOTIFY (enc32 0)
       (demo_memory VIRTIO_BLK_T_IN 3 0) =
     Some (\<lparr> wr_needs_interrupt = True,
              wr_completed = [\<lparr> ci_op = IoRead, ci_bytes = word_of_nat (total_len [demo_data 3]), ci_duration_ns = 7 \<rparr>] \<rparr>,
           demo_disk\<lparr> vb_interrupt_status := vb_interrupt_status demo_disk OR 1,
              vb_queue := (vb_queue demo_disk)\<lparr> vq_last_avail_idx := vq_last_avail_idx (vb_queue demo_disk) + 1 \<rparr> \<rparr>, m') \<and>
     m' = used_image (vb_queue demo_disk) 0 (word_of_nat (Suc (total_len [demo_data 3])))
       (poke (scatter [demo_data 3] (drop (unat (0 :: u64) * 512) (vb_backing demo_disk)) (demo_memory VIRTIO_BLK_T_IN 3 0))
         (unat (vd_addr demo_status)) [VIRTIO_BLK_S_OK])"
proof (rule read_request_served [OF flat.guest_region_axioms healthy_no_faults])
  show "one_pending flat_ops (vb_queue demo_disk) (demo_memory VIRTIO_BLK_T_IN 3 0) 0"
    by (simp add: demo_disk_def demo_pending)
  show "request_at flat_ops (vb_queue demo_disk) (demo_memory VIRTIO_BLK_T_IN 3 0) 0 VIRTIO_BLK_T_IN 0 [demo_data 3] demo_status"
    by (simp add: demo_disk_def demo_request_at VIRTQ_DESC_F_NEXT_def)
qed (simp_all add: demo_memory_length demo_disk_def demo_queue_def demo_data_def demo_status_def writable_def
    VIRTQ_DESC_F_WRITE_def)

theorem written_sectors_read_back_witness:
  "\<exists>used io backing' m'. process_request flat_ops no_faults 7 demo_queue 0 [10, 20] (demo_memory VIRTIO_BLK_T_OUT 1 0)
       = Some ((used, io), backing', m') \<and>
    length backing' = max (length [10, 20 :: u8]) (unat (0 :: u64) * 512 + total_len [demo_data 1]) \<and>
    (\<exists>used2 io2 m3. process_request flat_ops no_faults 8 demo_queue 0 backing' (demo_memory VIRTIO_BLK_T_IN 3 0)
         = Some ((used2, io2), backing', m3) \<and>
       m3 = poke (scatter [demo_data 3] (gather [demo_data 1] (demo_memory VIRTIO_BLK_T_OUT 1 0))
         (demo_memory VIRTIO_BLK_T_IN 3 0)) (unat (vd_addr demo_status)) [VIRTIO_BLK_S_OK])"
proof (rule written_sectors_read_back [OF flat.guest_region_axioms healthy_no_faults])
  show "request_at flat_ops demo_queue (demo_memory VIRTIO_BLK_T_OUT 1 0) 0 VIRTIO_BLK_T_OUT 0 [demo_data 1] demo_status"
    by (simp add: demo_request_at VIRTQ_DESC_F_NEXT_def)
  show "request_at flat_ops demo_queue (demo_memory VIRTIO_BLK_T_IN 3 0) 0 VIRTIO_BLK_T_IN 0 [demo_data 3] demo_status"
    by (simp add: demo_request_at VIRTQ_DESC_F_NEXT_def)
qed (simp_all add: demo_memory_length demo_data_def demo_status_def writable_def VIRTQ_DESC_F_WRITE_def)

section \<open>Requests that go wrong\<close>

text \<open>The product that gives the offset of a sector wraps around: a sector is its number modulo 2 ^ 55.\<close>

lemma sector_offset_wraps: "(sector + 2 ^ 55) * SECTOR_SIZE = sector * SECTOR_SIZE"
proof -
  have "2 ^ 55 * SECTOR_SIZE = 0" by (simp add: SECTOR_SIZE_def word_unat_eq_iff)
  then show ?thesis by (simp only: distrib_right add_0_right)
qed

lemma sector_wraps:
  "handle_read gm fi backing (sector + 2 ^ 55) ds m = handle_read gm fi backing sector ds m"
  "handle_write gm fi (sector + 2 ^ 55) ds m backing = handle_write gm fi sector ds m backing"
  by (simp_all only: handle_read_def handle_write_def sector_offset_wraps)

text \<open>A descriptor that names itself as the next one holds up the device for good.\<close>

lemma self_linked_chain_hangs:
  assumes "read_desc gm q m i = Some d" and "vd_flags d AND VIRTQ_DESC_F_NEXT \<noteq> 0" and "vd_next d = i"
  shows "walk_chain gm q m d ds = None"
  using walk_closed [of gm q m d ds _ "{i}"] assms by (cases "walk_chain gm q m d ds") (auto simp: closed_links_def)

text \<open>
  A chain whose header descriptor is too short goes back to the driver with length 0 and without
  a status byte, and the driver gets no interrupt for it.
\<close>

lemma short_header_silent:
  assumes "one_pending gm (vb_queue b) m head" and "read_desc gm (vb_queue b) m head = Some h" and "vd_len h < 16"
  shows "mmio_write gm fi elapsed b REG_QUEUE_NOTIFY (enc32 0) m =
     Some (\<lparr> wr_needs_interrupt = False, wr_completed = [] \<rparr>,
           b\<lparr> vb_queue := (vb_queue b)\<lparr> vq_last_avail_idx := vq_last_avail_idx (vb_queue b) + 1 \<rparr> \<rparr>,
           push_used gm (vb_queue b) head 0 m)"
proof -
  have step: "vq_last_avail_idx (vb_queue b) \<noteq> vq_last_avail_idx (vb_queue b) + 1" by simp
  have "process_request gm fi e (vb_queue b) head backing m = Some ((0, None), backing, m)" for e backing
    using assms(2,3) by (simp add: process_request_def)
  then have "queue_loop gm fi elapsed (vq_last_avail_idx (vb_queue b) + 1) b m [] =
     Some ([], b\<lparr> vb_queue := (vb_queue b)\<lparr> vq_last_avail_idx := vq_last_avail_idx (vb_queue b) + 1 \<rparr> \<rparr>,
       push_used gm (vb_queue b) head 0 m)"
    using assms(1) step by (subst queue_loop.simps) (simp add: one_pending_def c16.dec_enc loop_ends Let_def)
  then show ?thesis
    using assms(1)
    by (simp add: mmio_write_def process_queue_def one_pending_def c16.dec_enc c32.dec_enc c32.enc_width Let_def)
qed

end
