(* ===== verification/Boot_Setup.thy ===== *)
theory Boot_Setup
  imports Guest_Memory
begin

text \<open>
  What the demo VMM puts into guest memory and registers before the first instruction: the
  page tables, the descriptor table and the segment registers of
  \<open>rondo-demo-vmm/src/vcpu.rs\<close>, the boot parameters of \<open>rondo-demo-vmm/src/vmm.rs\<close>. The
  walk of a processor over page tables is the reference for the first; KVM's calls and the
  layout of \<open>boot_params\<close>, which belong to other crates, are parameters.
\<close>

unbundle bit_operations_syntax

section \<open>Addresses\<close>

definition BOOT_PARAMS_ADDR :: u64 where "BOOT_PARAMS_ADDR = 0x7000"
definition GDT_ADDR :: u64 where "GDT_ADDR = 0x500"
definition PML4_ADDR :: u64 where "PML4_ADDR = 0x9000"
definition PDPT_ADDR :: u64 where "PDPT_ADDR = 0xA000"
definition PD_ADDR :: u64 where "PD_ADDR = 0xB000"
definition BOOT_STACK_ADDR :: u64 where "BOOT_STACK_ADDR = 0x8FF0"
definition CMDLINE_ADDR :: u64 where "CMDLINE_ADDR = 0x20000"
definition HIMEM_START :: u64 where "HIMEM_START = 0x100000"

datatype vmm_error = Kvm string | Memory string | KernelLoad string | VmmIo io_error | Metrics rondo_error

section \<open>Writing objects\<close>

text \<open>The first refused write ends the sequence; its message carries what was written.\<close>

fun write_objs :: "'m guest_ops \<Rightarrow> (string \<times> u64 \<times> u8 list) list \<Rightarrow> 'm \<Rightarrow> (vmm_error + unit) \<times> 'm" where
  "write_objs gm [] m = (Inr (), m)"
| "write_objs gm ((what, a, bs) # ws) m =
     (case gm_write_obj gm m a bs of
        (Inl e, m') \<Rightarrow> (Inl (Memory (what @ '': '' @ e)), m')
      | (Inr u, m') \<Rightarrow> write_objs gm ws m')"

definition pokes :: "(string \<times> u64 \<times> u8 list) list \<Rightarrow> u8 list \<Rightarrow> u8 list" where
  "pokes ws mem = fold (\<lambda>(what, a, bs) mem. poke mem (unat a) bs) ws mem"

definition writes_in :: "(string \<times> u64 \<times> u8 list) list \<Rightarrow> nat \<Rightarrow> bool" where
  "writes_in ws n \<longleftrightarrow> list_all (\<lambda>(what, a, bs). unat a + length bs \<le> n) ws"

lemma pokes_simps [simp]:
  "pokes [] mem = mem" "pokes ((what, a, bs) # ws) mem = pokes ws (poke mem (unat a) bs)"
  "writes_in [] n" "writes_in ((what, a, bs) # ws) n \<longleftrightarrow> unat a + length bs \<le> n \<and> writes_in ws n"
  by (simp_all add: pokes_def writes_in_def)

lemma pokes_append: "pokes (xs @ ys) mem = pokes ys (pokes xs mem)"
  by (simp add: pokes_def)

lemma pokes_length: "writes_in ws (length mem) \<Longrightarrow> length (pokes ws mem) = length mem"
  by (induction ws arbitrary: mem) (auto simp: length_poke)

lemma pokes_elsewhere:
  assumes "writes_in ws (length mem)"
    and "\<forall>(what, a, bs) \<in> set ws. b + n \<le> unat a \<or> unat a + length bs \<le> b"
  shows "peek (pokes ws mem) b n = peek mem b n"
  using assms
proof (induction ws arbitrary: mem)
  case (Cons w ws)
  obtain what a bs where w: "w = (what, a, bs)" by (cases w)
  then show ?case
    using Cons.IH [of "poke mem (unat a) bs"] Cons.prems by (simp add: length_poke peek_poke_disjoint)
qed simp

text \<open>A write that no later one overlaps is what stands in the memory.\<close>

lemma pokes_at:
  assumes "writes_in (xs @ (what, a, bs) # ys) (length mem)"
    and "\<forall>(what, b, cs) \<in> set ys. unat a + length bs \<le> unat b \<or> unat b + length cs \<le> unat a"
  shows "peek (pokes (xs @ (what, a, bs) # ys) mem) (unat a) (length bs) = bs"
proof -
  let ?m = "pokes xs mem"
  have len: "length ?m = length mem" and ys: "writes_in ys (length mem)" and a: "unat a + length bs \<le> length mem"
    using assms(1) pokes_length [of xs mem] by (simp_all add: writes_in_def)
  have "peek (pokes ys (poke ?m (unat a) bs)) (unat a) (length bs) = peek (poke ?m (unat a) bs) (unat a) (length bs)"
    using assms(2) ys len a by (intro pokes_elsewhere) (auto simp: length_poke)
  then show ?thesis
    using len a by (simp add: pokes_append peek_poke_same)
qed

context guest_region
begin

lemma write_objs_pokes:
  assumes "writes_in ws (length (img m))"
  shows "\<exists>m'. write_objs gm ws m = (Inr (), m') \<and> img m' = pokes ws (img m)"
  using assms
proof (induction ws arbitrary: m)
  case (Cons w ws)
  obtain what a bs where w: "w = (what, a, bs)" by (cases w)
  obtain m1 where m1: "gm_write_obj gm m a bs = (Inr (), m1)" "img m1 = poke (img m) (unat a) bs"
    using write_obj_in [of a bs m] Cons.prems by (auto simp: w)
  then have "writes_in ws (length (img m1))"
    using Cons.prems by (simp add: w length_poke)
  then show ?case
    using Cons.IH [of m1] m1 by (auto simp: w)
qed simp

end

section \<open>Page tables\<close>

definition page_tables :: "(string \<times> u64 \<times> u8 list) list" where
  "page_tables =
     [(''PML4'', PML4_ADDR, enc64 (PDPT_ADDR OR 0x03)), (''PDPT'', PDPT_ADDR, enc64 (PD_ADDR OR 0x03))] @
     map (\<lambda>i. (''PD['' @ fmt_nat i @ '']'', PD_ADDR + word_of_nat i * 8, enc64 (push_bit 21 (word_of_nat i) OR 0x83)))
       [0..<512]"

definition setup_page_tables :: "'m guest_ops \<Rightarrow> 'm \<Rightarrow> (vmm_error + unit) \<times> 'm" where
  "setup_page_tables gm m = write_objs gm page_tables m"

text \<open>
  The reference: how an x86-64 processor with four-level paging translates a virtual address.
  A table index is nine bits of the address; bit 0 of an entry says that it is present, bit 7
  that it maps a large page.
\<close>

definition table_index :: "u64 \<Rightarrow> nat \<Rightarrow> u64" where
  "table_index va level = drop_bit level va AND 0x1FF"

definition entry_at :: "u8 list \<Rightarrow> u64 \<Rightarrow> u64 \<Rightarrow> u64" where
  "entry_at mem table index = dec64 (peek mem (unat (table + index * 8)) 8)"

definition frame_of :: "u64 \<Rightarrow> nat \<Rightarrow> u64" where
  "frame_of e level = e AND (mask 52 AND NOT (mask level))"

definition translate :: "u8 list \<Rightarrow> u64 \<Rightarrow> u64 \<Rightarrow> u64 option" where
  "translate mem cr3 va =
     (let pml4e = entry_at mem cr3 (table_index va 39) in
      if \<not> bit pml4e 0 then None
      else let pdpte = entry_at mem (frame_of pml4e 12) (table_index va 30) in
      if \<not> bit pdpte 0 then None
      else if bit pdpte 7 then Some (frame_of pdpte 30 OR (va AND mask 30))
      else let pde = entry_at mem (frame_of pdpte 12) (table_index va 21) in
      if \<not> bit pde 0 then None
      else if bit pde 7 then Some (frame_of pde 21 OR (va AND mask 21))
      else let pte = entry_at mem (frame_of pde 12) (table_index va 12) in
      if \<not> bit pte 0 then None else Some (frame_of pte 12 OR (va AND mask 12)))"

lemma page_tables_in: "0xC000 \<le> n \<Longrightarrow> writes_in page_tables n"
proof -
  assume n: "0xC000 \<le> n"
  have "unat (PD_ADDR + word_of_nat i * 8) + 8 \<le> n" if "i < 512" for i
    using that n by (simp add: PD_ADDR_def unat_word_ariths unat_of_nat)
  then show ?thesis
    using n by (simp add: page_tables_def writes_in_def PML4_ADDR_def PDPT_ADDR_def c64.enc_width list_all_iff)
qed

lemma directory_address: "i < 512 \<Longrightarrow> unat (PD_ADDR + word_of_nat i * 8) = 0xB000 + i * 8"
  by (simp add: PD_ADDR_def unat_word_ariths unat_of_nat)

lemma page_table_entries:
  assumes "0xC000 \<le> length mem"
  shows "entry_at (pokes page_tables mem) PML4_ADDR 0 = PDPT_ADDR OR 0x03"
    and "entry_at (pokes page_tables mem) PDPT_ADDR 0 = PD_ADDR OR 0x03"
    and "i < 512 \<Longrightarrow> entry_at (pokes page_tables mem) PD_ADDR (word_of_nat i) = push_bit 21 (word_of_nat i) OR 0x83"
proof -
  let ?pd = "\<lambda>i. (''PD['' @ fmt_nat i @ '']'', PD_ADDR + word_of_nat i * 8, enc64 (push_bit 21 (word_of_nat i) OR 0x83))"
  note inside = page_tables_in [OF assms]
  have pd: "\<forall>i \<in> {0..<512}. 0xB000 \<le> unat (PD_ADDR + word_of_nat i * 8)"
    using directory_address by auto
  then have pd': "\<forall>i \<in> {0..<512}. a \<le> 0xB000 \<longrightarrow> a \<le> unat (PD_ADDR + word_of_nat i * 8)" for a
    by (meson order_trans)
  have e1: "page_tables = [] @ (''PML4'', PML4_ADDR, enc64 (PDPT_ADDR OR 0x03)) #
      ((''PDPT'', PDPT_ADDR, enc64 (PD_ADDR OR 0x03)) # map ?pd [0..<512])"
    by (simp add: page_tables_def)
  have "peek (pokes page_tables mem) (unat PML4_ADDR) 8 = enc64 (PDPT_ADDR OR 0x03)"
    using pokes_at [OF inside [unfolded e1]] pd' [of "0x9008"] unfolding e1 [symmetric] c64.enc_width
    by (auto simp: PML4_ADDR_def PDPT_ADDR_def c64.enc_width)
  then show "entry_at (pokes page_tables mem) PML4_ADDR 0 = PDPT_ADDR OR 0x03"
    by (simp add: entry_at_def c64.dec_enc)
  have e2: "page_tables = [(''PML4'', PML4_ADDR, enc64 (PDPT_ADDR OR 0x03))] @
      (''PDPT'', PDPT_ADDR, enc64 (PD_ADDR OR 0x03)) # map ?pd [0..<512]"
    by (simp add: page_tables_def)
  have "peek (pokes page_tables mem) (unat PDPT_ADDR) 8 = enc64 (PD_ADDR OR 0x03)"
    using pokes_at [OF inside [unfolded e2]] pd' [of "0xA008"] unfolding e2 [symmetric] c64.enc_width
    by (auto simp: PDPT_ADDR_def c64.enc_width)
  then show "entry_at (pokes page_tables mem) PDPT_ADDR 0 = PD_ADDR OR 0x03"
    by (simp add: entry_at_def c64.dec_enc)
  assume i: "i < 512"
  then have "[0..<512] = [0..<i] @ i # [Suc i..<512]"
    by (metis le_add_same_cancel1 less_imp_le_nat upt_add_eq_append upt_conv_Cons zero_le le_add_diff_inverse)
  then have e3: "page_tables = ([(''PML4'', PML4_ADDR, enc64 (PDPT_ADDR OR 0x03)), (''PDPT'', PDPT_ADDR, enc64 (PD_ADDR OR 0x03))]
      @ map ?pd [0..<i]) @ ?pd i # map ?pd [Suc i..<512]"
    by (simp add: page_tables_def)
  have "peek (pokes page_tables mem) (unat (PD_ADDR + word_of_nat i * 8)) 8 = enc64 (push_bit 21 (word_of_nat i) OR 0x83)"
    using pokes_at [OF inside [unfolded e3]] i directory_address unfolding e3 [symmetric] c64.enc_width
    by auto
  then show "entry_at (pokes page_tables mem) PD_ADDR (word_of_nat i) = push_bit 21 (word_of_nat i) OR 0x83"
    by (simp add: entry_at_def c64.dec_enc)
qed

text \<open>The fields of the three kinds of entries.\<close>

lemma directory_entry_bits:
  assumes "i < 512"
  shows "bit (push_bit 21 (word_of_nat i) OR 0x83 :: u64) 0" and "bit (push_bit 21 (word_of_nat i) OR 0x83 :: u64) 7"
    and "frame_of (push_bit 21 (word_of_nat i) OR 0x83) 21 = push_bit 21 (word_of_nat i)"
proof -
  have low: "(0x83 :: u64) AND NOT (mask 21) = 0" "bit (0x83 :: u64) 0" "bit (0x83 :: u64) 7" by (simp_all add: mask_eq_exp_minus_1)
  then show "bit (push_bit 21 (word_of_nat i) OR 0x83 :: u64) 0" "bit (push_bit 21 (word_of_nat i) OR 0x83 :: u64) 7"
    by (simp_all add: bit_or_iff)
  have "i = take_bit 9 i"
    using assms by (simp add: take_bit_nat_eq_self)
  then have small: "\<not> bit i n" if "9 \<le> n" for n
    using that by (metis bit_take_bit_iff leD)
  then have small': "bit i (n - 21) \<Longrightarrow> n < 52" for n
    by (cases "n < 52") auto
  have none: "\<not> bit (0x83 AND NOT (mask 21) :: u64) n" for n
    by (simp only: low(1)) simp
  have "\<not> bit (0x83 :: u64) n" if "21 \<le> n" "n < 64" for n
    using none [of n] that by (auto simp: bit_simps)
  then show "frame_of (push_bit 21 (word_of_nat i) OR 0x83) 21 = push_bit 21 (word_of_nat i)"
    unfolding frame_of_def by (intro bit_word_eqI) (auto simp: bit_simps small dest: small')
qed

lemma table_entry_bits:
  "bit (PDPT_ADDR OR 0x03) 0" "frame_of (PDPT_ADDR OR 0x03) 12 = PDPT_ADDR"
  "bit (PD_ADDR OR 0x03) 0" "\<not> bit (PD_ADDR OR 0x03) 7" "frame_of (PD_ADDR OR 0x03) 12 = PD_ADDR"
  by (simp_all add: PDPT_ADDR_def PD_ADDR_def frame_of_def mask_eq_exp_minus_1)

lemma low_address:
  assumes "va < 2 ^ 30"
  shows "table_index va 39 = 0" and "table_index va 30 = 0" and "table_index va 21 = drop_bit 21 va"
    and "unat (drop_bit 21 va) < 512" and "push_bit 21 (drop_bit 21 va) OR (va AND mask 21) = va"
proof -
  have n: "unat va < 2 ^ 30" using assms by (simp add: word_less_nat_alt)
  have "va = take_bit 30 va"
    using n by (simp add: word_unat_eq_iff unsigned_take_bit_eq take_bit_nat_eq_self)
  then have high: "\<not> bit va k" if "30 \<le> k" for k
    using that by (metis bit_take_bit_iff leD)
  then have high': "bit va (21 + n) \<Longrightarrow> n < 9" for n
    using high [of "21 + n"] by (cases "n < 9") auto
  show "table_index va 39 = 0" "table_index va 30 = 0"
    unfolding table_index_def by (rule bit_word_eqI, simp add: bit_simps high)+
  have nine: "(0x1FF :: u64) = mask 9" by (simp add: mask_eq_exp_minus_1)
  show "table_index va 21 = drop_bit 21 va"
    unfolding table_index_def nine by (intro bit_word_eqI) (auto simp: bit_simps dest: high')
  show "unat (drop_bit 21 va) < 512"
    using n by (simp add: drop_bit_eq_div unat_div)
  show "push_bit 21 (drop_bit 21 va) OR (va AND mask 21) = va"
    by (rule bit_word_eqI) (auto simp: bit_simps)
qed

text \<open>In fresh memory the remaining entries of the two upper tables stay zero.\<close>

definition fresh_tables :: "u8 list \<Rightarrow> bool" where
  "fresh_tables mem \<longleftrightarrow> 0xC000 \<le> length mem \<and> peek mem 0x9000 0x2000 = replicate 0x2000 0"

lemma fresh_bytes:
  assumes "fresh_tables mem" and "a + 8 \<le> 0x2000"
  shows "peek mem (0x9000 + a) 8 = replicate 8 0"
proof -
  have "peek mem (0x9000 + a) 8 = take 8 (drop a (peek mem 0x9000 0x2000))"
    using assms(2) by (simp add: peek_def drop_take min_def add.commute)
  also have "\<dots> = replicate 8 0"
    using assms by (simp add: fresh_tables_def min_def)
  finally show ?thesis .
qed

lemma unused_entry:
  assumes "fresh_tables mem" and "table = PML4_ADDR \<or> table = PDPT_ADDR" and "0 < unat k" and "unat k < 512"
  shows "entry_at (pokes page_tables mem) table k = 0"
proof -
  have a: "unat (table + k * 8) = unat table + unat k * 8"
    using assms(2,4) by (auto simp: PML4_ADDR_def PDPT_ADDR_def unat_word_ariths)
  have room: "unat table = 0x9000 \<or> unat table = 0xA000"
    using assms(2) by (auto simp: PML4_ADDR_def PDPT_ADDR_def)
  have "\<forall>(what, b, cs) \<in> set page_tables. unat (table + k * 8) + 8 \<le> unat b \<or> unat b + length cs \<le> unat (table + k * 8)"
    using assms(3,4) room directory_address
    by (auto simp: a page_tables_def PML4_ADDR_def PDPT_ADDR_def c64.enc_width)
  then have "peek (pokes page_tables mem) (unat (table + k * 8)) 8 = peek mem (unat (table + k * 8)) 8"
    using assms(1) by (intro pokes_elsewhere page_tables_in) (auto simp: fresh_tables_def)
  also have "\<dots> = replicate 8 0"
    using fresh_bytes [OF assms(1), of "unat table + unat k * 8 - 0x9000"] room assms(4) by (auto simp: a)
  finally show ?thesis
    by (simp add: entry_at_def dec64_def numeral_eq_Suc)
qed

lemma index_bound: "unat (table_index va s) < 512"
proof -
  have "(0x1FF :: u64) = mask 9" by (simp add: mask_eq_exp_minus_1)
  then have "table_index va s = take_bit 9 (drop_bit s va)"
    by (simp add: table_index_def take_bit_eq_mask)
  then have "unat (table_index va s) = take_bit 9 (unat (drop_bit s va))"
    by (simp add: unsigned_take_bit_eq)
  then show ?thesis
    using take_bit_nat_less_exp [of 9 "unat (drop_bit s va)"] by simp
qed

lemma high_address:
  assumes "\<not> va < 2 ^ 30" and "va < 2 ^ 48" and "table_index va 39 = 0"
  shows "0 < unat (table_index va 30)"
proof (rule ccontr)
  assume "\<not> 0 < unat (table_index va 30)"
  then have zero: "table_index va 30 = 0" by (simp add: unat_gt_0)
  have "unat va < 2 ^ 48" using assms(2) by (simp add: word_less_nat_alt)
  then have "va = take_bit 48 va" by (simp add: word_unat_eq_iff unsigned_take_bit_eq take_bit_nat_eq_self)
  then have top: "\<not> bit va k" if "48 \<le> k" for k
    using that by (metis bit_take_bit_iff leD)
  have nine: "(0x1FF :: u64) = mask 9" by (simp add: mask_eq_exp_minus_1)
  have mid: "\<not> bit va (s + k)" if "table_index va s = 0" "k < 9" "s + k < 64" for s k
  proof -
    have "\<not> bit (drop_bit s va AND mask 9) k"
      using that(1) by (simp add: table_index_def nine)
    then show ?thesis using that by (auto simp: bit_simps)
  qed
  have "\<not> bit va k" if "30 \<le> k" for k
    using top [of k] mid [OF zero, of "k - 30"] mid [OF assms(3), of "k - 39"] that
    by (cases "k < 39"; cases "k < 48") auto
  then have "bit va k \<Longrightarrow> k < 30" for k
    by (meson not_le)
  then have "va = take_bit 30 va"
    by (intro bit_word_eqI) (auto simp: bit_simps)
  then have "unat va < 2 ^ 30"
    by (metis take_bit_nat_less_exp unsigned_take_bit_eq)
  then show False using assms(1) by (simp add: word_less_nat_alt)
qed

text \<open>What the walk of a processor finds in the three tables.\<close>

definition identity_tables :: "u8 list \<Rightarrow> bool" where
  "identity_tables mem \<longleftrightarrow>
     entry_at mem PML4_ADDR 0 = PDPT_ADDR OR 0x03 \<and> entry_at mem PDPT_ADDR 0 = PD_ADDR OR 0x03 \<and>
     (\<forall>i < 512. entry_at mem PD_ADDR (word_of_nat i) = push_bit 21 (word_of_nat i) OR 0x83) \<and>
     (\<forall>k. 0 < unat k \<longrightarrow> unat k < 512 \<longrightarrow> entry_at mem PML4_ADDR k = 0 \<and> entry_at mem PDPT_ADDR k = 0)"

lemma identity_tables_translate:
  assumes "identity_tables mem" and "va < 2 ^ 48"
  shows "translate mem PML4_ADDR va = (if va < 2 ^ 30 then Some va else None)"
proof (cases "va < 2 ^ 30")
  case True
  note low = low_address [OF True]
  have "word_of_nat (unat (drop_bit 21 va)) = drop_bit 21 va" by simp
  then have "entry_at mem PD_ADDR (drop_bit 21 va) = push_bit 21 (drop_bit 21 va) OR 0x83"
    using assms(1) low(4) unfolding identity_tables_def by metis
  then show ?thesis
    using directory_entry_bits [OF low(4)] table_entry_bits low assms(1) True
    by (simp add: translate_def identity_tables_def)
next
  case False
  show ?thesis
  proof (cases "table_index va 39 = 0")
    case True
    then have "entry_at mem PDPT_ADDR (table_index va 30) = 0"
      using high_address [OF False assms(2) True] assms(1) index_bound unfolding identity_tables_def by blast
    then show ?thesis
      using True False table_entry_bits(1,2) assms(1) by (simp add: translate_def identity_tables_def)
  next
    case other: False
    then have "entry_at mem PML4_ADDR (table_index va 39) = 0"
      using assms(1) index_bound unfolding identity_tables_def by (simp add: unat_gt_0)
    then show ?thesis using False by (simp add: translate_def)
  qed
qed

lemma identity_tables_cong:
  assumes "identity_tables mem" and "\<And>a n. 0x9000 \<le> a \<Longrightarrow> a + n \<le> 0xC000 \<Longrightarrow> peek mem' a n = peek mem a n"
  shows "identity_tables mem'"
proof -
  have e: "entry_at mem' table k = entry_at mem table k"
    if "table \<in> {PML4_ADDR, PDPT_ADDR, PD_ADDR}" "unat k < 512" for table k
  proof -
    have "unat (table + k * 8) = unat table + unat k * 8" "0x9000 \<le> unat table" "unat table \<le> 0xB000"
      using that by (auto simp: PML4_ADDR_def PDPT_ADDR_def PD_ADDR_def unat_word_ariths)
    then show ?thesis using that(2) by (simp add: entry_at_def assms(2))
  qed
  have "unat (word_of_nat i :: u64) < 512" if "i < 512" for i
    using that by (simp add: unat_of_nat)
  then show ?thesis
    using assms(1) e unfolding identity_tables_def by simp
qed

lemma page_tables_written:
  assumes "guest_region gm img" and "fresh_tables (img m)"
  shows "\<exists>m'. setup_page_tables gm m = (Inr (), m') \<and> identity_tables (img m') \<and> length (img m') = length (img m) \<and>
    (\<forall>a n. a + n \<le> 0x9000 \<or> 0xC000 \<le> a \<longrightarrow> peek (img m') a n = peek (img m) a n)"
proof -
  have len: "0xC000 \<le> length (img m)" using assms(2) by (simp add: fresh_tables_def)
  obtain m' where m': "setup_page_tables gm m = (Inr (), m')" "img m' = pokes page_tables (img m)"
    using guest_region.write_objs_pokes [OF assms(1) page_tables_in [OF len]] by (auto simp: setup_page_tables_def)
  have "peek (img m') a n = peek (img m) a n" if "a + n \<le> 0x9000 \<or> 0xC000 \<le> a" for a n
    unfolding m'(2) using that directory_address
    by (intro pokes_elsewhere page_tables_in [OF len]) (auto simp: page_tables_def PML4_ADDR_def PDPT_ADDR_def c64.enc_width)
  moreover have "identity_tables (img m')"
    using page_table_entries [OF len] unused_entry [OF assms(2)] by (simp add: identity_tables_def m'(2))
  ultimately show ?thesis
    using m' pokes_length [OF page_tables_in [OF len]] by auto
qed

text \<open>
  C30. The boot page tables map the first gigabyte onto itself and nothing else: in memory
  whose tables were zero the setup succeeds, and a processor that walks the tables translates
  every address below 2 ^ 30 to itself and faults on every other address of 48 bits; the bytes
  outside the three pages keep their values.
\<close>

theorem boot_page_tables:
  assumes "guest_region gm img" and "fresh_tables (img m)"
  shows "\<exists>m'. setup_page_tables gm m = (Inr (), m') \<and>
    (\<forall>va. va < 2 ^ 48 \<longrightarrow> translate (img m') PML4_ADDR va = (if va < 2 ^ 30 then Some va else None)) \<and>
    (\<forall>a n. a + n \<le> 0x9000 \<or> 0xC000 \<le> a \<longrightarrow> peek (img m') a n = peek (img m) a n)"
  using page_tables_written [OF assms] identity_tables_translate by blast

section \<open>Segments\<close>

definition gdt_entry :: "u16 \<Rightarrow> u32 \<Rightarrow> u32 \<Rightarrow> u64" where
  "gdt_entry flags base limit =
     (let b = ucast base; l = ucast limit; f = ucast flags in
      push_bit (56 - 24) (b AND 0xFF000000) OR push_bit 40 (f AND 0x0000F0FF)
        OR push_bit (48 - 16) (l AND 0x000F0000) OR push_bit 16 (b AND 0x00FFFFFF) OR (l AND 0x0000FFFF))"

definition GDT_NULL :: u64 where "GDT_NULL = 0"
definition GDT_CODE :: u64 where "GDT_CODE = gdt_entry 0xA09B 0 0xFFFFF"
definition GDT_DATA :: u64 where "GDT_DATA = gdt_entry 0xC093 0 0xFFFFF"

definition setup_gdt :: "'m guest_ops \<Rightarrow> 'm \<Rightarrow> (vmm_error + unit) \<times> 'm" where
  "setup_gdt gm m = write_objs gm
     [(''GDT null'', GDT_ADDR, enc64 GDT_NULL), (''GDT code'', GDT_ADDR + 8, enc64 GDT_CODE),
      (''GDT data'', GDT_ADDR + 16, enc64 GDT_DATA)] m"

record kvm_segment =
  sg_base :: u64
  sg_limit :: u32
  sg_selector :: u16
  sg_type :: u8
  sg_present :: u8
  sg_dpl :: u8
  sg_db :: u8
  sg_s :: u8
  sg_l :: u8
  sg_g :: u8
  sg_avl :: u8
  sg_unusable :: u8

record kvm_dtable =
  dt_base :: u64
  dt_limit :: u16

record kvm_sregs =
  sr_cs :: kvm_segment
  sr_ds :: kvm_segment
  sr_es :: kvm_segment
  sr_fs :: kvm_segment
  sr_gs :: kvm_segment
  sr_ss :: kvm_segment
  sr_gdt :: kvm_dtable
  sr_idt :: kvm_dtable
  sr_cr0 :: u64
  sr_cr3 :: u64
  sr_cr4 :: u64
  sr_efer :: u64

text \<open>The special registers with which a vCPU starts; the fields that are not named stay.\<close>

definition code_segment :: kvm_segment where
  "code_segment = \<lparr> sg_base = 0, sg_limit = 0xFFFFFFFF, sg_selector = 0x08, sg_type = 11, sg_present = 1,
     sg_dpl = 0, sg_db = 0, sg_s = 1, sg_l = 1, sg_g = 1, sg_avl = 0, sg_unusable = 0 \<rparr>"

definition data_segment :: kvm_segment where
  "data_segment = \<lparr> sg_base = 0, sg_limit = 0xFFFFFFFF, sg_selector = 0x10, sg_type = 3, sg_present = 1,
     sg_dpl = 0, sg_db = 1, sg_s = 1, sg_l = 0, sg_g = 1, sg_avl = 0, sg_unusable = 0 \<rparr>"

definition boot_sregs :: "'z kvm_sregs_scheme \<Rightarrow> 'z kvm_sregs_scheme" where
  "boot_sregs sregs = sregs\<lparr> sr_cr0 := 0x80000011, sr_cr3 := PML4_ADDR, sr_cr4 := 0x20, sr_efer := 0x500,
     sr_cs := code_segment, sr_ds := data_segment, sr_es := data_segment, sr_ss := data_segment,
     sr_fs := data_segment, sr_gs := data_segment, sr_gdt := \<lparr> dt_base = GDT_ADDR, dt_limit = 23 \<rparr>,
     sr_idt := \<lparr> dt_base = 0, dt_limit = 0 \<rparr> \<rparr>"

text \<open>
  The reference: the segment that a selector loads from the descriptor table in memory. The
  limit counts pages if the granularity bit is set.
\<close>

definition bits_of :: "u64 \<Rightarrow> nat \<Rightarrow> nat \<Rightarrow> nat" where
  "bits_of d low n = unat (drop_bit low d AND mask n)"

definition segment_of :: "u16 \<Rightarrow> u64 \<Rightarrow> kvm_segment" where
  "segment_of selector d =
     (let raw = bits_of d 0 16 + bits_of d 48 4 * 2 ^ 16; g = bits_of d 55 1 in
      \<lparr> sg_base = word_of_nat (bits_of d 16 24 + bits_of d 56 8 * 2 ^ 24),
        sg_limit = word_of_nat (if g = 1 then raw * 4096 + 4095 else raw),
        sg_selector = selector, sg_type = word_of_nat (bits_of d 40 4), sg_present = word_of_nat (bits_of d 47 1),
        sg_dpl = word_of_nat (bits_of d 45 2), sg_db = word_of_nat (bits_of d 54 1), sg_s = word_of_nat (bits_of d 44 1),
        sg_l = word_of_nat (bits_of d 53 1), sg_g = word_of_nat g, sg_avl = word_of_nat (bits_of d 52 1),
        sg_unusable = 0 \<rparr>)"

definition load_segment :: "u8 list \<Rightarrow> kvm_dtable \<Rightarrow> u16 \<Rightarrow> kvm_segment option" where
  "load_segment mem gdt selector =
     (if unat selector + 7 \<le> unat (dt_limit gdt) then
        Some (segment_of selector (dec64 (peek mem (unat (dt_base gdt) + unat selector) 8))) else None)"

lemma gdt_constants: "GDT_CODE = 0x00AF9B000000FFFF" "GDT_DATA = 0x00CF93000000FFFF"
  by (simp_all add: GDT_CODE_def GDT_DATA_def gdt_entry_def)

lemma segments_of_constants: "segment_of 0x08 GDT_CODE = code_segment" "segment_of 0x10 GDT_DATA = data_segment"
  by (simp_all add: gdt_constants segment_of_def bits_of_def mask_eq_exp_minus_1 code_segment_def data_segment_def Let_def)

text \<open>The table in memory, and the segments it gives.\<close>

definition gdt_in :: "u8 list \<Rightarrow> bool" where
  "gdt_in mem \<longleftrightarrow> peek mem 0x508 8 = enc64 GDT_CODE \<and> peek mem 0x510 8 = enc64 GDT_DATA"

lemma gdt_written:
  assumes "guest_region gm img" and "0x518 \<le> length (img m)"
  shows "\<exists>m'. setup_gdt gm m = (Inr (), m') \<and> gdt_in (img m') \<and> length (img m') = length (img m) \<and>
    (\<forall>a n. a + n \<le> 0x500 \<or> 0x518 \<le> a \<longrightarrow> peek (img m') a n = peek (img m) a n)"
proof -
  let ?ws = "[(''GDT null'', GDT_ADDR, enc64 GDT_NULL), (''GDT code'', GDT_ADDR + 8, enc64 GDT_CODE),
      (''GDT data'', GDT_ADDR + 16, enc64 GDT_DATA)]"
  have inside: "writes_in ?ws (length (img m))"
    using assms(2) by (simp add: GDT_ADDR_def c64.enc_width)
  then obtain m' where m': "setup_gdt gm m = (Inr (), m')" "img m' = pokes ?ws (img m)"
    using guest_region.write_objs_pokes [OF assms(1), of ?ws m] unfolding setup_gdt_def by blast
  have "gdt_in (img m')"
    unfolding m'(2) gdt_in_def using assms(2)
    by (simp add: GDT_ADDR_def c64.enc_width length_poke peek_poke_same peek_poke_disjoint)
  moreover have "peek (img m') a n = peek (img m) a n" if "a + n \<le> 0x500 \<or> 0x518 \<le> a" for a n
    unfolding m'(2) using that by (intro pokes_elsewhere inside) (auto simp: GDT_ADDR_def c64.enc_width)
  ultimately show ?thesis
    using m' pokes_length [OF inside] by auto
qed

definition segments_loaded :: "u8 list \<Rightarrow> 'z kvm_sregs_scheme \<Rightarrow> bool" where
  "segments_loaded mem sregs \<longleftrightarrow> (\<forall>seg \<in> {sr_cs, sr_ds, sr_es, sr_ss, sr_fs, sr_gs}.
     load_segment mem (sr_gdt sregs) (sg_selector (seg sregs)) = Some (seg sregs))"

lemma gdt_in_loaded:
  assumes "gdt_in mem"
  shows "segments_loaded mem (boot_sregs sregs)"
proof -
  have "load_segment mem \<lparr> dt_base = GDT_ADDR, dt_limit = 23 \<rparr> 0x08 = Some code_segment"
    "load_segment mem \<lparr> dt_base = GDT_ADDR, dt_limit = 23 \<rparr> 0x10 = Some data_segment"
    using assms by (simp_all add: gdt_in_def load_segment_def GDT_ADDR_def c64.dec_enc segments_of_constants)
  then show ?thesis
    by (simp add: segments_loaded_def boot_sregs_def code_segment_def data_segment_def)
qed

text \<open>
  C31. The segment registers a vCPU starts with are those it would load from the descriptor
  table in memory: the selectors of the code and the five data segments lie within the limit
  of the table, and the entries there decode to the cached descriptors, granularity included.
\<close>

theorem boot_segments_match_gdt:
  assumes "guest_region gm img" and "0x518 \<le> length (img m)"
  shows "\<exists>m'. setup_gdt gm m = (Inr (), m') \<and>
    (\<forall>seg \<in> {sr_cs, sr_ds, sr_es, sr_ss, sr_fs, sr_gs}.
       load_segment (img m') (sr_gdt (boot_sregs sregs)) (sg_selector (seg (boot_sregs sregs))) = Some (seg (boot_sregs sregs)))"
  using gdt_written [OF assms] gdt_in_loaded [of _ sregs] by (auto simp: segments_loaded_def)

section \<open>General registers\<close>

record kvm_regs =
  kr_rip :: u64
  kr_rsp :: u64
  kr_rsi :: u64
  kr_rflags :: u64

definition boot_regs :: "u64 \<Rightarrow> kvm_regs" where
  "boot_regs entry_addr = \<lparr> kr_rip = entry_addr, kr_rsp = BOOT_STACK_ADDR, kr_rsi = BOOT_PARAMS_ADDR, kr_rflags = 0x02 \<rparr>"

section \<open>Boot parameters\<close>

text \<open>The fields of \<open>boot_params\<close> that the VMM sets; \<open>'h\<close> and \<open>'b\<close> are the rest of the two structures.\<close>

record setup_header =
  hd_type_of_loader :: u8
  hd_loadflags :: u8
  hd_cmd_line_ptr :: u32
  hd_cmdline_size :: u32
  hd_ramdisk_image :: u32
  hd_ramdisk_size :: u32

record e820_entry =
  e8_addr :: u64
  e8_size :: u64
  e8_type :: u32

record 'h boot_params =
  bp_hdr :: "'h setup_header_scheme"
  bp_e820_table :: "e820_entry list"
  bp_e820_entries :: u8

definition load_initramfs :: "'m guest_ops \<Rightarrow> io_error + u8 list \<Rightarrow> u64 \<Rightarrow> 'm \<Rightarrow> (vmm_error + u32 \<times> u32) \<times> 'm" where
  "load_initramfs gm content kernel_end m =
     (case content of
        Inl e \<Rightarrow> (Inl (VmmIo e), m)
      | Inr data \<Rightarrow>
        let addr = (kernel_end + 0xFFF) AND NOT 0xFFF in
        (case gm_write gm m addr data of
           (Inl e, m') \<Rightarrow> (Inl (Memory (''initramfs write: '' @ e)), m')
         | (Inr u, m') \<Rightarrow> (Inr (ucast addr, word_of_nat (length data)), m')))"

definition saturating_sub64 :: "u64 \<Rightarrow> u64 \<Rightarrow> u64" where
  "saturating_sub64 a b = (if b \<le> a then a - b else 0)"

definition e820_map :: "u64 \<Rightarrow> e820_entry list" where
  "e820_map mem_size =
     [\<lparr> e8_addr = 0, e8_size = 0x9FC00, e8_type = 1 \<rparr>,
      \<lparr> e8_addr = 0x9FC00, e8_size = 0x100000 - 0x9FC00, e8_type = 2 \<rparr>,
      \<lparr> e8_addr = 0x100000, e8_size = saturating_sub64 mem_size 0x100000, e8_type = 1 \<rparr>]"

definition boot_params_of :: "('h, 'b) boot_params_scheme \<Rightarrow> 'h setup_header_scheme option \<Rightarrow> nat \<Rightarrow>
    (u32 \<times> u32) option \<Rightarrow> u64 \<Rightarrow> ('h, 'b) boot_params_scheme" where
  "boot_params_of zeroed setup_header cmdline_len initramfs mem_size =
     (let hdr = (case setup_header of None \<Rightarrow> bp_hdr zeroed | Some h \<Rightarrow> h);
          hdr = hdr\<lparr> hd_type_of_loader := 0xFF, hd_loadflags := hd_loadflags hdr OR 0x01,
            hd_cmd_line_ptr := ucast CMDLINE_ADDR, hd_cmdline_size := word_of_nat cmdline_len \<rparr>;
          hdr = (case initramfs of None \<Rightarrow> hdr
            | Some (addr, len) \<Rightarrow> hdr\<lparr> hd_ramdisk_image := addr, hd_ramdisk_size := len \<rparr>)
      in zeroed\<lparr> bp_hdr := hdr, bp_e820_table := e820_map mem_size @ drop 3 (bp_e820_table zeroed),
           bp_e820_entries := 3 \<rparr>)"

definition setup_boot_params :: "'m guest_ops \<Rightarrow> (('h, 'b) boot_params_scheme \<Rightarrow> u8 list) \<Rightarrow>
    ('h, 'b) boot_params_scheme \<Rightarrow> u8 list \<Rightarrow> 'h setup_header_scheme option \<Rightarrow> (u32 \<times> u32) option \<Rightarrow> u64 \<Rightarrow> 'm \<Rightarrow>
    (vmm_error + unit) \<times> 'm" where
  "setup_boot_params gm layout zeroed cmdline setup_header initramfs mem_size m =
     (case gm_write gm m CMDLINE_ADDR cmdline of
        (Inl e, m) \<Rightarrow> (Inl (Memory (''cmdline: '' @ e)), m)
      | (Inr u, m) \<Rightarrow>
      (case gm_write gm m (CMDLINE_ADDR + word_of_nat (length cmdline)) [0] of
        (Inl e, m) \<Rightarrow> (Inl (Memory (''cmdline null: '' @ e)), m)
      | (Inr u, m) \<Rightarrow>
      (case gm_write gm m BOOT_PARAMS_ADDR
          (layout (boot_params_of zeroed setup_header (length cmdline) initramfs mem_size)) of
        (Inl e, m) \<Rightarrow> (Inl (Memory (''boot params: '' @ e)), m)
      | (Inr u, m) \<Rightarrow> (Inr (), m))))"

text \<open>
  C40. The memory map handed to the kernel describes the memory of the guest: with at least one
  megabyte, every address below its size lies in exactly one of the three entries, which is
  usable unless the address is among the 1 KiB and the BIOS area below one megabyte, and no
  entry reaches an address beyond the size.
\<close>

theorem memory_map_partition:
  assumes "0x100000 \<le> mem_size"
  shows "length (filter (\<lambda>e. e8_addr e \<le> a \<and> a - e8_addr e < e8_size e) (e820_map mem_size)) = (if a < mem_size then 1 else 0) \<and>
    (\<forall>e \<in> set (e820_map mem_size). e8_addr e \<le> a \<and> a - e8_addr e < e8_size e \<longrightarrow>
       e8_type e = (if 0x9FC00 \<le> a \<and> a < 0x100000 then 2 else 1))"
proof -
  have sub: "unat (x - y) = unat x - unat y" if "y \<le> x" for x y :: u64
    using that by (simp add: unat_sub_if' word_le_nat_alt)
  have m: "0x100000 \<le> unat mem_size" using assms by (simp add: word_le_nat_alt)
  have size: "unat (mem_size - 0x100000) = unat mem_size - 0x100000" using assms by (simp add: sub)
  have low: "0x9FC00 \<le> unat a \<Longrightarrow> unat (a - 0x9FC00) = unat a - 0x9FC00"
    and high: "0x100000 \<le> unat a \<Longrightarrow> unat (a - 0x100000) = unat a - 0x100000"
    by (simp_all add: sub word_le_nat_alt)
  consider "unat a < 0x9FC00" | "0x9FC00 \<le> unat a" "unat a < 0x100000" | "0x100000 \<le> unat a" by linarith
  then show ?thesis
    by cases (use m size assms low high in
      \<open>auto simp: e820_map_def saturating_sub64_def word_le_nat_alt word_less_nat_alt\<close>)
qed

theorem memory_map_partition_witness:
  "length (filter (\<lambda>e. e8_addr e \<le> 0x9FFFF \<and> 0x9FFFF - e8_addr e < e8_size e) (e820_map 0x8000000)) = 1"
  using memory_map_partition [where mem_size = "0x8000000" and a = "0x9FFFF"] by simp

text \<open>What the two remaining steps leave in a memory that is large enough.\<close>

lemma initramfs_loaded:
  assumes "guest_region gm img" and "unat ((kernel_end + 0xFFF) AND NOT 0xFFF) + length data \<le> length (img m)"
  shows "\<exists>m'. load_initramfs gm (Inr data) kernel_end m =
      (Inr (ucast ((kernel_end + 0xFFF) AND NOT 0xFFF), word_of_nat (length data)), m') \<and>
    img m' = poke (img m) (unat ((kernel_end + 0xFFF) AND NOT 0xFFF)) data"
  using guest_region.write_in [OF assms] by (auto simp: load_initramfs_def)

lemma boot_params_written:
  assumes "guest_region gm img" and "0x20000 + length cmdline + 1 \<le> length (img m)" and "length (img m) \<le> 2 ^ 63"
    and "length (layout (boot_params_of zeroed hdr (length cmdline) initramfs mem_size)) = 0x1000"
  shows "\<exists>m'. setup_boot_params gm layout zeroed cmdline hdr initramfs mem_size m = (Inr (), m') \<and>
    length (img m') = length (img m) \<and>
    peek (img m') 0x20000 (length cmdline + 1) = cmdline @ [0] \<and>
    peek (img m') 0x7000 0x1000 = layout (boot_params_of zeroed hdr (length cmdline) initramfs mem_size) \<and>
    (\<forall>a n. a + n \<le> 0x7000 \<or> 0x8000 \<le> a \<and> a + n \<le> 0x20000 \<or> 0x20000 + length cmdline + 1 \<le> a \<longrightarrow>
       peek (img m') a n = peek (img m) a n)"
proof -
  let ?bp = "layout (boot_params_of zeroed hdr (length cmdline) initramfs mem_size)" and ?n = "length cmdline"
  have addr: "unat CMDLINE_ADDR = 0x20000" "unat (CMDLINE_ADDR + word_of_nat ?n) = 0x20000 + ?n" "unat BOOT_PARAMS_ADDR = 0x7000"
    using assms(2,3) by (simp_all add: CMDLINE_ADDR_def BOOT_PARAMS_ADDR_def unat_word_ariths unat_of_nat)
  note put = guest_region.write_in [OF assms(1)]
  obtain m1 where m1: "gm_write gm m CMDLINE_ADDR cmdline = (Inr (), m1)" "img m1 = poke (img m) 0x20000 cmdline"
    using put [of CMDLINE_ADDR cmdline m] assms(2) addr by auto
  then have l1: "length (img m1) = length (img m)" using assms(2) by (simp add: length_poke)
  obtain m2 where m2: "gm_write gm m1 (CMDLINE_ADDR + word_of_nat ?n) [0] = (Inr (), m2)"
      "img m2 = poke (img m1) (0x20000 + ?n) [0]"
    using put [of "CMDLINE_ADDR + word_of_nat ?n" "[0]" m1] assms(2) l1 addr by auto
  then have l2: "length (img m2) = length (img m)" using assms(2) l1 by (simp add: length_poke)
  obtain m3 where m3: "gm_write gm m2 BOOT_PARAMS_ADDR ?bp = (Inr (), m3)" "img m3 = poke (img m2) 0x7000 ?bp"
    using put [of BOOT_PARAMS_ADDR ?bp m2] assms(2,4) l2 addr by auto
  then have l3: "length (img m3) = length (img m)" using assms(2,4) l2 by (simp add: length_poke)
  have "peek (img m3) 0x20000 ?n = cmdline" "peek (img m3) (0x20000 + ?n) 1 = [0]"
    using assms(2,4) l1 l2 peek_poke_same [of "0x20000 + ?n" "[0]" "img m1"]
    by (simp_all add: m3(2) m2(2) m1(2) peek_poke_disjoint peek_poke_same length_poke)
  then have "peek (img m3) 0x20000 (?n + 1) = cmdline @ [0]"
    by (simp only: peek_split)
  moreover have "peek (img m3) 0x7000 0x1000 = ?bp"
    using assms(2,4) l2 peek_poke_same [of "0x7000" ?bp "img m2"] by (simp add: m3(2))
  moreover have "peek (img m3) a n = peek (img m) a n"
    if "a + n \<le> 0x7000 \<or> 0x8000 \<le> a \<and> a + n \<le> 0x20000 \<or> 0x20000 + ?n + 1 \<le> a" for a n
  proof -
    have "peek (img m3) a n = peek (img m2) a n"
      unfolding m3(2) using that assms(2,4) l2 by (intro peek_poke_disjoint) auto
    also have "\<dots> = peek (img m1) a n"
      unfolding m2(2) using that assms(2) l1 by (intro peek_poke_disjoint) auto
    also have "\<dots> = peek (img m) a n"
      unfolding m1(2) using that assms(2) by (intro peek_poke_disjoint) auto
    finally show ?thesis .
  qed
  moreover have "setup_boot_params gm layout zeroed cmdline hdr initramfs mem_size m = (Inr (), m3)"
    using m1(1) m2(1) m3(1) by (simp add: setup_boot_params_def)
  ultimately show ?thesis using l3 by blast
qed

text \<open>
  An initramfs that does not fit is loaded up to the end of the memory, and the VMM reports
  success with the length of the file.
\<close>

lemma initramfs_truncated:
  assumes "guest_region gm img" and "unat ((kernel_end + 0xFFF) AND NOT 0xFFF) < length (img m)"
    and "length (img m) < unat ((kernel_end + 0xFFF) AND NOT 0xFFF) + length data"
  shows "\<exists>m'. load_initramfs gm (Inr data) kernel_end m =
      (Inr (ucast ((kernel_end + 0xFFF) AND NOT 0xFFF), word_of_nat (length data)), m') \<and>
    length (img m') = length (img m)"
  using guest_region.write_part [OF assms(1-3)] assms(2,3) by (auto simp: load_initramfs_def)

section \<open>Witnesses\<close>

theorem boot_page_tables_witness:
  "\<exists>m'. setup_page_tables flat_ops (replicate 0xC000 0) = (Inr (), m') \<and> translate m' PML4_ADDR 0x12345 = Some 0x12345 \<and>
     translate m' PML4_ADDR 0x40000000 = None"
proof -
  have "fresh_tables (replicate 0xC000 (0 :: u8))"
    by (simp add: fresh_tables_def peek_def)
  from boot_page_tables [OF flat.guest_region_axioms this] obtain m' where
    m': "setup_page_tables flat_ops (replicate 0xC000 0) = (Inr (), m')"
    "\<forall>va. va < 2 ^ 48 \<longrightarrow> translate m' PML4_ADDR va = (if va < 2 ^ 30 then Some va else None)"
    by blast
  then show ?thesis
    using m'(2) [rule_format, of "0x12345"] m'(2) [rule_format, of "0x40000000"] by auto
qed

theorem boot_segments_match_gdt_witness:
  "\<forall>sregs :: kvm_sregs. \<exists>m'. setup_gdt flat_ops (replicate 0x600 0) = (Inr (), m') \<and>
    load_segment m' (sr_gdt (boot_sregs sregs)) 0x08 = Some code_segment"
proof
  fix sregs :: kvm_sregs
  obtain m' where "setup_gdt flat_ops (replicate 0x600 0) = (Inr (), m')"
    "load_segment m' (sr_gdt (boot_sregs sregs)) (sg_selector (sr_cs (boot_sregs sregs))) = Some (sr_cs (boot_sregs sregs))"
    using boot_segments_match_gdt [OF flat.guest_region_axioms, of "replicate 0x600 0" sregs] by auto
  then show "\<exists>m'. setup_gdt flat_ops (replicate 0x600 0) = (Inr (), m') \<and>
    load_segment m' (sr_gdt (boot_sregs sregs)) 0x08 = Some code_segment"
    by (auto simp: boot_sregs_def code_segment_def)
qed

end
