(* ===== verification/Vm_Metrics.thy ===== *)
theory Vm_Metrics
  imports Store_Safety Store_Consolidate
begin

text \<open>
  \<open>rondo-demo-vmm/src/metrics.rs\<close>: the store of the demo VMM with the handles of the sixteen
  series it records into.
\<close>

section \<open>Data\<close>

datatype vcpu_exit_reason = ExitIo | ExitMmio | ExitHlt | ExitShutdown | ExitOther

datatype blk_op = BlkRead | BlkWrite | BlkFlush

record vm_metrics =
  vm_store :: store
  vcpu_exits_io :: series_handle
  vcpu_exits_mmio :: series_handle
  vcpu_exits_hlt :: series_handle
  vcpu_exits_shutdown :: series_handle
  vcpu_exits_other :: series_handle
  vcpu_exit_duration_ns :: series_handle
  vcpu_run_duration_ns :: series_handle
  blk_requests_read :: series_handle
  blk_requests_write :: series_handle
  blk_requests_flush :: series_handle
  blk_request_duration_ns :: series_handle
  blk_bytes_read :: series_handle
  blk_bytes_written :: series_handle
  vmm_rss_bytes :: series_handle
  vmm_open_fds :: series_handle
  vmm_uptime_seconds :: series_handle

section \<open>Opening\<close>

definition vmm_tiers :: "tier_config list res" where
  "vmm_tiers =
     rbind (tier_new (from_secs 1) (from_secs 600) None) (\<lambda>t0.
     rbind (tier_new (from_secs 10) (from_secs 21600) (Some Average)) (\<lambda>t1.
     rbind (tier_new (from_secs 300) (from_secs 604800) (Some Average)) (\<lambda>t2.
     Inr [t0, t1, t2])))"

definition vmm_schema :: "tier_config list \<Rightarrow> schema_config" where
  "vmm_schema tiers = \<lparr> sc_name = ''vmm'', sc_label_matcher = matcher_any, sc_tiers = tiers, sc_max_series = 30 \<rparr>"

definition vmm_series :: "(string \<times> labels) list" where
  "vmm_series =
     [(''vcpu_exits_total'', [(''reason'', ''io'')]), (''vcpu_exits_total'', [(''reason'', ''mmio'')]),
      (''vcpu_exits_total'', [(''reason'', ''hlt'')]), (''vcpu_exits_total'', [(''reason'', ''shutdown'')]),
      (''vcpu_exits_total'', [(''reason'', ''other'')]), (''vcpu_exit_duration_ns'', []),
      (''vcpu_run_duration_ns'', []), (''blk_requests_total'', [(''op'', ''read'')]),
      (''blk_requests_total'', [(''op'', ''write'')]), (''blk_requests_total'', [(''op'', ''flush'')]),
      (''blk_request_duration_ns'', []), (''blk_bytes_total'', [(''direction'', ''read'')]),
      (''blk_bytes_total'', [(''direction'', ''write'')]), (''vmm_rss_bytes'', []), (''vmm_open_fds'', []),
      (''vmm_uptime_seconds'', [])]"

text \<open>The registrations in turn; the first error ends them.\<close>

fun register_series :: "platform \<Rightarrow> (string \<times> labels) list \<Rightarrow> store \<Rightarrow> disk \<Rightarrow> series_handle list res \<times> store \<times> disk" where
  "register_series pf [] st d = (Inr [], st, d)"
| "register_series pf ((name, labels) # series) st d =
     (case store_register pf name labels st d of
        (Inl e, st, d) \<Rightarrow> (Inl e, st, d)
      | (Inr handle, st, d) \<Rightarrow>
          (case register_series pf series st d of
             (Inl e, st, d) \<Rightarrow> (Inl e, st, d)
           | (Inr hs, st, d) \<Rightarrow> (Inr (handle # hs), st, d)))"

definition vm_new :: "store \<Rightarrow> series_handle list \<Rightarrow> vm_metrics" where
  "vm_new st hs = \<lparr> vm_store = st, vcpu_exits_io = hs ! 0, vcpu_exits_mmio = hs ! 1, vcpu_exits_hlt = hs ! 2,
     vcpu_exits_shutdown = hs ! 3, vcpu_exits_other = hs ! 4, vcpu_exit_duration_ns = hs ! 5,
     vcpu_run_duration_ns = hs ! 6, blk_requests_read = hs ! 7, blk_requests_write = hs ! 8,
     blk_requests_flush = hs ! 9, blk_request_duration_ns = hs ! 10, blk_bytes_read = hs ! 11,
     blk_bytes_written = hs ! 12, vmm_rss_bytes = hs ! 13, vmm_open_fds = hs ! 14, vmm_uptime_seconds = hs ! 15 \<rparr>"

text \<open>When a registration fails the store is dropped, and its mappings are what is on the disk.\<close>

definition vm_open :: "platform \<Rightarrow> string \<Rightarrow> disk \<Rightarrow> vm_metrics res \<times> disk" where
  "vm_open pf store_path d =
     (case vmm_tiers of
        Inl e \<Rightarrow> (Inl e, d)
      | Inr tiers \<Rightarrow>
        (case store_open pf store_path [vmm_schema tiers] d of
           (Inl e, d) \<Rightarrow> (Inl e, d)
         | (Inr st, d) \<Rightarrow>
           (case register_series pf vmm_series st d of
              (Inl e, st, d) \<Rightarrow> (Inl e, store_files st d)
            | (Inr hs, st, d) \<Rightarrow> (Inr (vm_new st hs), d))))"

section \<open>Recording\<close>

text \<open>Records with one timestamp; those before a refused one stay.\<close>

definition record_all :: "(series_handle \<times> f64) list \<Rightarrow> u64 \<Rightarrow> vm_metrics \<Rightarrow> unit res \<times> vm_metrics" where
  "record_all entries timestamp_ns m =
     (case fold_st (\<lambda>(h, v). store_record h v timestamp_ns) entries (vm_store m) of
        (r, st) \<Rightarrow> (r, m\<lparr> vm_store := st \<rparr>))"

definition exit_handle :: "vm_metrics \<Rightarrow> vcpu_exit_reason \<Rightarrow> series_handle" where
  "exit_handle m reason =
     (case reason of ExitIo \<Rightarrow> vcpu_exits_io m | ExitMmio \<Rightarrow> vcpu_exits_mmio m | ExitHlt \<Rightarrow> vcpu_exits_hlt m
      | ExitShutdown \<Rightarrow> vcpu_exits_shutdown m | ExitOther \<Rightarrow> vcpu_exits_other m)"

definition record_vcpu_exit :: "vcpu_exit_reason \<Rightarrow> f64 \<Rightarrow> f64 \<Rightarrow> u64 \<Rightarrow> vm_metrics \<Rightarrow> unit res \<times> vm_metrics" where
  "record_vcpu_exit reason exit_ns run_ns timestamp_ns m =
     record_all [(exit_handle m reason, f_one), (vcpu_exit_duration_ns m, exit_ns),
       (vcpu_run_duration_ns m, run_ns)] timestamp_ns m"

definition blk_handles :: "vm_metrics \<Rightarrow> blk_op \<Rightarrow> series_handle \<times> series_handle" where
  "blk_handles m op =
     (case op of BlkRead \<Rightarrow> (blk_requests_read m, blk_bytes_read m)
      | BlkWrite \<Rightarrow> (blk_requests_write m, blk_bytes_written m)
      | BlkFlush \<Rightarrow> (blk_requests_flush m, blk_bytes_read m))"

definition record_blk_request :: "blk_op \<Rightarrow> f64 \<Rightarrow> f64 \<Rightarrow> u64 \<Rightarrow> vm_metrics \<Rightarrow> unit res \<times> vm_metrics" where
  "record_blk_request op duration_ns bytes timestamp_ns m =
     (case blk_handles m op of (req_handle, bytes_handle) \<Rightarrow>
        record_all ([(req_handle, f_one), (blk_request_duration_ns m, duration_ns)] @
          (if f_lt f_zero bytes then [(bytes_handle, bytes)] else [])) timestamp_ns m)"

definition record_process_stats :: "f64 \<Rightarrow> f64 \<Rightarrow> f64 \<Rightarrow> u64 \<Rightarrow> vm_metrics \<Rightarrow> unit res \<times> vm_metrics" where
  "record_process_stats rss_bytes open_fds uptime_seconds timestamp_ns m =
     record_all [(vmm_rss_bytes m, rss_bytes), (vmm_open_fds m, open_fds),
       (vmm_uptime_seconds m, uptime_seconds)] timestamp_ns m"

definition vm_consolidate :: "platform \<Rightarrow> vm_metrics \<Rightarrow> disk \<Rightarrow> usize res \<times> vm_metrics \<times> disk" where
  "vm_consolidate pf m d =
     (case store_consolidate pf (vm_store m) d of (r, st, d) \<Rightarrow> (r, m\<lparr> vm_store := st \<rparr>, d))"

section \<open>The schema\<close>

definition vmm_tier_list :: "tier_config list" where
  "vmm_tier_list =
     [\<lparr> tc_interval = from_secs 1, tc_retention = from_secs 600, tc_consolidation_fn = None \<rparr>,
      \<lparr> tc_interval = from_secs 10, tc_retention = from_secs 21600, tc_consolidation_fn = Some Average \<rparr>,
      \<lparr> tc_interval = from_secs 300, tc_retention = from_secs 604800, tc_consolidation_fn = Some Average \<rparr>]"

lemma vmm_tiers_valid: "vmm_tiers = Inr vmm_tier_list"
proof -
  have "list_all (\<lambda>t. tier_validate t = Inr ()) vmm_tier_list"
    by (simp add: vmm_tier_list_def tier_eval)
  then show ?thesis
    by (simp add: vmm_tiers_def vmm_tier_list_def tier_new_def)
qed

lemma vmm_schema_ok: "schemas_ok [vmm_schema vmm_tier_list]"
  by (simp add: schemas_ok_def schema_validate_ok vmm_schema_def vmm_tier_list_def schema_fits_def tier_eval slab_size_def
      less_duration_def)

section \<open>Registering a list of series\<close>

lemma any_matches: "sc_label_matcher c = matcher_any \<Longrightarrow> matches_labels c labels"
  by (simp add: matches_labels_def matches_iff matcher_any_def)

definition nth_handle :: "u32 \<Rightarrow> series_handle" where
  "nth_handle n = handle_new 0 n n"

text \<open>A valid new series of a registry with one schema that matches everything.\<close>

lemma register_fresh:
  assumes inv: "reg_inv rg" and sc: "rg_schemas rg = [c]" and any: "sc_label_matcher c = matcher_any"
    and valid: "validate_name name = Inr ()" "validate_labels labels = Inr ()"
    and new: "hm_get (rg_series_map rg) (key_new name labels) = None"
    and room: "rg_next_series_id rg ! 0 < sc_max_series c"
  shows "\<exists>rg'. register rg name labels = Inr (nth_handle (rg_next_series_id rg ! 0), rg') \<and>
    rg_schemas rg' = [c] \<and> rg_next_series_id rg' = [rg_next_series_id rg ! 0 + 1] \<and>
    rg_series_map rg' = hm_insert (key_new name labels) (new_info name labels 0 (rg_next_series_id rg ! 0)) (rg_series_map rg)"
proof -
  have len: "length (rg_next_series_id rg) = 1" "rg_next_column rg = rg_next_series_id rg"
    using inv sc by (simp_all add: reg_inv_def)
  then obtain n where n: "rg_next_series_id rg = [n]" by (cases "rg_next_series_id rg") auto
  have "find_matching_schema rg labels = Inr 0"
    by (simp add: find_matching_schema_def sc any_matches [OF any])
  then show ?thesis
    using valid new room sc n len
    by (simp add: register_def nth_handle_def info_handle_def new_info_def nth_res_def)
qed

definition series_keys :: "(string \<times> labels) list \<Rightarrow> series_key list" where
  "series_keys = map (\<lambda>(name, labels). key_new name labels)"

definition valid_series :: "(string \<times> labels) list \<Rightarrow> bool" where
  "valid_series series \<longleftrightarrow> list_all (\<lambda>(name, labels). validate_name name = Inr () \<and> validate_labels labels = Inr ()) series"

definition json_total :: "platform \<Rightarrow> bool" where
  "json_total pf \<longleftrightarrow> (\<forall>x. \<exists>s. to_json (pf_metadata_json pf) x = Inr s) \<and> (\<forall>x. \<exists>s. to_json (pf_index_json pf) x = Inr s)"

definition known_as :: "store \<Rightarrow> string \<times> labels \<Rightarrow> series_handle \<Rightarrow> bool" where
  "known_as st series h \<longleftrightarrow> get_handle (st_registry st) (fst series) (snd series) = Some h"

lemma store_register_fresh:
  assumes inv: "store_inv st" and sc: "st_schemas st = [c]" and any: "sc_label_matcher c = matcher_any"
    and pf: "iteration_order (pf_keys pf)" "json_total pf" "os_calm (pf_os pf)"
    and valid: "validate_name name = Inr ()" "validate_labels labels = Inr ()"
    and new: "hm_get (rg_series_map (st_registry st)) (key_new name labels) = None"
    and room: "rg_next_series_id (st_registry st) ! 0 < sc_max_series c"
  defines "n \<equiv> rg_next_series_id (st_registry st) ! 0"
  shows "\<exists>st' d'. store_register pf name labels st d = (Inr (nth_handle n), st', d') \<and> store_inv st' \<and>
    st_schemas st' = [c] \<and> rg_next_series_id (st_registry st') = [n + 1] \<and>
    rg_series_map (st_registry st') = hm_insert (key_new name labels) (new_info name labels 0 n) (rg_series_map (st_registry st))"
proof -
  have reg: "reg_inv (st_registry st)" "rg_schemas (st_registry st) = [c]"
    using inv sc by (simp_all add: store_inv_def)
  obtain rg' where rg: "register (st_registry st) name labels = Inr (nth_handle n, rg')"
    "rg_next_series_id rg' = [n + 1]"
    "rg_series_map rg' = hm_insert (key_new name labels) (new_info name labels 0 n) (rg_series_map (st_registry st))"
    using register_fresh [OF reg any valid new room] by (auto simp: n_def)
  obtain json where "to_json (pf_index_json pf) (registry_index (pf_keys pf) rg') = Inr json"
    using pf(2) by (auto simp: json_total_def)
  moreover have "os_write (pf_os pf) p = None" for p
    using pf(3) by (simp add: os_calm_def)
  moreover have "aligned_at (st_schemas st) (sh_schema_index (nth_handle n))"
    using aligned_single(2) by (simp add: sc nth_handle_def)
  ultimately show ?thesis
    using store_register_stores [OF inv _ pf(1) rg(1), of json d] rg(2,3) sc by auto
qed

lemma register_series_ok:
  assumes "store_inv st" and "st_schemas st = [c]" and any: "sc_label_matcher c = matcher_any"
    and pf: "iteration_order (pf_keys pf)" "json_total pf" "os_calm (pf_os pf)"
    and "valid_series series" and "distinct (series_keys series)"
    and "\<forall>k \<in> set (series_keys series). hm_get (rg_series_map (st_registry st)) k = None"
    and "rg_next_series_id (st_registry st) = [n]" and "unat n + length series \<le> unat (sc_max_series c)"
  shows "\<exists>st' d'. register_series pf series st d =
      (Inr (map (\<lambda>i. nth_handle (n + word_of_nat i)) [0..<length series]), st', d') \<and> store_inv st' \<and>
    st_schemas st' = [c] \<and> list_all2 (known_as st') series (map (\<lambda>i. nth_handle (n + word_of_nat i)) [0..<length series]) \<and>
    (\<forall>name labels h. get_handle (st_registry st) name labels = Some h \<longrightarrow> get_handle (st_registry st') name labels = Some h)"
  using assms(1,2,7-)
proof (induction series arbitrary: st d n)
  case (Cons s series)
  obtain name labels where s: "s = (name, labels)" by force
  let ?key = "key_new name labels"
  have small: "unat n < unat (sc_max_series c)" using Cons.prems(7) by simp
  then have room: "rg_next_series_id (st_registry st) ! 0 < sc_max_series c"
    by (simp add: Cons.prems(6) word_less_nat_alt)
  have next_n: "unat (n + 1) = unat n + 1"
    using small u32_bound [of "sc_max_series c"] by (simp add: unat_word_ariths)
  obtain st1 d1 where st1: "store_register pf name labels st d = (Inr (nth_handle n), st1, d1)" "store_inv st1"
    "st_schemas st1 = [c]" "rg_next_series_id (st_registry st1) = [n + 1]"
    "rg_series_map (st_registry st1) = hm_insert ?key (new_info name labels 0 n) (rg_series_map (st_registry st))"
    using store_register_fresh [OF Cons.prems(1,2) any pf _ _ _ room, of name labels d] Cons.prems(3,5,6)
    by (auto simp: s valid_series_def series_keys_def)
  have new: "\<forall>k \<in> set (series_keys series). hm_get (rg_series_map (st_registry st1)) k = None"
  proof
    fix k assume k: "k \<in> set (series_keys series)"
    moreover have "?key \<notin> set (series_keys series)"
      using Cons.prems(4) by (simp add: s series_keys_def)
    ultimately have "k \<noteq> ?key" by blast
    have in_all: "k \<in> set (series_keys (s # series))"
      using k by (simp add: series_keys_def)
    show "hm_get (rg_series_map (st_registry st1)) k = None"
      using \<open>k \<noteq> ?key\<close> in_all Cons.prems(5) by (simp add: st1(5) hm.get_put_other)
  qed
  have "valid_series series" "distinct (series_keys series)"
    using Cons.prems(3,4) by (auto simp: valid_series_def series_keys_def)
  then obtain st' d' where st': "register_series pf series st1 d1 =
      (Inr (map (\<lambda>i. nth_handle (n + 1 + word_of_nat i)) [0..<length series]), st', d')" "store_inv st'"
    "st_schemas st' = [c]"
    "list_all2 (known_as st') series (map (\<lambda>i. nth_handle (n + 1 + word_of_nat i)) [0..<length series])"
    "\<forall>name labels h. get_handle (st_registry st1) name labels = Some h \<longrightarrow> get_handle (st_registry st') name labels = Some h"
    using Cons.IH [OF st1(2,3) _ _ new st1(4), of d1] Cons.prems(7) next_n by auto
  have hs: "map (\<lambda>i. nth_handle (n + word_of_nat i)) [0..<length (s # series)] =
      nth_handle n # map (\<lambda>i. nth_handle (n + 1 + word_of_nat i)) [0..<length series]"
    by (simp add: upt_conv_Cons map_Suc_upt [symmetric] ac_simps del: upt_Suc)
  have "get_handle (st_registry st1) name labels = Some (nth_handle n)"
    by (simp add: get_handle_def st1(5) hm.get_put_same info_handle_def new_info_def nth_handle_def)
  then have known: "known_as st' (name, labels) (nth_handle n)"
    using st'(5) by (simp add: known_as_def)
  have "get_handle (st_registry st1) name' labels' = Some h"
    if "get_handle (st_registry st) name' labels' = Some h" for name' labels' h
    using that Cons.prems(5) by (cases "key_new name' labels' = ?key")
      (auto simp: get_handle_def st1(5) hm.get_put_other s series_keys_def)
  then show ?case
    unfolding hs unfolding s using st1(1) st' known by auto
qed simp

section \<open>What opening gives\<close>

definition vm_handles :: "vm_metrics \<Rightarrow> series_handle list" where
  "vm_handles m =
     [vcpu_exits_io m, vcpu_exits_mmio m, vcpu_exits_hlt m, vcpu_exits_shutdown m, vcpu_exits_other m,
      vcpu_exit_duration_ns m, vcpu_run_duration_ns m, blk_requests_read m, blk_requests_write m,
      blk_requests_flush m, blk_request_duration_ns m, blk_bytes_read m, blk_bytes_written m,
      vmm_rss_bytes m, vmm_open_fds m, vmm_uptime_seconds m]"

text \<open>The store is sound and knows the sixteen series under sixteen different columns.\<close>

definition vm_inv :: "vm_metrics \<Rightarrow> bool" where
  "vm_inv m \<longleftrightarrow> store_inv (vm_store m) \<and> st_schemas (vm_store m) = [vmm_schema vmm_tier_list] \<and>
     list_all2 (known_as (vm_store m)) vmm_series (vm_handles m) \<and> distinct (map sh_column (vm_handles m))"

lemma vm_handles_new: "length hs = 16 \<Longrightarrow> vm_handles (vm_new st hs) = hs"
  by (auto simp: vm_handles_def vm_new_def numeral_eq_Suc length_Suc_conv)

lemma vmm_series_valid: "valid_series vmm_series" "distinct (series_keys vmm_series)" "length vmm_series = 16"
  by (simp_all add: vmm_series_def valid_series_def validate_name_def series_keys_def key_new_def)

text \<open>A store with one schema for all, opened where nothing exists, takes the series that it has room for.\<close>

lemma open_registers:
  assumes "os_calm (pf_os pf)" and "iteration_order (pf_keys pf)" and "json_total pf"
    and "schemas_ok [c]" and "sc_label_matcher c = matcher_any"
    and "\<not> path_exists d path" and "\<not> path_exists d (schema_dir path 0)"
    and "valid_series series" and "distinct (series_keys series)" and "length series \<le> unat (sc_max_series c)"
  defines "hs \<equiv> map (\<lambda>i. nth_handle (word_of_nat i)) [0..<length series]"
  shows "\<exists>st d1 st' d2. store_open pf path [c] d = (Inr st, d1) \<and> register_series pf series st d1 = (Inr hs, st', d2) \<and>
    store_inv st' \<and> st_schemas st' = [c] \<and> list_all2 (known_as st') series hs"
proof -
  obtain mj ij where json: "to_json (pf_metadata_json pf) (metadata_of pf [c]) = Inr mj"
    "to_json (pf_index_json pf) (registry_index (pf_keys pf) (registry_new [c])) = Inr ij"
    using assms(3) unfolding json_total_def by blast
  have free: "dk_text d path = None" "dk_slab d path = None"
    "dk_text d (schema_dir path 0) = None" "dk_slab d (schema_dir path 0) = None"
    using assms(6,7) by (auto simp: path_exists_def)
  obtain st d1 where c: "create_new pf path [c] d = (Inr st, d1)"
    using create_new_total [OF assms(1,4) json free(1,2)] free(3,4) by auto
  have st: "store_inv st" "st_schemas st = [c]" "st_registry st = registry_new [c]"
    using create_new_some [OF c assms(4)] by auto
  have "list_all (\<lambda>c. schema_validate c = Inr ()) [c]"
    using assms(4) by (simp add: schemas_ok_def)
  then have opened: "store_open pf path [c] d = (Inr st, d1)"
    using c assms(6) validate_all [of "[c]"] by (simp add: store_open_def)
  have new: "\<forall>k \<in> set (series_keys series). hm_get (rg_series_map (st_registry st)) k = None"
    "rg_next_series_id (st_registry st) = [0]"
    by (simp_all add: st(3) registry_new_def hm.get_empty)
  show ?thesis
    using register_series_ok [OF st(1,2) assms(5,2,3,1,8,9) new, of d1] assms(10) opened
    by (fastforce simp: hs_def)
qed

lemma vm_open_ok:
  assumes "os_calm (pf_os pf)" and "iteration_order (pf_keys pf)" and "json_total pf"
    and "\<not> path_exists d path" and "\<not> path_exists d (schema_dir path 0)"
  shows "\<exists>m d'. vm_open pf path d = (Inr m, d') \<and> vm_inv m \<and> length (vm_handles m) = 16"
proof -
  let ?schemas = "[vmm_schema vmm_tier_list]" and ?hs = "map (\<lambda>i. nth_handle (word_of_nat i)) [0..<16]"
  obtain st d1 st' d2 where opened: "store_open pf path ?schemas d = (Inr st, d1)"
    and st': "register_series pf vmm_series st d1 = (Inr ?hs, st', d2)" "store_inv st'"
      "st_schemas st' = ?schemas" "list_all2 (known_as st') vmm_series ?hs"
    using open_registers [OF assms(1-3) vmm_schema_ok _ assms(4,5) vmm_series_valid(1,2)] vmm_series_valid(3)
    by (auto simp: vmm_schema_def)
  have hs: "vm_handles (vm_new st' ?hs) = ?hs" by (rule vm_handles_new) simp
  have "distinct (map sh_column ?hs)"
    by (simp add: nth_handle_def upt_rec)
  then have "vm_inv (vm_new st' ?hs)"
    using st' hs unfolding vm_inv_def by (simp add: vm_new_def)
  moreover have "vm_open pf path d = (Inr (vm_new st' ?hs), d2)"
    using opened st'(1) by (simp add: vm_open_def vmm_tiers_valid)
  ultimately show ?thesis using hs by simp
qed

text \<open>
  C21. Opening the metrics of the VMM where nothing exists gives a store that satisfies its
  invariant, with the one schema of three tiers, in which each of the sixteen names is
  registered under its own handle: no two handles share a column.
\<close>

theorem vm_open_registers:
  assumes "os_calm (pf_os pf)" and "iteration_order (pf_keys pf)" and "json_total pf"
    and "\<not> path_exists d path" and "\<not> path_exists d (schema_dir path 0)"
  shows "\<exists>m d'. vm_open pf path d = (Inr m, d') \<and> vm_inv m \<and> length (vm_handles m) = 16"
  using assms by (rule vm_open_ok)

section \<open>What recording does\<close>

text \<open>The table of tier 0, which the sixteen series share.\<close>

abbreviation vm_table :: "vm_metrics \<Rightarrow> table" where
  "vm_table m \<equiv> rb_table (st_rings (vm_store m) ! 0 ! 0)"

definition columns :: "(series_handle \<times> f64) list \<Rightarrow> (u32 \<times> f64) list" where
  "columns entries = map (\<lambda>(h, v). (sh_column h, v)) entries"

definition vm_entries :: "vm_metrics \<Rightarrow> (series_handle \<times> f64) list \<Rightarrow> bool" where
  "vm_entries m entries \<longleftrightarrow> list_all (\<lambda>(h, v). h \<in> set (vm_handles m) \<and> \<not> is_infinite v) entries"

lemma vm_handle_known:
  assumes "vm_inv m" and "h \<in> set (vm_handles m)"
  shows "registered (vm_store m) h" and "sh_schema_index h = 0"
proof -
  have l: "list_all2 (known_as (vm_store m)) vmm_series (vm_handles m)" and inv: "store_inv (vm_store m)"
    and sc: "st_schemas (vm_store m) = [vmm_schema vmm_tier_list]"
    using assms(1) by (simp_all add: vm_inv_def)
  obtain k where k: "k < length (vm_handles m)" "vm_handles m ! k = h"
    using assms(2) by (auto simp: in_set_conv_nth)
  then have "known_as (vm_store m) (vmm_series ! k) h"
    using list_all2_nthD2 [OF l k(1)] by simp
  then show reg: "registered (vm_store m) h"
    by (auto simp: known_as_def registered_def)
  then show "sh_schema_index h = 0"
    using registered_bounds [OF inv reg] sc by simp
qed

text \<open>Accepted records keep the handles; together they are one write of a row.\<close>

lemma record_step:
  assumes "vm_inv m" and "h \<in> set (vm_handles m)" and "\<not> is_infinite v" and "t \<noteq> 0"
  shows "\<exists>st. store_record h v t (vm_store m) = Inr st \<and> vm_inv (m\<lparr> vm_store := st \<rparr>) \<and>
    vm_table (m\<lparr> vm_store := st \<rparr>) = tb_write [(sh_column h, v)] t (vm_table m)"
proof -
  note known = vm_handle_known [OF assms(1,2)]
  have inv: "store_inv (vm_store m)" "st_schemas (vm_store m) = [vmm_schema vmm_tier_list]"
    using assms(1) by (simp_all add: vm_inv_def)
  have len: "0 < length (st_rings (vm_store m))" "0 < length (st_rings (vm_store m) ! 0)"
    using inv by (auto simp: store_inv_def rings_inv_def vmm_schema_def vmm_tier_list_def)
  obtain r' where r': "store_record h v t (vm_store m) = Inr ((vm_store m)\<lparr>st_rings := (st_rings (vm_store m))[0 :=
      (st_rings (vm_store m) ! 0)[0 := r']]\<rparr>)"
    "rb_table r' = tb_write [(sh_column h, v)] t (vm_table m)"
    using store_record_ok [OF inv(1) known(1) assms(3,4)] known(2) by auto
  then have "store_inv ((vm_store m)\<lparr>st_rings := (st_rings (vm_store m))[0 := (st_rings (vm_store m) ! 0)[0 := r']]\<rparr>)"
    using store_record_inv [OF inv(1) known(1)] by blast
  then show ?thesis
    using r' assms(1) len by (auto simp: vm_inv_def known_as_def vm_handles_def list_all2_conv_all_nth)
qed

lemma record_all_writes:
  assumes "vm_inv m" and "vm_entries m entries" and "t \<noteq> 0"
  shows "\<exists>st. record_all entries t m = (Inr (), m\<lparr> vm_store := st \<rparr>) \<and> vm_inv (m\<lparr> vm_store := st \<rparr>) \<and>
    (entries \<noteq> [] \<longrightarrow> vm_table (m\<lparr> vm_store := st \<rparr>) = tb_write (columns entries) t (vm_table m))"
  using assms(1,2)
proof (induction entries arbitrary: m)
  case Nil
  then show ?case by (intro exI [of _ "vm_store m"]) (simp add: record_all_def)
next
  case (Cons e entries)
  obtain h v where e: "e = (h, v)" by force
  obtain st1 where st1: "store_record h v t (vm_store m) = Inr st1" "vm_inv (m\<lparr> vm_store := st1 \<rparr>)"
    "vm_table (m\<lparr> vm_store := st1 \<rparr>) = tb_write [(sh_column h, v)] t (vm_table m)"
    using record_step [OF Cons.prems(1) _ _ assms(3)] Cons.prems(2) by (auto simp: vm_entries_def e)
  have "vm_entries (m\<lparr> vm_store := st1 \<rparr>) entries"
    using Cons.prems(2) by (simp add: vm_entries_def vm_handles_def)
  then obtain st where st: "record_all entries t (m\<lparr> vm_store := st1 \<rparr>) = (Inr (), m\<lparr> vm_store := st \<rparr>)"
    "vm_inv (m\<lparr> vm_store := st \<rparr>)"
    "entries \<noteq> [] \<longrightarrow> vm_table (m\<lparr> vm_store := st \<rparr>) = tb_write (columns entries) t (vm_table (m\<lparr> vm_store := st1 \<rparr>))"
    using Cons.IH [OF st1(2)] by auto
  have "st = st1" if "entries = []"
    using st(1) that by (cases m) (simp add: record_all_def)
  then have "vm_table (m\<lparr> vm_store := st \<rparr>) = tb_write (columns (e # entries)) t (vm_table m)"
    using st(3) st1(3) by (cases "entries = []") (simp_all add: e columns_def tb_write_again)
  moreover have "record_all (e # entries) t m = (Inr (), m\<lparr> vm_store := st \<rparr>)"
    using st(1) st1(1) by (simp add: record_all_def e split: prod.splits)
  ultimately show ?case using st(2) by blast
qed

text \<open>Whatever the values and the time, recording keeps the invariant and does not crash.\<close>

lemma record_step_refused:
  assumes "vm_inv m" and "h \<in> set (vm_handles m)" and "is_infinite v \<or> t = 0"
  shows "\<exists>e. store_record h v t (vm_store m) = err e"
proof -
  have inv: "store_inv (vm_store m)" using assms(1) by (simp add: vm_inv_def)
  note known = vm_handle_known(1) [OF assms(1,2)]
  show ?thesis
    using assms(3) store_record_err [OF inv known] by (cases "is_infinite v") auto
qed

lemma record_all_keeps:
  assumes "vm_inv m" and "fst ` set entries \<subseteq> set (vm_handles m)"
  shows "no_crash (fst (record_all entries t m)) \<and> vm_inv (snd (record_all entries t m)) \<and>
    vm_handles (snd (record_all entries t m)) = vm_handles m"
  using assms
proof (induction entries arbitrary: m)
  case Nil
  then show ?case by (simp add: record_all_def)
next
  case (Cons e entries)
  obtain h v where e: "e = (h, v)" by force
  have h: "h \<in> set (vm_handles m)" using Cons.prems(2) by (simp add: e)
  show ?case
  proof (cases "is_infinite v \<or> t = 0")
    case True
    then show ?thesis
      using record_step_refused [OF Cons.prems(1) h True] Cons.prems(1) by (auto simp: record_all_def e)
  next
    case False
    then obtain st1 where st1: "store_record h v t (vm_store m) = Inr st1" "vm_inv (m\<lparr> vm_store := st1 \<rparr>)"
      using record_step [OF Cons.prems(1) h, of v t] by blast
    have same: "vm_handles (m\<lparr> vm_store := st1 \<rparr>) = vm_handles m" by (simp add: vm_handles_def)
    have "record_all (e # entries) t m = record_all entries t (m\<lparr> vm_store := st1 \<rparr>)"
      using st1(1) by (simp add: record_all_def e split: prod.splits)
    then show ?thesis
      using Cons.IH [OF st1(2)] Cons.prems(2) same by simp
  qed
qed

lemma record_calls_keep:
  assumes "vm_inv m"
  shows "vm_inv (snd (record_vcpu_exit reason x y t m))" and "vm_inv (snd (record_blk_request op x y t m))"
    and "vm_inv (snd (record_process_stats x y z t m))"
proof -
  have "fst ` set [(exit_handle m reason, f_one), (vcpu_exit_duration_ns m, x), (vcpu_run_duration_ns m, y)] \<subseteq> set (vm_handles m)"
    by (cases reason) (simp_all add: exit_handle_def vm_handles_def)
  then show "vm_inv (snd (record_vcpu_exit reason x y t m))"
    using record_all_keeps [OF assms] unfolding record_vcpu_exit_def by blast
  obtain r b where rb: "blk_handles m op = (r, b)" by force
  then have "r \<in> set (vm_handles m)" "b \<in> set (vm_handles m)"
    by (cases op; auto simp: blk_handles_def vm_handles_def)+
  then have "fst ` set ([(r, f_one), (blk_request_duration_ns m, x)] @ (if f_lt f_zero y then [(b, y)] else [])) \<subseteq> set (vm_handles m)"
    by (auto simp: vm_handles_def)
  then show "vm_inv (snd (record_blk_request op x y t m))"
    using record_all_keeps [OF assms] unfolding record_blk_request_def rb prod.case by blast
  have "fst ` set [(vmm_rss_bytes m, x), (vmm_open_fds m, y), (vmm_uptime_seconds m, z)] \<subseteq> set (vm_handles m)"
    by (simp add: vm_handles_def)
  then show "vm_inv (snd (record_process_stats x y z t m))"
    using record_all_keeps [OF assms] unfolding record_process_stats_def by blast
qed

lemma vm_consolidate_keeps:
  assumes "vm_inv m" and "orders_ok (pf_orders pf)" and "vm_consolidate pf m d = (r, m', d')"
  shows "vm_inv m' \<and> no_crash r"
proof -
  obtain st' where st': "store_consolidate pf (vm_store m) d = (r, st', d')" "m' = m\<lparr> vm_store := st' \<rparr>"
    using assms(3) by (auto simp: vm_consolidate_def split: prod.splits)
  have inv: "store_inv (vm_store m)" using assms(1) by (simp add: vm_inv_def)
  have k: "store_inv st'" "st_registry st' = st_registry (vm_store m)" "st_schemas st' = st_schemas (vm_store m)" "no_crash r"
    using store_consolidate_keeps [OF inv assms(2) st'(1)] by auto
  have "known_as st' = known_as (vm_store m)" by (intro ext) (simp add: known_as_def k(2))
  then show ?thesis
    using assms(1) k st'(2) by (simp add: vm_inv_def vm_handles_def)
qed

definition exit_entries :: "vm_metrics \<Rightarrow> vcpu_exit_reason \<Rightarrow> f64 \<Rightarrow> f64 \<Rightarrow> (series_handle \<times> f64) list" where
  "exit_entries m reason exit_ns run_ns =
     [(exit_handle m reason, f_one), (vcpu_exit_duration_ns m, exit_ns), (vcpu_run_duration_ns m, run_ns)]"

lemma exit_entries_ok:
  "\<not> is_infinite exit_ns \<Longrightarrow> \<not> is_infinite run_ns \<Longrightarrow> vm_entries m (exit_entries m reason exit_ns run_ns)"
  by (cases reason) (auto simp: vm_entries_def exit_entries_def vm_handles_def exit_handle_def finite_not_infinite)

lemma row_update_inside: "c \<in> fst ` set cvs \<Longrightarrow> row_update cvs f c = row_update cvs g c"
proof (induction cvs arbitrary: f g)
  case (Cons cv cvs)
  then show ?case
    by (cases cv; cases "c \<in> fst ` set cvs") (auto simp: row_update_Cons row_update_other)
qed simp

lemma row_update_again:
  assumes "fst ` set cvs \<subseteq> fst ` set cvs'"
  shows "row_update cvs' (row_update cvs row) = row_update cvs' row"
proof
  fix c
  show "row_update cvs' (row_update cvs row) c = row_update cvs' row c"
  proof (cases "c \<in> fst ` set cvs'")
    case True
    then show ?thesis by (rule row_update_inside)
  next
    case False
    then have "c \<notin> fst ` set cvs" using assms by blast
    then show ?thesis using False by (simp add: row_update_other)
  qed
qed

text \<open>A row written over another one with the same columns in the same slot.\<close>

lemma tb_write_over:
  assumes "slot_of tb t = slot_of tb t'" and "fst ` set cvs \<subseteq> fst ` set cvs'"
  shows "tb_write cvs' t' (tb_write cvs t tb) = tb_write cvs' t' tb"
  using assms by (simp add: tb_write_def Let_def row_update_again slot_of_def)

lemma vm_tier:
  assumes "vm_inv m"
  shows "0 < tb_slots (vm_table m)" and "tb_interval (vm_table m) = 1000000000"
proof -
  have "rings_inv (st_path (vm_store m)) [vmm_schema vmm_tier_list] (st_rings (vm_store m))"
    using assms by (metis vm_inv_def store_inv_def)
  then have "tier_ring (vmm_schema vmm_tier_list) (vmm_tier_list ! 0) (slab_path (st_path (vm_store m)) 0 0)
      (st_rings (vm_store m) ! 0 ! 0)"
    using rings_inv_at(4) [of _ "[vmm_schema vmm_tier_list]" _ 0 0] by (auto simp: vmm_schema_def vmm_tier_list_def)
  then show "0 < tb_slots (vm_table m)" "tb_interval (vm_table m) = 1000000000"
    by (auto simp: tier_ring_def ring_inv_def ring_wf_def vmm_tier_list_def as_nanos_from_secs)
qed

lemma second_slot:
  assumes "vm_inv m" and "t div 1000000000 = t' div 1000000000"
  shows "slot_of (vm_table m) t = slot_of (vm_table m) t'"
  using assms(2) vm_tier(2) [OF assms(1)] by (simp add: slot_of_def)

text \<open>
  Two exits for the same reason within one second leave what the second one alone would
  have left: both calls succeed and keep the invariant, but the first sample of the counter
  and of both durations is gone, and \<open>vcpu_exits_total\<close> holds 1.0 however many exits there were.
\<close>

theorem exits_of_a_second_count_once:
  assumes "vm_inv m" and "t \<noteq> 0" and "t' \<noteq> 0" and "t div 1000000000 = t' div 1000000000"
    and "\<not> is_infinite x" and "\<not> is_infinite y" and "\<not> is_infinite x'" and "\<not> is_infinite y'"
  shows "\<exists>m1 m2 m3. record_vcpu_exit reason x y t m = (Inr (), m1) \<and> record_vcpu_exit reason x' y' t' m1 = (Inr (), m2) \<and>
    record_vcpu_exit reason x' y' t' m = (Inr (), m3) \<and> vm_inv m2 \<and> vm_table m2 = vm_table m3 \<and>
    (t', f_one) \<in> set (ring_contents (vm_table m2) (sh_column (exit_handle m reason)))"
proof -
  let ?es = "exit_entries m reason x y" and ?es' = "exit_entries m reason x' y'"
  have run: "record_vcpu_exit reason a b s m0 = record_all (exit_entries m0 reason a b) s m0" for a b s m0
    by (simp add: record_vcpu_exit_def exit_entries_def)
  obtain st1 where m1: "record_vcpu_exit reason x y t m = (Inr (), m\<lparr> vm_store := st1 \<rparr>)" "vm_inv (m\<lparr> vm_store := st1 \<rparr>)"
    "vm_table (m\<lparr> vm_store := st1 \<rparr>) = tb_write (columns ?es) t (vm_table m)"
    using record_all_writes [OF assms(1) exit_entries_ok [OF assms(5,6)] assms(2)] by (auto simp: run exit_entries_def)
  obtain st2 where m2: "record_vcpu_exit reason x' y' t' (m\<lparr> vm_store := st1 \<rparr>) = (Inr (), m\<lparr> vm_store := st2 \<rparr>)"
    "vm_inv (m\<lparr> vm_store := st2 \<rparr>)"
    "vm_table (m\<lparr> vm_store := st2 \<rparr>) = tb_write (columns (exit_entries (m\<lparr> vm_store := st1 \<rparr>) reason x' y')) t' (vm_table (m\<lparr> vm_store := st1 \<rparr>))"
    using record_all_writes [OF m1(2) exit_entries_ok [OF assms(7,8)] assms(3)] by (auto simp: run exit_entries_def)
  obtain st3 where m3: "record_vcpu_exit reason x' y' t' m = (Inr (), m\<lparr> vm_store := st3 \<rparr>)"
    "vm_table (m\<lparr> vm_store := st3 \<rparr>) = tb_write (columns ?es') t' (vm_table m)"
    using record_all_writes [OF assms(1) exit_entries_ok [OF assms(7,8)] assms(3)] by (auto simp: run exit_entries_def)
  have same: "exit_entries (m\<lparr> vm_store := st1 \<rparr>) reason x' y' = ?es'"
    by (cases reason) (simp_all add: exit_entries_def exit_handle_def)
  have "fst ` set (columns ?es) \<subseteq> fst ` set (columns ?es')"
    by (auto simp: columns_def exit_entries_def)
  then have table: "vm_table (m\<lparr> vm_store := st2 \<rparr>) = tb_write (columns ?es') t' (vm_table m)"
    using m1(3) m2(3) same tb_write_over [OF second_slot [OF assms(1,4)]] by simp
  have "row_update (columns ?es') row (sh_column (exit_handle m reason)) = f_one" for row
    using assms(1)
    by (cases reason) (auto simp: columns_def exit_entries_def exit_handle_def row_update_Cons vm_inv_def vm_handles_def)
  then have "(t', f_one) \<in> set (ring_contents (tb_write (columns ?es') t' (vm_table m)) (sh_column (exit_handle m reason)))"
    using write_contents [OF vm_tier(1) [OF assms(1)], of "columns ?es'" t' "sh_column (exit_handle m reason)"]
    by (simp add: finite_not_nan)
  then show ?thesis using m1(1) m2(1,2) m3 table by auto
qed

end
