(* ===== verification/Vcpu.thy ===== *)
theory Vcpu
  imports Vm_Metrics Virtio_Queue
begin

text \<open>
  The loop of \<open>rondo-demo-vmm/src/vcpu.rs\<close> around \<open>KVM_RUN\<close>: what the VMM does for each exit
  of the guest, the devices it answers for, the metrics it records, and when it stops; and one
  tick of the maintenance thread. What KVM returns, the clock and the guest's memory are
  inputs. A recording that the store refuses is only logged, and the store
  does not panic while its invariant holds, so that no exit of the loop is a panic.
\<close>

unbundle bit_operations_syntax

section \<open>Ports\<close>

definition COM1_DATA :: u16 where "COM1_DATA = 0x3F8"
definition COM1_LSR :: u16 where "COM1_LSR = 0x3FD"
definition LSR_THR_EMPTY :: u8 where "LSR_THR_EMPTY = 0x60"
definition SYSTEM_CTRL_PORT_B :: u16 where "SYSTEM_CTRL_PORT_B = 0x61"
definition PCI_CONFIG_DATA :: u16 where "PCI_CONFIG_DATA = 0xCFC"
definition HALT_CONSECUTIVE_THRESHOLD :: u32 where "HALT_CONSECUTIVE_THRESHOLD = 3"

text \<open>The bytes for the console, and the answer to a port read with the toggle after it.\<close>

definition handle_io_out :: "u16 \<Rightarrow> u8 list \<Rightarrow> u8 list" where
  "handle_io_out port data = (if port = COM1_DATA then data else [])"

definition handle_io_in :: "u16 \<Rightarrow> u8 list \<Rightarrow> u8 \<Rightarrow> u8 list \<times> u8" where
  "handle_io_in port data toggle =
     (if port = COM1_LSR \<and> data \<noteq> [] then (data[0 := LSR_THR_EMPTY], toggle)
      else if port = SYSTEM_CTRL_PORT_B \<and> data \<noteq> [] then (data[0 := toggle], toggle XOR 0x20)
      else if port = PCI_CONFIG_DATA \<and> data \<noteq> [] then (replicate (length data) 0xFF, toggle)
      else (replicate (length data) 0, toggle))"

section \<open>Exits\<close>

text \<open>A read carries the buffer that the handler fills.\<close>

datatype vcpu_exit = IoOut u16 "u8 list" | IoIn u16 "u8 list" | MmioRead u64 "u8 list" | MmioWrite u64 "u8 list"
  | Hlt | Shutdown | OtherExit

text \<open>
  One return of \<open>KVM_RUN\<close>: an exit, with what the clocks say about it, or an error number
  with the flags register, if it could be read. \<open>te_lock\<close> says whether the metrics lock is
  not poisoned; it is taken for every operation of the block device that is recorded and for
  the exit itself.
\<close>

datatype run_result = Ran vcpu_exit | Failed nat "u64 option"

record timed_event =
  te_result :: run_result
  te_exit_ns :: f64
  te_run_ns :: f64
  te_time :: u64
  te_io_time :: "nat \<Rightarrow> u64"
  te_elapsed :: "u16 \<Rightarrow> u64"
  te_lock :: bool

record 'm vcpu_state =
  vs_memory :: 'm
  vs_metrics :: vm_metrics
  vs_block :: "virtio_block option"
  vs_halts :: u32
  vs_toggle :: u8
  vs_console :: "u8 list"
  vs_reply :: "u8 list"
  vs_irqs :: nat

datatype run_end = Running | Finished | Broken nat

definition record_exit :: "timed_event \<Rightarrow> vcpu_exit_reason \<Rightarrow> vm_metrics \<Rightarrow> vm_metrics" where
  "record_exit ev reason m =
     (if te_lock ev then snd (record_vcpu_exit reason (te_exit_ns ev) (te_run_ns ev) (te_time ev) m) else m)"

definition blk_op_of :: "io_op \<Rightarrow> blk_op" where
  "blk_op_of op = (case op of IoRead \<Rightarrow> BlkRead | IoWrite \<Rightarrow> BlkWrite | IoFlush \<Rightarrow> BlkFlush)"

definition f_of_u64 :: "u64 \<Rightarrow> f64" where
  "f_of_u64 w = f_of_nat (unat w)"

definition record_blk_io :: "bool \<Rightarrow> u64 \<Rightarrow> completed_io \<Rightarrow> vm_metrics \<Rightarrow> vm_metrics" where
  "record_blk_io lock time io m =
     (if lock then snd (record_blk_request (blk_op_of (ci_op io)) (f_of_u64 (ci_duration_ns io)) (f_of_u64 (ci_bytes io)) time m)
      else m)"

fun record_ios :: "timed_event \<Rightarrow> nat \<Rightarrow> completed_io list \<Rightarrow> vm_metrics \<Rightarrow> vm_metrics" where
  "record_ios ev n [] m = m"
| "record_ios ev n (io # ios) m = record_ios ev (Suc n) ios (record_blk_io (te_lock ev) (te_io_time ev n) io m)"

definition blk_range :: "u64 \<Rightarrow> bool" where
  "blk_range addr \<longleftrightarrow> MMIO_BASE \<le> addr \<and> addr < MMIO_BASE + MMIO_SIZE"

text \<open>The handlers of one exit; \<open>None\<close> means that a cyclic descriptor chain keeps the device busy.\<close>

definition handle_exit :: "'m guest_ops \<Rightarrow> file_io \<Rightarrow> timed_event \<Rightarrow> vcpu_exit \<Rightarrow> 'm vcpu_state \<Rightarrow>
    (vcpu_exit_reason \<times> 'm vcpu_state) option" where
  "handle_exit gm fi ev exit s =
     (case exit of
        IoOut port data \<Rightarrow> Some (ExitIo, s\<lparr> vs_console := vs_console s @ handle_io_out port data \<rparr>)
      | IoIn port data \<Rightarrow>
          (case handle_io_in port data (vs_toggle s) of
             (reply, toggle) \<Rightarrow> Some (ExitIo, s\<lparr> vs_reply := reply, vs_toggle := toggle \<rparr>))
      | MmioRead addr data \<Rightarrow>
          let reply = (case vs_block s of
               Some blk \<Rightarrow> if blk_range addr then mmio_read blk (addr - MMIO_BASE) (length data) else replicate (length data) 0
             | None \<Rightarrow> replicate (length data) 0)
          in Some (ExitMmio, s\<lparr> vs_reply := reply \<rparr>)
      | MmioWrite addr data \<Rightarrow>
          (case vs_block s of
             Some blk \<Rightarrow>
               if blk_range addr then
                 (case mmio_write gm fi (te_elapsed ev) blk (addr - MMIO_BASE) data (vs_memory s) of
                    None \<Rightarrow> None
                  | Some (r, blk', m') \<Rightarrow>
                    Some (ExitMmio, s\<lparr> vs_block := Some blk', vs_memory := m',
                      vs_irqs := (if wr_needs_interrupt r then vs_irqs s + 1 else vs_irqs s),
                      vs_metrics := record_ios ev 0 (wr_completed r) (vs_metrics s) \<rparr>))
               else Some (ExitMmio, s)
           | None \<Rightarrow> Some (ExitMmio, s))
      | Hlt \<Rightarrow> Some (ExitHlt, s)
      | Shutdown \<Rightarrow> Some (ExitShutdown, s)
      | OtherExit \<Rightarrow> Some (ExitOther, s))"

definition is_guest_halted :: "u64 option \<Rightarrow> bool" where
  "is_guest_halted rflags = (case rflags of Some f \<Rightarrow> f AND 0x200 = 0 | None \<Rightarrow> False)"

definition EINTR :: nat where "EINTR = 4"

definition run_step :: "'m guest_ops \<Rightarrow> file_io \<Rightarrow> timed_event \<Rightarrow> 'm vcpu_state \<Rightarrow> (run_end \<times> 'm vcpu_state) option" where
  "run_step gm fi ev s =
     (case te_result ev of
        Ran exit \<Rightarrow>
          (case handle_exit gm fi ev exit (s\<lparr> vs_halts := 0 \<rparr>) of
             None \<Rightarrow> None
           | Some (reason, s') \<Rightarrow>
             Some (if exit = Shutdown then Finished else Running,
                   s'\<lparr> vs_metrics := record_exit ev reason (vs_metrics s') \<rparr>))
      | Failed errno rflags \<Rightarrow>
          if errno = EINTR then
            if is_guest_halted rflags then
              let s' = s\<lparr> vs_halts := vs_halts s + 1 \<rparr> in
              Some (if HALT_CONSECUTIVE_THRESHOLD \<le> vs_halts s' then Finished else Running, s')
            else Some (Running, s\<lparr> vs_halts := 0 \<rparr>)
          else Some (Broken errno, s))"

text \<open>The loop over the returns of \<open>KVM_RUN\<close>, as far as they are given.\<close>

fun run_vcpu_loop :: "'m guest_ops \<Rightarrow> file_io \<Rightarrow> timed_event list \<Rightarrow> 'm vcpu_state \<Rightarrow> (run_end \<times> 'm vcpu_state) option" where
  "run_vcpu_loop gm fi [] s = Some (Running, s)"
| "run_vcpu_loop gm fi (ev # evs) s =
     (case run_step gm fi ev s of
        None \<Rightarrow> None
      | Some (Running, s') \<Rightarrow> run_vcpu_loop gm fi evs s'
      | Some (e, s') \<Rightarrow> Some (e, s'))"

section \<open>Maintenance\<close>

text \<open>
  One tick of the maintenance thread, with what \<open>/proc\<close> and the clocks say; errors are logged
  only. \<open>lock\<close> says whether the lock is not poisoned.
\<close>

definition maintenance_tick :: "platform \<Rightarrow> bool \<Rightarrow> f64 option \<Rightarrow> f64 option \<Rightarrow> f64 \<Rightarrow> u64 \<Rightarrow> vm_metrics \<Rightarrow> disk \<Rightarrow>
    vm_metrics \<times> disk" where
  "maintenance_tick pf lock rss fds uptime ts m d =
     (if lock then
        (case record_process_stats (case rss of Some v \<Rightarrow> v | None \<Rightarrow> f_zero)
             (case fds of Some v \<Rightarrow> v | None \<Rightarrow> f_zero) uptime ts m of
           (r, m') \<Rightarrow> (case vm_consolidate pf m' d of (r', m'', d') \<Rightarrow> (m'', d')))
      else (m, d))"

end
