(* ===== verification/Vcpu_Runs.thy ===== *)
theory Vcpu_Runs
  imports Vcpu
begin

text \<open>
  Runs of the vCPU loop: when it stops, and that nothing a guest does takes the metrics out of
  their invariant.
\<close>

section \<open>When the loop stops\<close>

text \<open>\<open>KVM_RUN\<close> was interrupted and the guest had interrupts disabled.\<close>

definition halt_interrupt :: "timed_event \<Rightarrow> bool" where
  "halt_interrupt ev = (case te_result ev of Failed errno rflags \<Rightarrow> errno = EINTR \<and> is_guest_halted rflags | _ \<Rightarrow> False)"

definition trailing_halts :: "timed_event list \<Rightarrow> nat" where
  "trailing_halts evs = length (takeWhile halt_interrupt (rev evs))"

lemma trailing_halts_snoc: "trailing_halts (evs @ [ev]) = (if halt_interrupt ev then trailing_halts evs + 1 else 0)"
  by (simp add: trailing_halts_def)

lemma trailing_two: "2 \<le> trailing_halts evs \<longleftrightarrow> (\<exists>evs0 a b. evs = evs0 @ [a, b] \<and> halt_interrupt a \<and> halt_interrupt b)"
proof (cases evs rule: rev_cases)
  case (snoc xs b)
  then show ?thesis
    by (cases xs rule: rev_cases) (auto simp: trailing_halts_def split: if_splits)
qed (simp add: trailing_halts_def)

lemma run_snoc:
  "run_vcpu_loop gm fi (evs @ [ev]) s =
     (case run_vcpu_loop gm fi evs s of
        Some (Running, s') \<Rightarrow> run_step gm fi ev s' | r \<Rightarrow> r)"
  by (induction gm fi evs s rule: run_vcpu_loop.induct) (auto split: option.splits run_end.splits prod.splits)

lemma handle_exit_halts: "handle_exit gm fi ev exit s = Some (r, s') \<Longrightarrow> vs_halts s' = vs_halts s"
  by (auto simp: handle_exit_def Let_def split: vcpu_exit.splits prod.splits option.splits if_splits)

text \<open>As long as the loop runs it has counted the halts since the last sign of life, at most two.\<close>

lemma run_counts_halts:
  assumes "run_vcpu_loop gm fi evs s = Some (Running, s')" and "vs_halts s = 0"
  shows "unat (vs_halts s') = trailing_halts evs \<and> trailing_halts evs < 3"
  using assms(1)
proof (induction evs arbitrary: s' rule: rev_induct)
  case Nil
  then show ?case using assms(2) by (simp add: trailing_halts_def)
next
  case (snoc ev evs)
  obtain s1 where s1: "run_vcpu_loop gm fi evs s = Some (Running, s1)" "run_step gm fi ev s1 = Some (Running, s')"
    using snoc.prems by (auto simp: run_snoc split: option.splits run_end.splits)
  have ih: "unat (vs_halts s1) = trailing_halts evs" "trailing_halts evs < 3"
    using snoc.IH [OF s1(1)] by auto
  then have up: "unat (vs_halts s1 + 1) = trailing_halts evs + 1"
    by (simp add: unat_word_ariths)
  show ?case
  proof (cases "halt_interrupt ev")
    case True
    then have "vs_halts s' = vs_halts s1 + 1" "\<not> 3 \<le> vs_halts s1 + 1"
      using s1(2) by (auto simp: halt_interrupt_def run_step_def Let_def HALT_CONSECUTIVE_THRESHOLD_def
          split: run_result.splits if_splits)
    then show ?thesis
      using True up by (simp add: trailing_halts_snoc word_le_nat_alt)
  next
    case False
    then have "vs_halts s' = 0"
      using s1(2) by (auto simp: halt_interrupt_def run_step_def Let_def split: run_result.splits if_splits
          option.splits prod.splits dest: handle_exit_halts)
    then show ?thesis using False by (simp add: trailing_halts_snoc)
  qed
qed

text \<open>
  C20. While the loop runs, the next return of \<open>KVM_RUN\<close> ends it without an error exactly if
  the guest has shut down, or if this and the two returns before it were all interruptions
  of a guest with interrupts disabled: one or two such samples, or any exit between them, do
  not stop the VMM.
\<close>

theorem loop_stops_exactly:
  assumes "run_vcpu_loop gm fi evs s = Some (Running, s1)" and "vs_halts s = 0"
  shows "(\<exists>s2. run_step gm fi ev s1 = Some (Finished, s2)) \<longleftrightarrow>
    te_result ev = Ran Shutdown \<or>
    (\<exists>evs0 a b. evs = evs0 @ [a, b] \<and> halt_interrupt a \<and> halt_interrupt b \<and> halt_interrupt ev)"
proof -
  have c: "unat (vs_halts s1) = trailing_halts evs" "trailing_halts evs < 3"
    using run_counts_halts [OF assms] by auto
  then have up: "3 \<le> vs_halts s1 + 1 \<longleftrightarrow> 2 \<le> trailing_halts evs"
    by (simp add: word_le_nat_alt unat_word_ariths)
  show ?thesis
  proof (cases "te_result ev")
    case (Ran exit)
    then show ?thesis
      by (auto simp: run_step_def halt_interrupt_def handle_exit_def split: option.splits prod.splits)
  next
    case (Failed errno rflags)
    then have "(\<exists>s2. run_step gm fi ev s1 = Some (Finished, s2)) \<longleftrightarrow> halt_interrupt ev \<and> 2 \<le> trailing_halts evs"
      using up by (auto simp: run_step_def halt_interrupt_def HALT_CONSECUTIVE_THRESHOLD_def Let_def)
    then show ?thesis using Failed trailing_two [of evs] by auto
  qed
qed

section \<open>The metrics\<close>

lemma record_ios_keeps: "vm_inv m \<Longrightarrow> vm_inv (record_ios ev n ios m)"
  by (induction ev n ios m rule: record_ios.induct) (auto simp: record_blk_io_def record_calls_keep(2))

lemma run_step_keeps:
  assumes "run_step gm fi ev s = Some (e, s')" and "vm_inv (vs_metrics s)"
  shows "vm_inv (vs_metrics s')"
proof -
  have h: "vm_inv (vs_metrics s2)" if "handle_exit gm fi ev exit s1 = Some (r, s2)" "vm_inv (vs_metrics s1)" for exit s1 r s2
    using that by (auto simp: handle_exit_def Let_def record_ios_keeps
        split: vcpu_exit.splits prod.splits option.splits if_splits)
  show ?thesis
  proof (cases "te_result ev")
    case (Ran exit)
    then obtain r s2 where s2: "handle_exit gm fi ev exit (s\<lparr> vs_halts := 0 \<rparr>) = Some (r, s2)"
      "s' = s2\<lparr> vs_metrics := record_exit ev r (vs_metrics s2) \<rparr>"
      using assms(1) by (auto simp: run_step_def split: option.splits)
    then have "vm_inv (vs_metrics s2)" using h [OF s2(1)] assms(2) by simp
    then show ?thesis by (simp add: s2(2) record_exit_def record_calls_keep(1))
  next
    case (Failed errno rflags)
    then show ?thesis
      using assms by (auto simp: run_step_def Let_def split: if_splits)
  qed
qed

text \<open>
  C10. Nothing a guest does, and no value of the clocks, takes the metrics of the VMM out of
  their invariant: after every run of the loop, and after every tick of the maintenance
  thread, the store is sound and the sixteen series are registered as they were.
\<close>

theorem metrics_invariant:
  assumes "vm_inv (vs_metrics s)" and "run_vcpu_loop gm fi evs s = Some (e, s')" and "orders_ok (pf_orders pf)"
  shows "vm_inv (vs_metrics s') \<and> vm_inv (fst (maintenance_tick pf lock rss fds uptime ts (vs_metrics s') d))"
proof -
  have run: "vm_inv (vs_metrics s')"
    using assms(2,1)
  proof (induction gm fi evs s rule: run_vcpu_loop.induct)
    case (2 gm fi ev evs s)
    then show ?case by (auto split: option.splits run_end.splits prod.splits dest: run_step_keeps)
  qed simp
  obtain r m1 where m1: "record_process_stats (case rss of Some v \<Rightarrow> v | None \<Rightarrow> f_zero)
      (case fds of Some v \<Rightarrow> v | None \<Rightarrow> f_zero) uptime ts (vs_metrics s') = (r, m1)" by force
  then have "vm_inv m1" using record_calls_keep(3) [OF run] by (metis snd_conv)
  moreover obtain r' m2 d' where m2: "vm_consolidate pf m1 d = (r', m2, d')" by (rule prod_cases3)
  ultimately have "vm_inv m2" using vm_consolidate_keeps [OF _ assms(3) m2] by simp
  then show ?thesis
    using run m1 m2 by (simp add: maintenance_tick_def)
qed

text \<open>
  The port that the kernel polls while it calibrates its timer changes with every read:
  bit 5 of two successive answers differs, and the other bits stay.
\<close>

theorem pit_gate_toggles:
  "(case handle_io_in SYSTEM_CTRL_PORT_B [x] toggle of (reply, toggle') \<Rightarrow>
      case handle_io_in SYSTEM_CTRL_PORT_B [y] toggle' of (reply', toggle'') \<Rightarrow>
        reply' ! 0 = reply ! 0 XOR 0x20 \<and> toggle'' = toggle)"
  by (simp add: handle_io_in_def SYSTEM_CTRL_PORT_B_def COM1_LSR_def xor.assoc)

end
