(* ===== verification/Api.thy ===== *)
theory Api
  imports Vm_Metrics Remote_Write Text
begin

text \<open>
  \<open>rondo-demo-vmm/src/api.rs\<close>: the HTTP interface to the metrics of a running VMM, one request
  per connection. The connection and the JSON library are parameters: what arrives on the one,
  whether a call on it succeeds, fails or never returns, and how the other renders the two
  documents. The read timeout of 5 s bounds one read, not a line of which bytes keep arriving, and
  there is no timeout for writing, so a client can keep the server in a call for ever.
\<close>

section \<open>Requests and responses\<close>

text \<open>What a call on the connection does.\<close>

datatype 'a call = Returns 'a | Fails io_error | Stalls

text \<open>The outcome of every call of \<open>read_line\<close>, the first for the request line, and of sending a response.\<close>

record connection =
  cn_lines :: "nat \<Rightarrow> string call"
  cn_send :: "string \<Rightarrow> unit call"

record api_json =
  aj_info :: "usize \<Rightarrow> string list \<Rightarrow> string"
  aj_query :: "string \<Rightarrow> (u64 \<times> f64) list \<Rightarrow> string"

datatype api_error = ReadError io_error | WriteError io_error | MissingSeries | Poisoned | StoreError rondo_error

text \<open>What was sent, or the error; \<open>None\<close> for a request of which the handler never returns.\<close>

type_synonym response = "(api_error fault + string) option"

definition api_result :: "'a res \<Rightarrow> api_error fault + 'a" where
  "api_result r = map_err (\<lambda>f. case f of Error e \<Rightarrow> Error (StoreError e) | Panic \<Rightarrow> Panic | UB \<Rightarrow> UB) r"

definition crlf :: string where
  "crlf = [byte 13, byte 10]"

definition status_text :: "nat \<Rightarrow> string" where
  "status_text status =
     (if status = 200 then ''OK'' else if status = 400 then ''Bad Request''
      else if status = 404 then ''Not Found'' else if status = 500 then ''Internal Server Error'' else ''Unknown'')"

definition response_text :: "nat \<Rightarrow> string \<Rightarrow> string" where
  "response_text status body =
     ''HTTP/1.1 '' @ fmt_nat status @ '' '' @ status_text status @ crlf @
     ''Content-Type: application/json'' @ crlf @ ''Content-Length: '' @ fmt_nat (length body) @ crlf @
     ''Connection: close'' @ crlf @ crlf @ body"

definition send_response :: "connection \<Rightarrow> nat \<Rightarrow> string \<Rightarrow> response" where
  "send_response conn status body =
     (case cn_send conn (response_text status body) of
        Returns _ \<Rightarrow> Some (Inr (response_text status body))
      | Fails e \<Rightarrow> Some (Inl (Error (WriteError e)))
      | Stalls \<Rightarrow> None)"

text \<open>The loop that drains the header lines from the \<open>n\<close>-th call on; a header need not end.\<close>

partial_function (option) drain_headers :: "(nat \<Rightarrow> string call) \<Rightarrow> nat \<Rightarrow> (api_error fault + unit) option" where
  "drain_headers lines n =
     (case lines n of
        Returns line \<Rightarrow> if trim line = [] then Some (Inr ()) else drain_headers lines (n + 1)
      | Fails e \<Rightarrow> Some (Inl (Error (ReadError e)))
      | Stalls \<Rightarrow> None)"

definition parse_query :: "string \<Rightarrow> (string, string) hash_map" where
  "parse_query query =
     fold (\<lambda>(k, v). hm_insert k v)
       (List.map_filter (split_once (CHR ''='')) (filter (\<lambda>s. s \<noteq> []) (split_on (CHR ''&'') query))) []"

section \<open>Handlers\<close>

definition handle_info :: "platform \<Rightarrow> api_json \<Rightarrow> connection \<Rightarrow> bool \<Rightarrow> vm_metrics \<Rightarrow> response" where
  "handle_info pf js conn lock m =
     (if \<not> lock then Some (Inl (Error Poisoned))
      else let handles = store_handles pf (vm_store m);
               series_names = List.map_filter (\<lambda>h. map_option fst (store_series_info pf (vm_store m) h)) handles
           in send_response conn 200 (aj_info js (length handles) series_names))"

definition find_named :: "platform \<Rightarrow> store \<Rightarrow> string \<Rightarrow> series_handle option" where
  "find_named pf st series_name =
     List.find (\<lambda>h. case store_series_info pf st h of Some (name, _) \<Rightarrow> name = series_name | None \<Rightarrow> False)
       (store_handles pf st)"

definition number_param :: "(string, string) hash_map \<Rightarrow> string \<Rightarrow> u64 \<Rightarrow> u64" where
  "number_param params key or_else =
     (case hm_get params key of
        None \<Rightarrow> or_else
      | Some s \<Rightarrow> (case parse_uint (2 ^ 64) s of None \<Rightarrow> or_else | Some n \<Rightarrow> word_of_nat n))"

definition not_found_body :: "string \<Rightarrow> string" where
  "not_found_body series_name = [CHR ''{'', CHR 0x22] @ ''error'' @ [CHR 0x22, CHR '':'', CHR 0x22] @ ''series '' @
     [CHR 0x27] @ series_name @ [CHR 0x27] @ '' not found'' @ [CHR 0x22, CHR ''}'']"

definition handle_query :: "platform \<Rightarrow> api_json \<Rightarrow> connection \<Rightarrow> bool \<Rightarrow> vm_metrics \<Rightarrow> string \<Rightarrow> response" where
  "handle_query pf js conn lock m query =
     (let params = parse_query query in
      case hm_get params ''series'' of
        None \<Rightarrow> Some (Inl (Error MissingSeries))
      | Some series_name \<Rightarrow>
        let start = number_param params ''start'' 0; stop = number_param params ''end'' (- 1) in
        if \<not> lock then Some (Inl (Error Poisoned))
        else case find_named pf (vm_store m) series_name of
          None \<Rightarrow> send_response conn 404 (not_found_body series_name)
        | Some handle \<Rightarrow>
          (case rbind (api_result (store_query (vm_store m) handle 0 start stop)) (\<lambda>result.
                api_result (collect_all result)) of
             Inl e \<Rightarrow> Some (Inl e)
           | Inr points \<Rightarrow> send_response conn 200 (aj_query js series_name points)))"

definition STATUS_OK :: string where
  "STATUS_OK = [CHR ''{'', CHR 0x22] @ ''status'' @ [CHR 0x22, CHR '':'', CHR 0x22] @ ''ok'' @ [CHR 0x22, CHR ''}'']"

definition NOT_FOUND_BODY :: string where
  "NOT_FOUND_BODY = [CHR ''{'', CHR 0x22] @ ''error'' @ [CHR 0x22, CHR '':'', CHR 0x22] @ ''not found'' @ [CHR 0x22, CHR ''}'']"

definition handle_request :: "platform \<Rightarrow> api_json \<Rightarrow> connection \<Rightarrow> bool \<Rightarrow> vm_metrics \<Rightarrow> response" where
  "handle_request pf js conn lock m =
     (case cn_lines conn 0 of
        Stalls \<Rightarrow> None
      | Fails e \<Rightarrow> Some (Inl (Error (ReadError e)))
      | Returns request_line \<Rightarrow>
        let parts = split_whitespace request_line in
        if length parts < 2 then send_response conn 400 ''Bad Request''
        else let (path, query) = (case split_once (CHR ''?'') (parts ! 1) of Some (p, q) \<Rightarrow> (p, q) | None \<Rightarrow> (parts ! 1, [])) in
        case drain_headers (cn_lines conn) 1 of
          None \<Rightarrow> None
        | Some (Inl e) \<Rightarrow> Some (Inl e)
        | Some (Inr _) \<Rightarrow>
          if path = ''/metrics/health'' then send_response conn 200 STATUS_OK
          else if path = ''/metrics/info'' then handle_info pf js conn lock m
          else if path = ''/metrics/query'' then handle_query pf js conn lock m query
          else send_response conn 404 NOT_FOUND_BODY)"

section \<open>What a query answers\<close>

text \<open>The points of a series in tier 0 within a range.\<close>

definition points_of :: "vm_metrics \<Rightarrow> series_handle \<Rightarrow> u64 \<Rightarrow> u64 \<Rightarrow> (u64 \<times> f64) list" where
  "points_of m h start stop = samples (vm_store m) h 0 start stop"

lemma found_registered:
  assumes "vm_inv m" and "iteration_order (pf_keys pf)" and "find_named pf (vm_store m) name = Some h"
  shows "\<exists>labels. get_handle (st_registry (vm_store m)) name labels = Some h"
proof -
  have "store_inv (vm_store m)" using assms(1) by (simp add: vm_inv_def)
  moreover obtain labels where "store_series_info pf (vm_store m) h = Some (name, labels)"
    using assms(3) by (auto simp: find_named_def find_Some_iff split: option.splits)
  ultimately show ?thesis
    using series_info_registered(2) assms(2) by blast
qed

text \<open>A name is found exactly if some series is registered under it.\<close>

lemma find_named_iff:
  assumes "store_inv st" and "iteration_order (pf_keys pf)"
  shows "(\<exists>h. find_named pf st name = Some h) \<longleftrightarrow> (\<exists>labels. get_handle (st_registry st) name labels \<noteq> None)"
proof
  assume "\<exists>h. find_named pf st name = Some h"
  then obtain h labels where "store_series_info pf st h = Some (name, labels)"
    by (auto simp: find_named_def find_Some_iff split: option.splits)
  then show "\<exists>labels. get_handle (st_registry st) name labels \<noteq> None"
    using series_info_registered(2) [OF assms] by fastforce
next
  assume "\<exists>labels. get_handle (st_registry st) name labels \<noteq> None"
  then obtain labels h where h: "get_handle (st_registry st) name labels = Some h" by blast
  then obtain labels' where "store_series_info pf st h = Some (name, labels')" "h \<in> set (store_handles pf st)"
    using series_info_of_handle [OF assms] by blast
  then show "\<exists>h. find_named pf st name = Some h"
    by (cases "find_named pf st name") (auto simp: find_named_def find_None_iff)
qed

lemma handle_query_answers:
  assumes "vm_inv m" and "iteration_order (pf_keys pf)"
  shows "handle_query pf js conn True m query =
    (case hm_get (parse_query query) ''series'' of
       None \<Rightarrow> Some (Inl (Error MissingSeries))
     | Some name \<Rightarrow>
       (let start = number_param (parse_query query) ''start'' 0; stop = number_param (parse_query query) ''end'' (- 1) in
        case find_named pf (vm_store m) name of
          None \<Rightarrow> send_response conn 404 (not_found_body name)
        | Some h \<Rightarrow>
          if start < stop then send_response conn 200 (aj_query js name (points_of m h start stop))
          else Some (Inl (Error (StoreError (Query (InvalidTimeRange start stop)))))))"
proof (cases "hm_get (parse_query query) ''series''")
  case (Some name)
  let ?s = "number_param (parse_query query) ''start'' 0" and ?e = "number_param (parse_query query) ''end'' (- 1)"
  show ?thesis
  proof (cases "find_named pf (vm_store m) name")
    case h: (Some h)
    have inv: "store_inv (vm_store m)" "st_schemas (vm_store m) = [vmm_schema vmm_tier_list]"
      using assms(1) by (simp_all add: vm_inv_def)
    have reg: "registered (vm_store m) h"
      using found_registered [OF assms h] by (auto simp: registered_def)
    then have i: "sh_schema_index h = 0"
      using registered_bounds [OF inv(1) reg] inv(2) by simp
    then have tiers: "tiers_of (vm_store m) h = vmm_tier_list"
      by (simp add: inv(2) vmm_schema_def)
    have "store_query (vm_store m) h 0 ?s ?e = err (Query (InvalidTimeRange ?s ?e))" if "\<not> ?s < ?e"
      using that i inv(2) by (simp add: store_query_def vmm_schema_def vmm_tier_list_def not_less)
    moreover have "\<exists>q. store_query (vm_store m) h 0 ?s ?e = Inr q \<and> collect_all q = Inr (points_of m h ?s ?e)" if "?s < ?e"
      using store_query_ok [OF inv(1) reg _ that, of 0] tiers by (auto simp: points_of_def vmm_tier_list_def)
    ultimately show ?thesis
      using Some h by (cases "?s < ?e") (auto simp: handle_query_def api_result_def Let_def)
  qed (simp add: handle_query_def Some)
qed (simp add: handle_query_def)

text \<open>
  C22. A query over HTTP on the metrics of the VMM has four outcomes: without a series
  parameter the connection is closed without a response; a name that no series has gives a
  404; a range that is empty closes the connection; otherwise the response carries exactly
  the points of tier 0 in the range, for the first series of that name. It never crashes, it
  returns unless the client lets the sending of the response stall, and a name is found exactly if some series is registered under it.
\<close>

theorem api_query_spec:
  assumes "vm_inv m" and "iteration_order (pf_keys pf)"
  shows "handle_query pf js conn True m query =
    (case hm_get (parse_query query) ''series'' of
       None \<Rightarrow> Some (Inl (Error MissingSeries))
     | Some name \<Rightarrow>
       (let start = number_param (parse_query query) ''start'' 0; stop = number_param (parse_query query) ''end'' (- 1) in
        case find_named pf (vm_store m) name of
          None \<Rightarrow> send_response conn 404 (not_found_body name)
        | Some h \<Rightarrow>
          if start < stop then send_response conn 200 (aj_query js name (points_of m h start stop))
          else Some (Inl (Error (StoreError (Query (InvalidTimeRange start stop))))))) \<and>
    (\<forall>name. (\<exists>h. find_named pf (vm_store m) name = Some h) \<longleftrightarrow>
       (\<exists>labels. get_handle (st_registry (vm_store m)) name labels \<noteq> None))"
  using handle_query_answers [OF assms] find_named_iff [OF _ assms(2)] assms(1) by (simp add: vm_inv_def)

section \<open>The server\<close>

definition ends_well :: "response \<Rightarrow> bool" where
  "ends_well r = (case r of Some (Inl Panic) \<Rightarrow> False | Some (Inl UB) \<Rightarrow> False | _ \<Rightarrow> True)"

lemma ends_well_simps [simp]:
  "ends_well None" "ends_well (Some (Inr text))" "ends_well (Some (Inl (Error e)))" "ends_well (send_response conn status body)"
  by (simp_all add: ends_well_def send_response_def split: call.splits)

text \<open>
  The end of a header, with an empty line or an error; draining returns only there.
\<close>

definition header_ends :: "(nat \<Rightarrow> string call) \<Rightarrow> nat \<Rightarrow> bool" where
  "header_ends lines n = (case lines n of Returns line \<Rightarrow> trim line = [] | Fails e \<Rightarrow> True | Stalls \<Rightarrow> False)"

lemma drain_headers_result:
  assumes "drain_headers lines n = Some r"
  shows "(\<exists>k. header_ends lines (n + k)) \<and> (\<forall>f. r = Inl f \<longrightarrow> (\<exists>e. f = Error e))"
  using assms
proof (induct rule: drain_headers.raw_induct [rotated, consumes 1, case_names step])
  case (step drain lines n r)
  show ?case
  proof (cases "header_ends lines n")
    case True
    then show ?thesis
      using step(2) by (intro conjI exI [of _ 0]) (auto simp: header_ends_def split: call.splits if_splits)
  next
    case False
    then have "drain lines (n + 1) = Some r"
      using step(2) by (auto simp: header_ends_def split: call.splits if_splits)
    from step(1) [OF this] obtain k where k: "header_ends lines (n + 1 + k)" "\<forall>f. r = Inl f \<longrightarrow> (\<exists>e. f = Error e)"
      by (elim conjE exE)
    from k(1) have "header_ends lines (n + (1 + k))" by (simp only: add.assoc)
    with k(2) show ?thesis by (intro conjI exI [of _ "1 + k"])
  qed
qed

lemma drain_headers_error: "drain_headers lines n = Some (Inl f) \<Longrightarrow> \<exists>e. f = Error e"
  using drain_headers_result by blast

lemma endless_header: "\<forall>k. \<not> header_ends lines (n + k) \<Longrightarrow> drain_headers lines n = None"
proof (rule ccontr)
  assume "\<forall>k. \<not> header_ends lines (n + k)" "drain_headers lines n \<noteq> None"
  then obtain r where "drain_headers lines n = Some r" by (elim not_None_eq [THEN iffD1, THEN exE])
  from drain_headers_result [OF this] \<open>\<forall>k. \<not> header_ends lines (n + k)\<close> show False by (elim conjE exE allE notE)
qed

text \<open>
  What a handler does is decided before it sends: it ends with an error, or sends one response.
\<close>

definition decided :: "connection \<Rightarrow> (connection \<Rightarrow> response) \<Rightarrow> bool" where
  "decided conn run \<longleftrightarrow> (\<exists>f. \<forall>send. run (conn\<lparr>cn_send := send\<rparr>) = Some (Inl f)) \<or>
     (\<exists>status body. \<forall>send. run (conn\<lparr>cn_send := send\<rparr>) = send_response (conn\<lparr>cn_send := send\<rparr>) status body)"

lemma handle_query_decided: "decided conn (\<lambda>conn. handle_query pf js conn lock m query)"
proof (cases "hm_get (parse_query query) ''series''")
  case (Some name)
  show ?thesis
  proof (cases "lock")
    case True
    then show ?thesis
    proof (cases "find_named pf (vm_store m) name")
      case None
      then show ?thesis using Some True unfolding decided_def
        by (intro disjI2 exI [of _ 404] exI [of _ "not_found_body name"]) (simp add: handle_query_def Let_def)
    next
      case h: (Some h)
      let ?q = "rbind (api_result (store_query (vm_store m) h 0 (number_param (parse_query query) ''start'' 0)
          (number_param (parse_query query) ''end'' (- 1)))) (\<lambda>result. api_result (collect_all result))"
      show ?thesis
      proof (cases ?q)
        case (Inl f)
        then show ?thesis using Some True h unfolding decided_def
          by (intro disjI1 exI [of _ f]) (simp add: handle_query_def Let_def)
      next
        case (Inr points)
        then show ?thesis using Some True h unfolding decided_def
          by (intro disjI2 exI [of _ 200] exI [of _ "aj_query js name points"]) (simp add: handle_query_def Let_def)
      qed
    qed
  qed (use Some in \<open>simp add: decided_def handle_query_def Let_def\<close>)
qed (simp add: decided_def handle_query_def Let_def)

lemma handle_info_decided: "decided conn (\<lambda>conn. handle_info pf js conn lock m)"
  by (cases lock) (auto simp: decided_def handle_info_def Let_def)

lemma send_decided: "decided conn (\<lambda>conn. send_response conn status body)"
  by (auto simp: decided_def)

definition reading_stalls :: "connection \<Rightarrow> bool" where
  "reading_stalls conn \<longleftrightarrow> (case cn_lines conn 0 of
     Stalls \<Rightarrow> True | Fails e \<Rightarrow> False
   | Returns line \<Rightarrow> 2 \<le> length (split_whitespace line) \<and> drain_headers (cn_lines conn) 1 = None)"

lemma request_stalls:
  "reading_stalls conn \<Longrightarrow> handle_request pf js conn lock m = None"
  by (simp add: reading_stalls_def handle_request_def Let_def split: call.splits prod.splits)

lemma handle_request_decided:
  assumes "\<not> reading_stalls conn"
  shows "decided conn (\<lambda>conn. handle_request pf js conn lock m)"
proof (cases "cn_lines conn 0")
  case (Returns line)
  show ?thesis
  proof (cases "length (split_whitespace line) < 2")
    case True
    then show ?thesis using Returns send_decided [of conn 400 "''Bad Request''"] by (simp add: handle_request_def decided_def)
  next
    case False
    obtain path query where pq: "(case split_once (CHR ''?'') (split_whitespace line ! 1) of
        Some (p, q) \<Rightarrow> (p, q) | None \<Rightarrow> (split_whitespace line ! 1, [])) = (path, query)" by force
    obtain r where r: "drain_headers (cn_lines conn) 1 = Some r"
      using assms Returns False by (auto simp: reading_stalls_def)
    show ?thesis
    proof (cases r)
      case (Inl f)
      then show ?thesis using Returns False pq r by (simp add: decided_def handle_request_def Let_def)
    next
      case (Inr u)
      have "handle_request pf js (conn\<lparr>cn_send := send\<rparr>) lock m =
          (if path = ''/metrics/health'' then send_response (conn\<lparr>cn_send := send\<rparr>) 200 STATUS_OK
           else if path = ''/metrics/info'' then handle_info pf js (conn\<lparr>cn_send := send\<rparr>) lock m
           else if path = ''/metrics/query'' then handle_query pf js (conn\<lparr>cn_send := send\<rparr>) lock m query
           else send_response (conn\<lparr>cn_send := send\<rparr>) 404 NOT_FOUND_BODY)" for send
        using Returns False pq r Inr by (simp add: handle_request_def Let_def)
      then show ?thesis
        using send_decided [of conn] handle_info_decided [of conn pf js lock m] handle_query_decided [of conn pf js lock m query]
        by (cases "path = ''/metrics/health''"; cases "path = ''/metrics/info''"; cases "path = ''/metrics/query''")
          (simp_all add: decided_def)
    qed
  qed
qed (use assms in \<open>simp_all add: decided_def handle_request_def reading_stalls_def\<close>)

lemma decided_at: "decided conn run \<Longrightarrow> (\<exists>f. run conn = Some (Inl f)) \<or> (\<exists>status body. run conn = send_response conn status body)"
  unfolding decided_def by (elim disjE exE) (drule spec [of _ "cn_send conn"], auto)+

lemma handle_request_ends_well:
  assumes "vm_inv m" and "iteration_order (pf_keys pf)"
  shows "ends_well (handle_request pf js conn lock m)"
proof -
  have "ends_well (handle_query pf js conn lock m query)" for query
  proof (cases lock)
    case True
    then show ?thesis
      using handle_query_answers [OF assms, of js conn query] by (simp add: Let_def split: option.splits)
  qed (simp add: handle_query_def Let_def split: option.splits)
  moreover have "ends_well (handle_info pf js conn lock m)"
    by (simp add: handle_info_def Let_def)
  moreover have "ends_well (Some (Inl f))" if "drain_headers (cn_lines conn) 1 = Some (Inl f)" for f
    using drain_headers_error [OF that] by auto
  ultimately show ?thesis
    by (simp add: handle_request_def Let_def split: call.split sum.split option.split prod.split)
qed

text \<open>
  The accept loop, over what arrives: an error, or a connection with the lock and the metrics at that
  time. An error of a request ends its connection, a panic the server, and a request that never
  returns keeps the server, so that nothing that arrives later is accepted. The answers given, and
  what has become of the server.
\<close>

type_synonym arrival = "io_error + connection \<times> bool \<times> vm_metrics"

datatype server_state = Listening | Blocked | Died "api_error fault"

fun serve :: "platform \<Rightarrow> api_json \<Rightarrow> arrival list \<Rightarrow> string option list \<times> server_state" where
  "serve pf js [] = ([], Listening)"
| "serve pf js (Inl e # arrivals) = serve pf js arrivals"
| "serve pf js (Inr (conn, lock, m) # arrivals) =
     (case handle_request pf js conn lock m of
        None \<Rightarrow> ([], Blocked)
      | Some (Inr text) \<Rightarrow> (case serve pf js arrivals of (answers, s) \<Rightarrow> (Some text # answers, s))
      | Some (Inl (Error e)) \<Rightarrow> (case serve pf js arrivals of (answers, s) \<Rightarrow> (None # answers, s))
      | Some (Inl f) \<Rightarrow> ([], Died f))"

definition run_api_server :: "platform \<Rightarrow> api_json \<Rightarrow> io_error option \<Rightarrow> arrival list \<Rightarrow> string option list \<times> server_state" where
  "run_api_server pf js bind_error arrivals =
     (case bind_error of Some e \<Rightarrow> ([], Listening) | None \<Rightarrow> serve pf js arrivals)"

definition accepted :: "arrival list \<Rightarrow> (connection \<times> bool \<times> vm_metrics) list" where
  "accepted arrivals = List.map_filter (\<lambda>a. case a of Inl e \<Rightarrow> None | Inr c \<Rightarrow> Some c) arrivals"

text \<open>A client that lets the server go on: no call on the connection stalls, and its header ends.\<close>

definition cooperates :: "connection \<Rightarrow> bool" where
  "cooperates conn \<longleftrightarrow> (\<forall>n. cn_lines conn n \<noteq> Stalls) \<and> (\<exists>n > 0. header_ends (cn_lines conn) n) \<and>
     (\<forall>text. cn_send conn text \<noteq> Stalls)"

lemma drain_headers_returns:
  assumes "header_ends lines (n + k)" and "\<forall>n. lines n \<noteq> Stalls"
  shows "drain_headers lines n \<noteq> None"
  using assms(1)
proof (induction k arbitrary: n)
  case 0
  then show ?case by (simp add: drain_headers.simps [of lines n] header_ends_def split: call.splits)
next
  case (Suc k)
  then show ?case
    using Suc.IH [of "n + 1"] assms(2) by (auto simp: drain_headers.simps [of lines n] split: call.splits)
qed

lemma cooperative_request_returns:
  assumes "cooperates conn"
  shows "handle_request pf js conn lock m \<noteq> None"
proof -
  have send: "send_response conn status body \<noteq> None" for status body
    using assms by (simp add: send_response_def cooperates_def split: call.split)
  obtain n where "0 < n" "header_ends (cn_lines conn) n" using assms unfolding cooperates_def by blast
  then have "drain_headers (cn_lines conn) 1 \<noteq> None"
    using drain_headers_returns [of "cn_lines conn" 1 "n - 1"] assms by (simp add: cooperates_def)
  then have "\<not> reading_stalls conn"
    using assms by (simp add: reading_stalls_def cooperates_def split: call.split)
  from decided_at [OF handle_request_decided [OF this, of pf js lock m]] show ?thesis
    by (elim disjE exE) (simp_all add: send)
qed

text \<open>
  C29. The HTTP server survives what goes wrong with a request. With metrics that satisfy their
  invariant, whatever arrives, also after errors of accept, of reading, of writing and of the
  requests themselves, it answers the connections in turn, each as if it were the only one, up to
  the first whose handler never returns, which keeps it; it never dies. The handler returns for
  every client that cooperates: no call on its connection stalls and its header ends. (One that does
  not cooperate stops the server: \<open>stalling_client_blocks_server\<close>.)
\<close>

theorem server_survives:
  assumes "\<forall>(conn, lock, m) \<in> set (accepted arrivals). vm_inv m" and "iteration_order (pf_keys pf)"
  shows "run_api_server pf js None arrivals =
      (map (\<lambda>(conn, lock, m). case handle_request pf js conn lock m of Some (Inr text) \<Rightarrow> Some text | _ \<Rightarrow> None)
         (takeWhile (\<lambda>(conn, lock, m). handle_request pf js conn lock m \<noteq> None) (accepted arrivals)),
       if \<exists>(conn, lock, m) \<in> set (accepted arrivals). handle_request pf js conn lock m = None then Blocked else Listening) \<and>
    (\<forall>(conn, lock, m) \<in> set (accepted arrivals). cooperates conn \<longrightarrow> handle_request pf js conn lock m \<noteq> None)"
proof
  show "run_api_server pf js None arrivals =
      (map (\<lambda>(conn, lock, m). case handle_request pf js conn lock m of Some (Inr text) \<Rightarrow> Some text | _ \<Rightarrow> None)
         (takeWhile (\<lambda>(conn, lock, m). handle_request pf js conn lock m \<noteq> None) (accepted arrivals)),
       if \<exists>(conn, lock, m) \<in> set (accepted arrivals). handle_request pf js conn lock m = None then Blocked else Listening)"
    using assms unfolding run_api_server_def option.case
  proof (induction pf js arrivals rule: serve.induct)
    case (3 pf js conn lock m arrivals)
    have well: "ends_well (handle_request pf js conn lock m)"
      using 3 by (intro handle_request_ends_well) (simp_all add: accepted_def map_filter_simps)
    have cons: "accepted (Inr (conn, lock, m) # arrivals) = (conn, lock, m) # accepted arrivals"
      by (simp add: accepted_def map_filter_simps)
    show ?case
    proof (cases "handle_request pf js conn lock m")
      case None
      then show ?thesis by (simp add: cons)
    next
      case (Some r)
      then consider answer where "r = Inr answer" | e where "r = Inl (Error e)"
        using well by (auto simp: ends_well_def split: sum.splits fault.splits)
      then show ?thesis
      proof cases
        case 1
        then show ?thesis using "3.IH"(2) [OF Some 1] "3.prems" Some by (simp add: cons)
      next
        case 2
        then show ?thesis using "3.IH"(1) [OF Some 2 refl] "3.prems" Some by (simp add: cons)
      qed
    qed
  qed (simp_all add: accepted_def map_filter_simps)
  show "\<forall>(conn, lock, m) \<in> set (accepted arrivals). cooperates conn \<longrightarrow> handle_request pf js conn lock m \<noteq> None"
    using cooperative_request_returns by fast
qed

text \<open>
  One client stops the server for all: if the header it sends never ends, or it does not read the
  response to its request (for a query, it is sent while the metrics are locked), no later
  connection is answered.
\<close>

theorem stalling_client_blocks_server:
  assumes "cn_lines conn 0 = Returns request_line" and "2 \<le> length (split_whitespace request_line)"
    and "\<forall>n > 0. \<not> header_ends (cn_lines conn) n"
  shows "run_api_server pf js None (Inr (conn, lock, m) # arrivals) = ([], Blocked)"
proof -
  have "drain_headers (cn_lines conn) 1 = None"
    using assms(3) by (intro endless_header) simp
  then have "handle_request pf js conn lock m = None"
    using assms(1,2) by (intro request_stalls) (simp add: reading_stalls_def)
  then show ?thesis by (simp add: run_api_server_def)
qed

theorem unread_response_blocks_server:
  assumes "handle_request pf js (conn\<lparr>cn_send := \<lambda>_. Returns ()\<rparr>) lock m = Some (Inr text)" and "cn_send conn text = Stalls"
  shows "run_api_server pf js None (Inr (conn, lock, m) # arrivals) = ([], Blocked)"
proof -
  let ?sent = "conn\<lparr>cn_send := \<lambda>_. Returns ()\<rparr>"
  have ready: "\<not> reading_stalls conn"
  proof
    assume "reading_stalls conn"
    moreover have "cn_lines ?sent = cn_lines conn" by simp
    ultimately have "reading_stalls ?sent" unfolding reading_stalls_def by (simp only:)
    then show False using assms(1) request_stalls by simp
  qed
  from handle_request_decided [OF this] have "decided conn (\<lambda>conn. handle_request pf js conn lock m)" .
  then obtain status body where "\<forall>send. handle_request pf js (conn\<lparr>cn_send := send\<rparr>) lock m =
      send_response (conn\<lparr>cn_send := send\<rparr>) status body"
    using assms(1) unfolding decided_def by auto
  then have at: "handle_request pf js (conn\<lparr>cn_send := send\<rparr>) lock m = send_response (conn\<lparr>cn_send := send\<rparr>) status body" for send
    by blast
  have "text = response_text status body"
    using assms(1) at [of "\<lambda>_. Returns ()"] by (simp add: send_response_def)
  then have "handle_request pf js conn lock m = None"
    using at [of "cn_send conn"] assms(2) by (simp add: send_response_def)
  then show ?thesis by (simp add: run_api_server_def)
qed

section \<open>Names that several series share\<close>

text \<open>The iteration that visits one key first.\<close>

definition key_first :: "series_key \<Rightarrow> series_key list \<Rightarrow> series_key list" where
  "key_first k ks = (if k \<in> set ks then k # remove1 k ks else ks)"

lemma key_first_order: "iteration_order (key_first k)"
  by (auto simp: iteration_order_def key_first_def)

text \<open>
  The name alone does not say which series answers: for each of the five exit reasons
  there is an iteration order of the hash map, all of which the standard library allows, in
  which a query for \<open>vcpu_exits_total\<close> gives the series of that reason.
\<close>

theorem shared_name_is_ambiguous:
  assumes "vm_inv m"
  shows "\<exists>ord. iteration_order ord \<and>
    find_named (pf\<lparr> pf_keys := ord \<rparr>) (vm_store m) ''vcpu_exits_total'' = Some (exit_handle m reason)"
proof -
  let ?labels = "[(''reason'', case reason of ExitIo \<Rightarrow> ''io'' | ExitMmio \<Rightarrow> ''mmio'' | ExitHlt \<Rightarrow> ''hlt''
     | ExitShutdown \<Rightarrow> ''shutdown'' | ExitOther \<Rightarrow> ''other'')]"
  let ?rg = "st_registry (vm_store m)" and ?k = "key_new ''vcpu_exits_total'' ?labels"
  have "list_all2 (known_as (vm_store m)) vmm_series (vm_handles m)"
    using assms by (simp add: vm_inv_def)
  then have "get_handle ?rg ''vcpu_exits_total'' ?labels = Some (exit_handle m reason)"
    by (cases reason) (simp_all add: vmm_series_def vm_handles_def known_as_def exit_handle_def)
  then obtain info where info: "hm_get (rg_series_map ?rg) ?k = Some info" "info_handle info = exit_handle m reason"
    by (auto simp: get_handle_def)
  have "reg_inv ?rg" using assms by (simp add: vm_inv_def store_inv_def)
  then have "?k = key_new (si_name info) (si_labels info)"
    using info(1) unfolding reg_inv_def by blast
  then have name: "si_name info = ''vcpu_exits_total''" by (simp add: key_new_def)
  have "?k \<in> set (hm_keys (rg_series_map ?rg))"
    using info(1) by (force simp: hm_get_def hm_keys_def dest: map_of_SomeD)
  then obtain rest where vals: "hm_values (key_first ?k) (rg_series_map ?rg) = info # rest"
    using info(1) by (simp add: hm_values_def key_first_def map_filter_simps)
  have "find_named (pf\<lparr> pf_keys := key_first ?k \<rparr>) (vm_store m) ''vcpu_exits_total'' = Some (exit_handle m reason)"
    using info(2) name by (simp add: find_named_def store_handles_def handles_def store_series_info_def get_series_info_def vals)
  then show ?thesis using key_first_order by blast
qed

end
