(* ===== verification/Vmm_Assembly.thy ===== *)
theory Vmm_Assembly
  imports Boot_Setup Vcpu Cli
begin

text \<open>
  \<open>Vmm::new\<close> and \<open>Vmm::run\<close> of \<open>rondo-demo-vmm/src/vmm.rs\<close> and the configuration of
  \<open>rondo-demo-vmm/src/main.rs\<close>: how the parts are put together. The calls of KVM, the kernel
  loader and the files of the host are parameters, so that each of them may fail; the model
  has every step in the order of the code, up to the start of the vCPU loop.
\<close>

unbundle bit_operations_syntax

section \<open>Configuration\<close>

record vmm_args =
  ar_kernel :: string
  ar_initramfs :: "string option"
  ar_metrics_store :: string
  ar_cmdline :: string
  ar_memory_mib :: u32
  ar_api_port :: u16
  ar_remote_write :: "string option"
  ar_external_labels :: "string option"
  ar_disk :: "string option"

record vmm_config =
  vc_kernel_path :: string
  vc_initramfs_path :: "string option"
  vc_cmdline :: string
  vc_memory_mib :: u32
  vc_metrics_store_path :: string
  vc_api_port :: u16
  vc_remote_write_endpoint :: "string option"
  vc_external_labels :: labels
  vc_disk_path :: "string option"

definition config_of_args :: "vmm_args \<Rightarrow> vmm_config" where
  "config_of_args cli =
     (let external_labels = (case ar_external_labels cli of None \<Rightarrow> [] | Some s \<Rightarrow> parse_external_labels s) in
      \<lparr> vc_kernel_path = ar_kernel cli, vc_initramfs_path = ar_initramfs cli, vc_cmdline = ar_cmdline cli,
        vc_memory_mib = ar_memory_mib cli, vc_metrics_store_path = ar_metrics_store cli,
        vc_api_port = ar_api_port cli, vc_remote_write_endpoint = ar_remote_write cli,
        vc_external_labels = external_labels, vc_disk_path = ar_disk cli \<rparr>)"

definition CMDLINE_PARAM :: string where
  "CMDLINE_PARAM = ''virtio_mmio.device=512@0xd0000000:5''"

section \<open>The host\<close>

text \<open>
  What the kernel loader reports, and the host: the outcome of each KVM call, memory for the
  guest of a given size, the files, and the loader with the layout of its structures.
\<close>

record 'h kernel_result =
  kl_load :: u64
  kl_end :: u64
  kl_header :: "'h setup_header_scheme option"

record ('m, 'h, 'b, 'z) host =
  kv_new :: "string option"
  kv_create_vm :: "string option"
  kv_set_region :: "string option"
  kv_irq_chip :: "string option"
  kv_pit :: "string option"
  kv_create_vcpu :: "string option"
  kv_get_cpuid :: "string option"
  kv_set_cpuid :: "string option"
  kv_get_sregs :: "string + 'z kvm_sregs_scheme"
  kv_set_sregs :: "string option"
  kv_set_regs :: "string option"
  kv_set_fpu :: "string option"
  ho_ranges :: "u64 \<Rightarrow> string + 'm"
  ho_host_address :: "'m \<Rightarrow> string option"
  ho_open :: "string \<Rightarrow> io_error option"
  ho_read :: "string \<Rightarrow> io_error + u8 list"
  ld_load :: "string \<Rightarrow> 'm \<Rightarrow> (string + 'h kernel_result) \<times> 'm"
  ld_layout :: "('h, 'b) boot_params_scheme \<Rightarrow> u8 list"
  ld_zeroed :: "('h, 'b) boot_params_scheme"

type_synonym 'a vmm_res = "vmm_error fault + 'a"

definition refused :: "('e \<Rightarrow> vmm_error) \<Rightarrow> 'e option \<Rightarrow> unit vmm_res" where
  "refused wrap e = (case e of None \<Rightarrow> Inr () | Some e \<Rightarrow> Inl (Error (wrap e)))"

definition fails :: "('e \<Rightarrow> vmm_error) \<Rightarrow> 'e + 'a \<Rightarrow> 'a vmm_res" where
  "fails wrap r = map_err (\<lambda>e. Error (wrap e)) r"

text \<open>A step on guest memory, and what follows it.\<close>

definition then_with :: "(vmm_error + 'a) \<times> 'm \<Rightarrow> ('a \<Rightarrow> 'm \<Rightarrow> 'c vmm_res) \<Rightarrow> 'c vmm_res" where
  "then_with r f = (case r of (Inl e, m) \<Rightarrow> Inl (Error e) | (Inr x, m) \<Rightarrow> f x m)"

lemma assembly_steps [simp]:
  "refused wrap None = Inr ()" "refused wrap (Some e) = Inl (Error (wrap e))"
  "fails wrap (Inr x) = Inr x" "fails wrap (Inl e) = Inl (Error (wrap e))"
  "then_with (Inr y, m) f = f y m" "then_with (Inl e0, m) f = Inl (Error e0)"
  by (simp_all add: refused_def fails_def then_with_def)

section \<open>Registers\<close>

record kvm_fpu =
  fp_fcw :: u16
  fp_mxcsr :: u32

definition boot_fpu :: kvm_fpu where
  "boot_fpu = \<lparr> fp_fcw = 0x37F, fp_mxcsr = 0x1F80 \<rparr>"

record 'z vcpu_regs =
  vr_sregs :: "'z kvm_sregs_scheme"
  vr_regs :: kvm_regs
  vr_fpu :: kvm_fpu

definition setup_cpuid :: "('m, 'h, 'b, 'z) host \<Rightarrow> unit vmm_res" where
  "setup_cpuid ho = rbind (refused Kvm (kv_get_cpuid ho)) (\<lambda>_. refused Kvm (kv_set_cpuid ho))"

definition setup_registers :: "('m, 'h, 'b, 'z) host \<Rightarrow> u64 \<Rightarrow> 'z vcpu_regs vmm_res" where
  "setup_registers ho kernel_entry =
     rbind (fails Kvm (kv_get_sregs ho)) (\<lambda>sregs.
     rbind (refused Kvm (kv_set_sregs ho)) (\<lambda>_.
     rbind (refused Kvm (kv_set_regs ho)) (\<lambda>_.
     rbind (refused Kvm (kv_set_fpu ho)) (\<lambda>_.
     Inr \<lparr> vr_sregs = boot_sregs sregs, vr_regs = boot_regs kernel_entry, vr_fpu = boot_fpu \<rparr>))))"

section \<open>Building\<close>

record ('m, 'z) vmm =
  vv_memory :: 'm
  vv_vcpu :: "'z vcpu_regs"
  vv_metrics :: vm_metrics
  vv_api_port :: u16
  vv_metrics_store_path :: string
  vv_remote_write_endpoint :: "string option"
  vv_external_labels :: labels
  vv_block_device :: "virtio_block option"

definition string_bytes :: "string \<Rightarrow> u8 list" where
  "string_bytes s = map of_char s"

definition guest_cmdline :: "vmm_config \<Rightarrow> string" where
  "guest_cmdline config =
     (case vc_disk_path config of None \<Rightarrow> vc_cmdline config | Some _ \<Rightarrow> vc_cmdline config @ '' '' @ CMDLINE_PARAM)"

definition memory_size :: "vmm_config \<Rightarrow> u64" where
  "memory_size config = push_bit 20 (ucast (vc_memory_mib config))"

text \<open>Steps 1 to 6: the virtual machine with its memory.\<close>

definition create_machine :: "('m, 'h, 'b, 'z) host \<Rightarrow> vmm_config \<Rightarrow> 'm vmm_res" where
  "create_machine ho config =
     rbind (refused Kvm (kv_new ho)) (\<lambda>_.
     rbind (refused Kvm (kv_create_vm ho)) (\<lambda>_.
     rbind (fails Memory (ho_ranges ho (memory_size config))) (\<lambda>m.
     rbind (refused Memory (ho_host_address ho m)) (\<lambda>_.
     rbind (refused Kvm (kv_set_region ho)) (\<lambda>_.
     rbind (refused Kvm (kv_irq_chip ho)) (\<lambda>_.
     rbind (refused Kvm (kv_pit ho)) (\<lambda>_.
     rbind (refused Kvm (kv_create_vcpu ho)) (\<lambda>_.
     rbind (setup_cpuid ho) (\<lambda>_. Inr m)))))))))"

text \<open>Steps 7 to 11: the memory and the registers with which the guest starts.\<close>

definition boot_image ::
    "'m guest_ops \<Rightarrow> ('m, 'h, 'b, 'z) host \<Rightarrow> vmm_config \<Rightarrow> 'm \<Rightarrow> ('m \<times> 'z vcpu_regs) vmm_res" where
  "boot_image gm ho config m =
     rbind (refused VmmIo (ho_open ho (vc_kernel_path config))) (\<lambda>_.
     then_with (case ld_load ho (vc_kernel_path config) m of (r, m) \<Rightarrow> (map_err KernelLoad r, m)) (\<lambda>kernel m.
     then_with (case vc_initramfs_path config of
         None \<Rightarrow> (Inr None, m)
       | Some path \<Rightarrow>
           (case load_initramfs gm (ho_read ho path) (kl_end kernel) m of
              (Inl e, m) \<Rightarrow> (Inl e, m) | (Inr info, m) \<Rightarrow> (Inr (Some info), m))) (\<lambda>initramfs m.
     then_with (setup_boot_params gm (ld_layout ho) (ld_zeroed ho) (string_bytes (guest_cmdline config))
         (kl_header kernel) initramfs (memory_size config) m) (\<lambda>_ m.
     then_with (setup_page_tables gm m) (\<lambda>_ m.
     then_with (setup_gdt gm m) (\<lambda>_ m.
     rbind (setup_registers ho (kl_load kernel + 0x200)) (\<lambda>regs. Inr (m, regs))))))))"

text \<open>Steps 12 and 13: the metrics and the disk.\<close>

definition metrics_error :: "rondo_error fault \<Rightarrow> vmm_error fault" where
  "metrics_error f = (case f of Error e \<Rightarrow> Error (Metrics e) | Panic \<Rightarrow> Panic | UB \<Rightarrow> UB)"

definition vmm_new ::
    "platform \<Rightarrow> 'm guest_ops \<Rightarrow> ('m, 'h, 'b, 'z) host \<Rightarrow> vmm_config \<Rightarrow> disk \<Rightarrow> ('m, 'z) vmm vmm_res \<times> disk" where
  "vmm_new pf gm ho config d =
     (case rbind (create_machine ho config) (boot_image gm ho config) of
        Inl e \<Rightarrow> (Inl e, d)
      | Inr (m, regs) \<Rightarrow>
        (case vm_open pf (vc_metrics_store_path config) d of
           (Inl e, d) \<Rightarrow> (Inl (metrics_error e), d)
         | (Inr metrics, d) \<Rightarrow>
           (case (case vc_disk_path config of
                    None \<Rightarrow> (Inr None, d)
                  | Some path \<Rightarrow> (case block_new (pf_os pf) d path of (r, d) \<Rightarrow> (map_sum id Some r, d))) of
              (Inl e, d) \<Rightarrow> (Inl (Error (VmmIo e)), store_files (vm_store metrics) d)
            | (Inr block_device, d) \<Rightarrow>
                (Inr \<lparr> vv_memory = m, vv_vcpu = regs, vv_metrics = metrics, vv_api_port = vc_api_port config,
                       vv_metrics_store_path = vc_metrics_store_path config,
                       vv_remote_write_endpoint = vc_remote_write_endpoint config,
                       vv_external_labels = vc_external_labels config, vv_block_device = block_device \<rparr>, d))))"

section \<open>Running\<close>

text \<open>The threads in the order in which they are started; the first that cannot be is an error.\<close>

fun start_threads :: "(string \<Rightarrow> io_error option) \<Rightarrow> string list \<Rightarrow> vmm_error option \<times> string list" where
  "start_threads spawn [] = (None, [])"
| "start_threads spawn (t # ts) =
     (case spawn t of
        Some e \<Rightarrow> (Some (VmmIo e), [])
      | None \<Rightarrow> (case start_threads spawn ts of (r, started) \<Rightarrow> (r, t # started)))"

definition vmm_threads :: "('m, 'z) vmm \<Rightarrow> string list" where
  "vmm_threads v = [''api-server'', ''maintenance''] @
     (case vv_remote_write_endpoint v of None \<Rightarrow> [] | Some _ \<Rightarrow> [''remote-write''])"

definition initial_state :: "('m, 'z) vmm \<Rightarrow> 'm vcpu_state" where
  "initial_state v = \<lparr> vs_memory = vv_memory v, vs_metrics = vv_metrics v, vs_block = vv_block_device v,
     vs_halts = 0, vs_toggle = 0, vs_console = [], vs_reply = [], vs_irqs = 0 \<rparr>"

text \<open>The threads that run, and what the loop does with the given returns of \<open>KVM_RUN\<close>.\<close>

definition vmm_run ::
    "'m guest_ops \<Rightarrow> file_io \<Rightarrow> (string \<Rightarrow> io_error option) \<Rightarrow> timed_event list \<Rightarrow> ('m, 'z) vmm \<Rightarrow>
       string list \<times> (vmm_error + run_end \<times> 'm vcpu_state) option" where
  "vmm_run gm fi spawn evs v =
     (case start_threads spawn (vmm_threads v) of
        (Some e, started) \<Rightarrow> (started, Some (Inl e))
      | (None, started) \<Rightarrow> (started, map_option Inr (run_vcpu_loop gm fi evs (initial_state v))))"

section \<open>What a VMM starts with\<close>

text \<open>
  The host does what it is asked: KVM accepts its calls, and the loader puts the kernel above
  the first megabyte, the address it is given, and nothing below.
\<close>

definition kvm_accepts :: "('m, 'h, 'b, 'z) host \<Rightarrow> 'z kvm_sregs_scheme \<Rightarrow> 'm \<Rightarrow> bool" where
  "kvm_accepts ho sregs m \<longleftrightarrow> kv_new ho = None \<and> kv_create_vm ho = None \<and> kv_set_region ho = None \<and>
     kv_irq_chip ho = None \<and> kv_pit ho = None \<and> kv_create_vcpu ho = None \<and> kv_get_cpuid ho = None \<and>
     kv_set_cpuid ho = None \<and> kv_get_sregs ho = Inr sregs \<and> kv_set_sregs ho = None \<and>
     kv_set_regs ho = None \<and> kv_set_fpu ho = None \<and> ho_host_address ho m = None"

definition kernel_loaded ::
    "('m \<Rightarrow> u8 list) \<Rightarrow> ('m, 'h, 'b, 'z) host \<Rightarrow> vmm_config \<Rightarrow> 'm \<Rightarrow> 'h kernel_result \<Rightarrow> 'm \<Rightarrow> bool" where
  "kernel_loaded img ho config m kres m' \<longleftrightarrow>
     ho_open ho (vc_kernel_path config) = None \<and> ld_load ho (vc_kernel_path config) m = (Inr kres, m') \<and>
     length (img m') = length (img m) \<and> unat HIMEM_START \<le> unat (kl_end kres) \<and> unat (kl_end kres) + 0xFFF < 2 ^ 64 \<and>
     (\<forall>a n. a + n \<le> unat HIMEM_START \<longrightarrow> peek (img m') a n = peek (img m) a n)"

definition initramfs_addr :: "'h kernel_result \<Rightarrow> u64" where
  "initramfs_addr kres = (kl_end kres + 0xFFF) AND NOT 0xFFF"

definition initramfs_data :: "('m, 'h, 'b, 'z) host \<Rightarrow> vmm_config \<Rightarrow> u8 list option" where
  "initramfs_data ho config =
     (case vc_initramfs_path config of None \<Rightarrow> None
      | Some path \<Rightarrow> (case ho_read ho path of Inl e \<Rightarrow> None | Inr data \<Rightarrow> Some data))"

definition initramfs_fits :: "('m, 'h, 'b, 'z) host \<Rightarrow> vmm_config \<Rightarrow> 'h kernel_result \<Rightarrow> nat \<Rightarrow> bool" where
  "initramfs_fits ho config kres n \<longleftrightarrow>
     (case vc_initramfs_path config of None \<Rightarrow> True
      | Some path \<Rightarrow> (\<exists>data. ho_read ho path = Inr data \<and> unat (initramfs_addr kres) + length data \<le> n))"

lemma page_aligned_above:
  assumes "unat (kl_end kres) + 0xFFF < 2 ^ 64"
  shows "unat (kl_end kres) \<le> unat (initramfs_addr kres)"
proof -
  let ?x = "kl_end kres + 0xFFF"
  have m: "(0xFFF :: u64) = mask 12" by (simp add: mask_eq_exp_minus_1)
  have x: "unat ?x = unat (kl_end kres) + 0xFFF" using assms by (simp add: unat_word_ariths)
  have "NOT ?x AND (?x AND 0xFFF) = 0"
    by (rule bit_word_eqI) (simp add: bit_simps)
  then have "?x - (?x AND 0xFFF) = ?x AND NOT (?x AND 0xFFF)"
    by (rule disjunctive_diff_eq_and_not)
  also have "\<dots> = ?x AND NOT 0xFFF"
    by (rule bit_word_eqI) (auto simp: bit_simps)
  finally have a: "initramfs_addr kres = ?x - (?x AND 0xFFF)"
    by (simp add: initramfs_addr_def)
  have low: "unat (?x AND 0xFFF) = take_bit 12 (unat ?x)"
    by (simp only: m take_bit_eq_mask [symmetric] unsigned_take_bit_eq)
  then have "unat (?x AND 0xFFF) \<le> unat ?x" "unat (?x AND 0xFFF) < 2 ^ 12"
    by (simp_all only: take_bit_nat_less_eq_self take_bit_nat_less_exp)
  then show ?thesis
    using x unfolding a by (subst unat_sub) (simp_all add: word_le_nat_alt)
qed

text \<open>What the guest finds when its first instruction runs.\<close>

definition bootable ::
    "('m \<Rightarrow> u8 list) \<Rightarrow> ('m, 'h, 'b, 'z) host \<Rightarrow> vmm_config \<Rightarrow> 'h kernel_result \<Rightarrow> u8 list \<Rightarrow> 'm \<Rightarrow> 'z vcpu_regs \<Rightarrow> bool" where
  "bootable img ho config kres loaded m regs \<longleftrightarrow>
     (let cmdline = string_bytes (guest_cmdline config); data = initramfs_data ho config;
          info = map_option (\<lambda>bs. (ucast (initramfs_addr kres), word_of_nat (length bs))) data in
      (\<forall>va. va < 2 ^ 48 \<longrightarrow> translate (img m) (sr_cr3 (vr_sregs regs)) va = (if va < 2 ^ 30 then Some va else None)) \<and>
      segments_loaded (img m) (vr_sregs regs) \<and>
      kr_rip (vr_regs regs) = kl_load kres + 0x200 \<and>
      peek (img m) (unat (kr_rsi (vr_regs regs))) 0x1000 =
        ld_layout ho (boot_params_of (ld_zeroed ho) (kl_header kres) (length cmdline) info (memory_size config)) \<and>
      peek (img m) (unat CMDLINE_ADDR) (length cmdline + 1) = cmdline @ [0] \<and>
      (\<forall>bs. data = Some bs \<longrightarrow> peek (img m) (unat (initramfs_addr kres)) (length bs) = bs) \<and>
      (\<forall>a n. unat HIMEM_START \<le> a \<longrightarrow> a + n \<le> unat (kl_end kres) \<longrightarrow> peek (img m) a n = peek loaded a n))"

text \<open>The memory after each step of \<open>boot_image\<close>: what a later step does not overwrite stays.\<close>

lemma initramfs_step:
  assumes "guest_region gm img" and "initramfs_fits ho config kres (length (img m))"
  shows "\<exists>m'. (case vc_initramfs_path config of
         None \<Rightarrow> (Inr None, m)
       | Some path \<Rightarrow>
           (case load_initramfs gm (ho_read ho path) (kl_end kres) m of
              (Inl e, m) \<Rightarrow> (Inl e, m) | (Inr info, m) \<Rightarrow> (Inr (Some info), m))) =
      (Inr (map_option (\<lambda>bs. (ucast (initramfs_addr kres), word_of_nat (length bs))) (initramfs_data ho config)), m') \<and>
    length (img m') = length (img m) \<and>
    (\<forall>bs. initramfs_data ho config = Some bs \<longrightarrow> peek (img m') (unat (initramfs_addr kres)) (length bs) = bs) \<and>
    (\<forall>a n. a + n \<le> unat (initramfs_addr kres) \<longrightarrow> peek (img m') a n = peek (img m) a n)"
proof (cases "vc_initramfs_path config")
  case (Some path)
  then obtain data where data: "ho_read ho path = Inr data" "unat (initramfs_addr kres) + length data \<le> length (img m)"
    using assms(2) by (auto simp: initramfs_fits_def)
  obtain m' where m': "load_initramfs gm (Inr data) (kl_end kres) m =
      (Inr (ucast (initramfs_addr kres), word_of_nat (length data)), m')"
    "img m' = poke (img m) (unat (initramfs_addr kres)) data"
    using initramfs_loaded [OF assms(1) data(2) [unfolded initramfs_addr_def]] by (auto simp: initramfs_addr_def)
  then show ?thesis
    using data Some by (auto simp: initramfs_data_def length_poke peek_poke_same peek_poke_below)
qed (simp add: initramfs_data_def)

lemma boot_image_ok:
  assumes "guest_region gm img" and "length (img m) \<le> 2 ^ 63" and "0x100000 \<le> length (img m)"
    and "peek (img m) 0x9000 0x2000 = replicate 0x2000 0"
    and "kvm_accepts ho sregs m" and "kernel_loaded img ho config m kres m1"
    and "initramfs_fits ho config kres (length (img m))"
    and "0x20000 + length (guest_cmdline config) + 1 \<le> 0x100000"
    and "\<forall>p. length (ld_layout ho p) = 0x1000"
  shows "\<exists>m' regs. boot_image gm ho config m = Inr (m', regs) \<and> bootable img ho config kres (img m1) m' regs"
proof -
  let ?cl = "string_bytes (guest_cmdline config)"
  let ?info = "map_option (\<lambda>bs. (ucast (initramfs_addr kres), word_of_nat (length bs))) (initramfs_data ho config)"
  have himem: "unat HIMEM_START = 0x100000" by (simp add: HIMEM_START_def)
  have above: "0x100000 \<le> unat (kl_end kres)" "unat (kl_end kres) \<le> unat (initramfs_addr kres)"
    using assms(6) page_aligned_above [of kres] by (auto simp: kernel_loaded_def himem)
  have l1: "length (img m1) = length (img m)" and k1: "\<And>a n. a + n \<le> 0x100000 \<Longrightarrow> peek (img m1) a n = peek (img m) a n"
    using assms(6) by (auto simp: kernel_loaded_def himem)
  obtain m2 where m2: "(case vc_initramfs_path config of
         None \<Rightarrow> (Inr None, m1)
       | Some path \<Rightarrow>
           (case load_initramfs gm (ho_read ho path) (kl_end kres) m1 of
              (Inl e, m) \<Rightarrow> (Inl e, m) | (Inr info, m) \<Rightarrow> (Inr (Some info), m))) = (Inr ?info, m2)"
      "length (img m2) = length (img m1)"
      "\<forall>bs. initramfs_data ho config = Some bs \<longrightarrow> peek (img m2) (unat (initramfs_addr kres)) (length bs) = bs"
      "\<And>a n. a + n \<le> unat (initramfs_addr kres) \<Longrightarrow> peek (img m2) a n = peek (img m1) a n"
    using initramfs_step [OF assms(1), of ho config kres m1] assms(7) l1 by auto
  have cl: "0x20000 + length ?cl + 1 \<le> 0x100000" using assms(8) by (simp add: string_bytes_def)
  obtain m3 where m3: "setup_boot_params gm (ld_layout ho) (ld_zeroed ho) ?cl (kl_header kres) ?info (memory_size config) m2 = (Inr (), m3)"
      "length (img m3) = length (img m2)" "peek (img m3) 0x20000 (length ?cl + 1) = ?cl @ [0]"
      "peek (img m3) 0x7000 0x1000 = ld_layout ho (boot_params_of (ld_zeroed ho) (kl_header kres) (length ?cl) ?info (memory_size config))"
      "\<And>a n. a + n \<le> 0x7000 \<or> 0x8000 \<le> a \<and> a + n \<le> 0x20000 \<or> 0x20000 + length ?cl + 1 \<le> a \<Longrightarrow>
         peek (img m3) a n = peek (img m2) a n"
    using boot_params_written [OF assms(1), of ?cl m2 "ld_layout ho" "ld_zeroed ho" "kl_header kres" ?info "memory_size config"]
      assms(2,3,9) cl l1 m2(2) by auto
  have "peek (img m3) 0x9000 0x2000 = peek (img m2) 0x9000 0x2000" by (rule m3(5)) simp
  also have "\<dots> = peek (img m1) 0x9000 0x2000" using above by (intro m2(4)) simp
  also have "\<dots> = replicate 0x2000 0" using k1 assms(4) by simp
  finally have "fresh_tables (img m3)"
    using assms(3) l1 m2(2) m3(2) by (simp add: fresh_tables_def)
  then obtain m4 where m4: "setup_page_tables gm m3 = (Inr (), m4)" "identity_tables (img m4)" "length (img m4) = length (img m3)"
      "\<And>a n. a + n \<le> 0x9000 \<or> 0xC000 \<le> a \<Longrightarrow> peek (img m4) a n = peek (img m3) a n"
    using page_tables_written [OF assms(1)] by metis
  have "0x518 \<le> length (img m4)" using assms(3) l1 m2(2) m3(2) m4(3) by simp
  then obtain m5 where m5: "setup_gdt gm m4 = (Inr (), m5)" "gdt_in (img m5)"
      "\<And>a n. a + n \<le> 0x500 \<or> 0x518 \<le> a \<Longrightarrow> peek (img m5) a n = peek (img m4) a n"
    using gdt_written [OF assms(1)] by metis
  let ?regs = "\<lparr> vr_sregs = boot_sregs sregs, vr_regs = boot_regs (kl_load kres + 0x200), vr_fpu = boot_fpu \<rparr>"
  have "boot_image gm ho config m = Inr (m5, ?regs)"
    using assms(5,6) m2(1) m3(1) m4(1) m5(1)
    by (simp add: boot_image_def kernel_loaded_def setup_registers_def kvm_accepts_def)
  moreover have "bootable img ho config kres (img m1) m5 ?regs"
  proof -
    have high: "peek (img m5) a n = peek (img m2) a n" if "0x100000 \<le> a" for a n
      using that cl m5(3) [of a n] m4(4) [of a n] m3(5) [of a n] by simp
    have "identity_tables (img m5)"
      using m4(2) by (rule identity_tables_cong) (simp add: m5(3))
    then have "\<forall>va. va < 2 ^ 48 \<longrightarrow> translate (img m5) PML4_ADDR va = (if va < 2 ^ 30 then Some va else None)"
      using identity_tables_translate by blast
    moreover have "peek (img m5) 0x7000 0x1000 = peek (img m3) 0x7000 0x1000"
      by (simp add: m5(3) m4(4))
    moreover have "peek (img m5) 0x20000 (length ?cl + 1) = peek (img m3) 0x20000 (length ?cl + 1)"
      by (rule trans [OF m5(3) m4(4)]) simp_all
    moreover have "peek (img m5) (unat (initramfs_addr kres)) n = peek (img m2) (unat (initramfs_addr kres)) n" for n
      using above by (intro high) simp
    moreover have "peek (img m5) a n = peek (img m1) a n" if "0x100000 \<le> a" "a + n \<le> unat (kl_end kres)" for a n
      using high [OF that(1)] m2(4) [of a n] that(2) above by simp
    moreover have addrs: "unat BOOT_PARAMS_ADDR = 0x7000" "unat CMDLINE_ADDR = 0x20000"
      by (simp_all add: BOOT_PARAMS_ADDR_def CMDLINE_ADDR_def)
    ultimately show ?thesis
      using m3(3,4) m2(3) gdt_in_loaded [OF m5(2)]
      unfolding bootable_def Let_def himem by (simp add: boot_regs_def boot_sregs_def)
  qed
  ultimately show ?thesis by blast
qed

lemma create_machine_ok:
  "kvm_accepts ho sregs m \<Longrightarrow> ho_ranges ho (memory_size config) = Inr m \<Longrightarrow> create_machine ho config = Inr m"
  by (simp add: create_machine_def kvm_accepts_def setup_cpuid_def)

lemma block_new_ok:
  assumes "os_calm os"
  obtains backing d' where "block_new os d path = (Inr (block_on backing), d')" "dk_slab d' path = Some backing"
    "backing \<noteq> []" "\<forall>m. dk_slab d path = Some m \<and> m \<noteq> [] \<longrightarrow> backing = m"
proof -
  let ?old = "case dk_slab d path of None \<Rightarrow> [] | Some m \<Rightarrow> m"
  let ?backing = "if ?old = [] then replicate DEFAULT_DISK_BYTES 0 else ?old"
  have new: "block_new os d path = (Inr (block_on ?backing), d\<lparr>dk_slab := (dk_slab d)(path := Some ?backing)\<rparr>)"
    using assms by (simp add: block_new_def os_calm_def Let_def)
  have ne: "?backing \<noteq> []" by (simp add: DEFAULT_DISK_BYTES_def)
  show thesis by (rule that [OF new _ ne]) auto
qed

text \<open>
  C23. A VMM that starts for the first time on a host that does what it is asked comes up ready to
  boot. This needs that the KVM calls and the system calls succeed, that the host grants the
  memory, at least 1 MiB and at most \<open>2 ^ 63\<close> bytes, zeroed where the page tables go, that the
  loader puts the kernel there as it reports (\<open>kernel_loaded\<close>), that the initramfs fits between the
  kernel and the end of the memory, that the command line ends below 1 MiB, that the boot
  parameters have the size of a page, that the JSON library can write the documents of the metrics
  store, and that the path of that store does not exist yet. Then its metrics satisfy their
  invariant; it has a block device, freshly reset, over the contents of its file, exactly if one is
  configured, and then the command line announces it; and in the memory the processor finds
  everything the start needs, none of it overwritten by a later step: paging that is the identity,
  the segments of its registers, the entry of the kernel, the boot parameters where \<open>rsi\<close> points,
  the zero-terminated command line, the initramfs and the whole kernel.
\<close>

theorem vmm_boots:
  assumes "guest_region gm img" and "ho_ranges ho (memory_size config) = Inr m"
    and "length (img m) \<le> 2 ^ 63" and "0x100000 \<le> length (img m)"
    and "peek (img m) 0x9000 0x2000 = replicate 0x2000 0"
    and "kvm_accepts ho sregs m" and "kernel_loaded img ho config m kres m1"
    and "initramfs_fits ho config kres (length (img m))"
    and "0x20000 + length (guest_cmdline config) + 1 \<le> 0x100000"
    and "\<forall>p. length (ld_layout ho p) = 0x1000"
    and "os_calm (pf_os pf)" and "iteration_order (pf_keys pf)" and "json_total pf"
    and "\<not> path_exists d (vc_metrics_store_path config)"
    and "\<not> path_exists d (schema_dir (vc_metrics_store_path config) 0)"
  shows "\<exists>v d'. vmm_new pf gm ho config d = (Inr v, d') \<and> vm_inv (vv_metrics v) \<and>
    bootable img ho config kres (img m1) (vv_memory v) (vv_vcpu v) \<and>
    (case vv_block_device v of
       None \<Rightarrow> vc_disk_path config = None \<and> guest_cmdline config = vc_cmdline config
     | Some b \<Rightarrow> (\<exists>path backing. vc_disk_path config = Some path \<and> b = block_on backing \<and> backing \<noteq> [] \<and>
           dk_slab d' path = Some backing) \<and>
         guest_cmdline config = vc_cmdline config @ '' '' @ CMDLINE_PARAM)"
proof -
  obtain m' regs where image: "boot_image gm ho config m = Inr (m', regs)" "bootable img ho config kres (img m1) m' regs"
    using boot_image_ok [OF assms(1,3-10)] by blast
  obtain metrics d' where metrics: "vm_open pf (vc_metrics_store_path config) d = (Inr metrics, d')" "vm_inv metrics"
    using vm_open_ok [OF assms(11-15)] by blast
  show ?thesis
  proof (cases "vc_disk_path config")
    case None
    then show ?thesis
      using create_machine_ok [OF assms(6,2)] image metrics by (auto simp: vmm_new_def guest_cmdline_def)
  next
    case (Some path)
    moreover obtain backing d2 where "block_new (pf_os pf) d' path = (Inr (block_on backing), d2)"
        "dk_slab d2 path = Some backing" "backing \<noteq> []"
      by (rule block_new_ok [OF assms(11)]) blast
    ultimately show ?thesis
      using create_machine_ok [OF assms(6,2)] image metrics by (auto simp: vmm_new_def guest_cmdline_def)
  qed
qed

section \<open>What runs\<close>

lemma start_threads_spec:
  "start_threads spawn ts =
     (case List.find (\<lambda>t. spawn t \<noteq> None) ts of
        None \<Rightarrow> (None, ts) | Some t \<Rightarrow> (Some (VmmIo (the (spawn t))), takeWhile (\<lambda>t. spawn t = None) ts))"
  by (induction ts) (auto split: option.splits)

end
