(* ===== verification/Vmm_Examples.thy ===== *)
theory Vmm_Examples
  imports Store_Examples Export_Loop Api Vcpu_Runs Virtio_Driver Vmm_Assembly
begin

text \<open>
  The properties of the export, of the metrics and of the vCPU loop, applied to concrete stores
  and concrete runs.
\<close>

section \<open>A store with one sample\<close>

lemma loose_order: "iteration_order (pf_keys loose)"
  by (simp add: loose_fields loose_fair(2))

lemma cpu_handles: "st_registry st = cpu_registry \<Longrightarrow> store_handles loose st = [cpu_handle]"
  by (simp add: store_handles_def handles_def loose_fields cpu_registry_def hm_values_def hm_keys_def hm_get_def
      map_filter_simps info_handle_def new_info_def cpu_handle_def)

theorem write_request_spec_witness:
  "\<exists>st rq. store_inv st \<and>
     build_write_request loose [\<lparr> se_handle = cpu_handle, se_points = [(7000000, f_one)] \<rparr>] st [(''env'', ''x'')] = Inr rq \<and>
     list_all2 (series_of st [(''env'', ''x'')]) [\<lparr> se_handle = cpu_handle, se_points = [(7000000, f_one)] \<rparr>] (wr_timeseries rq)"
proof -
  obtain st where st: "store_inv st" "st_registry st = cpu_registry"
    by (rule demo_registered)
  show ?thesis
    using write_request_spec [OF st(1) loose_order, of "[\<lparr> se_handle = cpu_handle, se_points = [(7000000, f_one)] \<rparr>]" "[(''env'', ''x'')]"]
      cpu_handles [OF st(2)] st(1) by auto
qed

text \<open>After one record the ring of tier 0 holds that sample and is in order.\<close>

lemma demo_recorded:
  obtains st where "store_inv st" "st_schemas st = [any_schema]" "st_registry st = cpu_registry"
    "length (st_rings st) = 1" "0 < length (st_rings st ! 0)"
    "drainable (st_rings st ! 0 ! 0) 0" "(5, f_one) \<in> set (ring_contents (rb_table (st_rings st ! 0 ! 0)) 0)"
proof -
  obtain st0 where st0: "store_inv st0" "st_schemas st0 = [any_schema]" "registered st0 cpu_handle"
      "st_registry st0 = cpu_registry" "tier_table st0 cpu_handle 0 =
        (fresh_table loose any_schema hour_tier)\<lparr>tb_count := 1, tb_dir := tb_dir (tier_table st0 cpu_handle 0)\<rparr>"
    by (rule demo_registered)
  let ?t0 = "rb_table (st_rings st0 ! 0 ! 0)"
  obtain r' where r': "store_record cpu_handle f_one 5 st0 = Inr (st0\<lparr>st_rings := (st_rings st0)[0 := (st_rings st0 ! 0)[0 := r']]\<rparr>)"
      "rb_table r' = tb_write [(0, f_one)] 5 ?t0"
    using store_record_ok [OF st0(1,3), of f_one 5] by (auto simp: finite_not_infinite cpu_handle_def)
  let ?st = "st0\<lparr>st_rings := (st_rings st0)[0 := (st_rings st0 ! 0)[0 := r']]\<rparr>"
  have inv: "store_inv ?st" by (rule store_record_inv [OF st0(1,3) r'(1)])
  then have ri: "rings_inv (st_path ?st) [any_schema] (st_rings ?st)" using st0(2) by (simp add: store_inv_def)
  have len: "length (st_rings ?st) = 1" "0 < length (st_rings ?st ! 0)"
    using ri by (auto simp: rings_inv_def any_schema_def)
  then have r0: "st_rings ?st ! 0 ! 0 = r'" by simp
  have t: "tier_ring any_schema hour_tier (slab_path (st_path ?st) 0 0) r'"
    using rings_inv_at(4) [OF ri, of 0 0] r0 by (simp add: any_schema_def)
  have same: "tb_slots (rb_table r') = tb_slots ?t0" by (simp add: r'(2) tb_write_config)
  have "0 < tb_slots (rb_table r')"
    using t unfolding tier_ring_def ring_inv_def ring_wf_def by blast
  then have slots: "0 < tb_slots ?t0" by (simp add: same)
  obtain dir where t0: "?t0 = (fresh_table loose any_schema hour_tier)\<lparr>tb_count := 1, tb_dir := dir\<rparr>"
    using st0(5) by (simp add: cpu_handle_def)
  have "\<forall>i. tb_ts ?t0 i = 0" "tb_cursor ?t0 < tb_slots ?t0"
    using slots unfolding t0 by (simp_all add: fresh_table_def empty_table_def)
  then have used: "used_timestamps (rb_table r') = [5]"
    using chronological_first [of ?t0 5 "[(0, f_one)]"] by (simp add: r'(2))
  have "unat (tb_slots (rb_table r')) \<le> 10 ^ 9"
    using t unfolding tier_ring_def by blast
  then have "unat (tb_slots (rb_table r')) \<le> 2 ^ 31" by (rule order_trans) simp
  then have "drainable r' 0"
    using t by (simp add: drainable_def tier_ring_def chronological_def used any_schema_def del: power_numeral)
  moreover have "(5, f_one) \<in> set (ring_contents (rb_table r') 0)"
    using write_contents [OF slots(1), of "[(0, f_one)]" 5 0] by (simp add: r'(2) row_update_def finite_not_nan)
  ultimately show thesis
    using that [of ?st] inv st0(2,4) len r0 by simp
qed

text \<open>A client that cannot be built fails every push.\<close>

definition no_client :: net where
  "no_client = flaky_net\<lparr> net_client := \<lambda>_. Some ''no TLS backend'' \<rparr>"

lemma demo_drained:
  assumes "store_inv st" and "st_schemas st = [any_schema]" and "st_registry st = cpu_registry"
    and "length (st_rings st) = 1" and "0 < length (st_rings st ! 0)"
    and "drainable (st_rings st ! 0 ! 0) 0" and "(5, f_one) \<in> set (ring_contents (rb_table (st_rings st ! 0 ! 0)) 0)"
    and "\<forall>i j c. export_get cursor0 i j c = None"
  obtains ps cursor where "ps \<noteq> []"
    "store_drain loose st 0 cursor0 = (Inr [\<lparr> se_handle = cpu_handle, se_points = ps \<rparr>], cursor)"
proof -
  let ?r = "st_rings st ! 0 ! 0"
  have none: "export_get cursor0 0 0 0 = None" using assms(8) by simp
  obtain ps cursor where d: "drain_series ?r 0 0 0 cursor0 = Inr (ps, cursor)"
      "ps = new_points None (ring_contents (rb_table ?r) 0)"
    using none drain_series_settles [where i' = 0 and j' = 0 and c' = 0, of ?r 0 cursor0 0 0] assms(6) unfolding drainable_def by auto
  have "ps \<noteq> []" using d(2) assms(7) by (auto simp: new_points_def filter_empty_conv)
  moreover have "store_drain loose st 0 cursor0 = (Inr [\<lparr> se_handle = cpu_handle, se_points = ps \<rparr>], cursor)"
    using d(1) calculation assms(2,4,5) cpu_handles [OF assms(3)]
    by (simp add: store_drain_def drain_tier_def nth_res_def cpu_handle_def)
  ultimately show thesis by (rule that)
qed

theorem failed_push_loses_points_witness:
  "\<exists>st exports cursor es. store_inv st \<and> store_drain loose st 0 export_cursor_new = (Inr exports, cursor) \<and> exports \<noteq> [] \<and>
     export_tick loose (any_json export_cursor_new) no_client (config_new ''u'') [] True st export_cursor_new empty_disk
       = (Inr (), es, cursor, empty_disk) \<and>
     export_tick loose (any_json export_cursor_new) flaky_net (config_new ''u'') [] True st cursor empty_disk
       = (Inr (), [], cursor, empty_disk)"
proof -
  obtain st where st: "store_inv st" "st_schemas st = [any_schema]" "st_registry st = cpu_registry"
    "length (st_rings st) = 1" "0 < length (st_rings st ! 0)"
    "drainable (st_rings st ! 0 ! 0) 0" "(5, f_one) \<in> set (ring_contents (rb_table (st_rings st ! 0 ! 0)) 0)"
    by (rule demo_recorded)
  obtain ps cursor where d: "ps \<noteq> []"
    "store_drain loose st 0 export_cursor_new = (Inr [\<lparr> se_handle = cpu_handle, se_points = ps \<rparr>], cursor)"
    by (rule demo_drained [OF st, of export_cursor_new]) (simp_all add: new_cursor_empty)
  let ?xs = "[\<lparr> se_handle = cpu_handle, se_points = ps \<rparr>]"
  obtain rq where "build_write_request loose ?xs st [] = Inr rq"
    using write_request_series [OF st(1) loose_order, of ?xs "[]"] cpu_handles [OF st(3)] by auto
  then have "push loose no_client (config_new ''u'') ?xs st [] = (err (RemoteWrite (ClientCreate ''no TLS backend'')), [])"
    by (simp add: push_def encode_exports_def send_with_retry_def no_client_def flaky_net_def map_err_def)
  moreover have "tier_drainable (st_rings st) 0 (store_handles loose st)"
    using st(4,6) cpu_handles [OF st(3)] by (simp add: tier_drainable_def cpu_handle_def)
  ultimately show ?thesis
    using failed_push_loses_points [OF st(1) loose_order _ _ d(2)] st(1) d(2) by (force simp: new_cursor_empty)
qed

definition prompt_net :: net where
  "prompt_net = flaky_net\<lparr> net_post := \<lambda>_ _. Response 204 [] \<rparr>"

text \<open>A round that fails to get the lock and one over the same store follow, in the old thread or in a new one.\<close>

theorem export_resumes_witness:
  "\<exists>st js es d'. store_inv st \<and> es \<noteq> [] \<and>
     export_loop loose js ''u'' ''c'' [] [(True, st, prompt_net)] empty_disk = (Inr (), [es], d') \<and>
     export_loop loose js ''u'' ''c'' [] [(True, st, prompt_net), (False, st, prompt_net)] empty_disk = (Inr (), [es, []], d') \<and>
     export_loop loose js ''u'' ''c'' [] [(True, st, prompt_net)] d' = (Inr (), [[]], d')"
proof -
  obtain st where st: "store_inv st" "st_schemas st = [any_schema]" "st_registry st = cpu_registry"
    "length (st_rings st) = 1" "0 < length (st_rings st ! 0)"
    "drainable (st_rings st ! 0 ! 0) 0" "(5, f_one) \<in> set (ring_contents (rb_table (st_rings st ! 0 ! 0)) 0)"
    by (rule demo_recorded)
  let ?c = "\<lparr> ec_path = ''c'', ec_cursors = [] \<rparr>"
  have none: "\<forall>i j c. export_get ?c i j c = None"
    by (simp add: export_get_def hm.get_empty)
  obtain ps cursor where d: "ps \<noteq> []"
    "store_drain loose st 0 ?c = (Inr [\<lparr> se_handle = cpu_handle, se_points = ps \<rparr>], cursor)"
    by (rule demo_drained [OF st none])
  let ?xs = "[\<lparr> se_handle = cpu_handle, se_points = ps \<rparr>]"
  obtain rq where "build_write_request loose ?xs st [] = Inr rq"
    using write_request_series [OF st(1) loose_order, of ?xs "[]"] cpu_handles [OF st(3)] by auto
  moreover define es where "es = [Sent (post_request (config_new ''u'') [1])]"
  moreover have "send_with_retry prompt_net (config_new ''u'') [1] = (Inr (), es)"
    by (simp add: es_def send_with_retry_def prompt_net_def flaky_net_def config_new_def attempt_error_def is_success_def
        send_attempts.simps)
  ultimately have push: "push loose prompt_net (config_new ''u'') ?xs st [] = (Inr 1, es)"
    by (simp add: push_def encode_exports_def prompt_net_def flaky_net_def map_err_def)
  have drainable: "tier_drainable (st_rings st) 0 (store_handles loose st)"
    using st(4,6) cpu_handles [OF st(3)] by (simp add: tier_drainable_def cpu_handle_def)
  have "reads_back (one_json cursor) cursor" by (simp add: reads_back_def one_json_def)
  moreover have "export_load_or_new (pf_os loose) (one_json cursor) empty_disk ''c'' = Inr ?c"
    by (simp add: export_load_or_new_def nothing_exists)
  moreover have "os_calm (pf_os loose)" by (simp add: loose_fields os_ok_calm)
  ultimately obtain d' where d': "export_loop loose (one_json cursor) ''u'' ''c'' [] [(True, st, prompt_net)] empty_disk = (Inr (), [es], d')"
      "\<And>rounds. export_loop loose (one_json cursor) ''u'' ''c'' [] ((True, st, prompt_net) # rounds) empty_disk =
         (case export_loop loose (one_json cursor) ''u'' ''c'' [] rounds d' of (r, ess, d2) \<Rightarrow> (r, es # ess, d2))"
      "export_loop loose (one_json cursor) ''u'' ''c'' [] [(True, st, prompt_net)] d' = (Inr (), [[]], d')"
    using export_resumes [OF _ _ _ _ d(2) _ push, of "one_json cursor" "''c''" empty_disk]
      none st(1) loose_order drainable by auto
  have "export_loop loose (one_json cursor) ''u'' ''c'' [] [(False, st, prompt_net)] d' = (Inr (), [[]], d')"
    using d'(3) by (auto simp: export_loop_def export_tick_def logged_def split: sum.splits fault.splits)
  then show ?thesis
    using st(1) d'(1,3) d'(2) [of "[(False, st, prompt_net)]"]
    by (intro exI [of _ st] exI [of _ "one_json cursor"] exI [of _ es] exI [of _ d']) (simp add: es_def)
qed

section \<open>The metrics of a VMM\<close>

lemma loose_total: "json_total loose"
  by (simp add: json_total_def loose_fields)

theorem vm_open_registers_witness:
  "\<exists>m d'. vm_open loose ''v'' empty_disk = (Inr m, d') \<and> vm_inv m \<and> length (vm_handles m) = 16"
  using vm_open_registers [OF _ loose_order loose_total nothing_exists nothing_exists, of "''v''"]
  by (simp add: loose_fields os_ok_calm)

lemma demo_metrics:
  obtains m d where "vm_open loose ''v'' empty_disk = (Inr m, d)" "vm_inv m"
  using vm_open_ok [OF _ loose_order loose_total nothing_exists nothing_exists, of "''v''"]
  by (auto simp: loose_fields os_ok_calm)

theorem exits_of_a_second_count_once_witness:
  "\<exists>m d m1 m2. vm_open loose ''v'' empty_disk = (Inr m, d) \<and>
     record_vcpu_exit ExitHlt f_one f_one 5000000001 m = (Inr (), m1) \<and>
     record_vcpu_exit ExitHlt f_zero f_zero 5000000002 m1 = (Inr (), m2) \<and>
     (5000000002, f_one) \<in> set (ring_contents (vm_table m2) (sh_column (exit_handle m ExitHlt)))"
proof -
  obtain m d where m: "vm_open loose ''v'' empty_disk = (Inr m, d)" "vm_inv m" by (rule demo_metrics)
  have "(5000000001 :: u64) div 1000000000 = 5000000002 div 1000000000" by simp
  then show ?thesis
    using exits_of_a_second_count_once [OF m(2), of 5000000001 5000000002 f_one f_one f_zero f_zero ExitHlt] m(1)
    by (fastforce simp: finite_not_infinite f_zero_finite)
qed

definition deaf :: connection where
  "deaf = \<lparr> cn_lines = (\<lambda>_. Fails ''closed''), cn_send = (\<lambda>_. Returns ()) \<rparr>"

text \<open>A client that asks for the health of the VMM, and one that sends header lines for ever.\<close>

definition polite :: connection where
  "polite = \<lparr> cn_lines = (\<lambda>n. Returns (if n = 0 then ''GET /metrics/health HTTP/1.1'' else [])), cn_send = (\<lambda>_. Returns ()) \<rparr>"

definition endless :: connection where
  "endless = \<lparr> cn_lines = (\<lambda>n. Returns ''GET /metrics/health HTTP/1.1''), cn_send = (\<lambda>_. Returns ()) \<rparr>"

definition plain_api :: api_json where
  "plain_api = \<lparr> aj_info = (\<lambda>n names. fmt_nat n), aj_query = (\<lambda>name ps. name) \<rparr>"

lemma demo_queries:
  "hm_get (parse_query ''start=3'') ''series'' = None"
  "hm_get (parse_query ''series=vmm_open_fds&end=9'') ''series'' = Some ''vmm_open_fds''"
  "number_param (parse_query ''series=vmm_open_fds&end=9'') ''start'' 0 = 0"
  "number_param (parse_query ''series=vmm_open_fds&end=9'') ''end'' (- 1) = 9"
  by (simp_all add: parse_query_def map_filter_simps is_digit_def digit_val_def hm_insert_def hm_get_def number_param_def
      parse_uint_def)

theorem api_query_spec_witness:
  "\<exists>m d. vm_open loose ''v'' empty_disk = (Inr m, d) \<and>
     handle_query loose plain_api deaf True m ''start=3'' = Some (Inl (Error MissingSeries)) \<and>
     handle_query loose plain_api deaf True m ''series=vmm_open_fds&end=9'' = Some (Inr (response_text 200 ''vmm_open_fds''))"
proof -
  obtain m d where m: "vm_open loose ''v'' empty_disk = (Inr m, d)" "vm_inv m" by (rule demo_metrics)
  have inv: "store_inv (vm_store m)" and "list_all2 (known_as (vm_store m)) vmm_series (vm_handles m)"
    using m(2) by (simp_all add: vm_inv_def)
  then have "get_handle (st_registry (vm_store m)) ''vmm_open_fds'' [] = Some (vmm_open_fds m)"
    by (simp add: vmm_series_def vm_handles_def known_as_def)
  then obtain h where "find_named loose (vm_store m) ''vmm_open_fds'' = Some h"
    using find_named_iff [OF inv loose_order, of "''vmm_open_fds''"] by auto
  then show ?thesis
    using api_query_spec [OF m(2) loose_order, of plain_api deaf "''start=3''", THEN conjunct1] m(1)
      api_query_spec [OF m(2) loose_order, of plain_api deaf "''series=vmm_open_fds&end=9''", THEN conjunct1]
    by (simp add: demo_queries deaf_def plain_api_def send_response_def Let_def)
qed

text \<open>The pieces of the request line, character by character.\<close>

lemma graphic_step: "graphic c \<Longrightarrow> words_from word (c # cs) = words_from (c # word) cs"
  using no_leading [of "c # cs" whitespace] whitespace_not_graphic by (simp add: words_from.simps [of word "c # cs"])

lemma blank_step: "words_from word (CHR '' '' # cs) = (if word = [] then [] else [rev word]) @ words_from [] cs"
proof -
  have blank: "byte 32 = CHR '' ''" by code_simp
  obtain ws where ws: "whitespace = [byte 32] # ws" by (simp add: whitespace_def)
  have "leading whitespace (CHR '' '' # cs) = Some [CHR '' '']" unfolding leading_def ws blank by simp
  then show ?thesis by (simp add: words_from.simps [of word "CHR '' '' # cs"])
qed

lemma end_step: "words_from word [] = (if word = [] then [] else [rev word])"
  using no_leading [of "[]" whitespace] whitespace_not_graphic by (simp add: words_from.simps [of word "[]"])

lemma health_line:
  "split_whitespace ''GET /metrics/health HTTP/1.1'' = [''GET'', ''/metrics/health'', ''HTTP/1.1'']"
  "trim ''GET /metrics/health HTTP/1.1'' \<noteq> []"
  by (simp_all add: split_whitespace_def graphic_step blank_step end_step graphic_def trim_graphic)

lemma demo_requests:
  "handle_request loose plain_api deaf lock m = Some (Inl (Error (ReadError ''closed'')))"
  "handle_request loose plain_api polite lock m = Some (Inr (response_text 200 STATUS_OK))"
  "handle_request loose plain_api endless lock m = None"
proof -
  show "handle_request loose plain_api deaf lock m = Some (Inl (Error (ReadError ''closed'')))"
    by (simp add: handle_request_def deaf_def)
  have "trim [] = []" by (simp add: trim_graphic)
  then have "drain_headers (cn_lines polite) 1 = Some (Inr ())"
    by (simp add: drain_headers.simps polite_def)
  then show "handle_request loose plain_api polite lock m = Some (Inr (response_text 200 STATUS_OK))"
    by (simp add: handle_request_def health_line Let_def) (simp add: polite_def health_line send_response_def)
  have "drain_headers (cn_lines endless) 1 = None"
    by (rule endless_header) (simp add: header_ends_def endless_def health_line)
  then show "handle_request loose plain_api endless lock m = None"
    by (simp add: handle_request_def Let_def) (simp add: endless_def health_line)
qed

theorem server_survives_witness:
  "\<exists>m d. vm_open loose ''v'' empty_disk = (Inr m, d) \<and>
     run_api_server loose plain_api None [Inl ''reset'', Inr (deaf, True, m), Inr (polite, False, m),
       Inr (endless, True, m), Inr (polite, True, m)] = ([None, Some (response_text 200 STATUS_OK)], Blocked)"
proof -
  obtain m d where m: "vm_open loose ''v'' empty_disk = (Inr m, d)" "vm_inv m" by (rule demo_metrics)
  let ?as = "[Inl ''reset'', Inr (deaf, True, m), Inr (polite, False, m), Inr (endless, True, m), Inr (polite, True, m)]"
  have acc: "accepted ?as = [(deaf, True, m), (polite, False, m), (endless, True, m), (polite, True, m)]"
    by (simp add: accepted_def map_filter_simps)
  have "\<forall>(conn, lock, m) \<in> set (accepted ?as). vm_inv m"
    using m(2) by (simp add: acc)
  from server_survives [OF this loose_order, of plain_api] show ?thesis
    using m(1) by (auto simp: acc demo_requests)
qed

theorem stalling_client_blocks_server_witness:
  "run_api_server loose plain_api None [Inr (endless, True, m), Inr (polite, True, m)] = ([], Blocked)"
  by (rule stalling_client_blocks_server [of _ "''GET /metrics/health HTTP/1.1''"])
    (simp_all add: endless_def health_line header_ends_def)

theorem shared_name_is_ambiguous_witness:
  "\<exists>m d ord. vm_open loose ''v'' empty_disk = (Inr m, d) \<and> iteration_order ord \<and>
    find_named (loose\<lparr> pf_keys := ord \<rparr>) (vm_store m) ''vcpu_exits_total'' = Some (exit_handle m ExitOther)"
proof -
  obtain m d where m: "vm_open loose ''v'' empty_disk = (Inr m, d)" "vm_inv m" by (rule demo_metrics)
  then show ?thesis using shared_name_is_ambiguous [OF m(2), of loose ExitOther] by blast
qed

section \<open>Runs of the loop\<close>

definition halted_event :: timed_event where
  "halted_event = \<lparr> te_result = Failed 4 (Some 2), te_exit_ns = f_one, te_run_ns = f_one, te_time = 7,
     te_io_time = (\<lambda>_. 7), te_elapsed = (\<lambda>_. 1), te_lock = True \<rparr>"

definition halt_exit :: timed_event where
  "halt_exit = halted_event\<lparr> te_result := Ran Hlt \<rparr>"

definition idle_state :: "vm_metrics \<Rightarrow> u8 list vcpu_state" where
  "idle_state m = \<lparr> vs_memory = [], vs_metrics = m, vs_block = None, vs_halts = 0, vs_toggle = 0,
     vs_console = [], vs_reply = [], vs_irqs = 0 \<rparr>"

theorem loop_stops_exactly_witness:
  "\<exists>m d s1 s2. vm_open loose ''v'' empty_disk = (Inr m, d) \<and>
     run_vcpu_loop flat_ops no_faults [halt_exit, halted_event, halted_event] (idle_state m) = Some (Running, s1) \<and>
     run_step flat_ops no_faults halted_event s1 = Some (Finished, s2)"
proof -
  obtain m d where m: "vm_open loose ''v'' empty_disk = (Inr m, d)" by (rule demo_metrics)
  obtain s1 where s1: "run_vcpu_loop flat_ops no_faults ([halt_exit] @ [halted_event, halted_event]) (idle_state m) = Some (Running, s1)"
    by (simp add: run_step_def halt_exit_def halted_event_def handle_exit_def idle_state_def is_guest_halted_def
        EINTR_def HALT_CONSECUTIVE_THRESHOLD_def Let_def word_le_nat_alt)
  have "halt_interrupt halted_event"
    by (simp add: halt_interrupt_def halted_event_def is_guest_halted_def EINTR_def)
  then show ?thesis
    using loop_stops_exactly [OF s1, of halted_event] m s1 by (fastforce simp: idle_state_def)
qed

theorem metrics_invariant_witness:
  "\<exists>m d s1. vm_open loose ''v'' empty_disk = (Inr m, d) \<and>
     run_vcpu_loop flat_ops no_faults [halt_exit, halted_event] (idle_state m) = Some (Running, s1) \<and>
     vm_inv (vs_metrics s1) \<and> vm_inv (fst (maintenance_tick loose True None None f_one 7 (vs_metrics s1) d))"
proof -
  obtain m d where m: "vm_open loose ''v'' empty_disk = (Inr m, d)" "vm_inv m" by (rule demo_metrics)
  obtain s1 where s1: "run_vcpu_loop flat_ops no_faults [halt_exit, halted_event] (idle_state m) = Some (Running, s1)"
    by (simp add: run_step_def halt_exit_def halted_event_def handle_exit_def idle_state_def is_guest_halted_def
        EINTR_def HALT_CONSECUTIVE_THRESHOLD_def Let_def word_le_nat_alt)
  have "orders_ok (pf_orders loose)" using loose_fair(1) by (simp add: orders_fair_def)
  then show ?thesis
    using metrics_invariant [of "idle_state m", OF _ s1] m s1 by (force simp: idle_state_def)
qed

section \<open>A virtual machine\<close>

definition demo_sregs :: kvm_sregs where
  "demo_sregs = \<lparr> sr_cs = data_segment, sr_ds = data_segment, sr_es = data_segment, sr_fs = data_segment,
     sr_gs = data_segment, sr_ss = data_segment, sr_gdt = \<lparr> dt_base = 0, dt_limit = 0 \<rparr>,
     sr_idt = \<lparr> dt_base = 0, dt_limit = 0 \<rparr>, sr_cr0 = 0, sr_cr3 = 0, sr_cr4 = 0, sr_efer = 0 \<rparr>"

definition demo_zeroed :: "unit boot_params" where
  "demo_zeroed = \<lparr> bp_hdr = \<lparr> hd_type_of_loader = 0, hd_loadflags = 0, hd_cmd_line_ptr = 0, hd_cmdline_size = 0,
     hd_ramdisk_image = 0, hd_ramdisk_size = 0 \<rparr>, bp_e820_table = replicate 128 \<lparr> e8_addr = 0, e8_size = 0, e8_type = 0 \<rparr>,
     bp_e820_entries = 0 \<rparr>"

text \<open>A loader with a kernel of two bytes at one megabyte, and an initramfs of three.\<close>

definition demo_host :: "(u8 list, unit, unit, unit) host" where
  "demo_host = \<lparr> kv_new = None, kv_create_vm = None, kv_set_region = None, kv_irq_chip = None, kv_pit = None,
     kv_create_vcpu = None, kv_get_cpuid = None, kv_set_cpuid = None, kv_get_sregs = Inr demo_sregs, kv_set_sregs = None,
     kv_set_regs = None, kv_set_fpu = None, ho_ranges = (\<lambda>n. Inr (replicate (unat n) 0)), ho_host_address = (\<lambda>_. None),
     ho_open = (\<lambda>_. None), ho_read = (\<lambda>_. Inr [1, 2, 3]),
     ld_load = (\<lambda>_ m. (Inr \<lparr> kl_load = 0x100000, kl_end = 0x100002, kl_header = None \<rparr>, poke m 0x100000 [0xEB, 0xFE])),
     ld_layout = (\<lambda>p. enc32 (hd_cmd_line_ptr (bp_hdr p)) @ replicate 0xFFC 0), ld_zeroed = demo_zeroed \<rparr>"

definition demo_config :: vmm_config where
  "demo_config = \<lparr> vc_kernel_path = ''k'', vc_initramfs_path = Some ''i'', vc_cmdline = ''quiet'', vc_memory_mib = 2,
     vc_metrics_store_path = ''v'', vc_api_port = 9100, vc_remote_write_endpoint = None, vc_external_labels = [],
     vc_disk_path = Some ''disk'' \<rparr>"

theorem vmm_boots_witness:
  "\<exists>v d'. vmm_new loose flat_ops demo_host demo_config empty_disk = (Inr v, d') \<and> vm_inv (vv_metrics v) \<and>
     kr_rip (vr_regs (vv_vcpu v)) = 0x100200 \<and> peek (vv_memory v) 0x101000 3 = [1, 2, 3] \<and>
     translate (vv_memory v) (sr_cr3 (vr_sregs (vv_vcpu v))) 0x12345 = Some 0x12345 \<and> vv_block_device v \<noteq> None"
proof -
  let ?n = "0x200000 :: nat" and ?m1 = "poke (replicate 0x200000 0) 0x100000 [0xEB, 0xFE] :: u8 list"
  let ?k = "\<lparr> kl_load = 0x100000, kl_end = 0x100002, kl_header = None \<rparr> :: unit kernel_result"
  have size: "memory_size demo_config = 0x200000"
    by (simp add: memory_size_def demo_config_def)
  have "ho_ranges demo_host (memory_size demo_config) = Inr (replicate ?n 0)"
    by (simp add: size demo_host_def)
  moreover have "peek (replicate ?n 0 :: u8 list) 0x9000 0x2000 = replicate 0x2000 0"
    by (simp add: peek_def)
  moreover have "kvm_accepts demo_host demo_sregs (replicate ?n 0)"
    by (simp add: kvm_accepts_def demo_host_def)
  moreover have "kernel_loaded (\<lambda>m. m) demo_host demo_config (replicate ?n 0) ?k ?m1"
    by (simp add: kernel_loaded_def demo_host_def demo_config_def HIMEM_START_def length_poke peek_poke_below)
  moreover have addr: "initramfs_addr ?k = 0x101000"
    by (simp add: initramfs_addr_def)
  moreover have "initramfs_fits demo_host demo_config ?k (length (replicate ?n (0 :: u8)))"
    by (simp add: initramfs_fits_def demo_host_def demo_config_def addr)
  moreover have "0x20000 + length (guest_cmdline demo_config) + 1 \<le> 0x100000"
    by (simp add: guest_cmdline_def demo_config_def CMDLINE_PARAM_def)
  moreover have "\<forall>p. length (ld_layout demo_host p) = 0x1000"
    by (simp add: demo_host_def c32.enc_width)
  moreover have "os_calm (pf_os loose)" by (simp add: loose_fields os_ok_calm)
  ultimately obtain v d' where v: "vmm_new loose flat_ops demo_host demo_config empty_disk = (Inr v, d')"
      "vm_inv (vv_metrics v)" "bootable (\<lambda>m. m) demo_host demo_config ?k ?m1 (vv_memory v) (vv_vcpu v)"
      "vv_block_device v \<noteq> None"
    using vmm_boots [OF flat.guest_region_axioms, of demo_host demo_config "replicate ?n 0" demo_sregs ?k ?m1 loose empty_disk]
      loose_order loose_total nothing_exists by (auto simp: demo_config_def split: option.splits)
  have "initramfs_data demo_host demo_config = Some [1, 2, 3]"
    by (simp add: initramfs_data_def demo_host_def demo_config_def)
  then have "peek (vv_memory v) 0x101000 3 = [1, 2, 3]" "kr_rip (vr_regs (vv_vcpu v)) = 0x100200"
      "translate (vv_memory v) (sr_cr3 (vr_sregs (vv_vcpu v))) 0x12345 = Some 0x12345"
    using v(3) by (auto simp: bootable_def Let_def addr numeral_3_eq_3)
  then show ?thesis using v by blast
qed

end
