(* ===== verification/Duration_Serde.thy ===== *)
theory Duration_Serde
  imports Durations Float64
begin

text \<open>
  The module \<open>duration_serde\<close> of \<open>rondo/src/schema.rs\<close>: the durations of a tier are stored in
  the metadata as a floating-point number of seconds. What the two conversions of
  \<open>std::time::Duration\<close> do, and which durations survive being stored.
\<close>

section \<open>The conversions\<close>

definition as_secs_f64 :: "duration \<Rightarrow> f64" where
  "as_secs_f64 d = f_add (f_of_nat (unat (dur_secs d))) (f_div (f_of_nat (unat (dur_nanos d))) (f_of_nat (10 ^ 9)))"

text \<open>The natural number nearest to a quotient, ties to even.\<close>

definition nearest :: "nat \<Rightarrow> nat \<Rightarrow> nat" where
  "nearest num den =
     (let q = num div den; r = num mod den in if den < 2 * r \<or> den = 2 * r \<and> odd q then q + 1 else q)"

text \<open>
  \<open>Duration::from_secs_f64\<close> rounds to nanoseconds. It panics for what is negative, not below
  \<open>2 ^ 64\<close> seconds or not a number; the deserializer calls it on whatever the document has.
\<close>

definition from_secs_f64 :: "f64 \<Rightarrow> 'e fault + duration" where
  "from_secs_f64 x =
     (if is_nan x \<or> is_infinite x \<or> f_sign x \<and> f_mag x \<noteq> 0 \<or> 2 ^ 64 * 2 ^ 1074 \<le> f_mag x then Inl Panic
      else let nanos = nearest (f_mag x * 10 ^ 9) (2 ^ 1074) in
        Inr (Duration (word_of_nat (nanos div 10 ^ 9)) (word_of_nat (nanos mod 10 ^ 9))))"

definition duration_serialize :: "duration \<Rightarrow> f64" where
  "duration_serialize d = as_secs_f64 d"

definition duration_deserialize :: "f64 \<Rightarrow> 'e fault + duration" where
  "duration_deserialize seconds = from_secs_f64 seconds"

section \<open>Rounding errors\<close>

text \<open>The pattern that \<open>round_mag\<close> builds from an exponent and a significand has their product as magnitude.\<close>

lemma pat_mag_pack:
  assumes "q \<le> 2 ^ 53" and "e = 0 \<or> 2 ^ 52 \<le> q"
  shows "pat_mag (e * 2 ^ 52 + q) = q * 2 ^ e"
proof -
  consider "q < 2 ^ 52" "e = 0" | "2 ^ 52 \<le> q" "q < 2 ^ 53" | "q = 2 ^ 53"
    using assms by linarith
  then show ?thesis
  proof cases
    case 1
    then show ?thesis by (simp add: pat_mag_def pat_expo_def pat_frac_def)
  next
    case 2
    then obtain f where f: "q = 2 ^ 52 + f" "f < 2 ^ 52"
      using le_Suc_ex by force
    have "e * 2 ^ 52 + q = (e + 1) * 2 ^ 52 + f" by (simp add: f(1))
    then have "pat_expo (e * 2 ^ 52 + q) = e + 1" "pat_frac (e * 2 ^ 52 + q) = f"
      using f(2) by (simp_all only: pat_expo_def pat_frac_def div_mult_self3 mod_mult_self3 div_less mod_less)
    then show ?thesis by (simp add: pat_mag_def f(1))
  next
    case 3
    have "e * 2 ^ 52 + q = (e + 2) * 2 ^ 52 + 0" by (simp add: 3)
    then have "pat_expo (e * 2 ^ 52 + q) = e + 2" "pat_frac (e * 2 ^ 52 + q) = 0"
      by (simp_all only: pat_expo_def pat_frac_def) simp_all
    then show ?thesis by (simp add: pat_mag_def 3)
  qed
qed

lemma nearest_error:
  assumes "0 < den"
  shows "2 * \<bar>int (nearest num den) * int den - int num\<bar> \<le> int den"
proof -
  define q r where "q = num div den" and "r = num mod den"
  have num: "int num = int q * int den + int r" "r < den"
    using assms by (simp_all add: q_def r_def flip: of_nat_mult of_nat_add)
  have "nearest num den = (if den < 2 * r \<or> den = 2 * r \<and> odd q then q + 1 else q)"
    by (simp add: nearest_def q_def r_def Let_def)
  then have "int (nearest num den) * int den - int num = - int r \<and> 2 * r \<le> den \<or>
      int (nearest num den) * int den - int num = int den - int r \<and> den \<le> 2 * r"
    using num(1) by (auto simp: algebra_simps)
  then show ?thesis using num(2) by auto
qed

lemma nearest_exact: "0 < den \<Longrightarrow> nearest (n * den) den = n"
  by (simp add: nearest_def)

lemma nearest_unique:
  assumes "2 * \<bar>int num - int n * int den\<bar> < int den"
  shows "nearest num den = n"
proof -
  have "0 < den" using assms by (cases den) auto
  then have "2 * \<bar>int (nearest num den) * int den - int num\<bar> \<le> int den"
    by (rule nearest_error)
  moreover have "2 * \<bar>a - c\<bar> \<le> d \<Longrightarrow> 2 * \<bar>c - b\<bar> < d \<Longrightarrow> \<bar>a - b\<bar> < d" for a b c d :: int
    by (auto simp: abs_if split: if_splits)
  ultimately have "\<bar>int (nearest num den) * int den - int n * int den\<bar> < int den"
    using assms by blast
  then have "\<bar>int (nearest num den) - int n\<bar> * int den < 1 * int den"
    by (simp add: abs_mult flip: left_diff_distrib)
  then have "\<bar>int (nearest num den) - int n\<bar> < 1"
    by (rule mult_right_less_imp_less) simp
  then show ?thesis by simp
qed

lemma kept_bits:
  "n div 2 ^ (bitlen n - 53) < 2 ^ 53 \<and> (bitlen n - 53 = 0 \<or> 2 ^ 52 \<le> n div 2 ^ (bitlen n - 53))"
proof (cases "n < 2 ^ 53")
  case True
  then show ?thesis using bitlen_less [OF True] by simp
next
  case False
  then have "n \<noteq> 0" by auto
  then obtain k where k: "2 ^ k \<le> n" "n < 2 ^ Suc k"
    using ex_power_ivl1 [of 2 n] by auto
  have "\<not> Suc k \<le> 53"
  proof
    assume "Suc k \<le> 53"
    then have "(2 :: nat) ^ Suc k \<le> 2 ^ 53" by (rule power_increasing) simp
    then show False using k(2) False by linarith
  qed
  then obtain i where i: "k = 52 + i" using le_Suc_ex [of 52 k] by auto
  have "bitlen n - 53 = i" using bitlen_eq [OF k] by (simp add: i)
  moreover have "2 ^ 52 * 2 ^ i \<le> n" "n < 2 ^ 53 * 2 ^ i"
    using k by (simp_all add: i power_add)
  ultimately show ?thesis by (simp add: less_eq_div_iff_mult_less_eq div_less_iff_less_mult)
qed

lemma round_mag_nearest:
  "round_mag num den = min ((bitlen (num div den) - 53) * 2 ^ 52 +
     nearest num (den * 2 ^ (bitlen (num div den) - 53))) inf_pattern"
  by (simp only: round_mag_def nearest_def Let_def)

text \<open>
  Rounding \<open>num / den\<close> units below \<open>2 ^ (53 + e)\<close> is off by at most half of \<open>2 ^ e\<close> units.
\<close>

lemma round_mag_error:
  assumes "0 < den" and "num div den < 2 ^ (53 + e)" and "e \<le> 1900"
  shows "round_mag num den < inf_pattern \<and>
    2 * \<bar>int (pat_mag (round_mag num den)) * int den - int num\<bar> \<le> int den * 2 ^ e"
proof -
  define b where "b = bitlen (num div den) - 53"
  define d where "d = den * 2 ^ b"
  have be: "b \<le> e" using bitlen_less [OF assms(2)] by (simp add: b_def)
  have div: "num div d = num div den div 2 ^ b" by (simp add: d_def div_mult2_eq)
  have q: "num div d < 2 ^ 53" "b = 0 \<or> 2 ^ 52 \<le> num div d"
    using kept_bits [of "num div den"] by (simp_all add: div b_def)
  have near: "nearest num d \<le> num div d + 1" "num div d \<le> nearest num d"
    by (simp_all add: nearest_def Let_def)
  have small: "b * 2 ^ 52 + nearest num d \<le> 1900 * 2 ^ 52 + 2 ^ 53"
    using be assms(3) q(1) near(1) by (intro add_mono mult_le_mono1) auto
  then have round: "round_mag num den = b * 2 ^ 52 + nearest num d"
    by (simp add: round_mag_nearest inf_pattern_def flip: b_def d_def)
  moreover have "pat_mag (b * 2 ^ 52 + nearest num d) = nearest num d * 2 ^ b"
    using q near by (intro pat_mag_pack) linarith+
  ultimately have "pat_mag (round_mag num den) = nearest num d * 2 ^ b" by simp
  then have eq: "int (pat_mag (round_mag num den)) * int den = int (nearest num d) * int d"
    by (simp add: d_def)
  have "2 * \<bar>int (nearest num d) * int d - int num\<bar> \<le> int d"
    using assms(1) by (intro nearest_error) (simp add: d_def)
  also have "int d \<le> int den * 2 ^ e"
    using be by (simp add: d_def mult_left_mono power_increasing)
  finally show ?thesis
    unfolding eq using small by (simp add: round inf_pattern_def)
qed

section \<open>Round trip\<close>

text \<open>One second is \<open>2 ^ 1074\<close> units.\<close>

definition second :: nat where
  "second = 2 ^ 1074"

lemma second_pow: "second = 2 ^ 53 * 2 ^ 1021"
  by (simp add: second_def flip: power_add)

definition counts :: "f64 \<Rightarrow> bool" where
  "counts x \<longleftrightarrow> is_finite x \<and> \<not> f_sign x"

lemma counts_simps: "counts x \<Longrightarrow> \<not> is_nan x" "counts x \<Longrightarrow> \<not> is_infinite x" "counts x \<Longrightarrow> \<not> f_sign x"
    "counts x \<Longrightarrow> f_units x = int (f_mag x)"
  by (simp_all add: counts_def f64_classes f_units_def)

lemma counts_mk:
  assumes "p < inf_pattern"
  shows "counts (mk_f64 False p)" "f_mag (mk_f64 False p) = pat_mag p"
proof -
  have "p < 2 ^ 63" using assms by (simp add: inf_pattern_def)
  then show "counts (mk_f64 False p)" "f_mag (mk_f64 False p) = pat_mag p"
    using assms by (simp_all only: counts_def is_finite_def f_pattern_mk f_sign_mk f_mag_def) simp
qed

lemma of_nat_counts:
  assumes "n < 2 ^ 53"
  shows "counts (f_of_nat n)" "f_mag (f_of_nat n) = n * second"
proof -
  have fin: "is_finite (f_of_nat n)" and u: "f_units (f_of_nat n) = int n * 2 ^ 1074"
    using f_of_nat_exact [OF assms] by simp_all
  have s: "\<not> f_sign (f_of_nat n)"
    unfolding f_of_nat_def round_f64_def by (simp only: f_sign_mk [OF round_mag_bound] not_False_eq_True)
  then show "counts (f_of_nat n)" using fin by (simp add: counts_def)
  have "int (f_mag (f_of_nat n)) = int (n * second)"
    using u s by (simp add: f_units_def second_def)
  then show "f_mag (f_of_nat n) = n * second" by (simp only: of_nat_eq_iff)
qed

lemma f_add_counts:
  assumes "counts a" and "counts b"
  shows "f_add a b = (if f_mag a + f_mag b = 0 then mk_f64 False 0 else round_f64 False (f_mag a + f_mag b) 1)"
proof -
  have "f_units a + f_units b = int (f_mag a + f_mag b)"
    using assms by (simp add: counts_simps)
  then show ?thesis
    using assms by (simp add: f_add_def counts_simps Let_def nat_add_distrib del: of_nat_add)
qed

lemma add_error:
  assumes "counts a" and "counts b" and "f_mag a + f_mag b < 2 ^ (53 + e)" and "e \<le> 1900"
  shows "counts (f_add a b) \<and> 2 * \<bar>int (f_mag (f_add a b)) - int (f_mag a + f_mag b)\<bar> \<le> 2 ^ e"
proof (cases "f_mag a + f_mag b = 0")
  case True
  then show ?thesis
    using counts_mk [of 0] f_add_counts [OF assms(1,2)]
    by (simp add: inf_pattern_def pat_mag_def pat_expo_def pat_frac_def)
next
  case False
  let ?p = "round_mag (f_mag a + f_mag b) 1"
  have "f_add a b = mk_f64 False ?p"
    by (simp only: f_add_counts [OF assms(1,2)] False if_False round_f64_def)
  moreover have "?p < inf_pattern \<and> 2 * \<bar>int (pat_mag ?p) * int 1 - int (f_mag a + f_mag b)\<bar> \<le> int 1 * 2 ^ e"
    using assms(3,4) by (intro round_mag_error) simp_all
  ultimately show ?thesis
    using counts_mk [of ?p] by simp
qed

lemma fraction_error:
  assumes "n < 10 ^ 9" and "x = f_div (f_of_nat n) (f_of_nat (10 ^ 9))"
  shows "counts x \<and> 2 * \<bar>int (f_mag x) * 10 ^ 9 - int (n * second)\<bar> \<le> 10 ^ 9 * 2 ^ 1021"
proof -
  let ?den = "10 ^ 9 * second" and ?num = "n * second * second"
  let ?p = "round_mag ?num ?den"
  have pos: "0 < second" by (simp add: second_def)
  have a: "counts (f_of_nat n)" "f_mag (f_of_nat n) = n * second"
    using of_nat_counts [of n] assms(1) by simp_all
  have b: "counts (f_of_nat (10 ^ 9))" "f_mag (f_of_nat (10 ^ 9)) = 10 ^ 9 * second"
    using of_nat_counts [of "10 ^ 9"] by simp_all
  have x: "x = mk_f64 False ?p"
    using pos unfolding assms(2) f_div_def Let_def
    by (simp only: counts_simps [OF a(1)] counts_simps [OF b(1)] a(2) b(2) if_False mult_eq_0_iff
        round_f64_def second_def [symmetric]) simp
  have "?num div ?den = n * second div 10 ^ 9"
    using pos by simp
  also have "\<dots> < second"
    using assms(1) pos by (simp add: div_less_iff_less_mult mult.commute)
  finally have "?num div ?den < 2 ^ (53 + 1021)"
    by (simp only: second_pow power_add)
  then have "?p < inf_pattern \<and> 2 * \<bar>int (pat_mag ?p) * int ?den - int ?num\<bar> \<le> int ?den * 2 ^ 1021"
    using pos by (intro round_mag_error) simp_all
  moreover have "int (pat_mag ?p) * int ?den - int ?num = (int (pat_mag ?p) * 10 ^ 9 - int (n * second)) * int second"
    by (simp add: algebra_simps)
  ultimately have p: "?p < inf_pattern"
      "(2 * \<bar>int (pat_mag ?p) * 10 ^ 9 - int (n * second)\<bar>) * int second \<le> (10 ^ 9 * 2 ^ 1021) * int second"
    by (simp_all only: abs_mult abs_of_nat of_nat_mult of_nat_power of_nat_numeral mult.assoc mult.commute mult.left_commute)
  then have "2 * \<bar>int (pat_mag ?p) * 10 ^ 9 - int (n * second)\<bar> \<le> 10 ^ 9 * 2 ^ 1021"
    using pos by (simp only: mult_le_cancel_right)
  then show ?thesis
    using counts_mk [OF p(1)] by (simp only: x)
qed

lemma round_mag_0: "round_mag 0 den = 0"
  by (simp add: round_mag_def bitlen_0)

lemma fraction_zero: "f_div (f_of_nat 0) (f_of_nat (10 ^ 9)) = mk_f64 False 0"
proof -
  have a: "counts (f_of_nat 0)" "f_mag (f_of_nat 0) = 0"
    using of_nat_counts [of 0] by simp_all
  have b: "counts (f_of_nat (10 ^ 9))" "f_mag (f_of_nat (10 ^ 9)) = 10 ^ 9 * second"
    using of_nat_counts [of "10 ^ 9"] by simp_all
  have "f_mag (f_of_nat (10 ^ 9)) \<noteq> 0" by (simp only: b(2)) (simp add: second_def)
  then show ?thesis
    unfolding f_div_def Let_def
    by (simp only: counts_simps [OF a(1)] counts_simps [OF b(1)] a(2) if_False simp_thms mult_0
        round_f64_def round_mag_0)
qed

lemma zero_counts: "counts (mk_f64 False 0)" "f_mag (mk_f64 False 0) = 0"
  using counts_mk [of 0] by (simp_all add: inf_pattern_def pat_mag_def pat_expo_def pat_frac_def)

lemma whole_seconds:
  assumes "s < 2 ^ 53"
  shows "f_add (f_of_nat s) (f_div (f_of_nat 0) (f_of_nat (10 ^ 9))) = f_of_nat s"
proof -
  have a: "counts (f_of_nat s)" "f_mag (f_of_nat s) = s * second"
    using of_nat_counts [OF assms] by simp_all
  have "f_add (f_of_nat s) (mk_f64 False 0) = round_f64 False (s * second) 1"
    using f_add_counts [OF a(1) zero_counts(1)] a(2) zero_counts(2) by (simp add: round_f64_def round_mag_0)
  then show ?thesis
    unfolding fraction_zero unfolding f_of_nat_def second_def .
qed

text \<open>The two rounding errors together are less than half a nanosecond; \<open>v\<close> is \<open>2 ^ -53\<close> seconds.\<close>

lemma errors_below_half:
  fixes X S N M v :: int
  assumes "2 * \<bar>X * 10 ^ 9 - 2 ^ 53 * N\<bar> \<le> 10 ^ 9 * v" and "N + v \<le> 10 ^ 9 * v" and "0 < v"
  shows "X < 2 ^ 53 * v"
    and "2 * \<bar>M - (2 ^ 53 * S + X)\<bar> \<le> 2 ^ 23 * v \<Longrightarrow>
      2 * \<bar>M * 10 ^ 9 - (2 ^ 53 * S * 10 ^ 9 + 2 ^ 53 * N)\<bar> < 2 ^ 53 * v"
proof -
  have x: "2 * (X * 10 ^ 9) \<le> 2 ^ 54 * N + 10 ^ 9 * v" "2 ^ 54 * N - 10 ^ 9 * v \<le> 2 * (X * 10 ^ 9)"
    using assms(1) by (simp_all add: abs_le_iff)
  then show "X < 2 ^ 53 * v" using assms(2,3) by simp
  assume "2 * \<bar>M - (2 ^ 53 * S + X)\<bar> \<le> 2 ^ 23 * v"
  then have "2 * (M - (2 ^ 53 * S + X)) \<le> 2 ^ 23 * v" "- (2 ^ 23 * v) \<le> 2 * (M - (2 ^ 53 * S + X))"
    by (simp_all add: abs_if split: if_splits)
  then have "M * 10 ^ 9 - (2 ^ 53 * S * 10 ^ 9 + 2 ^ 53 * N) < 2 ^ 52 * v"
      "- (2 ^ 52 * v) < M * 10 ^ 9 - (2 ^ 53 * S * 10 ^ 9 + 2 ^ 53 * N)"
    using x assms(3) by simp_all
  then show "2 * \<bar>M * 10 ^ 9 - (2 ^ 53 * S * 10 ^ 9 + 2 ^ 53 * N)\<bar> < 2 ^ 53 * v"
    by (simp add: abs_if)
qed

lemma nearest_nanos:
  assumes "dur_wf d" and "dur_nanos d = 0 \<and> unat (dur_secs d) < 2 ^ 53 \<or> unat (dur_secs d) < 2 ^ 23"
  shows "counts (as_secs_f64 d) \<and> f_mag (as_secs_f64 d) < 2 ^ 54 * second \<and>
    nearest (f_mag (as_secs_f64 d) * 10 ^ 9) second = as_nanos d"
proof (cases "dur_nanos d = 0")
  case True
  then have s: "unat (dur_secs d) < 2 ^ 53" using assms(2) by auto
  then have "as_secs_f64 d = f_of_nat (unat (dur_secs d))"
    unfolding as_secs_f64_def True unat_0 by (rule whole_seconds)
  then show ?thesis
    using of_nat_counts [OF s] s nearest_exact [of second "as_nanos d"] True
    by (simp add: as_nanos_def second_def mult_ac)
next
  case False
  define s n where "s = unat (dur_secs d)" and "n = unat (dur_nanos d)"
  define x where "x = f_div (f_of_nat n) (f_of_nat (10 ^ 9))"
  have s: "s < 2 ^ 23" and n: "n < 10 ^ 9"
    using assms False by (auto simp: s_def n_def dur_wf_def)
  define v where "v = (2 :: int) ^ 1021"
  have sec: "int second = 2 ^ 53 * v" by (simp only: second_pow v_def of_nat_mult of_nat_power of_nat_numeral)
  have x: "counts x" "2 * \<bar>int (f_mag x) * 10 ^ 9 - int n * int second\<bar> \<le> 10 ^ 9 * v"
    using fraction_error [OF n x_def] by (simp_all add: v_def)
  have a: "counts (f_of_nat s)" "f_mag (f_of_nat s) = s * second"
    using of_nat_counts [of s] s by simp_all
  have "(int s + 1) * v \<le> 2 ^ 23 * v" "(int n + 1) * v \<le> 10 ^ 9 * v" "0 < v"
    using s n by (simp_all only: v_def mult_le_cancel_right) simp_all
  moreover define S N where "S = int s * v" and "N = int n * v"
  ultimately have b: "S + v \<le> 2 ^ 23 * v" "N + v \<le> 10 ^ 9 * v" "0 < v"
    by (simp_all only: distrib_right mult_1)
  have e: "2 * \<bar>int (f_mag x) * 10 ^ 9 - 2 ^ 53 * N\<bar> \<le> 10 ^ 9 * v"
    using x(2) by (simp only: sec N_def mult.left_commute)
  note half = errors_below_half [OF e b(2,3)]
  have pow: "2 ^ 1044 = 2 ^ 23 * v" "2 ^ (53 + 1044) = 2 ^ 53 * (2 ^ 23 * v)"
    by (simp_all add: v_def flip: power_add)
  have scaled: "int s * int second = 2 ^ 53 * S"
    by (simp only: sec S_def mult.left_commute)
  have "int (s * second + f_mag x) < 2 ^ (53 + 1044)"
    using half(1) b(1) unfolding pow of_nat_add of_nat_mult scaled by simp
  then have "s * second + f_mag x < 2 ^ (53 + 1044)"
    by (simp only: of_nat_less_numeral_power_cancel_iff)
  then have y: "counts (as_secs_f64 d)"
      "2 * \<bar>int (f_mag (as_secs_f64 d)) - (2 ^ 53 * S + int (f_mag x))\<bar> \<le> 2 ^ 23 * v"
    using add_error [OF a(1) x(1), of 1044] unfolding as_secs_f64_def a(2) of_nat_add of_nat_mult scaled pow
    by (simp_all only: s_def n_def x_def)
  have "int (f_mag (as_secs_f64 d)) < int (2 ^ 54 * second)"
    using y(2) half(1) b(1,3) unfolding of_nat_mult sec by (simp add: abs_if split: if_splits)
  then have "f_mag (as_secs_f64 d) < 2 ^ 54 * second" by (simp only: of_nat_less_iff)
  moreover have "nearest (f_mag (as_secs_f64 d) * 10 ^ 9) second = s * 10 ^ 9 + n"
  proof (rule nearest_unique)
    have "int (s * 10 ^ 9 + n) * int second = 2 ^ 53 * S * 10 ^ 9 + 2 ^ 53 * N"
      by (simp add: sec S_def N_def algebra_simps)
    then show "2 * \<bar>int (f_mag (as_secs_f64 d) * 10 ^ 9) - int (s * 10 ^ 9 + n) * int second\<bar> < int second"
      using half(2) [OF y(2)] by (simp only: sec of_nat_mult of_nat_power of_nat_numeral)
  qed
  ultimately show ?thesis using y(1) by (simp add: as_nanos_def s_def n_def)
qed

lemma duration_reads_back:
  assumes "dur_wf d" and "dur_nanos d = 0 \<and> unat (dur_secs d) < 2 ^ 53 \<or> unat (dur_secs d) < 2 ^ 23"
  shows "duration_deserialize (duration_serialize d) = Inr d"
proof -
  have c: "counts (as_secs_f64 d)" "f_mag (as_secs_f64 d) < 2 ^ 54 * second"
      "nearest (f_mag (as_secs_f64 d) * 10 ^ 9) second = as_nanos d"
    using nearest_nanos [OF assms] by simp_all
  have "(2 :: nat) ^ 54 * second \<le> 2 ^ 64 * second" by simp
  then have "\<not> 2 ^ 64 * second \<le> f_mag (as_secs_f64 d)" using c(2) by linarith
  then have "from_secs_f64 (as_secs_f64 d) =
      Inr (Duration (word_of_nat (as_nanos d div 10 ^ 9)) (word_of_nat (as_nanos d mod 10 ^ 9)))"
    unfolding from_secs_f64_def second_def [symmetric] c(3) Let_def
    by (simp only: counts_simps [OF c(1)] if_False simp_thms)
  moreover have "as_nanos d div 10 ^ 9 = unat (dur_secs d)" "as_nanos d mod 10 ^ 9 = unat (dur_nanos d)"
    using assms(1) by (simp_all add: as_nanos_def dur_wf_def)
  ultimately show ?thesis
    by (simp add: duration_serialize_def duration_deserialize_def)
qed

text \<open>
  C25. Durations survive the metadata: a whole number of seconds below \<open>2 ^ 53\<close>, and every
  duration below \<open>2 ^ 23\<close> seconds (97 days) to the nanosecond, is read back as it was written.
\<close>

theorem duration_serde_roundtrip:
  assumes "dur_wf d" and "dur_nanos d = 0 \<and> unat (dur_secs d) < 2 ^ 53 \<or> unat (dur_secs d) < 2 ^ 23"
  shows "duration_deserialize (duration_serialize d) = Inr d"
  by (rule duration_reads_back [OF assms])

theorem duration_serde_roundtrip_witness:
  "duration_deserialize (duration_serialize (Duration 8388607 999999999)) = Inr (Duration 8388607 999999999)"
  by (rule duration_serde_roundtrip) (simp_all add: dur_wf_def)

text \<open>Beyond the bound a nanosecond is lost, and a negative number in the document is a panic.\<close>

lemma nanosecond_rounds_away:
  "f_add (f_of_nat (2 ^ 24)) (f_div (f_of_nat 1) (f_of_nat (10 ^ 9))) = f_of_nat (2 ^ 24)"
proof -
  define x where "x = f_div (f_of_nat 1) (f_of_nat (10 ^ 9))"
  define w :: nat where "w = 2 ^ 1046"
  have sec: "second = 2 ^ 28 * w" by (simp add: second_def w_def flip: power_add)
  have "int (2 ^ 1021) * 2 ^ 25 = int w" by (simp add: w_def flip: power_add)
  moreover have "counts x \<and> 2 * \<bar>int (f_mag x) * 10 ^ 9 - int (1 * second)\<bar> \<le> 10 ^ 9 * 2 ^ 1021"
    by (rule fraction_error) (simp_all add: x_def)
  ultimately have x: "counts x" "2 * int (f_mag x) < int w" "0 < w"
    by (auto simp: sec abs_if w_def split: if_splits)
  have a: "counts (f_of_nat (2 ^ 24))" "f_mag (f_of_nat (2 ^ 24)) = 2 ^ 24 * second"
    using of_nat_counts [of "2 ^ 24"] by simp_all
  let ?z = "2 ^ 24 * second + f_mag x"
  have round: "round_mag z 1 = min (1046 * 2 ^ 52 + nearest z w) inf_pattern" if "2 ^ 52 * w \<le> z" "z < 2 ^ 53 * w" for z
  proof -
    have "bitlen z = Suc 1098" by (rule bitlen_eq) (use that in \<open>simp_all add: w_def flip: power_add\<close>)
    then show ?thesis by (simp add: round_mag_nearest w_def)
  qed
  have "nearest ?z w = 2 ^ 52"
    using x(2,3) by (intro nearest_unique) (simp add: sec)
  moreover have "nearest (2 ^ 24 * second) w = 2 ^ 52"
    using nearest_exact [OF x(3), of "2 ^ 52"] by (simp add: sec)
  ultimately have "round_mag ?z 1 = round_mag (2 ^ 24 * second) 1"
    using round [of ?z] round [of "2 ^ 24 * second"] x(2,3) by (simp add: sec)
  moreover have "f_add (f_of_nat (2 ^ 24)) x = round_f64 False ?z 1"
    using f_add_counts [OF a(1) x(1)] a(2) by (simp add: second_def)
  ultimately show ?thesis
    by (simp only: x_def round_f64_def) (simp only: f_of_nat_def round_f64_def second_def)
qed

lemma nanosecond_lost: "duration_deserialize (duration_serialize (Duration 16777216 1)) = Inr (Duration 16777216 0)"
proof -
  have "duration_serialize (Duration 16777216 1) = duration_serialize (Duration 16777216 0)"
    using nanosecond_rounds_away whole_seconds [of "2 ^ 24"]
    by (simp add: duration_serialize_def as_secs_f64_def)
  also have "duration_deserialize \<dots> = Inr (Duration 16777216 0)"
    by (rule duration_reads_back) (simp_all add: dur_wf_def)
  finally show ?thesis .
qed

lemma negative_seconds_panic: "duration_deserialize (F64 0xBFF0000000000000) = Inl Panic"
  by (simp add: duration_deserialize_def from_secs_f64_def f_sign_def f_mag_def f_pattern_def pat_mag_def pat_expo_def)

end
