(* ===== verification/Cli_Queries.thy ===== *)
theory Cli_Queries
  imports Cli Remote_Write Duration_Serde
begin

text \<open>
  The query command of \<open>rondo-cli/src/main.rs\<close> on the files that a program left behind when it
  closed its store: opening, selecting the series and reading, put together.
\<close>

section \<open>Selecting\<close>

lemma cli_matches_set: "set labels = set labels' \<Longrightarrow> cli_matches_labels labels fltr = cli_matches_labels labels' fltr"
  by (auto simp: cli_matches_labels_def list_all_iff list_ex_iff)

text \<open>A series is found exactly if one is registered that the selector describes, and then it is such a one.\<close>

definition selects :: "store \<Rightarrow> string \<Rightarrow> series_handle \<Rightarrow> bool" where
  "selects st selector h \<longleftrightarrow> (case parse_series_selector selector of (name, fltr) \<Rightarrow>
     \<exists>labels. get_handle (st_registry st) name labels = Some h \<and> cli_matches_labels labels fltr)"

lemma find_selected_iff:
  assumes "store_inv st" and "iteration_order (pf_keys pf)"
  shows "(case find_selected pf st selector of Some h \<Rightarrow> selects st selector h | None \<Rightarrow> \<forall>h. \<not> selects st selector h)"
proof -
  obtain name fltr where p: "parse_series_selector selector = (name, fltr)" by force
  let ?P = "\<lambda>h. case store_series_info pf st h of
      Some (name', labels) \<Rightarrow> name' = name \<and> cli_matches_labels labels fltr | None \<Rightarrow> False"
  have f: "find_selected pf st selector = List.find ?P (store_handles pf st)"
    by (simp add: find_selected_def p)
  show ?thesis
  proof (cases "find_selected pf st selector")
    case None
    have "\<not> selects st selector h" for h
    proof
      assume "selects st selector h"
      then obtain labels where l: "get_handle (st_registry st) name labels = Some h" "cli_matches_labels labels fltr"
        by (auto simp: selects_def p)
      obtain labels' where l': "store_series_info pf st h = Some (name, labels')" "sort_key fst labels' = sort_key fst labels"
          "h \<in> set (store_handles pf st)"
        using series_info_of_handle [OF assms l(1)] by blast
      have "set labels' = set labels" using l'(2) by (metis set_sort)
      then have "cli_matches_labels labels' fltr" using l(2) cli_matches_set by blast
      then have "?P h" using l'(1) by simp
      then show False using None l'(3) by (auto simp: f find_None_iff)
    qed
    then show ?thesis using None by simp
  next
    case (Some h)
    then have "?P h" using find_someD [of ?P "store_handles pf st" h] by (simp only: f)
    then obtain labels where "store_series_info pf st h = Some (name, labels)" "cli_matches_labels labels fltr"
      by (auto split: option.splits)
    then have "selects st selector h"
      using series_info_registered(2) [OF assms] by (auto simp: selects_def p)
    then show ?thesis using Some by simp
  qed
qed

section \<open>Reading\<close>

text \<open>The answer from a series, for a tier argument that may be \<open>auto\<close>, a number or neither.\<close>

definition series_answer :: "store \<Rightarrow> string \<Rightarrow> u64 \<Rightarrow> u64 \<Rightarrow> series_handle \<Rightarrow> cli_error fault + usize \<times> (u64 \<times> f64) list" where
  "series_answer st tier_str s e h =
     (if tier_str = ''auto'' then
        if e \<le> s then cli_err (Library (Query (InvalidTimeRange s e)))
        else Inr (best_tier st h s e, samples st h (best_tier st h s e) s e)
      else case parse_uint (2 ^ 64) tier_str of
        None \<Rightarrow> cli_err (ParseInt tier_str)
      | Some tier \<Rightarrow>
          if length (tiers_of st h) \<le> tier then cli_err (Library (Query (InvalidTier tier (length (tiers_of st h)))))
          else if e \<le> s then cli_err (Library (Query (InvalidTimeRange s e)))
          else Inr (tier, samples st h tier s e))"

definition command_answer :: "store \<Rightarrow> string \<Rightarrow> string \<Rightarrow> u64 \<Rightarrow> u64 \<Rightarrow> (cli_error fault + usize \<times> (u64 \<times> f64) list) \<Rightarrow> bool" where
  "command_answer st selector tier_str s e r \<longleftrightarrow>
     (if \<exists>h. selects st selector h then \<exists>h. selects st selector h \<and> r = series_answer st tier_str s e h
      else r = cli_err (Message (''Series '' @ quoted selector @ '' not found'')))"

lemma library_simps [simp]: "library (Inr x) = Inr x" "library (err e) = cli_err (Library e)"
  by (simp_all add: library_def)

lemma tables_equal:
  assumes "map (map rb_table) rings' = map (map rb_table) rings" and "i < length rings" and "j < length (rings ! i)"
  shows "rb_table (rings' ! i ! j) = rb_table (rings ! i ! j)"
proof -
  have "map rb_table (rings' ! i) = map rb_table (rings ! i)"
    using assms(1,2) by (metis length_map nth_map)
  then show ?thesis using assms(3) by (metis length_map nth_map)
qed

section \<open>The schemas in the metadata\<close>

text \<open>
  What \<open>duration_serde\<close> makes of a schema that is written to the metadata and read back: its
  durations go through a floating-point number of seconds, and one that cannot be read is lost.
\<close>

definition stored_duration :: "duration \<Rightarrow> duration option" where
  "stored_duration d = (case duration_deserialize (duration_serialize d) :: duration res of
     Inr d' \<Rightarrow> Some d' | Inl _ \<Rightarrow> None)"

definition stored_tier :: "tier_config \<Rightarrow> tier_config option" where
  "stored_tier t = Option.bind (stored_duration (tc_interval t)) (\<lambda>interval.
     map_option (\<lambda>retention. t\<lparr>tc_interval := interval, tc_retention := retention\<rparr>) (stored_duration (tc_retention t)))"

definition stored_schema :: "schema_config \<Rightarrow> schema_config option" where
  "stored_schema c = map_option (\<lambda>tiers. c\<lparr>sc_tiers := tiers\<rparr>) (those (map stored_tier (sc_tiers c)))"

text \<open>
  What \<open>serde_json\<close> does for the commands: a metadata document that it has written parses to a
  value with an array under the key of the schemas, the elements of which read as those schemas with
  their durations as \<open>duration_serde\<close> reads them.
\<close>

definition metadata_values :: "platform \<Rightarrow> 'v cli_json \<Rightarrow> bool" where
  "metadata_values pf js \<longleftrightarrow> (\<forall>schemas text. to_json (pf_metadata_json pf) (metadata_of pf schemas) = Inr text \<longrightarrow>
     (\<exists>v s vs. cj_parse js text = Inr v \<and> cj_get js v ''schemas'' = Some s \<and> cj_array js s = Some vs \<and>
        map (cj_config js) vs = map stored_schema schemas))"

text \<open>Durations that survive being stored: whole seconds below \<open>2 ^ 53\<close>, or anything below \<open>2 ^ 23\<close> seconds.\<close>

definition duration_survives :: "duration \<Rightarrow> bool" where
  "duration_survives d \<longleftrightarrow> dur_nanos d = 0 \<and> unat (dur_secs d) < 2 ^ 53 \<or> unat (dur_secs d) < 2 ^ 23"

definition durations_survive :: "schema_config list \<Rightarrow> bool" where
  "durations_survive schemas \<longleftrightarrow> list_all (\<lambda>c. list_all (\<lambda>t. duration_survives (tc_interval t) \<and>
     duration_survives (tc_retention t)) (sc_tiers c)) schemas"

lemma stored_same:
  assumes "schemas_ok schemas" and "durations_survive schemas" and "c \<in> set schemas"
  shows "stored_schema c = Some c"
proof -
  have "stored_duration d = Some d" if "dur_wf d" "duration_survives d" for d
    using duration_reads_back [OF that(1), where 'a = rondo_error] that(2) by (simp add: stored_duration_def duration_survives_def)
  moreover have "dur_wf (tc_interval t) \<and> dur_wf (tc_retention t) \<and> duration_survives (tc_interval t) \<and>
      duration_survives (tc_retention t)" if "t \<in> set (sc_tiers c)" for t
    using assms that by (auto simp: schemas_ok_def schema_fits_def durations_survive_def tier_representable_def list_all_iff)
  ultimately have "map stored_tier (sc_tiers c) = map Some (sc_tiers c)"
    by (simp add: stored_tier_def)
  moreover have "those (map Some ts) = Some ts" for ts :: "tier_config list" by (induction ts) auto
  ultimately have "those (map stored_tier (sc_tiers c)) = Some (sc_tiers c)" by (simp only:)
  then show ?thesis by (simp add: stored_schema_def)
qed

lemma schemas_reconstructed:
  assumes "metadata_values pf js" and "to_json (pf_metadata_json pf) (metadata_of pf schemas) = Inr text"
    and "schemas_ok schemas" and "durations_survive schemas"
  obtains v s vs where "cj_parse js text = Inr v" "reconstruct_schemas js v = schemas"
    "cj_get js v ''schemas'' = Some s" "cj_array js s = Some vs" "length vs = length schemas"
proof -
  obtain v s vs where v: "cj_parse js text = Inr v" "cj_get js v ''schemas'' = Some s" "cj_array js s = Some vs"
      "map (cj_config js) vs = map stored_schema schemas"
    using assms(1,2) unfolding metadata_values_def by blast
  have "map stored_schema schemas = map Some schemas"
    using stored_same [OF assms(3,4)] by simp
  then have config: "map (cj_config js) vs = map Some schemas" using v(4) by simp
  have "List.map_filter f xs = ys" if "map f xs = map Some ys" for f :: "'a \<Rightarrow> schema_config option" and xs ys
    using that by (induction xs arbitrary: ys) (auto simp: map_filter_simps)
  then have "List.map_filter (cj_config js) vs = schemas" using config by blast
  moreover have "length vs = length schemas" using config by (metis length_map)
  ultimately show thesis using that v(1-3) by (simp add: reconstruct_schemas_def)
qed

text \<open>What the commands find on the files of a closed store: its metadata, and a store that answers alike.\<close>

lemma command_opens:
  assumes "store_inv st" and "schemas_ok (st_schemas st)" and "persisted pf st d"
    and "os_calm (pf_os pf)" and "json_ok pf" and "iteration_order (pf_keys pf)"
    and "\<forall>tiers \<in> set (st_rings st). \<forall>r \<in> set tiers. reopens_safely r"
    and "metadata_values pf js" and "durations_survive (st_schemas st)"
  obtains st' json v s vs where
    "read_text (pf_os pf) (store_files st d) (path_join (st_path st) METADATA_FILE) = Inr json"
    "path_exists (store_files st d) (path_join (st_path st) METADATA_FILE)"
    "cj_parse js json = Inr v" "reconstruct_schemas js v = st_schemas st"
    "store_open pf (st_path st) (st_schemas st) (store_files st d) = (Inr st', store_files st d)"
    "st_schemas st' = st_schemas st" "map (map rb_table) (st_rings st') = map (map rb_table) (st_rings st)"
    "\<forall>name labels. get_handle (st_registry st') name labels = get_handle (st_registry st) name labels"
    "store_inv st'"
    "cj_get js v ''schemas'' = Some s" "cj_array js s = Some vs" "length vs = length (st_schemas st)"
proof -
  obtain st' where st': "store_open pf (st_path st) (st_schemas st) (store_files st d) = (Inr st', store_files st d)"
      "st_schemas st' = st_schemas st" "map (map rb_table) (st_rings st') = map (map rb_table) (st_rings st)"
      "\<forall>name labels. get_handle (st_registry st') name labels = get_handle (st_registry st) name labels"
      "store_inv st'"
    using store_reopen_ok [OF assms(1-6)] assms(7) by blast
  obtain json where json: "to_json (pf_metadata_json pf) (metadata_of pf (st_schemas st)) = Inr json"
      "dk_text d (path_join (st_path st) METADATA_FILE) = Some json"
    using assms(3) by (auto simp: persisted_def)
  obtain v s vs where meta: "cj_parse js json = Inr v" "reconstruct_schemas js v = st_schemas st"
      "cj_get js v ''schemas'' = Some s" "cj_array js s = Some vs" "length vs = length (st_schemas st)"
    by (rule schemas_reconstructed [OF assms(8) json(1) assms(2,9)])
  have "read_text (pf_os pf) (store_files st d) (path_join (st_path st) METADATA_FILE) = Inr json"
      "path_exists (store_files st d) (path_join (st_path st) METADATA_FILE)"
    using json(2) assms(4) by (simp_all add: read_text_def path_exists_def store_files_def fold_put_slab os_calm_def)
  then show thesis by (rule that [OF _ _ meta(1,2) st' meta(3-5)])
qed

text \<open>A reopened store answers alike.\<close>

lemma same_answers:
  assumes inv: "store_inv st" "store_inv st'" and reg: "registered st h"
    and sch: "st_schemas st' = st_schemas st" and tabs: "map (map rb_table) (st_rings st') = map (map rb_table) (st_rings st)"
  shows "tier < length (tiers_of st h) \<Longrightarrow> samples st' h tier s e = samples st h tier s e"
    and "best_tier st' h s e = best_tier st h s e"
proof -
  have table: "tier_table st' h j = tier_table st h j" if "j < length (tiers_of st h)" for j
  proof -
    have "sh_schema_index h < length (st_rings st)" "j < length (st_rings st ! sh_schema_index h)"
      using inv(1) registered_bounds [OF inv(1) reg] that by (auto simp: store_inv_def rings_inv_def)
    then show ?thesis using tables_equal [OF tabs] by simp
  qed
  then show "tier < length (tiers_of st h) \<Longrightarrow> samples st' h tier s e = samples st h tier s e"
    by (simp add: samples_def)
  let ?n = "length (tiers_of st h)"
  have "find (\<lambda>j. covers (tier_table st' h j) s e) [0..<?n] = find (\<lambda>j. covers (tier_table st h j) s e) [0..<?n]"
      "find (\<lambda>j. used_timestamps (tier_table st' h j) \<noteq> []) (rev [0..<?n]) =
        find (\<lambda>j. used_timestamps (tier_table st h j) \<noteq> []) (rev [0..<?n])"
    using table by (auto intro!: find_cong)
  then show "best_tier st' h s e = best_tier st h s e"
    unfolding best_tier_def Let_def sch by (simp only:)
qed

lemma store_answer:
  assumes inv: "store_inv st" "registered st h"
  shows "rbind (if tier_str = ''auto'' then library (store_query_auto st h s e)
      else case parse_uint (2 ^ 64) tier_str of
        None \<Rightarrow> cli_err (ParseInt tier_str) | Some tier \<Rightarrow> library (store_query st h tier s e))
      (\<lambda>result. rbind (library (collect_all result)) (\<lambda>points. Inr (tier_used result, points)))
    = series_answer st tier_str s e h"
proof -
  have b: "sh_schema_index h < length (st_schemas st)" using registered_bounds [OF inv] by simp
  have q: "rbind (library (store_query st h tier s e))
      (\<lambda>result. rbind (library (collect_all result)) (\<lambda>points. Inr (tier_used result, points))) =
      (if length (tiers_of st h) \<le> tier then cli_err (Library (Query (InvalidTier tier (length (tiers_of st h)))))
       else if e \<le> s then cli_err (Library (Query (InvalidTimeRange s e))) else Inr (tier, samples st h tier s e))" for tier
  proof (cases "tier < length (tiers_of st h) \<and> s < e")
    case True
    then show ?thesis using store_query_ok [OF inv, of tier s e] by auto
  next
    case False
    then show ?thesis using b by (auto simp: store_query_def nth_res_def not_less)
  qed
  show ?thesis
    using q [of "best_tier st h s e"] query_auto_ok [OF inv, of s e]
    by (auto simp: series_answer_def q split: option.splits)
qed

text \<open>
  C24. The query command answers from what was recorded. On the files of a closed well-formed store whose rings
  all reopen safely, with valid schemas whose durations survive being stored, its metadata and index
  in place, system calls that succeed, JSON that reads back and hash maps that iterate over each entry
  once, for a range argument that parses and a clock that is not before the epoch:
  a selector for no registered series is an error; for any other, the answer is that of a series it
  describes: an error for a tier argument that is neither \<open>auto\<close> nor a number, for a tier the
  series does not have or an empty range, and otherwise exactly the samples that the store held, in
  the tier asked for or the one that \<open>auto\<close> selects, in that range when it was closed. The files
  stay as they are.
\<close>

theorem query_command_answers:
  assumes "store_inv st" and "schemas_ok (st_schemas st)" and "persisted pf st d"
    and "os_calm (pf_os pf)" and "json_ok pf" and "iteration_order (pf_keys pf)"
    and "\<forall>tiers \<in> set (st_rings st). \<forall>r \<in> set tiers. reopens_safely r"
    and "metadata_values pf js" and "durations_survive (st_schemas st)"
    and "parse_duration range_str = Inr range_ns" and "query_window now range_ns = Inr (s, e)"
  shows "\<exists>r. cmd_query pf js (st_path st) selector range_str tier_str now (store_files st d) = (r, store_files st d) \<and>
    command_answer st selector tier_str s e r"
proof -
  obtain st' json v where files: "read_text (pf_os pf) (store_files st d) (path_join (st_path st) METADATA_FILE) = Inr json"
      "path_exists (store_files st d) (path_join (st_path st) METADATA_FILE)"
    and meta: "cj_parse js json = Inr v" "reconstruct_schemas js v = st_schemas st"
    and st': "store_open pf (st_path st) (st_schemas st) (store_files st d) = (Inr st', store_files st d)"
      "st_schemas st' = st_schemas st" "map (map rb_table) (st_rings st') = map (map rb_table) (st_rings st)"
      "\<forall>name labels. get_handle (st_registry st') name labels = get_handle (st_registry st) name labels"
      "store_inv st'"
    using command_opens [OF assms(1-9)] by metis
  have sel: "selects st' selector h \<longleftrightarrow> selects st selector h" for h
    by (simp add: selects_def st'(4))
  have found: "case find_selected pf st' selector of Some h \<Rightarrow> selects st selector h | None \<Rightarrow> \<forall>h. \<not> selects st selector h"
    using find_selected_iff [OF st'(5) assms(6), of selector] by (cases "find_selected pf st' selector") (simp_all add: sel)
  have answer: "series_answer st' tier_str s e h = series_answer st tier_str s e h" "registered st' h"
    if h: "selects st selector h" for h
  proof -
    obtain name fltr where p: "parse_series_selector selector = (name, fltr)" by force
    then obtain labels where l: "get_handle (st_registry st) name labels = Some h"
      using h by (auto simp: selects_def)
    then have reg: "registered st h" "registered st' h" by (auto simp: registered_def st'(4))
    note same = same_answers [OF assms(1) st'(5) reg(1) st'(2,3)]
    show "registered st' h" by (rule reg(2))
    show "series_answer st' tier_str s e h = series_answer st tier_str s e h"
      using same query_auto_ok(2) [OF assms(1) reg(1), of s e]
      by (auto simp: series_answer_def st'(2) split: option.splits)
  qed
  have "cmd_query pf js (st_path st) selector range_str tier_str now (store_files st d) =
      (case find_selected pf st' selector of
         None \<Rightarrow> cli_err (Message (''Series '' @ quoted selector @ '' not found''))
       | Some h \<Rightarrow> rbind (if tier_str = ''auto'' then library (store_query_auto st' h s e)
           else case parse_uint (2 ^ 64) tier_str of
             None \<Rightarrow> cli_err (ParseInt tier_str) | Some tier \<Rightarrow> library (store_query st' h tier s e))
           (\<lambda>result. rbind (library (collect_all result)) (\<lambda>points. Inr (tier_used result, points))),
       store_files st d)"
    using files meta st'(1) assms(10,11)
    by (simp add: cmd_query_def METADATA_FILE_def Let_def split: option.splits)
  then show ?thesis
    using found answer store_answer [OF st'(5)]
    by (cases "find_selected pf st' selector") (auto simp: command_answer_def)
qed

end
