(* ===== verification/Cli_Info.thy ===== *)
theory Cli_Info
  imports Cli_Queries
begin

text \<open>
  What \<open>rondo-cli/src/main.rs\<close> prints: the info command, with the sizes of files and
  directories, the two output formats of the query command, and \<open>main\<close>. Output is the list of
  the printed lines; the document that \<open>serde_json\<close> renders and the shortest decimal of a
  floating-point number are parameters.
\<close>

section \<open>Sizes\<close>

text \<open>A directory tree as the operating system shows it, with the calls on it that fail.\<close>

datatype fs_node = FsFile u64 | FsNoStat io_error | FsDir "fs_entry list" | FsNoRead io_error
  and fs_entry = FsEntry fs_node | FsNoEntry io_error

text \<open>The recursive sum; the root counts only if it is a directory. Sums wrap.\<close>

fun dir_size :: "fs_node \<Rightarrow> io_error + u64" and entry_size :: "fs_entry \<Rightarrow> io_error + u64" where
  "dir_size (FsFile n) = Inr 0"
| "dir_size (FsNoStat e) = Inr 0"
| "dir_size (FsNoRead e) = Inl e"
| "dir_size (FsDir entries) = fold_res (\<lambda>x total. rbind x (\<lambda>n. Inr (total + n))) (map entry_size entries) 0"
| "entry_size (FsNoEntry e) = Inl e"
| "entry_size (FsEntry (FsFile n)) = Inr n"
| "entry_size (FsEntry (FsNoStat e)) = Inl e"
| "entry_size (FsEntry node) = dir_size node"

text \<open>One decimal of a value that is neither negative nor infinite.\<close>

definition fmt_tenths :: "f64 \<Rightarrow> string" where
  "fmt_tenths x = (let n = nearest (f_mag x * 10) (2 ^ 1074) in fmt_nat (n div 10) @ ''.'' @ fmt_nat (n mod 10))"

definition format_bytes :: "u64 \<Rightarrow> string" where
  "format_bytes bytes =
     (if 1048576 \<le> bytes then fmt_tenths (f_div (f_of_nat (unat bytes)) (f_of_nat 1048576)) @ '' MB''
      else if 1024 \<le> bytes then fmt_tenths (f_div (f_of_nat (unat bytes)) (f_of_nat 1024)) @ '' KB''
      else fmt_nat (unat bytes) @ '' B'')"

section \<open>The metadata\<close>

definition hex_digit :: "nat \<Rightarrow> char" where
  "hex_digit n = (if n < 10 then digit n else char_of (87 + n))"

definition hex16 :: "u64 \<Rightarrow> string" where
  "hex16 w = map (\<lambda>i. hex_digit (unat w div 16 ^ i mod 16)) (rev [0..<16])"

text \<open>The cast \<open>s as u64\<close>, which saturates.\<close>

definition f_as_u64 :: "f64 \<Rightarrow> u64" where
  "f_as_u64 x =
     (if is_nan x \<or> f_sign x then 0
      else if is_infinite x \<or> 2 ^ 64 * 2 ^ 1074 \<le> f_mag x then - 1
      else word_of_nat (f_mag x div 2 ^ 1074))"

definition get_field :: "'v cli_json \<Rightarrow> 'v \<Rightarrow> string \<Rightarrow> ('v \<Rightarrow> 'a option) \<Rightarrow> 'a option" where
  "get_field js v name read = Option.bind (cj_get js v name) read"

definition or_else :: "'a option \<Rightarrow> 'a \<Rightarrow> 'a" where
  "or_else x y = (case x of None \<Rightarrow> y | Some x \<Rightarrow> x)"

definition file_len :: "disk \<Rightarrow> string \<Rightarrow> nat" where
  "file_len d p = (case dk_slab d p of Some m \<Rightarrow> length m
     | None \<Rightarrow> (case dk_text d p of Some text \<Rightarrow> length text | None \<Rightarrow> 0))"

definition tier_lines :: "'v cli_json \<Rightarrow> (string \<Rightarrow> bool) \<Rightarrow> disk \<Rightarrow> string \<Rightarrow> nat \<Rightarrow> nat \<times> 'v \<Rightarrow> string list" where
  "tier_lines js stat d store_path i jt = (case jt of (j, tier) \<Rightarrow>
     (let secs = (\<lambda>name. or_else (map_option (\<lambda>s. format_duration_secs (f_as_u64 s)) (get_field js tier name (cj_f64 js))) ''?'');
          fn_str = or_else (get_field js tier ''consolidation_fn'' (\<lambda>c. if cj_null js c then None else cj_str js c)) ''none (raw)'';
          slab = slab_path store_path i j in
      (''      Tier '' @ fmt_nat j @ '': interval='' @ secs ''interval'' @ '', retention='' @ secs ''retention'' @ '', fn='' @ fn_str)
      # (if path_exists d slab \<and> stat slab
         then [''        Slab: '' @ slab @ '' ('' @ fmt_nat (file_len d slab) @ '' bytes)''] else [])))"

definition schema_lines :: "'v cli_json \<Rightarrow> (string \<Rightarrow> bool) \<Rightarrow> disk \<Rightarrow> string \<Rightarrow> nat \<times> 'v \<Rightarrow> string list" where
  "schema_lines js stat d store_path is = (case is of (i, schema) \<Rightarrow>
     [''  Schema '' @ fmt_nat i @ '': '' @ [CHR 0x22] @ or_else (get_field js schema ''name'' (cj_str js)) ''unknown'' @ [CHR 0x22],
      ''    Max series: '' @ fmt_nat (unat (or_else (get_field js schema ''max_series'' (cj_u64 js)) 0)),
      ''    Hash: '' @ hex16 (or_else (get_field js schema ''hash'' (cj_u64 js)) 0)]
     @ (case get_field js schema ''tiers'' (cj_array js) of
          None \<Rightarrow> []
        | Some tiers \<Rightarrow> (''    Tiers: '' @ fmt_nat (length tiers)) #
            concat (map (tier_lines js stat d store_path i) (enumerate 0 tiers)))
     @ [[]])"

section \<open>The series\<close>

definition labels_str :: "labels \<Rightarrow> string" where
  "labels_str labels = (if labels = [] then []
     else '' {'' @ join '', '' (map (\<lambda>(k, v). k @ ''='' @ v) labels) @ ''}'')"

definition series_line :: "string \<Rightarrow> labels \<Rightarrow> series_handle \<Rightarrow> string" where
  "series_line name labels h = ''  - '' @ name @ labels_str labels @ '' (schema='' @ fmt_nat (sh_schema_index h) @
     '', column='' @ fmt_nat (unat (sh_column h)) @ '')''"

definition series_lines :: "platform \<Rightarrow> store \<Rightarrow> string list" where
  "series_lines pf st =
     (let handles = store_handles pf st in
      if handles = [] then []
      else [[], ''Registered series: '' @ fmt_nat (length handles)] @
        List.map_filter (\<lambda>h. map_option (\<lambda>(name, labels). series_line name labels h) (store_series_info pf st h)) handles)"

section \<open>The info command\<close>

text \<open>The lines printed so far when it ends, how it ends, and the files.\<close>

definition cmd_info :: "platform \<Rightarrow> 'v cli_json \<Rightarrow> (string \<Rightarrow> bool) \<Rightarrow> fs_node \<Rightarrow> string \<Rightarrow> disk \<Rightarrow>
    (string list \<times> (cli_error fault + unit)) \<times> disk" where
  "cmd_info pf js stat tree store_path d =
     (let meta_path = path_join store_path ''meta.json'' in
      if \<not> path_exists d meta_path then (([], cli_err (Message (''No store found at '' @ quoted store_path))), d)
      else case read_text (pf_os pf) d meta_path of
        Inl e \<Rightarrow> (([], cli_err (CliIo e)), d)
      | Inr meta_data \<Rightarrow>
      case cj_parse js meta_data of
        Inl e \<Rightarrow> (([], cli_err (CliJson e)), d)
      | Inr meta \<Rightarrow>
      let out = [''Store: '' @ store_path, []] @
            (case get_field js meta ''schemas'' (cj_array js) of
               None \<Rightarrow> []
             | Some schemas \<Rightarrow> [''Schemas: '' @ fmt_nat (length schemas), []] @
                 concat (map (schema_lines js stat d store_path) (enumerate 0 schemas))) in
      case dir_size tree of
        Inl e \<Rightarrow> ((out, cli_err (CliIo e)), d)
      | Inr total_size \<Rightarrow>
      let out = out @ [''Total disk usage: '' @ format_bytes total_size @ '' ('' @ fmt_nat (unat total_size) @ '' bytes)''] @
            (if path_exists d (path_join store_path ''consolidation_cursors.json'')
             then [[], ''Consolidation cursors: present''] else []) in
      case store_open pf store_path (reconstruct_schemas js meta) d of
        (Inl (Error e), d) \<Rightarrow> ((out, Inr ()), d)
      | (Inl f, d) \<Rightarrow> ((out, library (Inl f)), d)
      | (Inr st, d) \<Rightarrow> ((out @ series_lines pf st, Inr ()), d))"

section \<open>The query command\<close>

datatype output_format = Csv | Json

definition query_lines ::
    "(f64 \<Rightarrow> string) \<Rightarrow> (string \<Rightarrow> usize \<Rightarrow> nat \<Rightarrow> (u64 \<times> f64) list \<Rightarrow> json_error + string) \<Rightarrow> output_format \<Rightarrow> string \<Rightarrow>
       usize \<times> (u64 \<times> f64) list \<Rightarrow> cli_error fault + string list" where
  "query_lines show_f64 pretty format series_name answer = (case answer of (tier, data) \<Rightarrow>
     (case format of
        Csv \<Rightarrow> Inr ([''# series='' @ series_name @ '', tier='' @ fmt_nat tier @ '', points='' @ fmt_nat (length data),
            ''timestamp_ns,value''] @ map (\<lambda>(ts, val). fmt_nat (unat ts) @ '','' @ show_f64 val) data)
      | Json \<Rightarrow> (case pretty series_name tier (length data) data of
            Inl e \<Rightarrow> cli_err (CliJson e) | Inr text \<Rightarrow> Inr [text])))"

section \<open>What the info command lists\<close>

lemma store_handles_distinct:
  assumes "store_inv st" and "iteration_order (pf_keys pf)"
  shows "distinct (store_handles pf st)"
proof -
  let ?m = "rg_series_map (st_registry st)"
  have inv: "reg_inv (st_registry st)" using assms(1) by (simp add: store_inv_def)
  let ?ks = "pf_keys pf (hm_keys ?m)" and ?h = "\<lambda>k. info_handle (the (hm_get ?m k))"
  have "hm_wf ?m" using inv by (simp add: reg_inv_def)
  moreover have "hm_get ?m = map_of ?m" by (simp add: fun_eq_iff hm_get_def)
  ultimately have ks: "distinct ?ks" "set ?ks = dom (hm_get ?m)"
    using assms(2) by (simp_all add: iteration_order_def hm_wf_def hm_keys_def dom_map_of_conv_image_fst)
  have "List.map_filter (hm_get ?m) ks = map (\<lambda>k. the (hm_get ?m k)) ks" if "set ks \<subseteq> dom (hm_get ?m)" for ks
    using that by (induction ks) (auto simp: map_filter_simps)
  then have "store_handles pf st = map ?h ?ks"
    using ks(2) by (simp add: store_handles_def handles_def hm_values_def)
  moreover have "inj_on ?h (dom (hm_get ?m))"
  proof (rule inj_onI)
    fix k k' assume "k \<in> dom (hm_get ?m)" "k' \<in> dom (hm_get ?m)" "?h k = ?h k'"
    then obtain info info' where "hm_get ?m k = Some info" "hm_get ?m k' = Some info'" "info_handle info = info_handle info'"
      by auto
    then show "k = k'"
      using inv unfolding reg_inv_def by (auto simp: info_handle_def)
  qed
  ultimately show ?thesis using ks by (simp add: distinct_map)
qed

text \<open>The lines for some series, with their number above them.\<close>

definition series_block :: "(series_handle \<times> string \<times> labels) list \<Rightarrow> string list" where
  "series_block entries = (if entries = [] then []
     else [[], ''Registered series: '' @ fmt_nat (length entries)] @
       map (\<lambda>(h, name, labels). series_line name labels h) entries)"

definition lists_series :: "store \<Rightarrow> (series_handle \<times> string \<times> labels) list \<Rightarrow> bool" where
  "lists_series st entries \<longleftrightarrow> distinct (map fst entries) \<and> fst ` set entries = {h. registered st h} \<and>
     (\<forall>(h, name, labels) \<in> set entries. get_handle (st_registry st) name labels = Some h)"

lemma series_lines_block:
  assumes "store_inv st" and "iteration_order (pf_keys pf)"
  shows "\<exists>entries. series_lines pf st = series_block entries \<and> lists_series st entries"
proof -
  note info = series_info_registered [OF assms]
  let ?hs = "store_handles pf st" and ?e = "\<lambda>h. (h, the (store_series_info pf st h))"
  have known: "store_series_info pf st h \<noteq> None" if "h \<in> set ?hs" for h
    using info(1) that by blast
  have "List.map_filter (\<lambda>h. map_option (\<lambda>(name, labels). series_line name labels h) (store_series_info pf st h)) hs =
      map (\<lambda>(h, name, labels). series_line name labels h) (map ?e hs)" if "set hs \<subseteq> set ?hs" for hs
    using that
  proof (induction hs)
    case (Cons h hs)
    then show ?case using known [of h] by (auto simp: map_filter_simps)
  qed (simp add: map_filter_simps)
  then have "series_lines pf st = series_block (map ?e ?hs)"
    by (simp add: series_lines_def series_block_def Let_def)
  moreover have "lists_series st (map ?e ?hs)"
  proof -
    have "h \<in> set ?hs" if "registered st h" for h
      using that series_info_of_handle [OF assms] by (auto simp: registered_def)
    then have "set ?hs = {h. registered st h}"
      using registered_handles [OF assms] by auto
    moreover have "get_handle (st_registry st) name labels = Some h"
      if "h \<in> set ?hs" "the (store_series_info pf st h) = (name, labels)" for h name labels
      using that known info(2) by fastforce
    ultimately show ?thesis
      using store_handles_distinct [OF assms] by (auto simp: lists_series_def o_def image_image)
  qed
  ultimately show ?thesis by blast
qed

lemma lists_series_cong:
  "\<forall>name labels. get_handle (st_registry st') name labels = get_handle (st_registry st) name labels \<Longrightarrow>
     lists_series st' entries = lists_series st entries"
  by (simp add: lists_series_def registered_def)

text \<open>
  C26. The info command shows what a store holds. On the files of a closed well-formed store whose
  rings all reopen safely, with valid schemas whose durations survive being stored, its metadata
  and index in place, system calls that succeed, JSON that reads back and hash maps that iterate
  over each entry once, it leaves the files as they are and prints the path, the number of schemas
  and their lines; then, if the operating system does not let it sum up the directory tree it
  shows, it ends with that error, and otherwise it prints the size, whether cursors are there, the
  number of series, and one line for each, with its name, labels, schema and column, and succeeds.
\<close>

theorem info_lists_series:
  assumes "store_inv st" and "schemas_ok (st_schemas st)" and "persisted pf st d"
    and "os_calm (pf_os pf)" and "json_ok pf" and "iteration_order (pf_keys pf)"
    and "\<forall>tiers \<in> set (st_rings st). \<forall>r \<in> set tiers. reopens_safely r"
    and "metadata_values pf js" and "durations_survive (st_schemas st)"
  shows "\<exists>lines entries. lists_series st entries \<and> length lines = length (st_schemas st) \<and>
    (let out = [''Store: '' @ st_path st, [], ''Schemas: '' @ fmt_nat (length (st_schemas st)), []] @ concat lines;
         cursors = (if path_exists (store_files st d) (path_join (st_path st) ''consolidation_cursors.json'')
                    then [[], ''Consolidation cursors: present''] else []) in
     cmd_info pf js stat tree (st_path st) (store_files st d) =
       ((case dir_size tree of Inl e \<Rightarrow> (out, cli_err (CliIo e))
         | Inr n \<Rightarrow> (out @ [''Total disk usage: '' @ format_bytes n @ '' ('' @ fmt_nat (unat n) @ '' bytes)''] @ cursors @
             series_block entries, Inr ())), store_files st d))"
proof -
  obtain st' json v s vs where files: "read_text (pf_os pf) (store_files st d) (path_join (st_path st) METADATA_FILE) = Inr json"
      "path_exists (store_files st d) (path_join (st_path st) METADATA_FILE)"
    and meta: "cj_parse js json = Inr v" "reconstruct_schemas js v = st_schemas st"
    and st': "store_open pf (st_path st) (st_schemas st) (store_files st d) = (Inr st', store_files st d)"
      "st_schemas st' = st_schemas st" "map (map rb_table) (st_rings st') = map (map rb_table) (st_rings st)"
      "\<forall>name labels. get_handle (st_registry st') name labels = get_handle (st_registry st) name labels"
      "store_inv st'"
    and vs: "cj_get js v ''schemas'' = Some s" "cj_array js s = Some vs" "length vs = length (st_schemas st)"
    by (rule command_opens [OF assms])
  obtain entries where entries: "series_lines pf st' = series_block entries" "lists_series st' entries"
    using series_lines_block [OF st'(5) assms(6)] by blast
  let ?lines = "map (schema_lines js stat (store_files st d) (st_path st)) (enumerate 0 vs)"
  have "lists_series st entries" using lists_series_cong [OF st'(4)] entries(2) by blast
  moreover have "length ?lines = length (st_schemas st)" using vs(3) by simp
  moreover have "get_field js v ''schemas'' (cj_array js) = Some vs" using vs(1,2) by (simp add: get_field_def)
  ultimately show ?thesis
    using files meta st'(1) entries(1) vs(3)
    by (intro exI [of _ ?lines] exI [of _ entries])
      (simp add: cmd_info_def METADATA_FILE_def Let_def split: sum.split)
qed

section \<open>Sizes\<close>

text \<open>Without errors and with a total that fits, the size is the sum of the sizes of all files below.\<close>

fun readable :: "fs_node \<Rightarrow> bool" and readable_entry :: "fs_entry \<Rightarrow> bool" where
  "readable (FsFile n) = True"
| "readable (FsNoStat e) = False"
| "readable (FsNoRead e) = False"
| "readable (FsDir entries) = list_all readable_entry entries"
| "readable_entry (FsNoEntry e) = False"
| "readable_entry (FsEntry node) = readable node"

fun total_bytes :: "fs_node \<Rightarrow> nat" and entry_bytes :: "fs_entry \<Rightarrow> nat" where
  "total_bytes (FsFile n) = unat n"
| "total_bytes (FsNoStat e) = 0"
| "total_bytes (FsNoRead e) = 0"
| "total_bytes (FsDir entries) = sum_list (map entry_bytes entries)"
| "entry_bytes (FsNoEntry e) = 0"
| "entry_bytes (FsEntry node) = total_bytes node"

lemma sum_entries:
  assumes "\<forall>e \<in> set es. entry_size e = Inr (word_of_nat (entry_bytes e))"
  shows "fold_res (\<lambda>x total. rbind x (\<lambda>n. Inr (total + n))) (map entry_size es) (word_of_nat k) =
    Inr (word_of_nat (k + sum_list (map entry_bytes es)))"
  using assms
proof (induction es arbitrary: k)
  case (Cons e es)
  then show ?case using Cons.IH [of "k + entry_bytes e"] by (simp add: add.assoc)
qed simp

lemma dir_size_total:
  "readable node \<Longrightarrow> (case node of FsFile n \<Rightarrow> True | _ \<Rightarrow> dir_size node = Inr (word_of_nat (total_bytes node)))"
  "readable_entry entry \<Longrightarrow> entry_size entry = Inr (word_of_nat (entry_bytes entry))"
proof (induction node and entry)
  case (FsDir entries)
  then show ?case
    using sum_entries [of entries 0] by (simp add: list_all_iff)
next
  case (FsEntry node)
  then show ?case by (cases node) simp_all
qed simp_all

end
