(* ===== verification/Cli_Bench.thy ===== *)
theory Cli_Bench
  imports Cli_Info Vm_Metrics
begin

text \<open>
  The bench command and \<open>main\<close> of \<open>rondo-cli/src/main.rs\<close>: a store with one schema in a
  temporary directory, one record per series and second, and the exit code of a command. The
  times that it measures and prints are left out.
\<close>

section \<open>The benchmark\<close>

text \<open>The sum wraps in a release build.\<close>

definition bench_schema :: "u32 \<Rightarrow> schema_config" where
  "bench_schema series_count = \<lparr> sc_name = ''bench'', sc_label_matcher = matcher_any,
     sc_tiers = [\<lparr> tc_interval = from_secs 1, tc_retention = from_secs 3600, tc_consolidation_fn = None \<rparr>],
     sc_max_series = series_count + 10 \<rparr>"

definition bench_series :: "u32 \<Rightarrow> (string \<times> labels) list" where
  "bench_series series_count = map (\<lambda>i. (''metric_'' @ fmt_nat i, [(''id'', fmt_nat i)])) [0..<unat series_count]"

text \<open>\<open>Result::unwrap\<close>.\<close>

definition unwrap :: "'e fault + 'a \<Rightarrow> 'e fault + 'a" where
  "unwrap r = (case r of Inl (Error e) \<Rightarrow> Inl Panic | _ \<Rightarrow> r)"

definition bench_round :: "series_handle list \<Rightarrow> u64 \<Rightarrow> store \<Rightarrow> store res" where
  "bench_round hs ts st =
     fold_res (\<lambda>(i, handle) st. unwrap (store_record handle (f_of_nat i) ts st)) (enumerate 0 hs) st"

fun bench_rounds :: "series_handle list \<Rightarrow> nat \<Rightarrow> u64 \<Rightarrow> store \<Rightarrow> store res" where
  "bench_rounds hs 0 ts st = Inr st"
| "bench_rounds hs (Suc k) ts st =
     rbind (bench_round hs (ts + 1000000000) st) (bench_rounds hs k (ts + 1000000000))"

definition base_time :: u64 where
  "base_time = 1700000000000000000"

text \<open>\<open>remove_dir_all\<close>, its errors ignored; when it fails the model takes everything to remain.\<close>

definition below :: "string \<Rightarrow> string \<Rightarrow> bool" where
  "below p q \<longleftrightarrow> q = p \<or> prefix (p @ ''/'') q"

definition remove_dir_all :: "io_error option \<Rightarrow> string \<Rightarrow> disk \<Rightarrow> disk" where
  "remove_dir_all e p d = (case e of
     Some _ \<Rightarrow> d
   | None \<Rightarrow> \<lparr> dk_text = (\<lambda>q. if below p q then None else dk_text d q),
               dk_slab = (\<lambda>q. if below p q then None else dk_slab d q),
               dk_dir = (\<lambda>q. \<not> below p q \<and> dk_dir d q) \<rparr>)"

text \<open>The number of writes, the divisor of everything that is printed then, and the files.\<close>

definition cmd_bench :: "platform \<Rightarrow> io_error option \<Rightarrow> io_error option \<Rightarrow> string \<Rightarrow> u64 \<Rightarrow> u32 \<Rightarrow> disk \<Rightarrow>
    (cli_error fault + u64) \<times> disk" where
  "cmd_bench pf rm1 rm2 tmp points series_count d =
     (let temp_dir = path_join tmp ''rondo_bench'' in
      case store_open pf temp_dir [bench_schema series_count] (remove_dir_all rm1 temp_dir d) of
        (Inl e, d) \<Rightarrow> (library (Inl e), d)
      | (Inr st, d) \<Rightarrow>
      case register_series pf (bench_series series_count) st d of
        (Inl e, st, d) \<Rightarrow> (library (Inl e), store_files st d)
      | (Inr hs, st, d) \<Rightarrow>
      if series_count = 0 then (Inl Panic, store_files st d)
      else let points_per_series = points div ucast series_count in
      case bench_rounds hs (unat points_per_series) base_time st of
        Inl e \<Rightarrow> (library (Inl e), store_files st d)
      | Inr st \<Rightarrow> (Inr (points_per_series * ucast series_count), remove_dir_all rm2 temp_dir (store_files st d)))"

section \<open>Commands\<close>

datatype command = Info string | Query_Series string string string string output_format | Bench u64 u32

text \<open>\<open>main\<close>: zero, one for an error, and the code of a panic.\<close>

definition exit_code :: "(cli_error fault + 'a) \<Rightarrow> nat" where
  "exit_code r = (case r of Inr _ \<Rightarrow> 0 | Inl (Error _) \<Rightarrow> 1 | Inl _ \<Rightarrow> 101)"

text \<open>
  The lines on the standard output, the exit code and the files. The lines of a benchmark
  and the error message, which \<open>main\<close> prints to the error output, are left out.
\<close>

definition run_command ::
    "platform \<Rightarrow> 'v cli_json \<Rightarrow> (f64 \<Rightarrow> string) \<Rightarrow> (string \<Rightarrow> usize \<Rightarrow> nat \<Rightarrow> (u64 \<times> f64) list \<Rightarrow> json_error + string) \<Rightarrow>
       (string \<Rightarrow> bool) \<Rightarrow> fs_node \<Rightarrow> io_error option \<Rightarrow> io_error option \<Rightarrow> string \<Rightarrow> nat option \<Rightarrow> command \<Rightarrow> disk \<Rightarrow>
       (string list \<times> nat) \<times> disk" where
  "run_command pf js show_f64 pretty stat tree rm1 rm2 tmp now c d =
     (case c of
        Info store_path \<Rightarrow>
          (case cmd_info pf js stat tree store_path d of ((out, r), d) \<Rightarrow> ((out, exit_code r), d))
      | Query_Series store_path series range_str tier format \<Rightarrow>
          (case cmd_query pf js store_path series range_str tier now d of
             (r, d) \<Rightarrow>
               let r = rbind r (query_lines show_f64 pretty format series) in
               ((case r of Inl _ \<Rightarrow> [] | Inr out \<Rightarrow> out, exit_code r), d))
      | Bench points series \<Rightarrow>
          (case cmd_bench pf rm1 rm2 tmp points series d of (r, d) \<Rightarrow> (([], exit_code r), d)))"

section \<open>Every write is accepted\<close>

lemma bench_series_valid: "valid_series (bench_series n)" "distinct (series_keys (bench_series n))"
    "length (bench_series n) = unat n"
proof -
  show "valid_series (bench_series n)"
    by (simp add: valid_series_def bench_series_def validate_name_def fmt_nat_nonempty list_all_iff)
  have "series_keys (bench_series n) = map (\<lambda>i. key_new (''metric_'' @ fmt_nat i) [(''id'', fmt_nat i)]) [0..<unat n]"
    by (simp add: series_keys_def bench_series_def)
  then show "distinct (series_keys (bench_series n))"
    by (simp add: distinct_map inj_on_def key_new_def fmt_nat_inject)
  show "length (bench_series n) = unat n" by (simp add: bench_series_def)
qed

lemma room_for_ten: "unat n + 10 < 2 ^ 32 \<Longrightarrow> unat (n + 10 :: u32) = unat n + 10"
  by (simp add: unat_word_ariths)

lemma bench_schema_ok:
  assumes "unat n + 10 < 2 ^ 32"
  shows "schemas_ok [bench_schema n]"
proof -
  have "unat (n + 10) \<noteq> unat (0 :: u32)" using room_for_ten [OF assms] by simp
  then have "n + 10 \<noteq> 0" by metis
  then show ?thesis
    using assms by (simp add: schemas_ok_def schema_validate_ok bench_schema_def schema_fits_def tier_eval slab_size_def
        room_for_ten)
qed

lemma bench_round_ok:
  assumes "store_inv st" and "\<forall>h \<in> set hs. registered st h" and "t \<noteq> 0" and "k + length hs < 2 ^ 53"
  shows "\<exists>st'. fold_res (\<lambda>(i, h) st. unwrap (store_record h (f_of_nat i) t st)) (enumerate k hs) st = Inr st' \<and>
    store_inv st' \<and> st_registry st' = st_registry st"
  using assms
proof (induction hs arbitrary: k st)
  case (Cons h hs)
  have fin: "\<not> is_infinite (f_of_nat k)"
    using f_of_nat_exact [of k] Cons.prems(4) by (simp add: finite_not_infinite)
  have reg: "registered st h" using Cons.prems(2) by simp
  obtain st1 where st1: "store_record h (f_of_nat k) t st = Inr st1" "st_registry st1 = st_registry st"
    using store_record_ok [OF Cons.prems(1) reg fin Cons.prems(3)] by auto
  have inv1: "store_inv st1" by (rule store_record_inv [OF Cons.prems(1) reg st1(1)])
  have "\<forall>h \<in> set hs. registered st1 h"
    using Cons.prems(2) st1(2) by (simp add: registered_def)
  then obtain st' where "fold_res (\<lambda>(i, h) st. unwrap (store_record h (f_of_nat i) t st)) (enumerate (Suc k) hs) st1 = Inr st'"
      "store_inv st'" "st_registry st' = st_registry st1"
    using Cons.IH [OF inv1 _ Cons.prems(3), of "Suc k"] Cons.prems(4) by auto
  then show ?case using st1 by (simp add: unwrap_def)
qed simp

text \<open>The clock of the benchmark starts above zero and does not wrap to it.\<close>

lemma bench_rounds_ok:
  assumes "store_inv st" and "\<forall>h \<in> set hs. registered st h" and "length hs < 2 ^ 53"
    and "0 < unat t" and "unat t + k * 1000000000 < 2 ^ 64"
  shows "\<exists>st'. bench_rounds hs k t st = Inr st' \<and> store_inv st' \<and> st_registry st' = st_registry st"
  using assms
proof (induction k arbitrary: t st)
  case (Suc k)
  let ?t = "t + 1000000000"
  have t: "unat ?t = unat t + 1000000000"
    using Suc.prems(5) by (simp add: unat_word_ariths)
  then have "?t \<noteq> 0" by (metis add_is_0 unat_0 zero_neq_numeral)
  then obtain st1 where st1: "bench_round hs ?t st = Inr st1" "store_inv st1" "st_registry st1 = st_registry st"
    using bench_round_ok [OF Suc.prems(1,2), of ?t 0] Suc.prems(3) by (auto simp: bench_round_def)
  have "\<forall>h \<in> set hs. registered st1 h" using Suc.prems(2) st1(3) by (simp add: registered_def)
  then obtain st' where "bench_rounds hs k ?t st1 = Inr st'" "store_inv st'" "st_registry st' = st_registry st1"
    using Suc.IH [OF st1(2) _ Suc.prems(3), of ?t] Suc.prems(5) t by auto
  then show ?case using st1 by simp
qed simp

section \<open>What a benchmark does\<close>

lemma removed: "below p q \<Longrightarrow> \<not> path_exists (remove_dir_all None p d) q"
  by (simp add: remove_dir_all_def path_exists_def)

lemma schema_dir_below: "p \<noteq> [] \<Longrightarrow> last p \<noteq> CHR ''/'' \<Longrightarrow> below p (schema_dir p i)"
  by (simp add: below_def schema_dir_def path_join_def)

lemma bench_dir: "path_join tmp ''rondo_bench'' \<noteq> []" "last (path_join tmp ''rondo_bench'') \<noteq> CHR ''/''"
  by (simp_all add: path_join_def)

lemma known_registered:
  assumes "list_all2 (known_as st) series hs" and "h \<in> set hs"
  shows "registered st h"
proof -
  obtain i where "i < length hs" "h = hs ! i" using assms(2) by (auto simp: in_set_conv_nth)
  then have "known_as st (series ! i) h" using list_all2_nthD2 [OF assms(1)] by blast
  then show ?thesis by (auto simp: known_as_def registered_def)
qed

lemma even_shares:
  fixes points :: u64 and n :: u32
  shows "unat (points div ucast n * ucast n) = unat points - unat points mod unat n"
    and "unat (points div ucast n) = unat points div unat n"
proof -
  have n: "unat (ucast n :: u64) = unat n" by (rule unat_u32_to_u64)
  then show d: "unat (points div ucast n) = unat points div unat n"
    by (simp add: unat_div)
  have e: "unat points div unat n * unat n = unat points - unat points mod unat n"
    by (metis minus_mod_eq_div_mult)
  moreover have "\<dots> < 2 ^ 64" using u64_bound [of points] by linarith
  ultimately have "unat points div unat n * unat n < 2 ^ 64" by (simp only:)
  then show "unat (points div ucast n * ucast n) = unat points - unat points mod unat n"
    using unat_mult_lem [of "points div ucast n" "ucast n"] by (simp add: d n e)
qed

text \<open>
  C27. A benchmark over at least one series completes: every one of its writes is accepted, it
  makes the largest multiple of the number of series that the number of points allows, and it
  leaves nothing in its directory. Over no series it panics.
\<close>

theorem bench_outcome:
  assumes "os_calm (pf_os pf)" and "iteration_order (pf_keys pf)" and "json_total pf"
    and "unat n + 10 < 2 ^ 32" and "unat points div unat n \<le> 16000000000"
  shows "if n = 0 then fst (cmd_bench pf None rm2 tmp points n d) = Inl Panic
    else \<exists>total d'. cmd_bench pf None rm2 tmp points n d = (Inr total, d') \<and>
      unat total = unat points - unat points mod unat n \<and>
      (rm2 = None \<longrightarrow> (\<forall>q. below (path_join tmp ''rondo_bench'') q \<longrightarrow> \<not> path_exists d' q))"
proof -
  let ?p = "path_join tmp ''rondo_bench''"
  let ?hs = "map (\<lambda>i. nth_handle (word_of_nat i)) [0..<length (bench_series n)]"
  have "below ?p ?p" by (simp add: below_def)
  then have fresh: "\<not> path_exists (remove_dir_all None ?p d) ?p" "\<not> path_exists (remove_dir_all None ?p d) (schema_dir ?p 0)"
    using removed schema_dir_below [OF bench_dir] by blast+
  have any: "sc_label_matcher (bench_schema n) = matcher_any" "length (bench_series n) \<le> unat (sc_max_series (bench_schema n))"
    using room_for_ten [OF assms(4)] by (simp_all add: bench_schema_def bench_series_valid(3))
  obtain st d1 st' d2 where opened: "store_open pf ?p [bench_schema n] (remove_dir_all None ?p d) = (Inr st, d1)"
    "register_series pf (bench_series n) st d1 = (Inr ?hs, st', d2)"
    and st': "store_inv st'" "list_all2 (known_as st') (bench_series n) ?hs"
    using open_registers [OF assms(1-3) bench_schema_ok [OF assms(4)] any(1) fresh bench_series_valid(1,2) any(2)] by blast
  show ?thesis
  proof (cases "n = 0")
    case True
    then show ?thesis using opened by (simp add: cmd_bench_def)
  next
    case False
    have "length ?hs < 2 ^ 53" using u32_bound [of n] by (simp add: bench_series_valid(3))
    moreover have "\<forall>h \<in> set ?hs. registered st' h" using known_registered [OF st'(2)] by blast
    ultimately obtain st2 where "bench_rounds ?hs (unat (points div ucast n)) base_time st' = Inr st2"
      using bench_rounds_ok [OF st'(1), of ?hs base_time "unat (points div ucast n)"] assms(5)
      by (auto simp: even_shares(2) base_time_def)
    then show ?thesis
      using opened False even_shares(1) [of points n] removed by (auto simp: cmd_bench_def Let_def)
  qed
qed

end
