(* ===== verification/Cli_Examples.thy ===== *)
theory Cli_Examples
  imports Cli_Bench Vmm_Examples
begin

text \<open>
  The query and the info command on the files of a store with one series and one recorded sample; and a benchmark.
\<close>

section \<open>A closed store\<close>

definition kept :: platform where
  "kept = demo_platform (one_json (metadata_of loose [any_schema])) (one_json (registry_index (\<lambda>ks. ks) cpu_registry))"

lemma kept_fields:
  "pf_os kept = os_ok" "pf_keys kept = (\<lambda>ks. ks)" "metadata_of kept = metadata_of loose"
  "pf_metadata_json kept = one_json (metadata_of loose [any_schema])"
  "pf_index_json kept = one_json (registry_index (\<lambda>ks. ks) cpu_registry)"
  by (simp_all add: kept_def demo_platform_def loose_def metadata_of_def fun_eq_iff)

lemma kept_json: "json_ok kept"
  using metadata_alike_refl by (auto simp: json_ok_def index_json_ok_def kept_fields one_json_def)

definition kept_disk :: disk where
  "kept_disk = empty_disk\<lparr> dk_text := (\<lambda>_. Some ''{}'') \<rparr>"

definition kept_values :: "unit cli_json" where
  "kept_values = \<lparr> cj_parse = (\<lambda>_. Inr ()), cj_get = (\<lambda>_ _. Some ()), cj_array = (\<lambda>_. Some [()]),
     cj_str = (\<lambda>_. None), cj_u64 = (\<lambda>_. Some 1), cj_f64 = (\<lambda>_. Some f_one), cj_null = (\<lambda>_. True), cj_config = (\<lambda>_. Some any_schema) \<rparr>"

lemma kept_persisted:
  assumes "st_schemas st = [any_schema]" and "st_registry st = cpu_registry"
  shows "persisted kept st kept_disk"
  by (simp add: persisted_def kept_fields assms one_json_def kept_disk_def path_exists_def)

lemma cpu_only_handle: "get_handle cpu_registry name labels = Some h \<Longrightarrow> h = cpu_handle"
  by (simp add: get_handle_def cpu_registry_def hm_get_def new_info_def info_handle_def cpu_handle_def split: if_splits)

lemma hour_survives: "durations_survive [any_schema]" "duration_survives (tc_interval hour_tier)"
    "duration_survives (tc_retention hour_tier)"
  by (simp_all add: durations_survive_def duration_survives_def any_schema_def hour_tier_def from_secs_def)

lemma kept_reads: "metadata_values kept kept_values"
proof -
  have "schemas = [any_schema]" if "metadata_of loose schemas = metadata_of loose [any_schema]" for schemas
    using that by (cases schemas) (auto simp: metadata_of_def)
  then have "schemas = [any_schema]" if "to_json (pf_metadata_json kept) (metadata_of kept schemas) = Inr json" for schemas json
    using that by (auto simp: kept_fields one_json_def split: if_splits)
  moreover have "stored_schema any_schema = Some any_schema"
    using stored_same [OF hour_schema_ok hour_survives(1)] by simp
  ultimately show ?thesis by (fastforce simp: metadata_values_def kept_values_def)
qed

text \<open>A first sample does not make a ring wrap.\<close>

lemma kept_store:
  obtains st0 st where "store_inv st0" "registered st0 cpu_handle" "store_record cpu_handle f_one 5 st0 = Inr st"
    "store_inv st" "st_schemas st = [any_schema]" "st_registry st = cpu_registry" "st_path st = ''s''"
    "\<forall>tiers \<in> set (st_rings st). \<forall>r \<in> set tiers. reopens_safely r"
proof -
  obtain st1 where st1: "store_inv st1" "st_path st1 = ''s''" "st_schemas st1 = [any_schema]"
      "fresh_rings loose [any_schema] (st_rings st1)"
    by (rule demo_created)
  define st0 where "st0 = st1\<lparr> st_registry := cpu_registry \<rparr>"
  have rings: "rings_inv ''s'' [any_schema] (st_rings st0)"
    using st1 by (simp add: store_inv_def st0_def)
  then have inv0: "store_inv st0"
    using reachable_inv [OF cpu_reachable] st1(2,3) by (simp add: store_inv_def st0_def cpu_registry_def)
  have reg: "registered st0 cpu_handle"
    using cpu_get_handle by (auto simp: registered_def st0_def)
  have tier: "tier_ring any_schema hour_tier (slab_path ''s'' 0 0) (st_rings st0 ! 0 ! 0)"
    using rings_inv_at(4) [OF rings, of 0 0] by (simp add: any_schema_def)
  have fresh: "rb_table (st_rings st0 ! 0 ! 0) = fresh_table loose any_schema hour_tier"
      "\<not> rb_has_wrapped (st_rings st0 ! 0 ! 0)"
    using st1(4) by (auto simp: fresh_rings_def any_schema_def st0_def)
  have "tb_cols (rb_table (st_rings st0 ! 0 ! 0)) = 2" "tb_cursor (rb_table (st_rings st0 ! 0 ! 0)) = 0"
    using fresh(1) by (simp_all add: fresh_table_def empty_table_def any_schema_def)
  then obtain r where r: "ring_write (st_rings st0 ! 0 ! 0) 0 f_one 5 = Inr r" "\<not> rb_has_wrapped r"
    using ring_write_batch_step [of "st_rings st0 ! 0 ! 0" 5 "[(0, f_one)]"] tier fresh(2)
    by (auto simp: ring_write_is_batch tier_ring_def finite_not_infinite)
  let ?st = "st0\<lparr>st_rings := (st_rings st0)[0 := (st_rings st0 ! 0)[0 := r]]\<rparr>"
  have stored: "store_record cpu_handle f_one 5 st0 = Inr ?st"
    using update_tier_at [OF rings, of 0 0] r(1) by (simp add: store_record_tier cpu_handle_def any_schema_def)
  moreover have "\<forall>tiers \<in> set (st_rings ?st). \<forall>r \<in> set tiers. reopens_safely r"
  proof -
    have "length (st_rings st0) = 1" "length (st_rings st0 ! 0) = 1"
      using rings by (simp_all add: rings_inv_def any_schema_def)
    then have "st_rings ?st = [[r]]" by (auto simp: length_Suc_conv)
    then show ?thesis using r(2) by (simp add: reopens_safely_def)
  qed
  ultimately show thesis
    using that [OF inv0 reg stored store_record_inv [OF inv0 reg stored]] st1(2,3) by (simp add: st0_def)
qed

theorem query_command_answers_witness:
  "\<exists>st p. store_inv st \<and> (5, f_one) \<in> set p \<and>
     cmd_query kept kept_values ''s'' ''cpu{host=a}'' ''all'' ''0'' None (store_files st kept_disk)
       = (Inr (0, p), store_files st kept_disk)"
proof -
  obtain st0 st where st: "store_inv st0" "registered st0 cpu_handle" "store_record cpu_handle f_one 5 st0 = Inr st"
    "store_inv st" "st_schemas st = [any_schema]" "st_registry st = cpu_registry" "st_path st = ''s''"
    "\<forall>tiers \<in> set (st_rings st). \<forall>r \<in> set tiers. reopens_safely r"
    by (rule kept_store)
  have times: "parse_duration ''all'' = Inr (- 1)" "query_window None (- 1) = Inr (0, - 1)"
    using trim_graphic [of "''all''"] by (simp_all add: parse_duration_def query_window_def graphic_def)
  have zero: "fmt_nat 0 = ''0''"
    by (simp add: fmt_nat.simps digit_def char_of_eq_iff)
  have sel: "selects st ''cpu{host=a}'' h \<longleftrightarrow> h = cpu_handle" for h
  proof -
    have p: "parse_series_selector ''cpu{host=a}'' = (''cpu'', [(''host'', ''a'')])"
      using selector_parses [of "''cpu''" "[(''host'', ''a'')]"]
      by (simp add: plain_def graphic_def render_selector_def)
    show ?thesis
      using cpu_get_handle cpu_only_handle by (auto simp: selects_def p st(6) cli_matches_labels_def intro!: exI [of _ cpu_labels])
        (simp add: cpu_labels_def)
  qed
  obtain r where r: "cmd_query kept kept_values ''s'' ''cpu{host=a}'' ''all'' ''0'' None (store_files st kept_disk)
       = (r, store_files st kept_disk)" "command_answer st ''cpu{host=a}'' ''0'' 0 (- 1) r"
    using query_command_answers [OF st(4) _ kept_persisted [OF st(5,6)] _ kept_json _ st(8) kept_reads _ times, of "''cpu{host=a}''" "''0''"]
      hour_schema_ok loose_fair(2) hour_survives(1)
    by (auto simp: st(5,7) kept_fields os_ok_calm)
  have h: "tiers_of st cpu_handle = [hour_tier]"
    by (simp add: st(5) cpu_handle_def any_schema_def)
  have range: "(0 :: u64) < - 1" "(5 :: u64) < - 1"
    by (simp_all add: word_less_nat_alt unsigned_minus_1_eq_mask mask_eq_exp_minus_1)
  then have "r = Inr (0, samples st cpu_handle 0 0 (- 1))"
    using r(2) h parse_fmt [of 0] by (simp add: command_answer_def series_answer_def sel not_le zero)
  then show ?thesis
    using recorded_sample [OF st(1-3), of 0 "- 1"] st(4) r(1) range by (fastforce simp: finite_not_nan)
qed

theorem info_lists_series_witness:
  "\<exists>st out entries. store_inv st \<and> length entries = 1 \<and> lists_series st entries \<and>
     cmd_info kept kept_values (\<lambda>_. True) (FsDir [FsEntry (FsFile 7)]) ''s'' (store_files st kept_disk)
       = ((out @ series_block entries, Inr ()), store_files st kept_disk)"
proof -
  obtain st0 st where st: "store_inv st0" "registered st0 cpu_handle" "store_record cpu_handle f_one 5 st0 = Inr st"
    "store_inv st" "st_schemas st = [any_schema]" "st_registry st = cpu_registry" "st_path st = ''s''"
    "\<forall>tiers \<in> set (st_rings st). \<forall>r \<in> set tiers. reopens_safely r"
    by (rule kept_store)
  have size: "dir_size (FsDir [FsEntry (FsFile 7)]) = Inr 7" by simp
  have "schemas_ok (st_schemas st)" "os_calm (pf_os kept)" "iteration_order (pf_keys kept)" "durations_survive (st_schemas st)"
    using hour_schema_ok loose_fair(2) hour_survives(1) by (simp_all add: st(5) kept_fields os_ok_calm)
  then obtain lines entries where e: "lists_series st entries" "(let out = [''Store: '' @ st_path st, [], ''Schemas: '' @ fmt_nat (length (st_schemas st)), []] @ concat lines;
         cursors = (if path_exists (store_files st kept_disk) (path_join (st_path st) ''consolidation_cursors.json'')
                    then [[], ''Consolidation cursors: present''] else []) in
     cmd_info kept kept_values (\<lambda>_. True) (FsDir [FsEntry (FsFile 7)]) (st_path st) (store_files st kept_disk) =
       ((case dir_size (FsDir [FsEntry (FsFile 7)]) of Inl e \<Rightarrow> (out, cli_err (CliIo e))
         | Inr n \<Rightarrow> (out @ [''Total disk usage: '' @ format_bytes n @ '' ('' @ fmt_nat (unat n) @ '' bytes)''] @ cursors @
             series_block entries, Inr ())), store_files st kept_disk))"
    using info_lists_series [OF st(4) _ kept_persisted [OF st(5,6)] _ kept_json _ st(8) kept_reads] by blast
  have "{h. registered st h} = {cpu_handle}"
    using cpu_get_handle cpu_only_handle by (auto simp: registered_def st(6))
  then have "length entries = 1"
    using e(1) distinct_card [of "map fst entries"] by (simp add: lists_series_def)
  moreover have "\<exists>out. cmd_info kept kept_values (\<lambda>_. True) (FsDir [FsEntry (FsFile 7)]) ''s'' (store_files st kept_disk)
       = ((out @ series_block entries, Inr ()), store_files st kept_disk)"
    using e(2) unfolding size Let_def sum.case st(7) append_assoc [symmetric] by blast
  ultimately show ?thesis using st(4) e(1) by blast
qed

theorem bench_outcome_witness:
  "\<exists>total d'. cmd_bench loose None None ''/tmp'' 100 3 empty_disk = (Inr total, d') \<and> unat total = 99 \<and>
     \<not> path_exists d' ''/tmp/rondo_bench''"
  using bench_outcome [of loose 3 100 None "''/tmp''" empty_disk] loose_order loose_total
  by (auto simp: loose_fields os_ok_calm path_join_def below_def)

end
