(* ===== verification/Spec2Isabelle.thy ===== *)
theory Spec2Isabelle
  imports Prelude Bytes Float64 Strings Text Durations Errors Schema Slab Ring_Buffer Series_Registry
    Cursors Consolidate Query Export Store Store_Inv Store_Queries Store_Records Store_Lifecycle
    Store_Consolidate Store_Register Store_Safety Slab_Overrun Store_Examples Store_Pairs
    Remote_Write Export_Loop Cli
    Guest_Memory Virtio_Block Virtio_Queue Virtio_Requests Virtio_Driver Boot_Setup
    Vm_Metrics Vcpu Vcpu_Runs Api Vmm_Assembly Vmm_Examples
    Duration_Serde Cli_Queries Cli_Info Cli_Bench Cli_Examples
begin

text \<open>
  A model of rondo in HOL, and the properties that make it correct.

  rondo is an embedded ring-buffer database for time series. A store has schemas; a schema
  matches labels and has tiers; a tier is one memory-mapped file (a slab) used as a ring of
  slots, one column per registered series; coarser tiers are fed from finer ones by
  consolidation. The workspace has three crates: the library \<^verbatim>\<open>rondo\<close>, the command line
  \<^verbatim>\<open>rondo-cli\<close>, and \<^verbatim>\<open>rondo-demo-vmm\<close>, a virtual machine monitor that records its own metrics
  into a store, shows them over HTTP and pushes them to Prometheus.

  \<^bold>\<open>Conventions.\<close> Integers have the width of the source and wrap, as in a release build. An
  operation that can fail returns a sum: \<open>Inl (Error e)\<close> with the error of the source,
  \<open>Inl Panic\<close>, or \<open>Inl UB\<close> for an access outside a mapping, which the unsafe code does not
  check; accesses that are misaligned because \<open>max_series\<close> is odd are undefined behaviour in Rust
  too, but not told apart here (\<open>timestamp_column_alignment\<close> in \<open>Slab\<close>). A method on \<open>&mut self\<close>
  returns its outcome and the state it leaves behind, also on a fault (\<open>ring_write_run\<close>,
  \<open>store_record_run\<close>, \<open>store_register\<close>); \<open>ring_write\<close> and \<open>store_record\<close> are shorter views of
  two of them, the state after success or the fault. Strings are UTF-8 byte strings. Floating-point numbers are the 64 bits of IEEE 754
  values, rounded to nearest even (\<open>Float64\<close>). A \<open>HashMap\<close> is an association list whose
  iteration order is a parameter, any function that permutes the keys. The parameters of the
  model are the operating system (which calls fail), the JSON library, the hash function of
  \<open>DefaultHasher\<close>, the protobuf and snappy encoders, the HTTP client and connection, guest
  memory, KVM and the clocks; what the theorems need of them is a named hypothesis
  (\<open>os_calm\<close>, \<open>json_total\<close>, \<open>iteration_order\<close>, \<open>guest_region\<close>). JSON reads back an index
  as it was (\<open>index_json_ok\<close>) and the metadata up to its durations (\<open>json_ok\<close>), which the program
  stores as floating-point seconds; for what rondo-cli reconstructs from the metadata, a duration is
  read back as \<open>Duration_Serde\<close> computes it (\<open>metadata_values\<close>). A failed creation of a slab
  leaves its empty or zeroed file; a text file that the operating system refuses to write keeps its
  old contents, which a real one could truncate. \<open>store_files\<close> gives the disk that the shared mappings of
  a store leave behind when it is dropped.

  \<^bold>\<open>The library\<close> (\<^verbatim>\<open>rondo/src\<close>).
  \<^item> \<open>Prelude\<close>, \<open>Bytes\<close>, \<open>Strings\<close>, \<open>Text\<close>, \<open>Durations\<close>, \<open>Float64\<close>: results and maps, raw
    memory with little-endian codecs, the string functions, durations and doubles the code uses.
  \<^item> \<open>Errors\<close>, \<open>Schema\<close> (\<^verbatim>\<open>error.rs\<close>, \<^verbatim>\<open>schema.rs\<close>): the error enums; tier and schema
    configurations with their validation (at most 10^9 slots a tier), label matching and the
    consolidation functions. \<open>Duration_Serde\<close> (\<^verbatim>\<open>schema.rs\<close>, \<^verbatim>\<open>duration_serde\<close>): durations as
    floating-point seconds, with bounds on the two roundings, and what survives them.
  \<^item> \<open>Slab\<close>, \<open>Slab_Overrun\<close> (\<^verbatim>\<open>slab.rs\<close>): a slab is the bytes of its mapping; in-range accesses
    refine reads and writes of cells of an abstract table (locale \<open>column_store\<close>).
  \<^item> \<open>Ring_Buffer\<close> (\<^verbatim>\<open>ring.rs\<close>): writes, reads by iterator and the newest and oldest timestamps;
    the ring invariant, its refinement to the contents of the table in ring order, and the
    sliding window under gap-free writes.
  \<^item> \<open>Series_Registry\<close> (\<^verbatim>\<open>series.rs\<close>): registration, handles, the index file and the directory
    in the slabs; the registry invariant over all reachable registries.
  \<^item> \<open>Cursors\<close>, \<open>Consolidate\<close> (\<^verbatim>\<open>consolidate.rs\<close>): the cursor table as a locale, interpreted here
    and in \<open>Export\<close>; one run over a pair of tiers leaves the aggregate of every window.
  \<^item> \<open>Query\<close>, \<open>Export\<close> (\<^verbatim>\<open>query.rs\<close>, \<^verbatim>\<open>export.rs\<close>): query results with their coverage; draining
    by cursor, every sample exactly once when there is no gap, and a sample that a gap hides.
  \<^item> \<open>Store\<close> (\<^verbatim>\<open>store.rs\<close>) composes them. \<open>Store_Inv\<close> has its invariant; \<open>Store_Queries\<close>,
    \<open>Store_Records\<close>, \<open>Store_Lifecycle\<close>, \<open>Store_Consolidate\<close> and \<open>Store_Register\<close> treat one group
    of operations each; \<open>Store_Safety\<close> defines the stores that the public operations reach from an
    empty path, closing and opening again included where every ring reopens safely, and shows that
    no operation on them panics or leaves a mapping; \<open>Store_Examples\<close> and \<open>Store_Pairs\<close> are concrete stores.
  \<^item> \<open>Remote_Write\<close> (\<^verbatim>\<open>remote_write.rs\<close>): what a write request holds, and the attempts of a push
    as a list of requests and pauses.

  \<^bold>\<open>The demo VMM\<close> (\<^verbatim>\<open>rondo-demo-vmm/src\<close>).
  \<^item> \<open>Guest_Memory\<close>: the operations of the \<^verbatim>\<open>vm-memory\<close> crate as a record of functions, and the
    locale \<open>guest_region\<close> with what its documentation promises for one region from address 0,
    interpreted on a list of bytes.
  \<^item> \<open>Virtio_Block\<close>, \<open>Virtio_Queue\<close> (\<^verbatim>\<open>devices/block.rs\<close>): registers, descriptor chains, requests,
    the queue. \<open>queue_loop\<close> ends because \<open>last_avail_idx\<close> runs towards the index read before it;
    \<open>walk_chain\<close> is a \<open>partial_function\<close>, \<open>None\<close> when it never returns. \<open>Virtio_Requests\<close>
    compares it with a walk that has fuel for one descriptor more than the queue holds, and
    follows read and write requests from the notification to the used ring; \<open>Virtio_Driver\<close>
    takes the side of a driver, from the reset over the negotiation of features to a configured
    queue, and has the requests that go wrong.
  \<^item> \<open>Boot_Setup\<close> (\<^verbatim>\<open>vcpu.rs\<close>, \<^verbatim>\<open>vmm.rs\<close>): page tables, descriptor table, segment registers and boot
    parameters, against the page walk and the segment load of a processor as references.
  \<^item> \<open>Vm_Metrics\<close> (\<^verbatim>\<open>metrics.rs\<close>): the store with its sixteen series; \<open>Vcpu\<close> (\<^verbatim>\<open>vcpu.rs\<close>): the loop
    around \<open>KVM_RUN\<close>, over the list of what \<open>KVM_RUN\<close> returns, and a maintenance tick;
    \<open>Vcpu_Runs\<close>: when the loop stops, and that the metrics keep their invariant.
  \<^item> \<open>Export_Loop\<close> (\<^verbatim>\<open>vcpu.rs\<close>): the export thread round by round, what a failed push loses and
    why a restart sends nothing twice; \<open>Api\<close> (\<^verbatim>\<open>api.rs\<close>): one HTTP request, and the accept loop
    over whatever arrives. A call on a connection returns, fails or never returns, and the drain of
    the header is a \<open>partial_function\<close>; a client that stalls blocks the server.
  \<^item> \<open>Vmm_Assembly\<close> (\<^verbatim>\<open>vmm.rs\<close>, \<^verbatim>\<open>main.rs\<close>): \<open>Vmm::new\<close> step by step and \<open>Vmm::run\<close>; the parts of the
    boot do not overwrite each other, so that the guest finds all of them. The block device and
    the metrics store are made on the same disk.
  \<^item> \<open>Vmm_Examples\<close> has concrete runs of these parts.

  \<^bold>\<open>The command line\<close> (\<^verbatim>\<open>rondo-cli/src/main.rs\<close>): \<open>Cli\<close> has durations, selectors and the query
  command, \<open>Cli_Info\<close> the info command and what is printed, \<open>Cli_Bench\<close> the benchmark and
  \<open>main\<close>. \<open>Cli_Queries\<close> shows what the query command, with a numbered tier or \<open>auto\<close>, answers on the files
  of a closed store whose durations survive being stored,
  \<open>Cli_Info\<close> what the info command lists there, \<open>Cli_Bench\<close> that a benchmark completes;
  \<open>Cli_Examples\<close> runs all three.

  \<^bold>\<open>Not modelled.\<close> Threads interleave only at the granularity of the metrics lock, so that an
  operation of the store is atomic; a poisoned lock is an input. The KVM calls, the kernel
  loader and the creation of threads are parameters, as are the readings of the clocks and of
  \<^verbatim>\<open>/proc\<close>; the signal timer, sleeps, timeouts and logging are left out. Of the command line the
  argument parser, the error output and the times of a benchmark are left out; the decimal
  form of a double and the JSON document of a query are parameters. The crate root has
  declarations only; the examples, benchmarks, tests and deployment files are no part of the
  program.
\<close>

end
